(* ===== verification/NPF_Prelude.thy ===== *)
theory NPF_Prelude
  imports Main "HOL-Library.Word"
begin

text \<open>
  Shared base of the development: the machine integers of the C sources, byte-order
  conversion, reads and writes of multi-byte fields in a byte buffer, C casts, the error
  numbers, and the generic facts on words and lists that the component theories use.

  The model is that of a little-endian host (x86-64, AArch64), the platforms of the
  userspace build: a 16-bit or 32-bit load of packet memory puts the byte at the lower
  address in the least significant position, and \<open>htons\<close>/\<open>htonl\<close> swap bytes.
\<close>

unbundle bit_operations_syntax

section \<open>Machine integers\<close>

type_synonym u8 = "8 word"
type_synonym u16 = "16 word"
type_synonym u32 = "32 word"
type_synonym u64 = "64 word"

text \<open>
  Collections of the development: \<open>c_defs\<close> holds the definitions of small C helpers
  that proofs may unfold, \<open>rw_simps\<close> the read-over-write facts of packet fields.
\<close>

named_theorems c_defs
named_theorems rw_simps

text \<open>The value of a C \<open>int\<close> expression, reduced to 32-bit two's complement.\<close>

definition c_int :: "int \<Rightarrow> int" where
  [c_defs]: "c_int x = signed_take_bit 31 x"

lemma c_int_id: "- (2 ^ 31) \<le> x \<Longrightarrow> x < 2 ^ 31 \<Longrightarrow> c_int x = x"
  by (simp add: c_int_def signed_take_bit_int_eq_self)

text \<open>A word has no bit at or above its length.\<close>

lemma bit_beyond: "LENGTH('a) \<le> n \<Longrightarrow> bit (w :: 'a::len word) n \<longleftrightarrow> False"
  using bit_imp_le_length leD by blast

lemma unat_lt: "unat (w :: 'a::len word) < 2 ^ LENGTH('a)"
  by (rule unsigned_less)

text \<open>Testing a flag is testing a bit.\<close>

lemma and_flag_iff: "n < LENGTH('a) \<Longrightarrow> (w :: 'a::len word) AND 2 ^ n \<noteq> 0 \<longleftrightarrow> bit w n"
  by (simp add: bit_iff_and_push_bit_not_eq_0 push_bit_eq_mult)

section \<open>Error numbers\<close>

datatype errno =
    EINVAL | ENOENT | ESRCH | EEXIST | ENOMEM | ENOSPC | ENOTSUP | EBUSY
  | EISCONN | ENETUNREACH | ENAMETOOLONG | ENOTTY | ENXIO | EPERM

section \<open>Byte order\<close>

definition bswap16 :: "u16 \<Rightarrow> u16" where
  "bswap16 w = push_bit 8 (take_bit 8 w) OR drop_bit 8 w"

definition bswap32 :: "u32 \<Rightarrow> u32" where
  "bswap32 w =
     push_bit 24 (take_bit 8 w) OR push_bit 16 (take_bit 8 (drop_bit 8 w)) OR
     push_bit 8 (take_bit 8 (drop_bit 16 w)) OR drop_bit 24 w"

abbreviation ntohs :: "u16 \<Rightarrow> u16" where "ntohs \<equiv> bswap16"
abbreviation htons :: "u16 \<Rightarrow> u16" where "htons \<equiv> bswap16"
abbreviation ntohl :: "u32 \<Rightarrow> u32" where "ntohl \<equiv> bswap32"
abbreviation htonl :: "u32 \<Rightarrow> u32" where "htonl \<equiv> bswap32"

lemma bit_bswap16: "bit (bswap16 w) n \<longleftrightarrow> n < 16 \<and> bit w (if n < 8 then n + 8 else n - 8)"
  by (cases "n < 16") (auto simp: bswap16_def bit_simps bit_beyond add.commute)

lemma bit_bswap32:
  "bit (bswap32 w) n \<longleftrightarrow> n < 32 \<and> bit w (8 * (3 - n div 8) + n mod 8)"
proof -
  consider "n < 8" | "8 \<le> n" "n < 16" | "16 \<le> n" "n < 24" | "24 \<le> n" "n < 32" | "32 \<le> n"
    by linarith
  then show ?thesis
  proof cases
    case 1
    then show ?thesis by (simp add: bswap32_def bit_simps add.commute)
  next
    case 2
    then have "n div 8 = 1" by simp
    with 2 show ?thesis
      by (simp add: bswap32_def bit_simps add.commute modulo_nat_def bit_beyond less_diff_conv2)
  next
    case 3
    then have "n div 8 = 2" by simp
    with 3 show ?thesis
      by (simp add: bswap32_def bit_simps add.commute modulo_nat_def bit_beyond less_diff_conv2)
  next
    case 4
    then have "n div 8 = 3" by simp
    with 4 show ?thesis
      by (simp add: bswap32_def bit_simps add.commute modulo_nat_def bit_beyond less_diff_conv2)
  next
    case 5
    then show ?thesis by (simp add: bit_beyond)
  qed
qed

lemma bswap16_bswap16 [simp]: "bswap16 (bswap16 w) = w"
  by (rule bit_eqI) (auto simp: bit_bswap16 bit_beyond)

lemma bswap32_bswap32 [simp]: "bswap32 (bswap32 w) = w"
proof (rule bit_word_eqI)
  fix n
  assume "n < LENGTH(32)"
  then have n: "n < 32" and q: "n div 8 \<le> 3" by simp_all
  have d: "(8 * (3 - n div 8) + n mod 8) div 8 = 3 - n div 8"
    and m: "(8 * (3 - n div 8) + n mod 8) mod 8 = n mod 8" by simp_all
  have "8 * (3 - n div 8) + n mod 8 < 32" using n by linarith
  moreover have "8 * (3 - (3 - n div 8)) + n mod 8 = n"
    using q by (simp only: diff_diff_cancel mult_div_mod_eq)
  ultimately show "bit (bswap32 (bswap32 w)) n = bit w n"
    using n by (simp only: bit_bswap32 d m simp_thms)
qed

lemma bswap32_and: "bswap32 (a AND b) = bswap32 a AND bswap32 b"
  by (rule bit_eqI) (auto simp: bit_bswap32 bit_and_iff)

lemma bswap32_or: "bswap32 (a OR b) = bswap32 a OR bswap32 b"
  by (rule bit_eqI) (auto simp: bit_bswap32 bit_or_iff)

lemma bswap32_not: "bswap32 (NOT a) = NOT (bswap32 a)"
  by (rule bit_eqI) (auto simp: bit_bswap32 bit_not_iff)

section \<open>Fields of a byte buffer\<close>

text \<open>
  A load of a \<open>uint16_t\<close> or \<open>uint32_t\<close> field at a byte offset, and the stores, as the
  C code performs them through pointers into the packet buffer or an address union.
\<close>

definition rd16 :: "u8 list \<Rightarrow> nat \<Rightarrow> u16" where
  "rd16 d i = ucast (d ! i) OR push_bit 8 (ucast (d ! (i + 1)))"

definition rd32 :: "u8 list \<Rightarrow> nat \<Rightarrow> u32" where
  "rd32 d i =
     ucast (d ! i) OR push_bit 8 (ucast (d ! (i + 1))) OR
     push_bit 16 (ucast (d ! (i + 2))) OR push_bit 24 (ucast (d ! (i + 3)))"

definition wr16 :: "u8 list \<Rightarrow> nat \<Rightarrow> u16 \<Rightarrow> u8 list" where
  "wr16 d i v = d[i := ucast v, i + 1 := ucast (drop_bit 8 v)]"

definition wr32 :: "u8 list \<Rightarrow> nat \<Rightarrow> u32 \<Rightarrow> u8 list" where
  "wr32 d i v =
     d[i := ucast v, i + 1 := ucast (drop_bit 8 v),
       i + 2 := ucast (drop_bit 16 v), i + 3 := ucast (drop_bit 24 v)]"

text \<open>\<open>memcpy\<close> of \<open>length s\<close> bytes to offset \<open>i\<close>.\<close>

definition memcpy_at :: "u8 list \<Rightarrow> nat \<Rightarrow> u8 list \<Rightarrow> u8 list" where
  "memcpy_at d i s = take i d @ s @ drop (i + length s) d"

lemma length_wr16 [simp]: "length (wr16 d i v) = length d"
  by (simp add: wr16_def)

lemma length_wr32 [simp]: "length (wr32 d i v) = length d"
  by (simp add: wr32_def)

lemma length_memcpy_at [simp]: "i + length s \<le> length d \<Longrightarrow> length (memcpy_at d i s) = length d"
  by (simp add: memcpy_at_def)

lemma nth_memcpy_at:
  "i + length s \<le> length d \<Longrightarrow> j < length d \<Longrightarrow>
   memcpy_at d i s ! j = (if i \<le> j \<and> j < i + length s then s ! (j - i) else d ! j)"
  by (auto simp: memcpy_at_def nth_append min_def)

lemma rd16_wr16_same [rw_simps]: "i + 1 < length d \<Longrightarrow> rd16 (wr16 d i v) i = v"
  by (rule bit_eqI) (auto simp: rd16_def wr16_def bit_simps bit_beyond)

lemma rd16_wr16_other [rw_simps]:
  "j + 1 < i \<or> i + 1 < j \<Longrightarrow> rd16 (wr16 d i v) j = rd16 d j"
  by (auto simp: rd16_def wr16_def)

lemma rd32_wr32_same [rw_simps]: "i + 3 < length d \<Longrightarrow> rd32 (wr32 d i v) i = v"
  apply (rule bit_word_eqI)
  subgoal for n
    by (cases "24 \<le> n"; cases "16 \<le> n"; cases "8 \<le> n")
      (auto simp: rd32_def wr32_def bit_simps bit_beyond less_diff_conv2 not_less)
  done

lemma bit_rd32: "bit (rd32 d i) n \<longleftrightarrow> n < 32 \<and> bit (d ! (i + n div 8)) (n mod 8)"
proof -
  consider "n < 8" | "8 \<le> n" "n < 16" | "16 \<le> n" "n < 24" | "24 \<le> n" "n < 32" | "32 \<le> n"
    by linarith
  then show ?thesis
  proof cases
    case 2
    then have q: "n div 8 = 1" by simp
    then have "n mod 8 = n - 8" by (simp add: modulo_nat_def)
    with q 2 show ?thesis by (auto simp: rd32_def bit_simps bit_beyond)
  next
    case 3
    then have q: "n div 8 = 2" by simp
    then have "n mod 8 = n - 16" by (simp add: modulo_nat_def)
    with q 3 show ?thesis by (auto simp: rd32_def bit_simps bit_beyond)
  next
    case 4
    then have q: "n div 8 = 3" by simp
    then have "n mod 8 = n - 24" by (simp add: modulo_nat_def)
    with q 4 show ?thesis by (auto simp: rd32_def bit_simps bit_beyond)
  qed (auto simp: rd32_def bit_simps bit_beyond)
qed

lemma nth_wr32:
  assumes "i + 3 < length d"
  shows "wr32 d i v ! j = (if i \<le> j \<and> j < i + 4 then ucast (drop_bit (8 * (j - i)) v) else d ! j)"
proof -
  consider "j < i \<or> i + 4 \<le> j" | "j = i" | "j = i + 1" | "j = i + 2" | "j = i + 3" by linarith
  then show ?thesis using assms by cases (auto simp: wr32_def nth_list_update)
qed

section \<open>The concurrent hash map of the thmap library\<close>

text \<open>
  Several components keep their state in a \<open>thmap_t\<close>, a map of the external \<open>thmap\<close>
  library.  Its operations are parameters of the model.  \<open>thmap_laws\<close> states their
  documented behaviour: \<open>thmap_get\<close> returns the associated value or NULL,
  \<open>thmap_put\<close> inserts and returns the given value, or returns the existing value and
  leaves the map unchanged when the key is already present, and \<open>thmap_del\<close> removes the
  key and returns its value.
\<close>

record ('m, 'k, 'v) thmap_ops =
  thmap_create :: 'm
  thmap_get :: "'m \<Rightarrow> 'k \<Rightarrow> 'v option"
  thmap_put :: "'m \<Rightarrow> 'k \<Rightarrow> 'v \<Rightarrow> 'v \<times> 'm"
  thmap_del :: "'m \<Rightarrow> 'k \<Rightarrow> 'v option \<times> 'm"

definition thmap_laws :: "('m, 'k, 'v) thmap_ops \<Rightarrow> bool" where
  "thmap_laws T \<longleftrightarrow>
     (\<forall>k. thmap_get T (thmap_create T) k = None) \<and>
     (\<forall>m k v. fst (thmap_put T m k v) = (case thmap_get T m k of None \<Rightarrow> v | Some u \<Rightarrow> u)) \<and>
     (\<forall>m k v. thmap_get T (snd (thmap_put T m k v)) =
       (case thmap_get T m k of None \<Rightarrow> (thmap_get T m)(k \<mapsto> v) | Some u \<Rightarrow> thmap_get T m)) \<and>
     (\<forall>m k. fst (thmap_del T m k) = thmap_get T m k) \<and>
     (\<forall>m k. thmap_get T (snd (thmap_del T m k)) = (thmap_get T m)(k := None))"

text \<open>The laws as rewrite rules on the abstract map \<open>thmap_get T m\<close>.\<close>

lemma thmap_get_create: "thmap_laws T \<Longrightarrow> thmap_get T (thmap_create T) k = None"
  by (simp add: thmap_laws_def)

lemma thmap_put_ret:
  "thmap_laws T \<Longrightarrow>
   fst (thmap_put T m k v) = (case thmap_get T m k of None \<Rightarrow> v | Some u \<Rightarrow> u)"
  by (simp add: thmap_laws_def)

lemma thmap_get_put:
  "thmap_laws T \<Longrightarrow>
   thmap_get T (snd (thmap_put T m k v)) =
     (case thmap_get T m k of None \<Rightarrow> (thmap_get T m)(k \<mapsto> v) | Some u \<Rightarrow> thmap_get T m)"
  by (simp add: thmap_laws_def)

lemma thmap_del_ret: "thmap_laws T \<Longrightarrow> fst (thmap_del T m k) = thmap_get T m k"
  by (simp add: thmap_laws_def)

lemma thmap_get_del:
  "thmap_laws T \<Longrightarrow> thmap_get T (snd (thmap_del T m k)) = (thmap_get T m)(k := None)"
  by (simp add: thmap_laws_def)

lemma thmap_get_fold_del:
  assumes T: "thmap_laws T"
  shows "thmap_get T (fold (\<lambda>p m. snd (thmap_del T m (f p))) ps m) k =
    (if k \<in> f ` set ps then None else thmap_get T m k)"
  by (induction ps arbitrary: m) (simp_all add: thmap_get_del [OF T])

lemmas thmap_simps =
  thmap_get_create thmap_put_ret thmap_get_put thmap_del_ret thmap_get_del

text \<open>A concrete map that satisfies the laws, used where a witness needs one.\<close>

definition fun_thmap :: "('k \<Rightarrow> 'v option, 'k, 'v) thmap_ops" where
  "fun_thmap = \<lparr>
     thmap_create = Map.empty,
     thmap_get = (\<lambda>m k. m k),
     thmap_put = (\<lambda>m k v. case m k of None \<Rightarrow> (v, m(k \<mapsto> v)) | Some u \<Rightarrow> (u, m)),
     thmap_del = (\<lambda>m k. (m k, m(k := None))) \<rparr>"

lemma fun_thmap_laws: "thmap_laws fun_thmap"
  by (auto simp: thmap_laws_def fun_thmap_def split: option.splits)

end
