(* ===== verification/NPF_Params.thy ===== *)
theory NPF_Params
  imports NPF_Prelude
begin

text \<open>
  The parameter registry (\<open>src/kern/npf_params.c\<close>): arrays of named integer parameters
  with bounds and defaults, registered by the components at start-up and read or set by
  name through the \<open>npfk_param_get\<close>/\<open>npfk_param_set\<close> API.

  A parameter refers to its variable by pointer (\<open>valp\<close>).  The variables are the
  addresses of an explicit store, so that two parameters sharing a variable would be
  visible; the name map is a \<open>thmap\<close>.
\<close>

section \<open>Variables and registered parameters\<close>

datatype npf_valp =
    VP_ip4_reassembly | VP_ip4_drop_options | VP_ip6_reassembly | VP_ip6_drop_options
  | VP_connkey_interface | VP_connkey_direction
  | VP_gc_step | VP_gc_interval_min | VP_gc_interval_max
  | VP_generic_timeout nat | VP_gre_timeout
  | VP_tcp_max_ack_win | VP_tcp_strict_order_rst | VP_tcp_timeout nat
  | VP_portmap_min_port | VP_portmap_max_port

type_synonym param_store = "npf_valp \<Rightarrow> int"

abbreviation INT_MAX :: int where "INT_MAX \<equiv> 2147483647"

record npf_param =
  p_name :: string
  p_valp :: npf_valp
  p_default_val :: int
  p_min :: int
  p_max :: int

record 'm npf_paraminfo =
  pi_list :: "npf_param list list"
  pi_map :: 'm
  pi_store :: param_store

type_synonym 'm param_map = "('m, string, npf_param) thmap_ops"

section \<open>Operations\<close>

text \<open>One iteration of the loop of \<open>npf_param_register\<close>: map the name, set the default.\<close>

definition param_register1 ::
  "'m param_map \<Rightarrow> npf_param \<Rightarrow> 'm npf_paraminfo \<Rightarrow> 'm npf_paraminfo" where
  "param_register1 T p st = st\<lparr>
     pi_map := snd (thmap_put T (pi_map st) (p_name p) p),
     pi_store := (pi_store st)(p_valp p := p_default_val p) \<rparr>"

definition npf_param_register ::
  "'m param_map \<Rightarrow> npf_param list \<Rightarrow> 'm npf_paraminfo \<Rightarrow> 'm npf_paraminfo" where
  "npf_param_register T params st =
     (let st' = fold (param_register1 T) params st in st'\<lparr> pi_list := params # pi_list st' \<rparr>)"

definition npf_param_general_register :: "npf_param list" where
  "npf_param_general_register =
    [\<lparr> p_name = ''ip4.reassembly'', p_valp = VP_ip4_reassembly,
       p_default_val = 1, p_min = 0, p_max = 1 \<rparr>,
     \<lparr> p_name = ''ip4.drop_options'', p_valp = VP_ip4_drop_options,
       p_default_val = 0, p_min = 0, p_max = 1 \<rparr>,
     \<lparr> p_name = ''ip6.reassembly'', p_valp = VP_ip6_reassembly,
       p_default_val = 0, p_min = 0, p_max = 1 \<rparr>,
     \<lparr> p_name = ''ip6.drop_options'', p_valp = VP_ip6_drop_options,
       p_default_val = 0, p_min = 0, p_max = 1 \<rparr>]"

definition npf_param_init :: "'m param_map \<Rightarrow> param_store \<Rightarrow> 'm npf_paraminfo" where
  "npf_param_init T store0 =
     npf_param_register T npf_param_general_register
       \<lparr> pi_list = [], pi_map = thmap_create T, pi_store = store0 \<rparr>"

text \<open>
  Tear-down removes every registered name; the result is what the map holds when it is
  handed to \<open>thmap_destroy\<close>.
\<close>

definition npf_param_fini :: "'m param_map \<Rightarrow> 'm npf_paraminfo \<Rightarrow> 'm" where
  "npf_param_fini T st =
     fold (\<lambda>p m. snd (thmap_del T m (p_name p))) (concat (pi_list st)) (pi_map st)"

definition npf_params_export ::
  "'m npf_paraminfo \<Rightarrow> (string \<times> u64) list \<times> (string \<times> u64) list" where
  "npf_params_export st =
     (map (\<lambda>p. (p_name p, word_of_int (pi_store st (p_valp p)))) (concat (pi_list st)),
      map (\<lambda>p. (p_name p, word_of_int (p_default_val p))) (concat (pi_list st)))"

definition npf_param_lookup :: "'m param_map \<Rightarrow> 'm npf_paraminfo \<Rightarrow> string \<Rightarrow> npf_param option" where
  "npf_param_lookup T st name = thmap_get T (pi_map st) name"

definition npf_param_check ::
  "'m param_map \<Rightarrow> 'm npf_paraminfo \<Rightarrow> string \<Rightarrow> int \<Rightarrow> errno option" where
  "npf_param_check T st name val =
     (case npf_param_lookup T st name of
        None \<Rightarrow> Some ENOENT
      | Some param \<Rightarrow> if val < p_min param \<or> val > p_max param then Some EINVAL else None)"

definition npfk_param_get ::
  "'m param_map \<Rightarrow> 'm npf_paraminfo \<Rightarrow> string \<Rightarrow> errno + int" where
  "npfk_param_get T st name =
     (case npf_param_lookup T st name of
        None \<Rightarrow> Inl ENOENT
      | Some param \<Rightarrow> Inr (pi_store st (p_valp param)))"

definition npfk_param_set ::
  "'m param_map \<Rightarrow> 'm npf_paraminfo \<Rightarrow> string \<Rightarrow> int \<Rightarrow> errno option \<times> 'm npf_paraminfo" where
  "npfk_param_set T st name val =
     (case npf_param_lookup T st name of
        None \<Rightarrow> (Some ENOENT, st)
      | Some param \<Rightarrow>
          if val < p_min param \<or> val > p_max param then (Some EINVAL, st)
          else (None, st\<lparr> pi_store := (pi_store st)(p_valp param := val) \<rparr>))"

section \<open>Well-formedness of an array and the registry invariant\<close>

definition param_array_ok :: "npf_param list \<Rightarrow> bool" where
  "param_array_ok ps \<longleftrightarrow>
     distinct (map p_name ps) \<and> distinct (map p_valp ps) \<and>
     list_all (\<lambda>p. p_min p \<le> p_default_val p \<and> p_default_val p \<le> p_max p) ps"

text \<open>
  The invariant: names and variables of all registered parameters are distinct, the map
  holds exactly the registered parameters, and every variable is within its bounds.
\<close>

definition params_inv :: "'m param_map \<Rightarrow> 'm npf_paraminfo \<Rightarrow> bool" where
  "params_inv T st \<longleftrightarrow>
     distinct (map p_name (concat (pi_list st))) \<and>
     distinct (map p_valp (concat (pi_list st))) \<and>
     (\<forall>name. npf_param_lookup T st name = find (\<lambda>p. p_name p = name) (concat (pi_list st))) \<and>
     list_all (\<lambda>p. p_min p \<le> pi_store st (p_valp p) \<and> pi_store st (p_valp p) \<le> p_max p)
       (concat (pi_list st))"

section \<open>Facts about registration\<close>

lemma fold_register1_list [simp]: "pi_list (fold (param_register1 T) ps st) = pi_list st"
  by (induction ps arbitrary: st) (simp_all add: param_register1_def)

lemma find_absent: "f x \<notin> f ` set xs \<Longrightarrow> find (\<lambda>y. f y = f x) xs = None"
  by (auto simp: find_None_iff image_iff)

lemma fold_register1_store:
  "distinct (map p_valp ps) \<Longrightarrow>
   pi_store (fold (param_register1 T) ps st) x =
     (case find (\<lambda>p. p_valp p = x) ps of None \<Rightarrow> pi_store st x | Some p \<Rightarrow> p_default_val p)"
proof (induction ps arbitrary: st)
  case (Cons p ps)
  then have "find (\<lambda>q. p_valp q = p_valp p) ps = None"
    by (intro find_absent) simp
  with Cons show ?case by (auto simp: param_register1_def split: option.splits)
qed simp

lemma fold_register1_map:
  assumes "thmap_laws T" "distinct (map p_name ps)"
    "\<forall>p\<in>set ps. thmap_get T (pi_map st) (p_name p) = None"
  shows "thmap_get T (pi_map (fold (param_register1 T) ps st)) name =
     (case find (\<lambda>p. p_name p = name) ps of
        None \<Rightarrow> thmap_get T (pi_map st) name | Some p \<Rightarrow> Some p)"
  using assms(2,3)
proof (induction ps arbitrary: st)
  case (Cons p ps)
  let ?st = "param_register1 T p st"
  have get: "thmap_get T (pi_map ?st) = (thmap_get T (pi_map st))(p_name p \<mapsto> p)"
    using Cons.prems assms(1) by (simp add: param_register1_def thmap_simps)
  have "\<forall>q\<in>set ps. thmap_get T (pi_map ?st) (p_name q) = None"
    using Cons.prems by (auto simp: get image_iff)
  moreover have "find (\<lambda>q. p_name q = p_name p) ps = None"
    using Cons.prems by (intro find_absent) simp
  ultimately show ?case
    using Cons.IH [of ?st] Cons.prems by (auto simp: get split: option.splits)
qed simp

lemma find_append_option:
  "find P (xs @ ys) = (case find P xs of None \<Rightarrow> find P ys | Some x \<Rightarrow> Some x)"
  by (induction xs) auto

lemma find_unique:
  "distinct (map f xs) \<Longrightarrow> x \<in> set xs \<Longrightarrow> find (\<lambda>y. f y = f x) xs = Some x"
  by (induction xs) (auto simp: image_iff)

lemma params_inv_lookup:
  "params_inv T st \<Longrightarrow>
   thmap_get T (pi_map st) name = find (\<lambda>p. p_name p = name) (concat (pi_list st))"
  by (simp add: params_inv_def npf_param_lookup_def)

lemma params_inv_range:
  "params_inv T st \<Longrightarrow> p \<in> set (concat (pi_list st)) \<Longrightarrow>
   p_min p \<le> pi_store st (p_valp p) \<and> pi_store st (p_valp p) \<le> p_max p"
  by (simp only: params_inv_def list_all_iff)

lemma params_inv_var:
  "params_inv T st \<Longrightarrow> p \<in> set (concat (pi_list st)) \<Longrightarrow> q \<in> set (concat (pi_list st)) \<Longrightarrow>
   p_valp p = p_valp q \<Longrightarrow> p = q"
  unfolding params_inv_def distinct_map by (blast dest: inj_onD)

text \<open>Two arrays that may be registered together: no shared name and no shared variable.\<close>

definition params_disjoint :: "npf_param list \<Rightarrow> npf_param list \<Rightarrow> bool" where
  "params_disjoint ps qs \<longleftrightarrow>
     set (map p_name ps) \<inter> set (map p_name qs) = {} \<and>
     set (map p_valp ps) \<inter> set (map p_valp qs) = {}"

lemma npf_param_register_inv:
  assumes T: "thmap_laws T" and inv: "params_inv T st" and ps: "param_array_ok ps"
    and dj: "params_disjoint ps (concat (pi_list st))"
  shows "params_inv T (npf_param_register T ps st)"
proof -
  let ?st = "fold (param_register1 T) ps st" and ?old = "concat (pi_list st)"
  have "\<forall>p\<in>set ps. thmap_get T (pi_map st) (p_name p) = None"
  proof
    fix p assume "p \<in> set ps"
    then have "p_name p \<notin> p_name ` set ?old"
      using dj by (auto simp: params_disjoint_def)
    then show "thmap_get T (pi_map st) (p_name p) = None"
      using find_absent [of p_name p ?old] by (simp add: params_inv_lookup [OF inv])
  qed
  then have get: "thmap_get T (pi_map ?st) name = find (\<lambda>p. p_name p = name) (ps @ ?old)" for name
    using fold_register1_map [OF T, of ps st name] ps
    by (simp add: param_array_ok_def params_inv_lookup [OF inv] find_append_option
      split: option.split)
  have new: "pi_store ?st (p_valp p) = p_default_val p" if "p \<in> set ps" for p
    using that ps find_unique [of p_valp ps p]
    by (simp add: fold_register1_store param_array_ok_def)
  have old: "pi_store ?st (p_valp p) = pi_store st (p_valp p)" if "p \<in> set ?old" for p
  proof -
    have "p_valp p \<notin> p_valp ` set ps"
      using that dj unfolding params_disjoint_def set_map by blast
    then have "find (\<lambda>q. p_valp q = p_valp p) ps = None"
      by (rule find_absent)
    then show ?thesis
      using ps by (simp add: fold_register1_store param_array_ok_def)
  qed
  have "list_all (\<lambda>p. p_min p \<le> pi_store ?st (p_valp p) \<and> pi_store ?st (p_valp p) \<le> p_max p)
      (ps @ ?old)"
    using new old ps params_inv_range [OF inv] by (simp add: list_all_iff param_array_ok_def ball_Un)
  then show ?thesis
    using ps inv dj get unfolding params_inv_def npf_param_register_def param_array_ok_def
    by (simp add: npf_param_lookup_def params_disjoint_def Let_def)
qed

lemma npf_param_register_list [simp]:
  "pi_list (npf_param_register T ps st) = ps # pi_list st"
  by (simp add: npf_param_register_def Let_def)

lemma npf_param_init_inv:
  assumes "thmap_laws T" shows "params_inv T (npf_param_init T store0)"
  unfolding npf_param_init_def
  using assms by (intro npf_param_register_inv)
    (simp_all add: params_inv_def npf_param_lookup_def thmap_simps params_disjoint_def
      param_array_ok_def npf_param_general_register_def)

section \<open>Facts about reading and setting\<close>

lemma params_lookup_mem:
  "params_inv T st \<Longrightarrow> npf_param_lookup T st name = Some p \<Longrightarrow>
   p \<in> set (concat (pi_list st)) \<and> p_name p = name"
  unfolding npf_param_lookup_def
  by (simp only: params_inv_lookup find_Some_iff) (auto simp del: set_concat)

lemma params_same_var:
  assumes "params_inv T st" "npf_param_lookup T st n1 = Some p" "npf_param_lookup T st n2 = Some q"
    "p_valp p = p_valp q"
  shows "n1 = n2"
  using params_inv_var [OF assms(1)] params_lookup_mem [OF assms(1,2)]
    params_lookup_mem [OF assms(1,3)] assms(4) by blast

lemma npfk_param_set_inv:
  assumes inv: "params_inv T st" shows "params_inv T (snd (npfk_param_set T st name val))"
proof (cases "npf_param_lookup T st name")
  case (Some p)
  have "\<forall>q\<in>set (concat (pi_list st)). p_valp q = p_valp p \<longrightarrow> q = p"
    using params_inv_var [OF inv] params_lookup_mem [OF inv Some] by blast
  then show ?thesis
    using inv Some unfolding params_inv_def npfk_param_set_def npf_param_lookup_def list_all_iff
    by (auto simp del: set_concat simp: not_less)
qed (use inv in \<open>simp add: npfk_param_set_def\<close>)

end
