(* ===== verification/NPF_Mbuf.thy ===== *)
theory NPF_Mbuf
  imports NPF_Prelude
begin

text \<open>
  Network buffers (\<open>src/kern/npf_mbuf.c\<close>, userspace build): a cursor over a chain of
  packet buffers (mbufs).  The bytes of the chain are one list, \<open>nb_data\<close>, cut into
  buffers whose lengths are \<open>nb_segs\<close>; the cursor is the index of the current buffer
  (\<open>nb_mbuf\<close>) and the offset in it (\<open>nb_nptr\<close>).  A pointer into packet memory is its
  offset in the whole packet.

  The buffer operations of the host (\<open>npf_mbufops_t\<close>) are a parameter, \<open>nb_mops\<close>.
  \<open>ensure_contig\<close> gets the buffer lengths and the number of bytes wanted in the first
  buffer; it returns whether it succeeded, whether the head buffer was replaced, and the
  lengths after the rearrangement.
\<close>

section \<open>The network buffer\<close>

record npf_mbufops =
  ensure_contig :: "nat list \<Rightarrow> nat \<Rightarrow> bool \<times> bool \<times> nat list"
  get_tag :: "(u32 option \<Rightarrow> errno + u32) option"
  set_tag :: "(u32 \<Rightarrow> u32 option \<Rightarrow> errno option \<times> u32 option) option"

record nbuf =
  nb_data :: "u8 list"
  nb_segs :: "nat list"
  nb_mbuf :: nat
  nb_nptr :: nat
  nb_tag :: "u32 option"
  nb_ifid :: u32
  nb_flags :: u32
  nb_mops :: npf_mbufops

abbreviation NBUF_DATAREF_RESET :: u32 where "NBUF_DATAREF_RESET \<equiv> 0x01"

text \<open>\<open>NBUF_ENSURE_ROUNDUP\<close> with 64-byte cache lines.\<close>

definition nbuf_ensure_roundup :: "nat \<Rightarrow> nat" where
  "nbuf_ensure_roundup x = (x + 64) div 64 * 64"

definition nbuf_reset :: "nbuf \<Rightarrow> nbuf" where
  "nbuf_reset nbuf = nbuf\<lparr> nb_mbuf := 0, nb_nptr := 0 \<rparr>"

text \<open>\<open>nbuf_init\<close> does not assign \<open>nb_flags\<close>: \<open>flags\<close> is what the memory held.\<close>

definition nbuf_init ::
  "npf_mbufops \<Rightarrow> u8 list \<Rightarrow> nat list \<Rightarrow> u32 option \<Rightarrow> u32 \<Rightarrow> u32 \<Rightarrow> nbuf" where
  "nbuf_init mops data segs tag ifid flags =
     nbuf_reset \<lparr> nb_data = data, nb_segs = segs, nb_mbuf = 0, nb_nptr = 0, nb_tag = tag,
       nb_ifid = ifid, nb_flags = flags, nb_mops = mops \<rparr>"

definition nbuf_datalen :: "nbuf \<Rightarrow> nat" where
  "nbuf_datalen nbuf = sum_list (nb_segs nbuf)"

definition nbuf_offset :: "nbuf \<Rightarrow> nat" where
  "nbuf_offset nbuf =
     sum_list (nb_segs nbuf) - sum_list (drop (nb_mbuf nbuf) (nb_segs nbuf)) + nb_nptr nbuf"

definition nbuf_dataptr :: "nbuf \<Rightarrow> nat" where
  "nbuf_dataptr nbuf = nbuf_offset nbuf"

definition nbuf_flag_p :: "nbuf \<Rightarrow> u32 \<Rightarrow> bool" where
  "nbuf_flag_p nbuf flag \<longleftrightarrow> nb_flags nbuf AND flag \<noteq> 0"

definition nbuf_unset_flag :: "nbuf \<Rightarrow> u32 \<Rightarrow> nbuf" where
  "nbuf_unset_flag nbuf flag = nbuf\<lparr> nb_flags := nb_flags nbuf AND NOT flag \<rparr>"

section \<open>Moving the cursor\<close>

definition nbuf_ensure_contig :: "nbuf \<Rightarrow> nat \<Rightarrow> nat option \<times> nbuf" where
  "nbuf_ensure_contig nbuf len =
    (let segs = nb_segs nbuf; off = nb_nptr nbuf in
     if segs ! nb_mbuf nbuf < off + len then
       let foff = nbuf_offset nbuf;
           plen = sum_list segs;
           mlen = segs ! 0;
           target = (if nbuf_ensure_roundup (foff + len) > plen then foff + len
                     else nbuf_ensure_roundup (foff + len));
           (success, moved, segs') = ensure_contig (nb_mops nbuf) segs target in
       if \<not> moved \<and> segs' ! 0 = mlen then
         (if success then Some foff else None, nbuf\<lparr> nb_segs := segs' \<rparr>)
       else
         (if success then Some foff else None,
          nbuf\<lparr> nb_segs := segs', nb_mbuf := 0, nb_nptr := foff,
                nb_flags := nb_flags nbuf OR NBUF_DATAREF_RESET \<rparr>)
     else (Some (nbuf_offset nbuf), nbuf))"

text \<open>
  The loop of \<open>nbuf_advance\<close>: the buffers after the current one, the index of the
  current one, the high-water mark and the offset searched.
\<close>

fun nbuf_find_mbuf :: "nat list \<Rightarrow> nat \<Rightarrow> nat \<Rightarrow> nat \<Rightarrow> (nat \<times> nat) option" where
  "nbuf_find_mbuf rest i wmark off =
     (if wmark \<le> off then
        (case rest of [] \<Rightarrow> None | l # rest' \<Rightarrow> nbuf_find_mbuf rest' (i + 1) (wmark + l) off)
      else Some (i, wmark))"

declare nbuf_find_mbuf.simps [simp del]

definition nbuf_advance :: "nbuf \<Rightarrow> nat \<Rightarrow> nat \<Rightarrow> nat option \<times> nbuf" where
  "nbuf_advance nbuf len ensure =
    (let segs = nb_segs nbuf; m = nb_mbuf nbuf; off = nb_nptr nbuf + len in
     case nbuf_find_mbuf (drop (m + 1) segs) m (segs ! m) off of
       None \<Rightarrow> (None, nbuf)
     | Some (m', wmark) \<Rightarrow>
         let nbuf' = nbuf\<lparr> nb_mbuf := m', nb_nptr := off - (wmark - segs ! m') \<rparr> in
         if ensure \<noteq> 0 then nbuf_ensure_contig nbuf' ensure
         else (Some (nbuf_offset nbuf'), nbuf'))"

text \<open>In the userspace build buffers are always writable (\<open>M_UNWRITABLE\<close> is false).\<close>

definition nbuf_ensure_writable :: "nbuf \<Rightarrow> nat \<Rightarrow> nat option \<times> nbuf" where
  "nbuf_ensure_writable nbuf len = (Some (nbuf_offset nbuf), nbuf)"

definition nbuf_cksum_barrier :: "nbuf \<Rightarrow> nat \<Rightarrow> bool" where
  "nbuf_cksum_barrier nbuf di = False"

definition nbuf_add_tag :: "nbuf \<Rightarrow> u32 \<Rightarrow> errno option \<times> nbuf" where
  "nbuf_add_tag nbuf val =
     (case set_tag (nb_mops nbuf) of
        None \<Rightarrow> (Some ENOTSUP, nbuf)
      | Some f \<Rightarrow> let (err, tag) = f val (nb_tag nbuf) in (err, nbuf\<lparr> nb_tag := tag \<rparr>))"

definition nbuf_find_tag :: "nbuf \<Rightarrow> errno + u32" where
  "nbuf_find_tag nbuf =
     (case get_tag (nb_mops nbuf) of None \<Rightarrow> Inl ENOTSUP | Some f \<Rightarrow> f (nb_tag nbuf))"

section \<open>Invariant and the contract of the host operation\<close>

text \<open>
  A well-formed network buffer: the lengths cut up the data, the head buffer is not empty
  and the cursor is in a buffer.
\<close>

definition nbuf_wf :: "nbuf \<Rightarrow> bool" where
  "nbuf_wf nbuf \<longleftrightarrow>
     sum_list (nb_segs nbuf) = length (nb_data nbuf) \<and> nb_mbuf nbuf < length (nb_segs nbuf) \<and>
     nb_nptr nbuf < nb_segs nbuf ! nb_mbuf nbuf \<and> 0 < nb_segs nbuf ! 0"

text \<open>
  What the documentation of \<open>m_ensure_contig\<close> promises: the packet length is kept; on
  success the first buffer holds the wanted bytes; a chain whose head did not change is
  left alone; a rearranged chain has as much of the wanted part in its head as there is.
\<close>

definition mbufops_ok :: "npf_mbufops \<Rightarrow> bool" where
  "mbufops_ok mops \<longleftrightarrow>
     (\<forall>segs target success moved segs'. segs \<noteq> [] \<longrightarrow>
        ensure_contig mops segs target = (success, moved, segs') \<longrightarrow>
        segs' \<noteq> [] \<and> sum_list segs' = sum_list segs \<and>
        (success \<longrightarrow> target \<le> segs' ! 0) \<and>
        (if \<not> moved \<and> segs' ! 0 = segs ! 0 then segs' = segs
         else min target (sum_list segs) \<le> segs' ! 0))"

section \<open>Facts\<close>

lemma nbuf_offset_take:
  "nbuf_offset nbuf = sum_list (take (nb_mbuf nbuf) (nb_segs nbuf)) + nb_nptr nbuf"
proof -
  have "sum_list (nb_segs nbuf) =
      sum_list (take (nb_mbuf nbuf) (nb_segs nbuf)) + sum_list (drop (nb_mbuf nbuf) (nb_segs nbuf))"
    by (metis append_take_drop_id sum_list_append)
  then show ?thesis by (simp add: nbuf_offset_def)
qed

lemma sum_list_take_le: "sum_list (take i xs) \<le> sum_list (xs :: nat list)"
  by (metis append_take_drop_id le_add1 sum_list_append)

lemma sum_list_take_Suc:
  "i < length xs \<Longrightarrow> sum_list (take (Suc i) xs) = sum_list (take i xs) + (xs ! i :: nat)"
  by (simp add: take_Suc_conv_app_nth)

lemma nbuf_wf_offset: "nbuf_wf nbuf \<Longrightarrow> nbuf_offset nbuf < length (nb_data nbuf)"
  using sum_list_take_le [of "Suc (nb_mbuf nbuf)" "nb_segs nbuf"]
  by (simp add: nbuf_wf_def nbuf_offset_take sum_list_take_Suc)

lemma nbuf_wf_reset [simp]: "nbuf_wf nbuf \<Longrightarrow> nbuf_wf (nbuf_reset nbuf)"
  by (auto simp: nbuf_wf_def nbuf_reset_def)

lemma nbuf_reset_simps [simp]:
  "nb_data (nbuf_reset nbuf) = nb_data nbuf" "nb_mops (nbuf_reset nbuf) = nb_mops nbuf"
  "nb_segs (nbuf_reset nbuf) = nb_segs nbuf" "nb_flags (nbuf_reset nbuf) = nb_flags nbuf"
  by (simp_all add: nbuf_reset_def)

lemma nbuf_offset_reset [simp]: "nbuf_offset (nbuf_reset nbuf) = 0"
  by (simp add: nbuf_offset_take nbuf_reset_def)

lemma nbuf_find_mbuf_spec:
  assumes "rest = drop (Suc i) segs" "i < length segs"
    "K + wmark = sum_list (take (Suc i) segs)" "segs ! i \<le> wmark" "wmark - segs ! i \<le> off"
  shows "case nbuf_find_mbuf rest i wmark off of
      None \<Rightarrow> sum_list segs \<le> K + off
    | Some (j, w) \<Rightarrow> j < length segs \<and> K + w = sum_list (take (Suc j) segs) \<and>
        segs ! j \<le> w \<and> w - segs ! j \<le> off \<and> off < w"
  using assms
proof (induction rest i wmark off rule: nbuf_find_mbuf.induct)
  case (1 rest i wmark off)
  show ?case
  proof (cases "wmark \<le> off")
    case True
    show ?thesis
    proof (cases rest)
      case Nil
      then show ?thesis
        using True "1.prems" by (simp add: nbuf_find_mbuf.simps [of "[]"])
    next
      case (Cons l rest')
      have len: "Suc i < length segs" using Cons "1.prems" by (metis drop_eq_Nil not_le list.distinct(1))
      then have l: "l = segs ! Suc i" and r: "rest' = drop (Suc (Suc i)) segs"
        using Cons "1.prems"(1) by (simp_all add: Cons_nth_drop_Suc [symmetric])
      have "nbuf_find_mbuf rest i wmark off = nbuf_find_mbuf rest' (i + 1) (wmark + l) off"
        using True Cons by (simp add: nbuf_find_mbuf.simps [of "l # rest'" i])
      then show ?thesis
        using "1.IH" [OF True Cons] "1.prems" True len l r by (simp add: sum_list_take_Suc)
    qed
  next
    case False
    then have "nbuf_find_mbuf rest i wmark off = Some (i, wmark)"
      by (simp add: nbuf_find_mbuf.simps)
    then show ?thesis using "1.prems" False by simp
  qed
qed

text \<open>
  What every cursor operation keeps, and what a successful one keeps besides: if it marks
  the data references as stale, then the head buffer grew.
\<close>

definition nbuf_keep :: "nbuf \<Rightarrow> nbuf \<Rightarrow> bool" where
  "nbuf_keep nbuf nbuf' \<longleftrightarrow>
     nbuf_wf nbuf' \<and> nb_data nbuf' = nb_data nbuf \<and> nb_mops nbuf' = nb_mops nbuf \<and>
     nb_ifid nbuf' = nb_ifid nbuf \<and> nb_tag nbuf' = nb_tag nbuf \<and>
     nb_segs nbuf ! 0 \<le> nb_segs nbuf' ! 0"

definition nbuf_prog :: "nbuf \<Rightarrow> nbuf \<Rightarrow> bool" where
  "nbuf_prog nbuf nbuf' \<longleftrightarrow>
     nbuf_keep nbuf nbuf' \<and>
     (nbuf_flag_p nbuf' NBUF_DATAREF_RESET \<longrightarrow>
        nbuf_flag_p nbuf NBUF_DATAREF_RESET \<or> nb_segs nbuf ! 0 < nb_segs nbuf' ! 0)"

text \<open>The cursor stands at offset \<open>p\<close>, with \<open>len\<close> contiguous bytes there.\<close>

definition nbuf_at :: "nbuf \<Rightarrow> nat \<Rightarrow> nat \<Rightarrow> nbuf \<Rightarrow> bool" where
  "nbuf_at nbuf p len nbuf' \<longleftrightarrow>
     nbuf_prog nbuf nbuf' \<and> nbuf_offset nbuf' = p \<and>
     p + len \<le> length (nb_data nbuf) \<and>
     nb_nptr nbuf' + len \<le> nb_segs nbuf' ! nb_mbuf nbuf'"

lemma nbuf_keep_refl: "nbuf_wf nbuf \<Longrightarrow> nbuf_keep nbuf nbuf"
  by (simp add: nbuf_keep_def)

lemma nbuf_keep_trans: "nbuf_keep a b \<Longrightarrow> nbuf_keep b c \<Longrightarrow> nbuf_keep a c"
  by (simp add: nbuf_keep_def)

lemma nbuf_prog_refl: "nbuf_wf nbuf \<Longrightarrow> nbuf_prog nbuf nbuf"
  by (simp add: nbuf_prog_def nbuf_keep_refl)

lemma nbuf_prog_trans: "nbuf_prog a b \<Longrightarrow> nbuf_prog b c \<Longrightarrow> nbuf_prog a c"
  by (auto simp: nbuf_prog_def nbuf_keep_def)

lemma nbuf_prog_reset: "nbuf_wf nbuf \<Longrightarrow> nbuf_prog nbuf (nbuf_reset nbuf)"
  by (auto simp: nbuf_prog_def nbuf_keep_def nbuf_wf_def nbuf_reset_def nbuf_flag_p_def)

lemma nbuf_noncontig_head:
  assumes "nbuf_wf nbuf" "nb_segs nbuf ! nb_mbuf nbuf < nb_nptr nbuf + len"
  shows "nb_segs nbuf ! 0 < nbuf_offset nbuf + len"
proof (cases "nb_mbuf nbuf")
  case (Suc k)
  then have "nb_segs nbuf ! 0 \<le> sum_list (take (nb_mbuf nbuf) (nb_segs nbuf))"
    using assms(1) by (cases "nb_segs nbuf") (auto simp: nbuf_wf_def)
  then show ?thesis
    using assms by (simp add: nbuf_wf_def nbuf_offset_take)
qed (use assms in \<open>simp add: nbuf_offset_take\<close>)

lemma nbuf_ensure_roundup_ge: "x \<le> nbuf_ensure_roundup x"
  unfolding nbuf_ensure_roundup_def by linarith

lemma nbuf_ensure_contig_spec:
  assumes wf: "nbuf_wf nbuf" and ok: "mbufops_ok (nb_mops nbuf)"
    and r: "nbuf_ensure_contig nbuf len = (r, nbuf')"
  shows "nbuf_keep nbuf nbuf' \<and> nbuf_offset nbuf' = nbuf_offset nbuf \<and>
    (\<forall>p. r = Some p \<longrightarrow> p = nbuf_offset nbuf \<and> nbuf_at nbuf p len nbuf')"
proof (cases "nb_segs nbuf ! nb_mbuf nbuf < nb_nptr nbuf + len")
  case False
  have "sum_list (take (Suc (nb_mbuf nbuf)) (nb_segs nbuf)) \<le> length (nb_data nbuf)"
    using wf sum_list_take_le [of "Suc (nb_mbuf nbuf)" "nb_segs nbuf"] by (simp add: nbuf_wf_def)
  then have "nbuf_offset nbuf + len \<le> length (nb_data nbuf)"
    using False wf by (simp add: nbuf_wf_def nbuf_offset_take sum_list_take_Suc)
  with False show ?thesis
    using r wf by (auto simp: nbuf_ensure_contig_def Let_def nbuf_at_def nbuf_keep_refl nbuf_prog_refl)
next
  case True
  let ?foff = "nbuf_offset nbuf" and ?segs = "nb_segs nbuf"
  define target where
    "target = (if nbuf_ensure_roundup (?foff + len) > sum_list ?segs then ?foff + len
               else nbuf_ensure_roundup (?foff + len))"
  obtain success moved segs' where
    e: "ensure_contig (nb_mops nbuf) ?segs target = (success, moved, segs')"
    by (metis prod_cases3)
  have ne: "?segs \<noteq> []" using wf by (auto simp: nbuf_wf_def)
  then have law: "segs' \<noteq> []" "sum_list segs' = sum_list ?segs" "success \<longrightarrow> target \<le> segs' ! 0"
    "if \<not> moved \<and> segs' ! 0 = ?segs ! 0 then segs' = ?segs
     else min target (sum_list ?segs) \<le> segs' ! 0"
    using ok e unfolding mbufops_ok_def by blast+
  have t: "?foff + len \<le> target"
    by (simp add: target_def nbuf_ensure_roundup_ge)
  have head: "?segs ! 0 < ?foff + len" by (rule nbuf_noncontig_head [OF wf True])
  have foff: "?foff < sum_list ?segs" using nbuf_wf_offset [OF wf] wf by (simp add: nbuf_wf_def)
  have le: "segs' ! 0 \<le> sum_list ?segs" "?segs ! 0 \<le> sum_list ?segs"
    using law(1,2) ne member_le_sum_list [of "segs' ! 0" segs'] member_le_sum_list [of "?segs ! 0" ?segs]
    by simp_all
  have len: "0 < len" using True wf by (simp add: nbuf_wf_def)
  show ?thesis
  proof (cases "\<not> moved \<and> segs' ! 0 = ?segs ! 0")
    case same: True
    then have s: "segs' = ?segs" using law(4) by simp
    have "\<not> success" using law(3) t s head by auto
    then have "r = None" "nbuf' = nbuf"
      using r True e same s
      by (auto simp: nbuf_ensure_contig_def Let_def target_def [symmetric])
    then show ?thesis using wf by (simp add: nbuf_keep_refl)
  next
    case moved: False
    then have n': "r = (if success then Some ?foff else None)"
      "nbuf' = nbuf\<lparr> nb_segs := segs', nb_mbuf := 0, nb_nptr := ?foff,
                nb_flags := nb_flags nbuf OR NBUF_DATAREF_RESET \<rparr>"
      using r True e by (auto simp: nbuf_ensure_contig_def Let_def target_def [symmetric] split: if_splits)
    have "?foff < segs' ! 0"
      using law(4) moved t len foff by (auto simp: min_def split: if_splits)
    moreover have "?segs ! 0 \<le> segs' ! 0"
      using law(4) moved t head le by (auto simp: min_def split: if_splits)
    ultimately show ?thesis
      using n' law wf t le head
      by (auto simp: nbuf_wf_def nbuf_at_def nbuf_offset_take nbuf_keep_def nbuf_prog_def)
  qed
qed

text \<open>Advancing: a result is the advanced offset, inside the packet and contiguous.\<close>

lemma nbuf_advance_spec:
  assumes wf: "nbuf_wf nbuf" and ok: "mbufops_ok (nb_mops nbuf)"
    and r: "nbuf_advance nbuf len ensure = (r, nbuf')"
  shows "nbuf_keep nbuf nbuf' \<and>
    (nbuf' = nbuf \<or> nbuf_offset nbuf' = nbuf_offset nbuf + len) \<and>
    (\<forall>p. r = Some p \<longrightarrow> p = nbuf_offset nbuf + len \<and> nbuf_at nbuf p ensure nbuf')"
proof -
  let ?segs = "nb_segs nbuf" and ?m = "nb_mbuf nbuf" and ?off = "nb_nptr nbuf + len"
  let ?find = "nbuf_find_mbuf (drop (Suc ?m) ?segs) ?m (?segs ! ?m) ?off"
  define K where "K = sum_list (take ?m ?segs)"
  have m: "?m < length ?segs" using wf by (simp add: nbuf_wf_def)
  note find = nbuf_find_mbuf_spec [OF refl m, of K "?segs ! ?m" ?off]
  show ?thesis
  proof (cases ?find)
    case None
    then show ?thesis using r wf by (simp add: nbuf_advance_def Let_def nbuf_keep_refl)
  next
    case (Some jw)
    obtain j w where jw: "jw = (j, w)" by force
    have fd: "j < length ?segs" "K + w = sum_list (take (Suc j) ?segs)" "?segs ! j \<le> w"
      "w - ?segs ! j \<le> ?off" "?off < w"
      using find m Some jw by (auto simp: K_def sum_list_take_Suc)
    let ?n = "nbuf\<lparr> nb_mbuf := j, nb_nptr := ?off - (w - ?segs ! j) \<rparr>"
    have wf': "nbuf_wf ?n" using wf fd by (auto simp: nbuf_wf_def)
    have off': "nbuf_offset ?n = nbuf_offset nbuf + len"
      using fd by (simp add: nbuf_offset_take K_def [symmetric] sum_list_take_Suc)
    show ?thesis
    proof (cases "ensure = 0")
      case True
      then have "r = Some (nbuf_offset ?n)" "nbuf' = ?n"
        using r Some jw by (auto simp: nbuf_advance_def Let_def)
      then show ?thesis
        using True wf' off' nbuf_wf_offset [OF wf']
        by (auto simp: nbuf_at_def nbuf_prog_def nbuf_keep_def nbuf_wf_def nbuf_flag_p_def)
    next
      case False
      then have "nbuf_ensure_contig ?n ensure = (r, nbuf')"
        using r Some jw by (auto simp: nbuf_advance_def Let_def)
      from nbuf_ensure_contig_spec [OF wf' _ this] show ?thesis
        using ok off' by (auto simp: nbuf_at_def nbuf_prog_def nbuf_keep_def nbuf_flag_p_def)
    qed
  qed
qed

text \<open>Without a contiguity request the advance fails exactly when it would leave the packet.\<close>

lemma nbuf_advance_None:
  assumes wf: "nbuf_wf nbuf"
  shows "fst (nbuf_advance nbuf len 0) = None \<longleftrightarrow> length (nb_data nbuf) \<le> nbuf_offset nbuf + len"
proof -
  let ?segs = "nb_segs nbuf" and ?m = "nb_mbuf nbuf" and ?off = "nb_nptr nbuf + len"
  have m: "?m < length ?segs" using wf by (simp add: nbuf_wf_def)
  note find = nbuf_find_mbuf_spec [OF refl m, of "sum_list (take ?m ?segs)" "?segs ! ?m" ?off]
  show ?thesis
  proof (cases "nbuf_find_mbuf (drop (Suc ?m) ?segs) ?m (?segs ! ?m) ?off")
    case None
    then show ?thesis
      using find m wf by (simp add: nbuf_advance_def Let_def nbuf_offset_take sum_list_take_Suc nbuf_wf_def)
  next
    case (Some jw)
    then obtain j w where "jw = (j, w)" "j < length ?segs" "?off < w"
        "sum_list (take ?m ?segs) + w = sum_list (take (Suc j) ?segs)"
      using find m by (cases jw) (auto simp: sum_list_take_Suc)
    moreover have "sum_list (take (Suc j) ?segs) \<le> length (nb_data nbuf)"
      using wf sum_list_take_le [of "Suc j" ?segs] by (simp add: nbuf_wf_def)
    ultimately show ?thesis
      using Some by (simp add: nbuf_advance_def Let_def nbuf_offset_take)
  qed
qed

section \<open>A host implementation\<close>

text \<open>An implementation that gathers the whole packet in one buffer satisfies the contract.\<close>

definition pullup_mops :: npf_mbufops where
  "pullup_mops = \<lparr>
     ensure_contig = (\<lambda>segs target.
       if target \<le> sum_list segs then (True, True, [sum_list segs]) else (False, False, segs)),
     get_tag = None, set_tag = None \<rparr>"

lemma pullup_mops_ok: "mbufops_ok pullup_mops"
  by (auto simp: mbufops_ok_def pullup_mops_def)

section \<open>Property\<close>



end
