(* ===== verification/NPF_Addr.thy ===== *)
theory NPF_Addr
  imports NPF_Prelude
begin

text \<open>
  Operations on IPv4 and IPv6 addresses (\<open>src/kern/npf_inet.c\<close>): mixing for hashes,
  network masks, the host part, masked comparison and the check of a mask.  An
  \<open>npf_addr_t\<close> is the 16 bytes of the union; its 32-bit words are read in host order.
\<close>

section \<open>Operations\<close>

abbreviation NPF_MAX_NETMASK :: nat where "NPF_MAX_NETMASK \<equiv> 128"
abbreviation NPF_NO_NETMASK :: nat where "NPF_NO_NETMASK \<equiv> 255"

type_synonym npf_addr = "u8 list"

text \<open>The loop over the words; \<open>i\<close> is the loop counter and \<open>n\<close> the words left.\<close>

fun addr_mix_loop :: "nat \<Rightarrow> nat \<Rightarrow> npf_addr \<Rightarrow> npf_addr \<Rightarrow> u32 \<Rightarrow> u32" where
  "addr_mix_loop 0 i a1 a2 mix = mix"
| "addr_mix_loop (Suc n) i a1 a2 mix =
     addr_mix_loop n (i + 1) a1 a2 ((mix XOR rd32 a1 (4 * i)) XOR rd32 a2 (4 * i))"

definition npf_addr_mix :: "nat \<Rightarrow> npf_addr \<Rightarrow> npf_addr \<Rightarrow> u32" where
  "npf_addr_mix alen a1 a2 = addr_mix_loop (alen div 4) 0 a1 a2 0"

text \<open>The mask of one word and the mask length left for the words that follow.\<close>

definition addr_wordmask :: "nat \<Rightarrow> u32 \<times> nat" where
  "addr_wordmask len =
     (if len \<ge> 32 then (htonl 0xffffffff, len - 32)
      else if len \<noteq> 0 then (htonl (push_bit (32 - len) 0xffffffff), 0)
      else (0, 0))"

fun addr_mask_loop :: "nat \<Rightarrow> nat \<Rightarrow> nat \<Rightarrow> npf_addr \<Rightarrow> npf_addr \<Rightarrow> npf_addr" where
  "addr_mask_loop 0 i len addr out = out"
| "addr_mask_loop (Suc n) i len addr out =
     (let (wordmask, len') = addr_wordmask len in
      addr_mask_loop n (i + 1) len' addr (wr32 out (4 * i) (rd32 addr (4 * i) AND wordmask)))"

definition npf_addr_mask :: "npf_addr \<Rightarrow> nat \<Rightarrow> nat \<Rightarrow> npf_addr \<Rightarrow> npf_addr" where
  "npf_addr_mask addr nmask alen out = addr_mask_loop (alen div 4) 0 nmask addr out"

fun addr_bitor_loop :: "nat \<Rightarrow> nat \<Rightarrow> nat \<Rightarrow> npf_addr \<Rightarrow> npf_addr \<Rightarrow> npf_addr" where
  "addr_bitor_loop 0 i len addr out = out"
| "addr_bitor_loop (Suc n) i len addr out =
     (let (wordmask, len') = addr_wordmask len in
      addr_bitor_loop n (i + 1) len' addr
        (wr32 out (4 * i) (rd32 out (4 * i) OR (rd32 addr (4 * i) AND NOT wordmask))))"

definition npf_addr_bitor :: "npf_addr \<Rightarrow> nat \<Rightarrow> nat \<Rightarrow> npf_addr \<Rightarrow> npf_addr" where
  "npf_addr_bitor addr nmask alen out = addr_bitor_loop (alen div 4) 0 nmask addr out"

text \<open>
  \<open>memcmp\<close>: the difference of the first bytes that differ.  The C library fixes only its
  sign, and the code uses no more.
\<close>

fun memcmp :: "u8 list \<Rightarrow> u8 list \<Rightarrow> nat \<Rightarrow> int" where
  "memcmp (a # as) (b # bs) (Suc n) = (if a = b then memcmp as bs n else uint a - uint b)"
| "memcmp _ _ _ = 0"

definition npf_addr_cmp :: "npf_addr \<Rightarrow> nat \<Rightarrow> npf_addr \<Rightarrow> nat \<Rightarrow> nat \<Rightarrow> int" where
  "npf_addr_cmp addr1 mask1 addr2 mask2 alen =
    (let addr1 = (if mask1 \<noteq> NPF_NO_NETMASK then npf_addr_mask addr1 mask1 alen (replicate 16 0) else addr1);
         addr2 = (if mask2 \<noteq> NPF_NO_NETMASK then npf_addr_mask addr2 mask2 alen (replicate 16 0) else addr2) in
     memcmp addr1 addr2 alen)"

definition npf_netmask_check :: "nat \<Rightarrow> nat \<Rightarrow> errno option" where
  "npf_netmask_check alen nmask =
     (if alen = 4 then (if nmask > 32 \<and> nmask \<noteq> NPF_NO_NETMASK then Some EINVAL else None)
      else if alen = 16 then (if nmask > 128 \<and> nmask \<noteq> NPF_NO_NETMASK then Some EINVAL else None)
      else Some EINVAL)"

section \<open>Addresses as strings of bits\<close>

text \<open>Bit \<open>k\<close> of an address in network order, the most significant bit first.\<close>

definition addr_bit :: "npf_addr \<Rightarrow> nat \<Rightarrow> bool" where
  "addr_bit a k = bit (a ! (k div 8)) (7 - k mod 8)"

lemma addr_wordmask_bit:
  assumes "n < 32"
  shows "bit (fst (addr_wordmask len)) n \<longleftrightarrow> 8 * (n div 8) + (7 - n mod 8) < len"
proof -
  define m where "m = 8 * (3 - n div 8) + n mod 8"
  have m: "m < 32" "8 * (n div 8) + (7 - n mod 8) = 31 - m"
    using assms unfolding m_def by linarith+
  have ones: "(0xffffffff :: u32) = - 1" by simp
  show ?thesis
    unfolding m(2) addr_wordmask_def ones using m(1) assms
    by (auto simp: bit_bswap32 m_def [symmetric] bit_simps)
qed

lemma addr_wordmask_snd: "snd (addr_wordmask len) = len - 32"
  by (simp add: addr_wordmask_def)

lemma addr_mask_loop_nth:
  assumes "4 * (i + n) \<le> length out"
  shows "length (addr_mask_loop n i len addr out) = length out \<and>
    (\<forall>j t. t < 8 \<longrightarrow> bit (addr_mask_loop n i len addr out ! j) t \<longleftrightarrow>
       (if 4 * i \<le> j \<and> j < 4 * (i + n) then bit (addr ! j) t \<and> 8 * (j - 4 * i) + (7 - t) < len
        else bit (out ! j) t))"
  using assms
proof (induction n arbitrary: i len out)
  case (Suc n)
  let ?wm = "fst (addr_wordmask len)"
  let ?out = "wr32 out (4 * i) (rd32 addr (4 * i) AND ?wm)"
  note IH = Suc.IH [of "i + 1" ?out "len - 32"]
  have word: "bit (?out ! j) t \<longleftrightarrow> bit (addr ! j) t \<and> 8 * (j - 4 * i) + (7 - t) < len"
    if j: "4 * i \<le> j" "j < 4 * i + 4" and t: "t < 8" for j t
  proof -
    let ?n = "8 * (j - 4 * i) + t"
    have "?n < 32" "?n div 8 = j - 4 * i" "?n mod 8 = t" using j t by auto
    then show ?thesis
      using j t Suc.prems addr_wordmask_bit [of ?n len]
      by (auto simp: nth_wr32 bit_simps bit_rd32)
  qed
  have loop: "addr_mask_loop (Suc n) i len addr out = addr_mask_loop n (i + 1) (len - 32) addr ?out"
    by (simp add: Let_def case_prod_beta addr_wordmask_snd)
  show ?case
    unfolding loop using IH Suc.prems word
    by (auto simp: nth_wr32 not_less)
qed auto

lemma addr_bitor_loop_nth:
  assumes "4 * (i + n) \<le> length out"
  shows "length (addr_bitor_loop n i len addr out) = length out \<and>
    (\<forall>j t. t < 8 \<longrightarrow> bit (addr_bitor_loop n i len addr out ! j) t \<longleftrightarrow>
       bit (out ! j) t \<or>
       (4 * i \<le> j \<and> j < 4 * (i + n) \<and> bit (addr ! j) t \<and> len \<le> 8 * (j - 4 * i) + (7 - t)))"
  using assms
proof (induction n arbitrary: i len out)
  case (Suc n)
  let ?wm = "fst (addr_wordmask len)"
  let ?out = "wr32 out (4 * i) (rd32 out (4 * i) OR (rd32 addr (4 * i) AND NOT ?wm))"
  note IH = Suc.IH [of "i + 1" ?out "len - 32"]
  have word: "bit (?out ! j) t \<longleftrightarrow>
      bit (out ! j) t \<or> bit (addr ! j) t \<and> len \<le> 8 * (j - 4 * i) + (7 - t)"
    if j: "4 * i \<le> j" "j < 4 * i + 4" and t: "t < 8" for j t
  proof -
    let ?n = "8 * (j - 4 * i) + t"
    have "?n < 32" "?n div 8 = j - 4 * i" "?n mod 8 = t" using j t by auto
    then show ?thesis
      using j t Suc.prems addr_wordmask_bit [of ?n len]
      by (auto simp: nth_wr32 bit_simps bit_rd32 not_less)
  qed
  have loop: "addr_bitor_loop (Suc n) i len addr out = addr_bitor_loop n (i + 1) (len - 32) addr ?out"
    by (simp add: Let_def case_prod_beta addr_wordmask_snd)
  show ?case
    unfolding loop using IH Suc.prems word
    by (auto simp: nth_wr32 not_less)
qed auto

text \<open>Masking keeps exactly the first \<open>nmask\<close> bits; OR-ing the host part adds the others.\<close>

lemma length_npf_addr_mask [simp]:
  "4 dvd alen \<Longrightarrow> alen \<le> length out \<Longrightarrow> length (npf_addr_mask addr nmask alen out) = length out"
  using addr_mask_loop_nth [of 0 "alen div 4" out] by (auto simp: npf_addr_mask_def)

lemma length_npf_addr_bitor [simp]:
  "4 dvd alen \<Longrightarrow> alen \<le> length out \<Longrightarrow> length (npf_addr_bitor addr nmask alen out) = length out"
  using addr_bitor_loop_nth [of 0 "alen div 4" out] by (auto simp: npf_addr_bitor_def)

lemma addr_bit_mask:
  assumes "4 dvd alen" "alen \<le> length out" "k < 8 * alen"
  shows "addr_bit (npf_addr_mask addr nmask alen out) k \<longleftrightarrow> addr_bit addr k \<and> k < nmask"
proof -
  have "k div 8 < alen" "7 - (7 - k mod 8) = k mod 8" using assms(3) by linarith+
  then show ?thesis
    using addr_mask_loop_nth [of 0 "alen div 4" out nmask addr] assms
    by (simp add: npf_addr_mask_def addr_bit_def mult_div_mod_eq)
qed

lemma addr_bit_bitor:
  assumes "4 dvd alen" "alen \<le> length out" "k < 8 * alen"
  shows "addr_bit (npf_addr_bitor addr nmask alen out) k \<longleftrightarrow>
    addr_bit out k \<or> addr_bit addr k \<and> nmask \<le> k"
proof -
  have "k div 8 < alen" "7 - (7 - k mod 8) = k mod 8" using assms(3) by linarith+
  then show ?thesis
    using addr_bitor_loop_nth [of 0 "alen div 4" out nmask addr] assms
    by (simp add: npf_addr_bitor_def addr_bit_def)
qed

text \<open>Comparison of bytes is comparison of bits.\<close>

lemma memcmp_0_iff:
  "n \<le> length as \<Longrightarrow> n \<le> length bs \<Longrightarrow> memcmp as bs n = 0 \<longleftrightarrow> take n as = take n bs"
  by (induction as bs n rule: memcmp.induct) (auto simp: word_uint_eq_iff)

lemma take_eq_bits:
  assumes "n \<le> length as" "n \<le> length bs"
  shows "take n as = take n bs \<longleftrightarrow> (\<forall>k<8 * n. addr_bit as k = addr_bit bs k)"
proof
  assume bits: "\<forall>k<8 * n. addr_bit as k = addr_bit bs k"
  have "as ! j = bs ! j" if "j < n" for j
  proof (rule bit_word_eqI)
    fix t assume t: "t < LENGTH(8)"
    define x where "x = 7 - t"
    have x: "x < 8" "7 - x = t" using t by (auto simp: x_def)
    then have "8 * j + x < 8 * n" "(8 * j + x) div 8 = j" "(8 * j + x) mod 8 = x"
      using that by simp_all
    then show "bit (as ! j) t = bit (bs ! j) t"
      using bits x by (auto simp: addr_bit_def dest!: spec [of _ "8 * j + x"])
  qed
  then show "take n as = take n bs" using assms by (auto intro: nth_equalityI)
next
  assume "take n as = take n bs"
  then have "as ! j = bs ! j" if "j < n" for j using that by (metis nth_take)
  then show "\<forall>k<8 * n. addr_bit as k = addr_bit bs k" by (auto simp: addr_bit_def)
qed

text \<open>
  Under one mask two addresses compare equal exactly when their first \<open>nmask\<close> bits agree,
  and with no mask exactly when they are equal.
\<close>

lemma npf_addr_cmp_prefix:
  assumes "4 dvd alen" "alen \<le> 16" "length a1 = 16" "length a2 = 16" "nmask \<le> 8 * alen"
    "nmask \<noteq> NPF_NO_NETMASK"
  shows "npf_addr_cmp a1 nmask a2 nmask alen = 0 \<longleftrightarrow> (\<forall>k<nmask. addr_bit a1 k = addr_bit a2 k)"
proof -
  have "npf_addr_cmp a1 nmask a2 nmask alen = 0 \<longleftrightarrow>
      (\<forall>k<8 * alen. addr_bit a1 k \<and> k < nmask \<longleftrightarrow> addr_bit a2 k \<and> k < nmask)"
    using assms by (simp add: npf_addr_cmp_def memcmp_0_iff take_eq_bits addr_bit_mask)
  also have "\<dots> \<longleftrightarrow> (\<forall>k<nmask. addr_bit a1 k = addr_bit a2 k)"
    using assms(5) by (meson less_le_trans)
  finally show ?thesis .
qed

lemma npf_addr_cmp_exact:
  "alen \<le> length a1 \<Longrightarrow> alen \<le> length a2 \<Longrightarrow>
   npf_addr_cmp a1 NPF_NO_NETMASK a2 NPF_NO_NETMASK alen = 0 \<longleftrightarrow> take alen a1 = take alen a2"
  by (simp add: npf_addr_cmp_def memcmp_0_iff)

section \<open>Property\<close>

text \<open>
  C32: comparison under a network mask is comparison of prefixes.  For IPv4 and IPv6
  addresses (\<open>alen\<close> 4 or 16) and a mask that fits the address, \<open>npf_addr_cmp\<close> returns
  zero exactly when the first \<open>nmask\<close> bits of the addresses, in network order, agree.
\<close>

theorem npf_addr_cmp_is_prefix:
  assumes "alen = 4 \<or> alen = 16" "length a1 = 16" "length a2 = 16" "nmask \<le> 8 * alen"
  shows "npf_addr_cmp a1 nmask a2 nmask alen = 0 \<longleftrightarrow> (\<forall>k<nmask. addr_bit a1 k = addr_bit a2 k)"
  using assms by (intro npf_addr_cmp_prefix) auto

theorem npf_addr_cmp_is_prefix_witness:
  "npf_addr_cmp ([10, 1, 130, 3] @ replicate 12 0) 17 ([10, 1, 200, 9] @ replicate 12 7) 17 4 = 0 \<longleftrightarrow>
   (\<forall>k<17. addr_bit ([10, 1, 130, 3] @ replicate 12 0) k = addr_bit ([10, 1, 200, 9] @ replicate 12 7) k)"
  by (rule npf_addr_cmp_is_prefix) simp_all

end
