(* ===== verification/NPF_Cache.thy ===== *)
theory NPF_Cache
  imports NPF_Params NPF_Mbuf NPF_Addr
begin

text \<open>
  The packet cache (\<open>src/kern/npf_inet.c\<close>, \<open>src/kern/npf.h\<close>): parsing of the IPv4, IPv6
  and layer 4 headers of a network buffer into \<open>npf_cache_t\<close>, and the TCP helpers.

  Header pointers are offsets in the packet; header fields are read from its bytes.  The
  context pointer \<open>npc_ctx\<close> gives access to the parameter variables.  The retry loop of
  \<open>npf_cache_all\<close> and the extension header loop run with fuel; the facts below show that
  the fuel is never exhausted for a well-formed buffer.
\<close>

section \<open>The cache\<close>

record npf_cache =
  npc_ctx :: param_store
  npc_info :: u32
  npc_nbuf :: nbuf
  npc_ips :: "nat list"
  npc_alen :: nat
  npc_hlen :: nat
  npc_proto :: nat
  npc_ip :: nat
  npc_l4 :: "nat option"
  npc_ckey :: "u8 list option"

text \<open>The address at \<open>npc_ips[which]\<close>: the pointers of the cache are offsets into the packet.\<close>

definition npc_addr :: "npf_cache \<Rightarrow> nat \<Rightarrow> npf_addr" where
  "npc_addr npc which = take (npc_alen npc) (drop (npc_ips npc ! which) (nb_data (npc_nbuf npc)))"

abbreviation NPC_IP4 :: u32 where "NPC_IP4 \<equiv> 0x01"
abbreviation NPC_IP6 :: u32 where "NPC_IP6 \<equiv> 0x02"
abbreviation NPC_IPFRAG :: u32 where "NPC_IPFRAG \<equiv> 0x04"
abbreviation NPC_LAYER4 :: u32 where "NPC_LAYER4 \<equiv> 0x08"
abbreviation NPC_TCP :: u32 where "NPC_TCP \<equiv> 0x10"
abbreviation NPC_UDP :: u32 where "NPC_UDP \<equiv> 0x20"
abbreviation NPC_ICMP :: u32 where "NPC_ICMP \<equiv> 0x40"
abbreviation NPC_ICMP_ID :: u32 where "NPC_ICMP_ID \<equiv> 0x80"
abbreviation NPC_ALG_EXEC :: u32 where "NPC_ALG_EXEC \<equiv> 0x100"
abbreviation NPC_FMTERR :: u32 where "NPC_FMTERR \<equiv> 0x200"
abbreviation NPC_IP46 :: u32 where "NPC_IP46 \<equiv> 0x03"

abbreviation NPF_SRC :: nat where "NPF_SRC \<equiv> 0"
abbreviation NPF_DST :: nat where "NPF_DST \<equiv> 1"

abbreviation IPPROTO_HOPOPTS :: nat where "IPPROTO_HOPOPTS \<equiv> 0"
abbreviation IPPROTO_ICMP :: nat where "IPPROTO_ICMP \<equiv> 1"
abbreviation IPPROTO_TCP :: nat where "IPPROTO_TCP \<equiv> 6"
abbreviation IPPROTO_UDP :: nat where "IPPROTO_UDP \<equiv> 17"
abbreviation IPPROTO_ROUTING :: nat where "IPPROTO_ROUTING \<equiv> 43"
abbreviation IPPROTO_FRAGMENT :: nat where "IPPROTO_FRAGMENT \<equiv> 44"
abbreviation IPPROTO_GRE :: nat where "IPPROTO_GRE \<equiv> 47"
abbreviation IPPROTO_ICMPV6 :: nat where "IPPROTO_ICMPV6 \<equiv> 58"
abbreviation IPPROTO_DSTOPTS :: nat where "IPPROTO_DSTOPTS \<equiv> 60"

definition npf_iscached :: "npf_cache \<Rightarrow> u32 \<Rightarrow> bool" where
  "npf_iscached npc info \<longleftrightarrow> npc_info npc AND info \<noteq> 0"

abbreviation npc_data :: "npf_cache \<Rightarrow> u8 list" where
  "npc_data npc \<equiv> nb_data (npc_nbuf npc)"

section \<open>Layer 3\<close>

text \<open>
  The loop over the IPv6 extension headers: \<open>hlen\<close> is the length of the current header,
  \<open>frag\<close> whether a fragment header was seen.  The result says whether the packet is in
  error (the C code returns \<open>NPC_FMTERR\<close>) and carries the cache and the flags.
\<close>

fun cache_ip6_loop ::
  "nat \<Rightarrow> npf_cache \<Rightarrow> nat \<Rightarrow> bool \<Rightarrow> u32 \<Rightarrow> (bool \<times> npf_cache \<times> u32) option" where
  "cache_ip6_loop 0 npc hlen frag flags = None"
| "cache_ip6_loop (Suc fuel) npc hlen frag flags =
    (case nbuf_advance (npc_nbuf npc) hlen 2 of
       (None, nb) \<Rightarrow> Some (True, npc\<lparr> npc_nbuf := nb \<rparr>, flags)
     | (Some ip6e, nb) \<Rightarrow>
         let npc = npc\<lparr> npc_nbuf := nb \<rparr>; proto = npc_proto npc; nxt = unat (nb_data nb ! ip6e) in
         if proto = IPPROTO_HOPOPTS \<or> proto = IPPROTO_DSTOPTS \<or> proto = IPPROTO_ROUTING then
           if npc_ctx npc VP_ip6_drop_options \<noteq> 0 then Some (True, npc, flags)
           else
             let hlen' = (unat (nb_data nb ! (ip6e + 1)) + 1) * 8 in
             cache_ip6_loop fuel (npc\<lparr> npc_proto := nxt, npc_hlen := npc_hlen npc + hlen' \<rparr>)
               hlen' frag flags
         else if proto = IPPROTO_FRAGMENT then
           if frag then Some (True, npc, flags)
           else
             (case nbuf_ensure_contig nb 8 of
                (None, nb) \<Rightarrow> Some (True, npc\<lparr> npc_nbuf := nb \<rparr>, flags)
              | (Some ip6f, nb) \<Rightarrow>
                  let npc = npc\<lparr> npc_nbuf := nb \<rparr>; offlg = rd16 (nb_data nb) (ip6f + 2) in
                  if ntohs (offlg AND 0xf8ff) = 0 \<and> offlg AND 0x0100 = 0 then
                    cache_ip6_loop fuel (npc\<lparr> npc_proto := nxt, npc_hlen := npc_hlen npc + 8 \<rparr>)
                      8 True flags
                  else Some (False, npc, flags OR NPC_IPFRAG))
         else Some (False, npc, flags))"

definition cache_ip4 :: "npf_cache \<Rightarrow> u32 \<times> npf_cache" where
  "cache_ip4 npc =
    (case nbuf_ensure_contig (npc_nbuf npc) 20 of
       (None, nb) \<Rightarrow> (NPC_FMTERR, npc\<lparr> npc_nbuf := nb \<rparr>)
     | (Some ip, nb) \<Rightarrow>
         let npc = npc\<lparr> npc_nbuf := nb \<rparr>; ip_hl = unat (nb_data nb ! ip AND 0x0f) in
         if ip_hl * 4 < 20 then (NPC_FMTERR, npc)
         else if ip_hl \<noteq> 5 \<and> npc_ctx npc VP_ip4_drop_options \<noteq> 0 then (NPC_FMTERR, npc)
         else
           (case nbuf_ensure_contig nb (ip_hl * 4) of
              (None, nb) \<Rightarrow> (NPC_FMTERR, npc\<lparr> npc_nbuf := nb \<rparr>)
            | (Some ip, nb) \<Rightarrow>
                let d = nb_data nb;
                    flags = (if rd16 d (ip + 6) AND NOT (htons 0xc000) \<noteq> 0 then NPC_IPFRAG else 0) in
                (flags OR NPC_IP4,
                 npc\<lparr> npc_nbuf := nb, npc_alen := 4, npc_ips := [ip + 12, ip + 16],
                      npc_hlen := unat (d ! ip AND 0x0f) * 4, npc_proto := unat (d ! (ip + 9)),
                      npc_ip := ip \<rparr>)))"

definition cache_ip6 :: "npf_cache \<Rightarrow> u32 \<times> npf_cache" where
  "cache_ip6 npc =
    (case nbuf_ensure_contig (npc_nbuf npc) 40 of
       (None, nb) \<Rightarrow> (NPC_FMTERR, npc\<lparr> npc_nbuf := nb \<rparr>)
     | (Some ip6, nb) \<Rightarrow>
         let npc = npc\<lparr> npc_nbuf := nb, npc_proto := unat (nb_data nb ! (ip6 + 6)), npc_hlen := 40 \<rparr>;
             off = nbuf_offset nb in
         (case cache_ip6_loop (length (nb_data nb) + 1) npc 40 False 0 of
            None \<Rightarrow> (NPC_FMTERR, npc)
          | Some (True, npc, flags) \<Rightarrow> (NPC_FMTERR, npc)
          | Some (False, npc, flags) \<Rightarrow>
              let nb = nbuf_reset (npc_nbuf npc); ip6 = nbuf_dataptr nb;
                  nb = (if off \<noteq> 0 then snd (nbuf_advance nb off 0) else nb) in
              (flags OR NPC_IP6,
               npc\<lparr> npc_nbuf := nb, npc_alen := 16, npc_ips := [ip6 + 8, ip6 + 24],
                    npc_ip := ip6 \<rparr>)))"

definition npf_cache_ip :: "npf_cache \<Rightarrow> u32 \<times> npf_cache" where
  "npf_cache_ip npc =
    (let nptr = nbuf_dataptr (npc_nbuf npc); ver = npc_data npc ! nptr in
     if drop_bit 4 ver = 4 then cache_ip4 npc
     else if drop_bit 4 ver = 6 then cache_ip6 npc
     else (0, npc))"

section \<open>Layer 4\<close>

definition npf_cache_tcp :: "npf_cache \<Rightarrow> nat \<Rightarrow> u32 \<times> npf_cache" where
  "npf_cache_tcp npc hlen =
    (case nbuf_advance (npc_nbuf npc) hlen 20 of
       (None, nb) \<Rightarrow> (NPC_FMTERR, npc\<lparr> npc_nbuf := nb \<rparr>)
     | (Some th, nb) \<Rightarrow>
         let npc = npc\<lparr> npc_nbuf := nb \<rparr> in
         if drop_bit 4 (nb_data nb ! (th + 12)) < 5 then (NPC_FMTERR, npc)
         else (NPC_LAYER4 OR NPC_TCP, npc\<lparr> npc_l4 := Some th \<rparr>))"

text \<open>The cases of UDP, ICMPv4 and ICMPv6: an 8-byte header; a failed advance is NULL.\<close>

definition cache_l4_hdr :: "npf_cache \<Rightarrow> nat \<Rightarrow> u32 \<Rightarrow> u32 \<times> npf_cache" where
  "cache_l4_hdr npc hlen l4flags =
     (let (hdr, nb) = nbuf_advance (npc_nbuf npc) hlen 8 in
      (l4flags, npc\<lparr> npc_l4 := hdr, npc_nbuf := nb \<rparr>))"

definition cache_l4 :: "npf_cache \<Rightarrow> u32 \<times> npf_cache" where
  "cache_l4 npc =
    (let hlen = npc_hlen npc; proto = npc_proto npc in
     if proto = IPPROTO_TCP then npf_cache_tcp npc hlen
     else if proto = IPPROTO_UDP then cache_l4_hdr npc hlen (NPC_LAYER4 OR NPC_UDP)
     else if proto = IPPROTO_ICMP then cache_l4_hdr npc hlen (NPC_LAYER4 OR NPC_ICMP)
     else if proto = IPPROTO_ICMPV6 then cache_l4_hdr npc hlen (NPC_LAYER4 OR NPC_ICMP)
     else (0, npc))"

definition npc_unset_reset :: "npf_cache \<Rightarrow> npf_cache" where
  "npc_unset_reset npc = npc\<lparr> npc_nbuf := nbuf_unset_flag (npc_nbuf npc) NBUF_DATAREF_RESET \<rparr>"

text \<open>\<open>npf_cache_all\<close> from its label \<open>again\<close>; each turn takes one unit of fuel.\<close>

fun cache_again :: "nat \<Rightarrow> npf_cache \<Rightarrow> (u32 \<times> npf_cache) option" where
  "cache_again 0 npc = None"
| "cache_again (Suc fuel) npc =
    (let (flags, npc) = npf_cache_ip (npc_unset_reset npc);
         out = (\<lambda>flags npc. let npc = npc_unset_reset npc in
                  (flags, npc\<lparr> npc_info := npc_info npc OR flags \<rparr>)) in
     if flags AND NPC_IP46 = 0 \<or> flags AND NPC_IPFRAG \<noteq> 0 \<or> flags AND NPC_FMTERR \<noteq> 0 then
       Some (out flags npc)
     else
       let (l4flags, npc) = cache_l4 npc in
       if l4flags \<noteq> 0 \<and> npc_l4 npc = None then Some (out NPC_FMTERR npc)
       else if nbuf_flag_p (npc_nbuf npc) NBUF_DATAREF_RESET then cache_again fuel npc
       else Some (flags OR l4flags, npc\<lparr> npc_info := npc_info npc OR (flags OR l4flags) \<rparr>))"

definition npf_cache_all :: "npf_cache \<Rightarrow> u32 \<times> npf_cache" where
  "npf_cache_all npc =
     (case cache_again (2 * length (npc_data npc) + 1) npc of
        Some r \<Rightarrow> r | None \<Rightarrow> (NPC_FMTERR, npc))"

definition npf_recache :: "npf_cache \<Rightarrow> npf_cache" where
  "npf_recache npc =
     snd (npf_cache_all (npc\<lparr> npc_nbuf := nbuf_reset (npc_nbuf npc), npc_info := 0 \<rparr>))"

section \<open>Facts about parsing\<close>

definition npc_ok :: "npf_cache \<Rightarrow> bool" where
  "npc_ok npc \<longleftrightarrow> nbuf_wf (npc_nbuf npc) \<and> mbufops_ok (nb_mops (npc_nbuf npc))"

text \<open>The layer 3 fields lie inside the packet and belong together.\<close>

definition npc_l3_ok :: "npf_cache \<Rightarrow> u32 \<Rightarrow> bool" where
  "npc_l3_ok npc flags \<longleftrightarrow>
     (if flags AND NPC_IP4 \<noteq> 0 then
        npc_alen npc = 4 \<and> npc_ips npc = [npc_ip npc + 12, npc_ip npc + 16] \<and>
        20 \<le> npc_hlen npc \<and> npc_ip npc + npc_hlen npc \<le> length (npc_data npc)
      else
        npc_alen npc = 16 \<and> npc_ips npc = [npc_ip npc + 8, npc_ip npc + 24] \<and>
        40 \<le> npc_hlen npc \<and> npc_ip npc + 40 \<le> length (npc_data npc))"

lemma npc_ok_keep:
  "npc_ok npc \<Longrightarrow> nbuf_keep (npc_nbuf npc) nb \<Longrightarrow> npc_nbuf npc' = nb \<Longrightarrow> npc_ok npc'"
  by (simp add: npc_ok_def nbuf_keep_def)

lemma npc_ok_ensure:
  assumes "npc_ok npc" "nbuf_ensure_contig (npc_nbuf npc) len = (r, nb)"
  shows "nbuf_keep (npc_nbuf npc) nb \<and> nbuf_offset nb = nbuf_offset (npc_nbuf npc) \<and>
    (\<forall>p. r = Some p \<longrightarrow> p = nbuf_offset (npc_nbuf npc) \<and> nbuf_at (npc_nbuf npc) p len nb)"
  using nbuf_ensure_contig_spec assms unfolding npc_ok_def by blast

lemma npc_ok_advance:
  assumes "npc_ok npc" "nbuf_advance (npc_nbuf npc) len ensure = (r, nb)"
  shows "nbuf_keep (npc_nbuf npc) nb \<and>
    (nb = npc_nbuf npc \<or> nbuf_offset nb = nbuf_offset (npc_nbuf npc) + len) \<and>
    (\<forall>p. r = Some p \<longrightarrow>
       p = nbuf_offset (npc_nbuf npc) + len \<and> nbuf_at (npc_nbuf npc) p ensure nb)"
  using nbuf_advance_spec assms unfolding npc_ok_def by blast

lemma nbuf_at_prog: "nbuf_at nb p len nb' \<Longrightarrow> nbuf_prog nb nb'"
  by (simp add: nbuf_at_def)

lemma nbuf_prog_keep: "nbuf_prog nb nb' \<Longrightarrow> nbuf_keep nb nb'"
  by (simp add: nbuf_prog_def)

lemma nbuf_prog_data: "nbuf_prog nb nb' \<Longrightarrow> nb_data nb' = nb_data nb"
  by (simp add: nbuf_prog_def nbuf_keep_def)

text \<open>What parsing the layer 3 header leaves alone.\<close>

definition npc_frame :: "npf_cache \<Rightarrow> npf_cache \<Rightarrow> bool" where
  "npc_frame npc npc' \<longleftrightarrow>
     nbuf_keep (npc_nbuf npc) (npc_nbuf npc') \<and> npc_l4 npc' = npc_l4 npc \<and>
     npc_ctx npc' = npc_ctx npc \<and> npc_info npc' = npc_info npc \<and> npc_ckey npc' = npc_ckey npc"

lemma npc_frame_trans: "npc_frame a b \<Longrightarrow> npc_frame b c \<Longrightarrow> npc_frame a c"
  using nbuf_keep_trans by (auto simp: npc_frame_def)

lemma npc_frame_nbuf: "nbuf_keep (npc_nbuf npc) nb \<Longrightarrow> npc_frame npc (npc\<lparr> npc_nbuf := nb \<rparr>)"
  by (simp add: npc_frame_def)

lemma cache_ip4_spec:
  assumes ok: "npc_ok npc" and r: "cache_ip4 npc = (flags, npc')"
  shows "npc_frame npc npc' \<and>
    (flags = NPC_FMTERR \<or>
     (flags = NPC_IP4 \<or> flags = NPC_IP4 OR NPC_IPFRAG) \<and>
     nbuf_prog (npc_nbuf npc) (npc_nbuf npc') \<and>
     nbuf_offset (npc_nbuf npc') = nbuf_offset (npc_nbuf npc) \<and> npc_l3_ok npc' flags)"
proof -
  obtain r1 nb1 where e1: "nbuf_ensure_contig (npc_nbuf npc) 20 = (r1, nb1)" by force
  note s1 = npc_ok_ensure [OF ok e1]
  show ?thesis
  proof (cases r1)
    case None
    then show ?thesis using r e1 s1 by (auto simp: cache_ip4_def npc_frame_def)
  next
    case (Some ip)
    let ?hl = "unat (nb_data nb1 ! ip AND 0x0f)" and ?npc = "npc\<lparr> npc_nbuf := nb1 \<rparr>"
    have ok1: "npc_ok ?npc" using npc_ok_keep [OF ok, of nb1 ?npc] s1 by simp
    obtain r2 nb2 where e2: "nbuf_ensure_contig nb1 (?hl * 4) = (r2, nb2)" by force
    have s2: "nbuf_keep nb1 nb2" "nbuf_offset nb2 = nbuf_offset nb1"
      "\<forall>p. r2 = Some p \<longrightarrow> p = nbuf_offset nb1 \<and> nbuf_at nb1 p (?hl * 4) nb2"
      using npc_ok_ensure [OF ok1, of "?hl * 4" r2 nb2] e2 by simp_all
    show ?thesis
    proof (cases "?hl * 4 < 20 \<or> ?hl \<noteq> 5 \<and> npc_ctx npc VP_ip4_drop_options \<noteq> 0 \<or> r2 = None")
      case True
      then show ?thesis
        using r e1 Some e2 s1 s2 nbuf_keep_trans [of "npc_nbuf npc" nb1 nb2]
        by (auto simp: cache_ip4_def Let_def npc_frame_def split: if_splits)
    next
      case False
      then obtain p where p: "r2 = Some p" by auto
      have pr: "nbuf_prog (npc_nbuf npc) nb2" "nb_data nb2 = nb_data nb1" "p = ip"
        using s1 s2 Some p nbuf_prog_trans [of "npc_nbuf npc" nb1 nb2]
        by (auto simp: nbuf_at_def dest: nbuf_prog_data)
      show ?thesis
        using r e1 Some e2 p False pr s1 s2 nbuf_prog_keep [OF pr(1)]
        by (auto simp: cache_ip4_def Let_def npc_l3_ok_def nbuf_at_def npc_frame_def split: if_splits)
    qed
  qed
qed

text \<open>
  The extension header loop: with fuel above the bytes left it returns, since every turn
  advances the cursor; its result keeps the buffer.
\<close>

definition ip6_result :: "npf_cache \<Rightarrow> u32 \<Rightarrow> (bool \<times> npf_cache \<times> u32) option \<Rightarrow> bool" where
  "ip6_result npc flags r \<longleftrightarrow>
     (case r of None \<Rightarrow> False
      | Some (err, npc', flags') \<Rightarrow>
          npc_frame npc npc' \<and>
          (err \<or> nbuf_prog (npc_nbuf npc) (npc_nbuf npc') \<and> 40 \<le> npc_hlen npc' \<and>
             (flags' = flags \<or> flags' = flags OR NPC_IPFRAG)))"

lemma ip6_result_trans:
  "nbuf_prog (npc_nbuf npc) (npc_nbuf npc2) \<Longrightarrow> npc_frame npc npc2 \<Longrightarrow>
   ip6_result npc2 flags r \<Longrightarrow> ip6_result npc flags r"
  unfolding ip6_result_def
  using npc_frame_trans [of npc npc2] nbuf_prog_trans [of "npc_nbuf npc" "npc_nbuf npc2"]
  by (auto split: option.splits prod.splits)

lemma cache_ip6_loop_spec:
  assumes "npc_ok npc" "0 < hlen" "length (npc_data npc) < fuel + nbuf_offset (npc_nbuf npc)"
    "40 \<le> npc_hlen npc"
  shows "ip6_result npc flags (cache_ip6_loop fuel npc hlen frag flags)"
  using assms
proof (induction fuel arbitrary: npc hlen frag)
  case 0
  then show ?case using nbuf_wf_offset [of "npc_nbuf npc"] by (simp add: npc_ok_def)
next
  case (Suc fuel)
  let ?nb = "npc_nbuf npc"
  obtain r nb where a: "nbuf_advance ?nb hlen 2 = (r, nb)" by force
  note sa = npc_ok_advance [OF Suc.prems(1) a]
  show ?case
  proof (cases r)
    case None
    then show ?thesis using a sa by (simp add: ip6_result_def npc_frame_nbuf)
  next
    case (Some p)
    let ?npc = "npc\<lparr> npc_nbuf := nb \<rparr>"
    have ok: "npc_ok ?npc" using npc_ok_keep [OF Suc.prems(1), of nb ?npc] sa by simp
    have pr: "nbuf_prog ?nb nb" and off: "nbuf_offset nb = nbuf_offset ?nb + hlen"
      using sa Some by (auto simp: nbuf_at_def)
    obtain r2 nb2 where e: "nbuf_ensure_contig nb 8 = (r2, nb2)" by force
    have se: "nbuf_keep nb nb2" "nbuf_offset nb2 = nbuf_offset nb"
      "\<forall>q. r2 = Some q \<longrightarrow> q = nbuf_offset nb \<and> nbuf_at nb q 8 nb2"
      using npc_ok_ensure [OF ok, of 8 r2 nb2] e by simp_all
    have keep2: "nbuf_keep ?nb nb2" using pr se nbuf_keep_trans nbuf_prog_keep by blast
    have pr2: "nbuf_prog ?nb nb2" if "r2 = Some q" for q
      using that se pr nbuf_prog_trans nbuf_at_prog by blast
    have rec: "ip6_result npc flags (cache_ip6_loop fuel npc2 h fr flags)"
      if "nbuf_prog ?nb (npc_nbuf npc2)" "nbuf_offset (npc_nbuf npc2) = nbuf_offset nb" "0 < h"
        "npc_frame npc npc2" "40 \<le> npc_hlen npc2" for npc2 h fr
    proof (rule ip6_result_trans [OF that(1,4)])
      have "npc_ok npc2"
        using npc_ok_keep [OF Suc.prems(1) nbuf_prog_keep [OF that(1)]] by simp
      moreover have "length (npc_data npc2) < fuel + nbuf_offset (npc_nbuf npc2)"
        using Suc.prems(2,3) off that(2) nbuf_prog_data [OF that(1)] by simp
      ultimately show "ip6_result npc2 flags (cache_ip6_loop fuel npc2 h fr flags)"
        using Suc.IH that(3,5) by blast
    qed
    show ?thesis
      using a Some e Suc.prems(4) pr pr2 keep2 se(2) nbuf_prog_keep [OF pr]
      by (simp add: Let_def rec npc_frame_def ip6_result_def [of npc flags "Some _"]
        split: option.split)
  qed
qed

text \<open>Restoring the cursor at an offset inside the packet.\<close>

lemma nbuf_restore:
  assumes wf: "nbuf_wf nb" and ok: "mbufops_ok (nb_mops nb)" and off: "off < length (nb_data nb)"
  shows "nbuf_prog nb (if off \<noteq> 0 then snd (nbuf_advance (nbuf_reset nb) off 0) else nbuf_reset nb) \<and>
    nbuf_offset (if off \<noteq> 0 then snd (nbuf_advance (nbuf_reset nb) off 0) else nbuf_reset nb) = off"
proof (cases "off = 0")
  case False
  let ?nb = "nbuf_reset nb"
  obtain r nb' where a: "nbuf_advance ?nb off 0 = (r, nb')" by force
  have wf': "nbuf_wf ?nb" using wf by simp
  have "r \<noteq> None"
    using nbuf_advance_None [OF wf', of off] a off by simp
  then have "nbuf_prog ?nb nb' \<and> nbuf_offset nb' = off"
    using nbuf_advance_spec [OF wf' _ a] ok by (auto simp: nbuf_at_def)
  then show ?thesis
    using False a nbuf_prog_trans [OF nbuf_prog_reset [OF wf]] by simp
qed (simp add: wf nbuf_prog_reset)

lemma cache_ip6_spec:
  assumes ok: "npc_ok npc" and r: "cache_ip6 npc = (flags, npc')"
  shows "npc_frame npc npc' \<and>
    (flags = NPC_FMTERR \<or>
     (flags = NPC_IP6 \<or> flags = NPC_IP6 OR NPC_IPFRAG) \<and>
     nbuf_prog (npc_nbuf npc) (npc_nbuf npc') \<and>
     nbuf_offset (npc_nbuf npc') = nbuf_offset (npc_nbuf npc) \<and> npc_l3_ok npc' flags)"
proof -
  obtain r1 nb1 where e1: "nbuf_ensure_contig (npc_nbuf npc) 40 = (r1, nb1)" by force
  note s1 = npc_ok_ensure [OF ok e1]
  show ?thesis
  proof (cases r1)
    case None
    then show ?thesis using r e1 s1 by (auto simp: cache_ip6_def npc_frame_def)
  next
    case (Some ip6)
    let ?npc = "npc\<lparr> npc_nbuf := nb1, npc_proto := unat (nb_data nb1 ! (ip6 + 6)), npc_hlen := 40 \<rparr>"
    have ok1: "npc_ok ?npc" using npc_ok_keep [OF ok, of nb1 ?npc] s1 by simp
    have pr1: "nbuf_prog (npc_nbuf npc) nb1" "ip6 + 40 \<le> length (nb_data nb1)"
      "nbuf_offset nb1 = nbuf_offset (npc_nbuf npc)"
      using s1 Some by (auto simp: nbuf_at_def nbuf_prog_data)
    have "ip6_result ?npc 0 (cache_ip6_loop (length (nb_data nb1) + 1) ?npc 40 False 0)"
      using ok1 by (intro cache_ip6_loop_spec) simp_all
    then obtain err npc2 fl where
      l: "cache_ip6_loop (length (nb_data nb1) + 1) ?npc 40 False 0 = Some (err, npc2, fl)" and
      k: "nbuf_keep nb1 (npc_nbuf npc2)" "npc_frame ?npc npc2" and
      g: "err \<or> nbuf_prog nb1 (npc_nbuf npc2) \<and> 40 \<le> npc_hlen npc2 \<and> (fl = 0 \<or> fl = NPC_IPFRAG)"
      by (auto simp: ip6_result_def npc_frame_def split: option.splits prod.splits)
    let ?nb2 = "npc_nbuf npc2" and ?off = "nbuf_offset nb1"
    have "?off < length (nb_data ?nb2)"
      using nbuf_wf_offset [of nb1] ok1 k(1) by (simp add: npc_ok_def nbuf_keep_def)
    then have rs: "nbuf_prog ?nb2 (if ?off \<noteq> 0 then snd (nbuf_advance (nbuf_reset ?nb2) ?off 0) else nbuf_reset ?nb2)"
      "nbuf_offset (if ?off \<noteq> 0 then snd (nbuf_advance (nbuf_reset ?nb2) ?off 0) else nbuf_reset ?nb2) = ?off"
      using nbuf_restore [of ?nb2 ?off] k(1) ok1 by (simp_all only: npc_ok_def nbuf_keep_def) simp_all
    show ?thesis
    proof (cases err)
      case True
      then show ?thesis
        using r e1 Some l k nbuf_keep_trans [OF nbuf_prog_keep [OF pr1(1)] k(1)]
        by (simp add: cache_ip6_def Let_def npc_frame_def)
    next
      case False
      then have "nbuf_prog (npc_nbuf npc) (if ?off \<noteq> 0 then snd (nbuf_advance (nbuf_reset ?nb2) ?off 0) else nbuf_reset ?nb2)"
        using g nbuf_prog_trans [OF pr1(1)] nbuf_prog_trans rs(1) by blast
      moreover have "flags = fl OR NPC_IP6" "npc' = npc2\<lparr>
          npc_nbuf := (if ?off \<noteq> 0 then snd (nbuf_advance (nbuf_reset ?nb2) ?off 0) else nbuf_reset ?nb2),
          npc_alen := 16, npc_ips := [8, 24], npc_ip := 0 \<rparr>"
        using False r e1 Some l by (simp_all add: cache_ip6_def Let_def nbuf_dataptr_def)
      ultimately show ?thesis
        using False g k rs(2) pr1 nbuf_prog_keep nbuf_prog_data [OF pr1(1)]
        by (auto simp: npc_l3_ok_def npc_frame_def dest: nbuf_prog_data)
    qed
  qed
qed

lemma npf_cache_ip_spec:
  assumes "npc_ok npc" "npf_cache_ip npc = (flags, npc')"
  shows "npc_frame npc npc' \<and>
    (flags = NPC_FMTERR \<or>
     flags \<in> {0, NPC_IP4, NPC_IP4 OR NPC_IPFRAG, NPC_IP6, NPC_IP6 OR NPC_IPFRAG} \<and>
     nbuf_prog (npc_nbuf npc) (npc_nbuf npc') \<and>
     nbuf_offset (npc_nbuf npc') = nbuf_offset (npc_nbuf npc) \<and>
     (flags \<noteq> 0 \<longrightarrow> npc_l3_ok npc' flags))"
proof -
  let ?ver = "drop_bit 4 (npc_data npc ! nbuf_dataptr (npc_nbuf npc))"
  consider "?ver = 4" | "?ver = 6" | "?ver \<noteq> 4" "?ver \<noteq> 6" by blast
  then show ?thesis
  proof cases
    case 1
    then have "cache_ip4 npc = (flags, npc')" using assms(2) by (simp add: npf_cache_ip_def Let_def)
    from cache_ip4_spec [OF assms(1) this] show ?thesis by auto
  next
    case 2
    then have "cache_ip6 npc = (flags, npc')" using assms(2) by (simp add: npf_cache_ip_def Let_def)
    from cache_ip6_spec [OF assms(1) this] show ?thesis by auto
  next
    case 3
    then have "flags = 0" "npc' = npc" using assms(2) by (simp_all add: npf_cache_ip_def Let_def)
    then show ?thesis
      using assms(1) by (simp add: npc_frame_def npc_ok_def nbuf_keep_refl nbuf_prog_refl)
  qed
qed

text \<open>Layer 4: the flags, and for each header its place inside the packet.\<close>

definition npc_l4_ok :: "npf_cache \<Rightarrow> u32 \<Rightarrow> bool" where
  "npc_l4_ok npc flags \<longleftrightarrow>
     (case npc_l4 npc of None \<Rightarrow> False
      | Some p \<Rightarrow> p + (if flags AND NPC_TCP \<noteq> 0 then 20 else 8) \<le> length (npc_data npc) \<and>
          (flags AND NPC_TCP \<noteq> 0 \<longrightarrow> 5 \<le> drop_bit 4 (npc_data npc ! (p + 12))))"

lemma cache_l4_spec:
  assumes ok: "npc_ok npc" and r: "cache_l4 npc = (l4flags, npc')"
  shows "npc_frame npc (npc'\<lparr> npc_l4 := npc_l4 npc \<rparr>) \<and>
    (npc_nbuf npc' = npc_nbuf npc \<or>
     nbuf_offset (npc_nbuf npc') = nbuf_offset (npc_nbuf npc) + npc_hlen npc) \<and>
    npc_alen npc' = npc_alen npc \<and> npc_ips npc' = npc_ips npc \<and> npc_hlen npc' = npc_hlen npc \<and>
    npc_ip npc' = npc_ip npc \<and>
    l4flags \<in> {0, NPC_FMTERR, NPC_LAYER4 OR NPC_TCP, NPC_LAYER4 OR NPC_UDP, NPC_LAYER4 OR NPC_ICMP} \<and>
    (l4flags AND NPC_LAYER4 \<noteq> 0 \<longrightarrow> npc_l4 npc' \<noteq> None \<longrightarrow> npc_l4_ok npc' l4flags)"
proof -
  let ?hlen = "npc_hlen npc"
  obtain r1 nb1 where a1: "nbuf_advance (npc_nbuf npc) ?hlen 20 = (r1, nb1)" by force
  obtain r2 nb2 where a2: "nbuf_advance (npc_nbuf npc) ?hlen 8 = (r2, nb2)" by force
  note s1 = npc_ok_advance [OF ok a1] and s2 = npc_ok_advance [OF ok a2]
  show ?thesis
  proof (cases "npc_proto npc = IPPROTO_TCP")
    case True
    then have "npf_cache_tcp npc ?hlen = (l4flags, npc')" using r by (simp add: cache_l4_def Let_def)
    then show ?thesis
      using a1 s1 by (cases r1) (auto simp: npf_cache_tcp_def Let_def npc_frame_def npc_l4_ok_def
        nbuf_at_def not_less dest: nbuf_prog_data split: if_splits)
  next
    case False
    show ?thesis
    proof (cases "npc_proto npc \<in> {IPPROTO_UDP, IPPROTO_ICMP, IPPROTO_ICMPV6}")
      case True
      then have fl: "l4flags = NPC_LAYER4 OR NPC_UDP \<or> l4flags = NPC_LAYER4 OR NPC_ICMP"
        and npc': "npc' = npc\<lparr> npc_l4 := r2, npc_nbuf := nb2 \<rparr>"
        using r a2 by (auto simp: cache_l4_def Let_def cache_l4_hdr_def)
      have "npc_l4_ok npc' l4flags" if "r2 = Some p" for p
        using that s2 fl npc' by (auto simp: npc_l4_ok_def nbuf_at_def dest!: nbuf_prog_data)
      then show ?thesis
        using s2 fl npc' by (cases r2) (auto simp: npc_frame_def)
    next
      case notl4: False
      then show ?thesis
        using r False ok by (auto simp: cache_l4_def Let_def npc_frame_def npc_ok_def nbuf_keep_refl)
    qed
  qed
qed

section \<open>The retry loop\<close>

text \<open>
  A turn that marks the references stale makes the head buffer longer or moves the cursor
  forward, so that this bound decreases.
\<close>

definition again_bound :: "npf_cache \<Rightarrow> nat" where
  "again_bound npc =
     (length (npc_data npc) - nb_segs (npc_nbuf npc) ! 0) +
     (length (npc_data npc) - nbuf_offset (npc_nbuf npc))"

text \<open>What is known of the result of \<open>npf_cache_all\<close>.\<close>

definition npc_cached_ok :: "npf_cache \<Rightarrow> u32 \<Rightarrow> npf_cache \<Rightarrow> bool" where
  "npc_cached_ok npc flags npc' \<longleftrightarrow>
     nbuf_keep (npc_nbuf npc) (npc_nbuf npc') \<and> npc_ctx npc' = npc_ctx npc \<and>
     npc_ckey npc' = npc_ckey npc \<and> npc_info npc' = npc_info npc OR flags \<and>
     (flags AND NPC_FMTERR = 0 \<longrightarrow> flags AND NPC_IP46 \<noteq> 0 \<longrightarrow> npc_l3_ok npc' flags) \<and>
     (flags AND NPC_FMTERR = 0 \<longrightarrow> flags AND NPC_LAYER4 \<noteq> 0 \<longrightarrow> npc_l4_ok npc' flags)"

lemma nbuf_keep_unset:
  "nbuf_keep nb (nbuf_unset_flag nb' flag) \<longleftrightarrow> nbuf_keep nb nb'"
  "nbuf_keep (nbuf_unset_flag nb flag) nb' \<longleftrightarrow> nbuf_keep nb nb'"
  "nbuf_offset (nbuf_unset_flag nb flag) = nbuf_offset nb"
  "nbuf_wf (nbuf_unset_flag nb flag) \<longleftrightarrow> nbuf_wf nb"
  "nb_segs (nbuf_unset_flag nb flag) = nb_segs nb"
  "nb_data (nbuf_unset_flag nb flag) = nb_data nb"
  "nb_mops (nbuf_unset_flag nb flag) = nb_mops nb"
  by (simp_all add: nbuf_keep_def nbuf_unset_flag_def nbuf_wf_def nbuf_offset_def)

lemma nbuf_flag_unset [simp]: "\<not> nbuf_flag_p (nbuf_unset_flag nb flag) flag"
  by (simp add: nbuf_flag_p_def nbuf_unset_flag_def and.assoc)

lemma npc_unset_simps [simp]:
  "npc_nbuf (npc_unset_reset npc) = nbuf_unset_flag (npc_nbuf npc) NBUF_DATAREF_RESET"
  "npc_ctx (npc_unset_reset npc) = npc_ctx npc" "npc_info (npc_unset_reset npc) = npc_info npc"
  "npc_ckey (npc_unset_reset npc) = npc_ckey npc" "npc_l4 (npc_unset_reset npc) = npc_l4 npc"
  by (simp_all add: npc_unset_reset_def)

lemma npc_ok_unset [simp]: "npc_ok (npc_unset_reset npc) \<longleftrightarrow> npc_ok npc"
  by (simp add: npc_ok_def nbuf_keep_unset)

lemma npc_layer_unset [simp]:
  "npc_l3_ok (npc_unset_reset npc) flags = npc_l3_ok npc flags"
  "npc_l3_ok (npc\<lparr> npc_info := i \<rparr>) flags = npc_l3_ok npc flags"
  "npc_l4_ok (npc\<lparr> npc_info := i \<rparr>) flags = npc_l4_ok npc flags"
  by (simp_all add: npc_l3_ok_def npc_l4_ok_def npc_unset_reset_def nbuf_keep_unset
    split: option.split)

lemma npc_cached_ok_trans:
  "nbuf_keep (npc_nbuf npc) (npc_nbuf npc2) \<Longrightarrow> npc_ctx npc2 = npc_ctx npc \<Longrightarrow>
   npc_ckey npc2 = npc_ckey npc \<Longrightarrow> npc_info npc2 = npc_info npc \<Longrightarrow>
   npc_cached_ok npc2 flags npc' \<Longrightarrow> npc_cached_ok npc flags npc'"
  using nbuf_keep_trans [of "npc_nbuf npc" "npc_nbuf npc2"] by (simp add: npc_cached_ok_def)

lemma npc_cached_ok_l3:
  assumes "npc_ok npc" "npf_cache_ip (npc_unset_reset npc) = (flags, npc1)"
  shows "npc_cached_ok npc flags
    (npc_unset_reset npc1\<lparr> npc_info := npc_info npc1 OR flags \<rparr>)"
proof -
  have s: "npc_frame (npc_unset_reset npc) npc1"
    "flags = NPC_FMTERR \<or>
     flags \<in> {0, NPC_IP4, NPC_IP4 OR NPC_IPFRAG, NPC_IP6, NPC_IP6 OR NPC_IPFRAG} \<and>
     (flags \<noteq> 0 \<longrightarrow> npc_l3_ok npc1 flags)"
    using npf_cache_ip_spec [OF _ assms(2)] assms(1) by auto
  then have "flags AND NPC_LAYER4 = 0" by auto
  moreover have "flags AND NPC_FMTERR = 0 \<longrightarrow> flags AND NPC_IP46 \<noteq> 0 \<longrightarrow> npc_l3_ok npc1 flags"
    using s(2) by auto
  ultimately show ?thesis
    using s(1) by (simp add: npc_cached_ok_def npc_frame_def nbuf_keep_unset)
qed

text \<open>A turn that ends in an error at layer 4, and one that succeeds.\<close>

lemma npc_cached_ok_err:
  "nbuf_keep (npc_nbuf npc) (npc_nbuf npc2) \<Longrightarrow> npc_ctx npc2 = npc_ctx npc \<Longrightarrow>
   npc_ckey npc2 = npc_ckey npc \<Longrightarrow> npc_info npc2 = npc_info npc \<Longrightarrow>
   npc_cached_ok npc NPC_FMTERR (npc_unset_reset npc2\<lparr> npc_info := npc_info npc2 OR NPC_FMTERR \<rparr>)"
  by (simp add: npc_cached_ok_def nbuf_keep_unset)

lemma npc_l3_ok_flags:
  "npc_l3_ok npc flags \<Longrightarrow> flags AND NPC_IP4 = flags' AND NPC_IP4 \<Longrightarrow> npc_alen npc' = npc_alen npc \<Longrightarrow>
   npc_ips npc' = npc_ips npc \<Longrightarrow> npc_hlen npc' = npc_hlen npc \<Longrightarrow> npc_ip npc' = npc_ip npc \<Longrightarrow>
   npc_data npc' = npc_data npc \<Longrightarrow> npc_l3_ok npc' flags'"
  by (simp add: npc_l3_ok_def)

lemma npc_l4_ok_flags:
  "npc_l4_ok npc flags \<Longrightarrow> flags AND NPC_TCP = flags' AND NPC_TCP \<Longrightarrow> npc_l4_ok npc flags'"
  by (auto simp: npc_l4_ok_def split: option.splits)

lemma again_bound_decreases:
  assumes "npc_ok npc" "nbuf_prog (nbuf_unset_flag (npc_nbuf npc) NBUF_DATAREF_RESET) nb1"
    "nbuf_offset nb1 = nbuf_offset (npc_nbuf npc)" "nbuf_keep nb1 (npc_nbuf npc2)"
    "npc_nbuf npc2 = nb1 \<or> nbuf_offset (npc_nbuf npc2) = nbuf_offset nb1 + hlen" "0 < hlen"
    "nbuf_flag_p (npc_nbuf npc2) NBUF_DATAREF_RESET"
  shows "again_bound npc2 < again_bound npc"
proof -
  let ?nb = "npc_nbuf npc" and ?nb2 = "npc_nbuf npc2"
  have keep: "nbuf_keep ?nb nb1" "nbuf_keep ?nb ?nb2"
    using assms(2,4) nbuf_keep_trans by (auto simp: nbuf_prog_def nbuf_keep_unset)
  then have d: "nb_data ?nb2 = nb_data ?nb" "nb_segs ?nb ! 0 \<le> nb_segs ?nb2 ! 0" "nbuf_wf ?nb2"
    by (simp_all add: nbuf_keep_def)
  have off: "nbuf_offset ?nb2 < length (nb_data ?nb)" using nbuf_wf_offset [OF d(3)] d(1) by simp
  have head: "nb_segs ?nb2 ! 0 \<le> length (nb_data ?nb)"
    using d(1,3) member_le_sum_list [of "nb_segs ?nb2 ! 0" "nb_segs ?nb2"]
    by (cases "nb_segs ?nb2") (auto simp: nbuf_wf_def)
  show ?thesis
  proof (cases "?nb2 = nb1")
    case True
    then have "nb_segs ?nb ! 0 < nb_segs ?nb2 ! 0"
      using assms(2,7) by (simp add: nbuf_prog_def nbuf_keep_unset)
    then show ?thesis using True assms(3) d head by (simp add: again_bound_def)
  next
    case False
    then show ?thesis using assms(3,5,6) d head off by (auto simp: again_bound_def)
  qed
qed

lemma npc_cached_ok_l4:
  assumes fr: "nbuf_keep (npc_nbuf npc) (npc_nbuf npc2)" "npc_ctx npc2 = npc_ctx npc"
      "npc_ckey npc2 = npc_ckey npc" "npc_info npc2 = npc_info npc"
    and c: "npc_ok npc1" "cache_l4 npc1 = (l4flags, npc2)"
    and fl: "flags = NPC_IP4 \<or> flags = NPC_IP6" and l3: "npc_l3_ok npc1 flags"
    and l4: "\<not> (l4flags \<noteq> 0 \<and> npc_l4 npc2 = None)"
  shows "npc_cached_ok npc (flags OR l4flags)
    (npc2\<lparr> npc_info := npc_info npc2 OR (flags OR l4flags) \<rparr>)"
proof -
  note s = cache_l4_spec [OF c]
  have d: "npc_data npc2 = npc_data npc1" using s by (simp add: npc_frame_def nbuf_keep_def)
  have set: "l4flags \<in> {0, NPC_FMTERR, NPC_LAYER4 OR NPC_TCP, NPC_LAYER4 OR NPC_UDP, NPC_LAYER4 OR NPC_ICMP}"
    using s by simp
  have "flags AND NPC_IP4 = (flags OR l4flags) AND NPC_IP4" using fl set by auto
  then have "npc_l3_ok npc2 (flags OR l4flags)"
    using s d by (intro npc_l3_ok_flags [OF l3]) simp_all
  moreover have "npc_l4_ok npc2 (flags OR l4flags)" if "(flags OR l4flags) AND NPC_LAYER4 \<noteq> 0"
  proof -
    have "l4flags AND NPC_LAYER4 \<noteq> 0" using that fl set by auto
    moreover from this have "l4flags \<noteq> 0" by auto
    ultimately have "npc_l4_ok npc2 l4flags" using s l4 by auto
    moreover have "l4flags AND NPC_TCP = (flags OR l4flags) AND NPC_TCP" using fl set by auto
    ultimately show ?thesis by (rule npc_l4_ok_flags)
  qed
  ultimately show ?thesis using fr by (simp add: npc_cached_ok_def)
qed

lemma cache_again_turn:
  assumes ok: "npc_ok npc"
  shows "(\<exists>flags npc'. (\<forall>fuel. cache_again (Suc fuel) npc = Some (flags, npc')) \<and>
            npc_cached_ok npc flags npc') \<or>
         (\<exists>npc2. (\<forall>fuel. cache_again (Suc fuel) npc = cache_again fuel npc2) \<and>
            nbuf_keep (npc_nbuf npc) (npc_nbuf npc2) \<and> npc_ctx npc2 = npc_ctx npc \<and>
            npc_ckey npc2 = npc_ckey npc \<and> npc_info npc2 = npc_info npc \<and>
            again_bound npc2 < again_bound npc)"
proof -
  let ?u = "npc_unset_reset npc"
  obtain flags npc1 where c1: "npf_cache_ip ?u = (flags, npc1)" by force
  obtain l4flags npc2 where c2: "cache_l4 npc1 = (l4flags, npc2)" by force
  have oku: "npc_ok ?u" using ok by simp
  note s1 = npf_cache_ip_spec [OF oku c1]
  have k1: "nbuf_keep (npc_nbuf npc) (npc_nbuf npc1)"
    using s1 by (simp add: npc_frame_def nbuf_keep_unset)
  have ok1: "npc_ok npc1" using npc_ok_keep [OF ok k1] by simp
  note s2 = cache_l4_spec [OF ok1 c2]
  have k2: "nbuf_keep (npc_nbuf npc1) (npc_nbuf npc2)" using s2 by (simp add: npc_frame_def)
  have fr: "nbuf_keep (npc_nbuf npc) (npc_nbuf npc2)" "npc_ctx npc2 = npc_ctx npc"
    "npc_ckey npc2 = npc_ckey npc" "npc_info npc2 = npc_info npc"
    using s1 s2 nbuf_keep_trans [OF k1 k2] by (simp_all add: npc_frame_def)
  show ?thesis
  proof (cases "flags AND NPC_IP46 = 0 \<or> flags AND NPC_IPFRAG \<noteq> 0 \<or> flags AND NPC_FMTERR \<noteq> 0")
    case True
    then show ?thesis
      using c1 npc_cached_ok_l3 [OF ok c1] by (intro disjI1) (simp add: Let_def)
  next
    case False
    then have fl: "flags = NPC_IP4 \<or> flags = NPC_IP6" and l3: "npc_l3_ok npc1 flags"
      and pr: "nbuf_prog (npc_nbuf ?u) (npc_nbuf npc1)"
        "nbuf_offset (npc_nbuf npc1) = nbuf_offset (npc_nbuf npc)"
      using s1 by (auto simp: nbuf_keep_unset)
    have hlen: "0 < npc_hlen npc1" using l3 by (auto simp: npc_l3_ok_def split: if_splits)
    consider "l4flags \<noteq> 0 \<and> npc_l4 npc2 = None"
      | "\<not> (l4flags \<noteq> 0 \<and> npc_l4 npc2 = None)" "nbuf_flag_p (npc_nbuf npc2) NBUF_DATAREF_RESET"
      | "\<not> (l4flags \<noteq> 0 \<and> npc_l4 npc2 = None)" "\<not> nbuf_flag_p (npc_nbuf npc2) NBUF_DATAREF_RESET"
      by blast
    then show ?thesis
    proof cases
      case 1
      then show ?thesis
        using c1 c2 False npc_cached_ok_err [OF fr] by (intro disjI1) (simp add: Let_def)
    next
      case 2
      have "again_bound npc2 < again_bound npc"
        using s2 pr by (intro again_bound_decreases [OF ok _ _ k2 _ hlen 2(2)]) simp_all
      then show ?thesis
        using c1 c2 False 2 fr by (intro disjI2) (auto simp: Let_def)
    next
      case 3
      have "npc_cached_ok npc (flags OR l4flags)
          (npc2\<lparr> npc_info := npc_info npc2 OR (flags OR l4flags) \<rparr>)"
        by (rule npc_cached_ok_l4 [OF fr ok1 c2 fl l3 3(1)])
      then show ?thesis
        using c1 c2 False 3 by (intro disjI1) (auto simp: Let_def)
    qed
  qed
qed

lemma cache_again_spec:
  "npc_ok npc \<Longrightarrow> again_bound npc < fuel \<Longrightarrow>
   \<exists>flags npc'. cache_again fuel npc = Some (flags, npc') \<and> npc_cached_ok npc flags npc'"
proof (induction fuel arbitrary: npc)
  case (Suc fuel)
  from cache_again_turn [OF Suc.prems(1)] show ?case
  proof
    assume "\<exists>npc2. (\<forall>fuel. cache_again (Suc fuel) npc = cache_again fuel npc2) \<and>
            nbuf_keep (npc_nbuf npc) (npc_nbuf npc2) \<and> npc_ctx npc2 = npc_ctx npc \<and>
            npc_ckey npc2 = npc_ckey npc \<and> npc_info npc2 = npc_info npc \<and>
            again_bound npc2 < again_bound npc"
    then obtain npc2 where n: "cache_again (Suc fuel) npc = cache_again fuel npc2"
        "nbuf_keep (npc_nbuf npc) (npc_nbuf npc2)" "npc_ctx npc2 = npc_ctx npc"
        "npc_ckey npc2 = npc_ckey npc" "npc_info npc2 = npc_info npc"
        "again_bound npc2 < again_bound npc"
      by blast
    have "npc_ok npc2" using npc_ok_keep [OF Suc.prems(1) n(2)] by simp
    with n Suc.IH [of npc2] Suc.prems(2) show ?case
      using npc_cached_ok_trans [OF n(2-5)] by auto
  qed blast
qed simp

text \<open>For a well-formed buffer the bound is below the fuel of \<open>npf_cache_all\<close>.\<close>

lemma npf_cache_all_spec:
  assumes "npc_ok npc"
  shows "\<exists>flags npc'. cache_again (2 * length (npc_data npc) + 1) npc = Some (flags, npc') \<and>
    npf_cache_all npc = (flags, npc') \<and> npc_cached_ok npc flags npc'"
proof -
  have "again_bound npc < 2 * length (npc_data npc) + 1" by (simp add: again_bound_def)
  from cache_again_spec [OF assms this] show ?thesis by (auto simp: npf_cache_all_def)
qed

section \<open>Example packets\<close>

text \<open>
  An IPv4 packet with a TCP header and no data, from 10.0.0.1 port 12345 to 192.168.1.2
  port 80; the TCP flags and the last bytes of the sequence and acknowledgement numbers
  are arguments.
\<close>

definition ex_packet :: "u8 \<Rightarrow> u8 \<Rightarrow> u8 \<Rightarrow> u8 list" where
  "ex_packet fl seq ack =
     [0x45, 0, 0, 40, 0, 1, 0, 0, 64, 6, 0xaf, 0x24, 10, 0, 0, 1, 192, 168, 1, 2,
      0x30, 0x39, 0, 80, 0, 0, 1, seq, 0, 0, 2, ack, 0x50, fl, 0x20, 0, 0, 0, 0, 0]"

definition ex_params :: param_store where
  "ex_params = (\<lambda>_. 0)(VP_tcp_max_ack_win := 66000, VP_tcp_strict_order_rst := 1)"

definition ex_npc :: "u8 list \<Rightarrow> nat list \<Rightarrow> npf_cache" where
  "ex_npc data segs = \<lparr>
     npc_ctx = ex_params, npc_info = 0, npc_nbuf = nbuf_init pullup_mops data segs None 1 0,
     npc_ips = [], npc_alen = 0, npc_hlen = 0, npc_proto = 0, npc_ip = 0, npc_l4 = None,
     npc_ckey = None \<rparr>"

lemma ex_npc_ok:
  "sum_list segs = length data \<Longrightarrow> segs \<noteq> [] \<Longrightarrow> 0 < segs ! 0 \<Longrightarrow> npc_ok (ex_npc data segs)"
  by (simp add: npc_ok_def ex_npc_def nbuf_wf_def nbuf_init_def nbuf_reset_def pullup_mops_ok)

section \<open>Properties\<close>

text \<open>
  C12: parsing ends and is memory safe.  For every well-formed buffer the retry loop of
  \<open>npf_cache_all\<close> ends within the fuel of the model, the packet bytes are unchanged, and
  when no format error is reported the cached layer 3 and layer 4 headers (at least 20
  bytes of IPv4, 40 of IPv6, 20 of TCP, 8 of UDP and ICMP) lie inside the packet.
\<close>

theorem npf_cache_all_safe:
  assumes "npc_ok npc" "npf_cache_all npc = (flags, npc')"
  shows "cache_again (2 * length (npc_data npc) + 1) npc = Some (flags, npc') \<and>
    npc_ok npc' \<and> npc_data npc' = npc_data npc \<and> npc_info npc' = npc_info npc OR flags \<and>
    (flags AND NPC_FMTERR = 0 \<longrightarrow>
      (flags AND NPC_IP46 \<noteq> 0 \<longrightarrow> npc_l3_ok npc' flags) \<and>
      (flags AND NPC_LAYER4 \<noteq> 0 \<longrightarrow> npc_l4_ok npc' flags))"
  using npf_cache_all_spec [OF assms(1)] npc_ok_keep [OF assms(1)] assms(2)
  by (auto simp: npc_cached_ok_def nbuf_keep_def)

theorem npf_cache_all_safe_witness:
  "fst (npf_cache_all (ex_npc (ex_packet 2 0 0) [40])) = NPC_IP4 OR NPC_LAYER4 OR NPC_TCP \<and>
   npc_l4_ok (snd (npf_cache_all (ex_npc (ex_packet 2 0 0) [40]))) (NPC_IP4 OR NPC_LAYER4 OR NPC_TCP)"
proof -
  let ?npc = "ex_npc (ex_packet 2 0 0) [40]"
  have ok: "npc_ok ?npc" by (rule ex_npc_ok) (simp_all add: ex_packet_def)
  have f: "fst (npf_cache_all ?npc) = 0x19" by code_simp
  have r: "npf_cache_all ?npc = (0x19, snd (npf_cache_all ?npc))" using f by (metis surjective_pairing)
  from npf_cache_all_safe [OF ok r] show ?thesis by (simp add: f)
qed


end
