(* ===== verification/NPF_Tcphdr.thy ===== *)
theory NPF_Tcphdr
  imports NPF_Cache
begin

text \<open>
  TCP header helpers (\<open>src/kern/npf_inet.c\<close>): sequence numbers and segment length
  (\<open>npf_tcpsaw\<close>), and the scans of the TCP options (\<open>npf_fetch_tcpopts\<close>,
  \<open>npf_set_mss\<close>).  The scans are recursive functions on the bytes left.
\<close>

section \<open>Header fields\<close>

abbreviation TH_FIN :: u8 where "TH_FIN \<equiv> 0x01"
abbreviation TH_SYN :: u8 where "TH_SYN \<equiv> 0x02"
abbreviation TH_RST :: u8 where "TH_RST \<equiv> 0x04"
abbreviation TH_ACK :: u8 where "TH_ACK \<equiv> 0x10"

abbreviation TCPOPT_EOL :: u8 where "TCPOPT_EOL \<equiv> 0"
abbreviation TCPOPT_NOP :: u8 where "TCPOPT_NOP \<equiv> 1"
abbreviation TCPOPT_MAXSEG :: u8 where "TCPOPT_MAXSEG \<equiv> 2"
abbreviation TCPOPT_WINDOW :: u8 where "TCPOPT_WINDOW \<equiv> 3"

definition th_flags :: "npf_cache \<Rightarrow> u8" where
  "th_flags npc = npc_data npc ! (the (npc_l4 npc) + 13)"

definition th_off :: "npf_cache \<Rightarrow> nat" where
  "th_off npc = unat (drop_bit 4 (npc_data npc ! (the (npc_l4 npc) + 12)))"

text \<open>Sequence number, acknowledgement, window and the length of the data, as a C \<open>int\<close>.\<close>

definition npf_tcpsaw :: "npf_cache \<Rightarrow> u32 \<times> u32 \<times> u32 \<times> int" where
  "npf_tcpsaw npc =
    (let d = npc_data npc; th = the (npc_l4 npc);
         thlen = int (th_off npc * 4); hlen = int (npc_hlen npc); ip = npc_ip npc in
     (ntohl (rd32 d (th + 4)), ntohl (rd32 d (th + 8)), ucast (ntohs (rd16 d (th + 14))),
      if npf_iscached npc NPC_IP4 then c_int (uint (ntohs (rd16 d (ip + 2))) - hlen - thlen)
      else if npf_iscached npc NPC_IP6 then c_int (uint (ntohs (rd16 d (ip + 4))) - (hlen - 40) - thlen)
      else 0))"

section \<open>TCP options\<close>

text \<open>
  The scan: \<open>cnt\<close> bytes are left at offset \<open>cp\<close>.  \<open>mss\<close> is None when the caller passed
  NULL.  \<open>TCP_MAX_WINSHIFT\<close> is 14.
\<close>

function tcpopts_scan :: "u8 list \<Rightarrow> nat \<Rightarrow> nat \<Rightarrow> u16 option \<Rightarrow> int \<Rightarrow> u16 option \<times> int" where
  "tcpopts_scan d cnt cp mss wscale =
    (if cnt = 0 then (mss, wscale)
     else
       let opt = d ! cp in
       if opt = TCPOPT_EOL then (mss, wscale)
       else if opt = TCPOPT_NOP then tcpopts_scan d (cnt - 1) (cp + 1) mss wscale
       else if cnt < 2 then (mss, wscale)
       else
         let optlen = unat (d ! (cp + 1)) in
         if optlen < 2 \<or> optlen > cnt then (mss, wscale)
         else
           let mss' = (if opt = TCPOPT_MAXSEG \<and> optlen = 4 \<and> mss \<noteq> None
                       then Some (rd16 d (cp + 2)) else mss);
               val = d ! (cp + 2);
               wscale' = (if opt = TCPOPT_WINDOW \<and> optlen = 3
                          then (if val > 14 then 14 else uint val) else wscale) in
           tcpopts_scan d (cnt - optlen) (cp + optlen) mss' wscale')"
  by pat_completeness auto

termination
  by (relation "measure (\<lambda>(d, cnt, cp, mss, wscale). cnt)") auto

declare tcpopts_scan.simps [simp del]

text \<open>The common end of both functions: refresh stale references.\<close>

definition recache_if_reset :: "npf_cache \<Rightarrow> npf_cache" where
  "recache_if_reset npc =
     (if nbuf_flag_p (npc_nbuf npc) NBUF_DATAREF_RESET then npf_recache npc else npc)"

definition npf_fetch_tcpopts ::
  "npf_cache \<Rightarrow> u16 option \<Rightarrow> int \<Rightarrow> bool \<times> u16 option \<times> int \<times> npf_cache" where
  "npf_fetch_tcpopts npc mss wscale =
    (let cnt = th_off npc * 4 - 20 in
     if th_off npc * 4 \<le> 20 then (False, mss, wscale, npc)
     else
       case nbuf_advance (nbuf_reset (npc_nbuf npc)) (npc_hlen npc + 20) cnt of
         (None, nb) \<Rightarrow> (False, mss, wscale, recache_if_reset (npc\<lparr> npc_nbuf := nb \<rparr>))
       | (Some cp, nb) \<Rightarrow>
           let (mss', wscale') = tcpopts_scan (nb_data nb) cnt cp mss wscale in
           (True, mss', wscale', recache_if_reset (npc\<lparr> npc_nbuf := nb \<rparr>)))"

text \<open>
  The scan that overwrites the MSS value.  When the value is not aligned to 16 bits the
  words around it, before and after, are returned for the checksum update.
\<close>

record mss_res =
  mr_data :: "u8 list"
  mr_mid :: bool
  mr_old :: "u16 list"
  mr_new :: "u16 list"

definition mss_write :: "u16 \<Rightarrow> nat \<Rightarrow> nat \<Rightarrow> mss_res \<Rightarrow> mss_res" where
  "mss_write mss base cp r =
    (let d = mr_data r; d' = wr16 d (cp + 2) mss in
     if (cp + 2 - base) mod 2 \<noteq> 0 then
       r\<lparr> mr_data := d', mr_mid := True,
          mr_old := [rd16 d (cp + 1), rd16 d (cp + 3)],
          mr_new := [rd16 d' (cp + 1), rd16 d' (cp + 3)] \<rparr>
     else r\<lparr> mr_data := d', mr_mid := False \<rparr>)"

function set_mss_scan :: "u16 \<Rightarrow> nat \<Rightarrow> nat \<Rightarrow> nat \<Rightarrow> mss_res \<Rightarrow> mss_res" where
  "set_mss_scan mss base cnt cp r =
    (if cnt = 0 then r
     else
       let opt = mr_data r ! cp in
       if opt = TCPOPT_EOL then r
       else if opt = TCPOPT_NOP then set_mss_scan mss base (cnt - 1) (cp + 1) r
       else if cnt < 2 then r
       else
         let optlen = unat (mr_data r ! (cp + 1)) in
         if optlen < 2 \<or> optlen > cnt then r
         else
           set_mss_scan mss base (cnt - optlen) (cp + optlen)
             (if opt = TCPOPT_MAXSEG \<and> optlen = 4 then mss_write mss base cp r else r))"
  by pat_completeness auto

termination
  by (relation "measure (\<lambda>(mss, base, cnt, cp, r). cnt)") auto

declare set_mss_scan.simps [simp del]

definition npf_set_mss ::
  "npf_cache \<Rightarrow> u16 \<Rightarrow> u16 list \<Rightarrow> u16 list \<Rightarrow> bool
   \<Rightarrow> bool \<times> u16 list \<times> u16 list \<times> bool \<times> npf_cache" where
  "npf_set_mss npc mss old new mid =
    (let cnt = th_off npc * 4 - 20 in
     if th_off npc * 4 \<le> 20 then (False, old, new, mid, npc)
     else
       case nbuf_advance (nbuf_reset (npc_nbuf npc)) (npc_hlen npc + 20) cnt of
         (None, nb) \<Rightarrow> (False, old, new, mid, recache_if_reset (npc\<lparr> npc_nbuf := nb \<rparr>))
       | (Some base, nb) \<Rightarrow>
           let r = set_mss_scan mss base cnt base
                     \<lparr> mr_data = nb_data nb, mr_mid = mid, mr_old = old, mr_new = new \<rparr> in
           (True, mr_old r, mr_new r, mr_mid r,
            recache_if_reset (npc\<lparr> npc_nbuf := nb\<lparr> nb_data := mr_data r \<rparr> \<rparr>)))"

section \<open>Facts\<close>

text \<open>The window scale that a scan reports is never above 14.\<close>

lemma tcpopts_scan_wscale:
  "0 \<le> wscale \<Longrightarrow> wscale \<le> 14 \<Longrightarrow>
   0 \<le> snd (tcpopts_scan d cnt cp mss wscale) \<and> snd (tcpopts_scan d cnt cp mss wscale) \<le> 14"
proof (induction d cnt cp mss wscale rule: tcpopts_scan.induct)
  case (1 d cnt cp mss wscale)
  have v: "uint (d ! (cp + 2)) \<le> 14" if "\<not> 14 < d ! (cp + 2)"
    using that by (simp add: not_less word_le_def)
  show ?case
    using "1.prems" "1.IH"(1) [OF _ refl] "1.IH"(2) [OF _ refl _ _ _ refl _ refl refl refl] v
    by (subst (1 2) tcpopts_scan.simps) (auto simp: Let_def)
qed

text \<open>
  The scans only touch the \<open>cnt\<close> bytes at \<open>cp\<close>: bytes outside have no influence on what
  is parsed, and \<open>npf_set_mss\<close> leaves them alone.
\<close>

lemma tcpopts_scan_local:
  assumes "\<forall>i. cp \<le> i \<and> i < cp + cnt \<longrightarrow> d ! i = d' ! i"
  shows "tcpopts_scan d cnt cp mss wscale = tcpopts_scan d' cnt cp mss wscale"
  using assms
proof (induction d cnt cp mss wscale rule: tcpopts_scan.induct)
  case (1 d cnt cp mss wscale)
  show ?case
  proof (cases "cnt = 0")
    case True
    then show ?thesis by (simp add: tcpopts_scan.simps)
  next
    case False
    have b: "d ! (cp + k) = d' ! (cp + k)" if "k < cnt" for k
      using "1.prems" that by simp
    have b0: "d ! cp = d' ! cp" using b [of 0] False by simp
    have nop: "d ! cp = TCPOPT_NOP \<Longrightarrow>
        tcpopts_scan d (cnt - 1) (cp + 1) mss wscale = tcpopts_scan d' (cnt - 1) (cp + 1) mss wscale"
      using "1.IH"(1) [OF False refl] "1.prems" False by simp
    show ?thesis
      using False b0 b [of 1] b [of 2] b [of 3] nop
        "1.IH"(2) [OF False refl _ _ _ refl _ refl refl refl] "1.prems"
      by (subst (1 2) tcpopts_scan.simps) (auto simp: Let_def rd16_def add.assoc)
  qed
qed

lemma set_mss_scan_data:
  "length (mr_data (set_mss_scan mss base cnt cp r)) = length (mr_data r) \<and>
   (\<forall>i. \<not> (cp \<le> i \<and> i < cp + cnt) \<longrightarrow>
      mr_data (set_mss_scan mss base cnt cp r) ! i = mr_data r ! i)"
proof (induction mss base cnt cp r rule: set_mss_scan.induct)
  case (1 mss base cnt cp r)
  let ?optlen = "unat (mr_data r ! (cp + 1))"
  have w: "length (mr_data (mss_write mss base cp r)) = length (mr_data r)"
    "\<forall>i. \<not> (cp + 2 \<le> i \<and> i < cp + 4) \<longrightarrow> mr_data (mss_write mss base cp r) ! i = mr_data r ! i"
    by (auto simp: mss_write_def Let_def wr16_def nth_list_update_neq)
  note eq = set_mss_scan.simps [of mss base cnt cp r]
  show ?case
  proof (cases "cnt = 0 \<or> mr_data r ! cp = TCPOPT_EOL")
    case True
    then have "set_mss_scan mss base cnt cp r = r" using eq by (auto simp: Let_def)
    then show ?thesis by simp
  next
    case more: False
    show ?thesis
    proof (cases "mr_data r ! cp = TCPOPT_NOP")
      case True
      then have "set_mss_scan mss base cnt cp r = set_mss_scan mss base (cnt - 1) (cp + 1) r"
        using eq more by (simp add: Let_def)
      then show ?thesis using more True "1.IH"(1) [OF _ refl] by auto
    next
      case False
      show ?thesis
      proof (cases "cnt < 2 \<or> ?optlen < 2 \<or> cnt < ?optlen")
        case True
        then have "set_mss_scan mss base cnt cp r = r" using eq more False by (auto simp: Let_def)
        then show ?thesis by simp
      next
        case fits: False
        let ?r = "if mr_data r ! cp = TCPOPT_MAXSEG \<and> ?optlen = 4 then mss_write mss base cp r else r"
        have step: "set_mss_scan mss base cnt cp r =
            set_mss_scan mss base (cnt - ?optlen) (cp + ?optlen) ?r"
          using eq more False fits by (simp add: Let_def)
        have IH: "length (mr_data (set_mss_scan mss base (cnt - ?optlen) (cp + ?optlen) ?r)) =
              length (mr_data ?r)"
            "\<forall>i. \<not> (cp + ?optlen \<le> i \<and> i < cp + ?optlen + (cnt - ?optlen)) \<longrightarrow>
               mr_data (set_mss_scan mss base (cnt - ?optlen) (cp + ?optlen) ?r) ! i = mr_data ?r ! i"
          using "1.IH"(2) [OF _ refl _ _ _ refl] more False fits by simp_all
        show ?thesis unfolding step using IH w fits by auto
      qed
    qed
  qed
qed

lemma npf_fetch_tcpopts_wscale:
  assumes "npf_fetch_tcpopts npc mss wscale = (ok, mss', wscale', npc')" "0 \<le> wscale" "wscale \<le> 14"
  shows "0 \<le> wscale' \<and> wscale' \<le> 14"
  using assms tcpopts_scan_wscale [OF assms(2,3)]
  by (auto simp: npf_fetch_tcpopts_def Let_def split: if_splits option.splits prod.splits)
    (metis snd_conv)+

end
