(* ===== verification/NPF_State.thy ===== *)
theory NPF_State
  imports NPF_Tcphdr "HOL-Library.Sublist"
begin

text \<open>
  State tracking of connections (\<open>src/kern/npf_state.c\<close>, \<open>src/kern/npf_state_tcp.c\<close>):
  the TCP state machine with its flag cases, the TCP window tracking, the generic state
  machine of UDP, ICMP and GRE, and the timeouts.

  Sequence numbers are 32-bit words and compare by the sign of their difference.  The
  transition table is the C array with its unlisted entries, which are zero (CLOSED).
\<close>

section \<open>States and parameters\<close>

abbreviation NPF_TCPS_OK :: nat where "NPF_TCPS_OK \<equiv> 255"
abbreviation NPF_TCPS_CLOSED :: nat where "NPF_TCPS_CLOSED \<equiv> 0"
abbreviation NPF_TCPS_SYN_SENT :: nat where "NPF_TCPS_SYN_SENT \<equiv> 1"
abbreviation NPF_TCPS_SIMSYN_SENT :: nat where "NPF_TCPS_SIMSYN_SENT \<equiv> 2"
abbreviation NPF_TCPS_SYN_RECEIVED :: nat where "NPF_TCPS_SYN_RECEIVED \<equiv> 3"
abbreviation NPF_TCPS_ESTABLISHED :: nat where "NPF_TCPS_ESTABLISHED \<equiv> 4"
abbreviation NPF_TCPS_FIN_SENT :: nat where "NPF_TCPS_FIN_SENT \<equiv> 5"
abbreviation NPF_TCPS_FIN_RECEIVED :: nat where "NPF_TCPS_FIN_RECEIVED \<equiv> 6"
abbreviation NPF_TCPS_CLOSE_WAIT :: nat where "NPF_TCPS_CLOSE_WAIT \<equiv> 7"
abbreviation NPF_TCPS_FIN_WAIT :: nat where "NPF_TCPS_FIN_WAIT \<equiv> 8"
abbreviation NPF_TCPS_CLOSING :: nat where "NPF_TCPS_CLOSING \<equiv> 9"
abbreviation NPF_TCPS_LAST_ACK :: nat where "NPF_TCPS_LAST_ACK \<equiv> 10"
abbreviation NPF_TCPS_TIME_WAIT :: nat where "NPF_TCPS_TIME_WAIT \<equiv> 11"
abbreviation NPF_TCP_NSTATES :: nat where "NPF_TCP_NSTATES \<equiv> 12"

abbreviation NPF_TCPT_NEW :: nat where "NPF_TCPT_NEW \<equiv> 0"
abbreviation NPF_TCPT_ESTABLISHED :: nat where "NPF_TCPT_ESTABLISHED \<equiv> 1"
abbreviation NPF_TCPT_HALFCLOSE :: nat where "NPF_TCPT_HALFCLOSE \<equiv> 2"
abbreviation NPF_TCPT_CLOSE :: nat where "NPF_TCPT_CLOSE \<equiv> 3"
abbreviation NPF_TCPT_TIMEWAIT :: nat where "NPF_TCPT_TIMEWAIT \<equiv> 4"

abbreviation NPF_ANY_CONN_CLOSED :: nat where "NPF_ANY_CONN_CLOSED \<equiv> 0"
abbreviation NPF_ANY_CONN_NEW :: nat where "NPF_ANY_CONN_NEW \<equiv> 1"
abbreviation NPF_ANY_CONN_ESTABLISHED :: nat where "NPF_ANY_CONN_ESTABLISHED \<equiv> 2"
abbreviation NPF_ANY_CONN_NSTATES :: nat where "NPF_ANY_CONN_NSTATES \<equiv> 3"

datatype npf_flow = NPF_FLOW_FORW | NPF_FLOW_BACK

primrec flow_not :: "npf_flow \<Rightarrow> npf_flow" where
  "flow_not NPF_FLOW_FORW = NPF_FLOW_BACK"
| "flow_not NPF_FLOW_BACK = NPF_FLOW_FORW"

record npf_tcpstate =
  nst_end :: u32
  nst_maxend :: u32
  nst_maxwin :: u32
  nst_wscale :: int

record npf_state =
  nst_state :: nat
  nst_tcpst :: "npf_flow \<Rightarrow> npf_tcpstate"

section \<open>Comparison of sequence numbers\<close>

definition SEQ_LT :: "u32 \<Rightarrow> u32 \<Rightarrow> bool" where
  [c_defs]: "SEQ_LT a b \<longleftrightarrow> sint (a - b) < 0"

definition SEQ_LEQ :: "u32 \<Rightarrow> u32 \<Rightarrow> bool" where
  [c_defs]: "SEQ_LEQ a b \<longleftrightarrow> sint (a - b) \<le> 0"

definition SEQ_GT :: "u32 \<Rightarrow> u32 \<Rightarrow> bool" where
  [c_defs]: "SEQ_GT a b \<longleftrightarrow> sint (a - b) > 0"

definition SEQ_GEQ :: "u32 \<Rightarrow> u32 \<Rightarrow> bool" where
  [c_defs]: "SEQ_GEQ a b \<longleftrightarrow> sint (a - b) \<ge> 0"

section \<open>Flag cases and the transition table\<close>

abbreviation TCPFC_INVALID :: nat where "TCPFC_INVALID \<equiv> 0"
abbreviation TCPFC_SYN :: nat where "TCPFC_SYN \<equiv> 1"
abbreviation TCPFC_SYNACK :: nat where "TCPFC_SYNACK \<equiv> 2"
abbreviation TCPFC_ACK :: nat where "TCPFC_ACK \<equiv> 3"
abbreviation TCPFC_FIN :: nat where "TCPFC_FIN \<equiv> 4"
abbreviation TCPFC_COUNT :: nat where "TCPFC_COUNT \<equiv> 5"

definition npf_tcpfl2case :: "u32 \<Rightarrow> nat" where
  "npf_tcpfl2case tcpfl =
    (let i = (tcpfl AND (ucast TH_SYN OR ucast TH_FIN)) OR drop_bit 2 (tcpfl AND ucast TH_ACK);
         c = drop_bit (unat (push_bit 2 i)) 0x2430140 AND 7 :: u32 in
     unat c)"

text \<open>Rows of the table: the entries INVALID, SYN, SYN-ACK, ACK, FIN for each direction.\<close>

definition npf_tcp_fsm_table :: "(nat list \<times> nat list) list" where
  "npf_tcp_fsm_table =
    [([0, NPF_TCPS_SYN_SENT, 0, 0, 0],
      [0, 0, 0, 0, 0]),
     ([0, NPF_TCPS_OK, 0, 0, 0],
      [0, NPF_TCPS_SIMSYN_SENT, NPF_TCPS_SYN_RECEIVED, 0, 0]),
     ([0, NPF_TCPS_OK, NPF_TCPS_SYN_RECEIVED, 0, 0],
      [0, NPF_TCPS_OK, NPF_TCPS_SYN_RECEIVED, 0, NPF_TCPS_FIN_RECEIVED]),
     ([0, NPF_TCPS_OK, 0, NPF_TCPS_ESTABLISHED, NPF_TCPS_FIN_SENT],
      [0, 0, NPF_TCPS_OK, NPF_TCPS_OK, NPF_TCPS_FIN_RECEIVED]),
     ([0, 0, 0, NPF_TCPS_OK, NPF_TCPS_FIN_SENT],
      [0, 0, 0, NPF_TCPS_OK, NPF_TCPS_FIN_RECEIVED]),
     ([0, 0, 0, NPF_TCPS_OK, NPF_TCPS_OK],
      [0, 0, 0, NPF_TCPS_FIN_WAIT, NPF_TCPS_CLOSING]),
     ([0, 0, 0, NPF_TCPS_CLOSE_WAIT, NPF_TCPS_CLOSING],
      [0, 0, 0, NPF_TCPS_OK, NPF_TCPS_OK]),
     ([0, 0, 0, NPF_TCPS_OK, NPF_TCPS_LAST_ACK],
      [0, 0, 0, NPF_TCPS_OK, NPF_TCPS_LAST_ACK]),
     ([0, 0, 0, NPF_TCPS_OK, NPF_TCPS_LAST_ACK],
      [0, 0, 0, NPF_TCPS_OK, NPF_TCPS_LAST_ACK]),
     ([0, 0, 0, NPF_TCPS_LAST_ACK, 0],
      [0, 0, 0, NPF_TCPS_LAST_ACK, 0]),
     ([0, 0, 0, NPF_TCPS_TIME_WAIT, 0],
      [0, 0, 0, NPF_TCPS_TIME_WAIT, 0]),
     ([0, NPF_TCPS_SYN_SENT, 0, 0, 0],
      [0, 0, 0, 0, 0])]"

definition npf_tcp_fsm :: "nat \<Rightarrow> npf_flow \<Rightarrow> nat \<Rightarrow> nat" where
  "npf_tcp_fsm state flow flagcase =
     (case flow of
        NPF_FLOW_FORW \<Rightarrow> fst (npf_tcp_fsm_table ! state) ! flagcase
      | NPF_FLOW_BACK \<Rightarrow> snd (npf_tcp_fsm_table ! state) ! flagcase)"

section \<open>Window tracking\<close>

text \<open>The checks I to IV and the update of \<open>npf_tcp_inwindow\<close> on an initialised state.\<close>

definition tcp_window_check ::
  "npf_tcpstate \<Rightarrow> npf_tcpstate \<Rightarrow> int \<Rightarrow> u32 \<Rightarrow> u32 \<Rightarrow> u32 \<Rightarrow> bool" where
  "tcp_window_check fstate tstate max_ack_win seq end ack \<longleftrightarrow>
     SEQ_LEQ end (nst_maxend fstate) \<and>
     SEQ_GEQ seq (nst_end fstate - nst_maxwin tstate) \<and>
     (let ackskew = sint (nst_end tstate - ack) in
      \<not> (ackskew < - max_ack_win \<or> ackskew > c_int (max_ack_win * 2 ^ nat (nst_wscale fstate))))"

definition tcp_window_update ::
  "npf_tcpstate \<Rightarrow> npf_tcpstate \<Rightarrow> u32 \<Rightarrow> u32 \<Rightarrow> u32 \<Rightarrow> npf_tcpstate \<times> npf_tcpstate" where
  "tcp_window_update fstate tstate end ack win =
    (let tstate = (if sint (nst_end tstate - ack) < 0 then tstate\<lparr> nst_end := ack \<rparr> else tstate);
         fstate = (if nst_maxwin fstate < win then fstate\<lparr> nst_maxwin := win \<rparr> else fstate);
         fstate = (if SEQ_GT end (nst_end fstate) then fstate\<lparr> nst_end := end \<rparr> else fstate);
         tstate = (if SEQ_GEQ (ack + win) (nst_maxend tstate)
                   then tstate\<lparr> nst_maxend := ack + win \<rparr> else tstate) in
     (fstate, tstate))"

definition nst_set2 :: "npf_state \<Rightarrow> npf_flow \<Rightarrow> npf_tcpstate \<Rightarrow> npf_tcpstate \<Rightarrow> npf_state" where
  "nst_set2 nst flow fstate tstate =
     nst\<lparr> nst_tcpst := (nst_tcpst nst)(flow := fstate, flow_not flow := tstate) \<rparr>"

text \<open>The end of the segment: SYN and FIN take a sequence number each.\<close>

definition tcp_seg_end :: "u8 \<Rightarrow> u32 \<Rightarrow> int \<Rightarrow> u32" where
  "tcp_seg_end tcpfl seq tcpdlen =
     seq + word_of_int tcpdlen + of_bool (tcpfl AND TH_SYN \<noteq> 0) + of_bool (tcpfl AND TH_FIN \<noteq> 0)"

text \<open>The first packet of the connection initialises both sides.\<close>

definition tcp_first_packet ::
  "npf_cache \<Rightarrow> npf_state \<Rightarrow> npf_flow \<Rightarrow> u32 \<Rightarrow> u32 \<Rightarrow> bool \<times> npf_cache \<times> npf_state" where
  "tcp_first_packet npc nst flow end win =
    (let (_, _, wscale, npc') = npf_fetch_tcpopts npc None 0 in
     (True, npc',
      nst_set2 nst flow
        \<lparr> nst_end = end, nst_maxend = end, nst_maxwin = win, nst_wscale = wscale \<rparr>
        \<lparr> nst_end = 0, nst_maxend = 0, nst_maxwin = 1, nst_wscale = 0 \<rparr>))"

text \<open>The first packet of a side whose \<open>nst_end\<close> is zero sets the state of that side.\<close>

definition tcp_side_init ::
  "npf_cache \<Rightarrow> u8 \<Rightarrow> npf_tcpstate \<Rightarrow> u32 \<Rightarrow> u32 \<Rightarrow> npf_tcpstate \<times> npf_cache" where
  "tcp_side_init npc tcpfl fstate end win =
    (if nst_end fstate = 0 then
       let (wscale, npc') =
             (if tcpfl AND TH_SYN \<noteq> 0 then
                let (_, _, w, npc') = npf_fetch_tcpopts npc None 0 in (w, npc')
              else (0, npc)) in
       (\<lparr> nst_end = end, nst_maxend = end + 1, nst_maxwin = win, nst_wscale = wscale \<rparr>, npc')
     else (fstate, npc))"

text \<open>The acknowledgement taken when the packet has none, and the fix-up of a zero-SEQ RST.\<close>

definition tcp_eff_ack :: "u8 \<Rightarrow> npf_tcpstate \<Rightarrow> u32 \<Rightarrow> u32" where
  "tcp_eff_ack tcpfl tstate ack =
     (if tcpfl AND TH_ACK = 0 then nst_end tstate
      else if tcpfl AND (TH_ACK OR TH_RST) = TH_ACK OR TH_RST \<and> ack = 0 then nst_end tstate
      else ack)"

definition tcp_rst_fixup :: "u8 \<Rightarrow> nat \<Rightarrow> npf_tcpstate \<Rightarrow> u32 \<Rightarrow> u32 \<Rightarrow> u32 \<times> u32" where
  "tcp_rst_fixup tcpfl state fstate seq end =
     (if tcpfl AND TH_RST \<noteq> 0 \<and> seq = 0 \<and> state = NPF_TCPS_SYN_SENT
      then (nst_end fstate, nst_end fstate) else (seq, end))"

definition tcp_track ::
  "param_store \<Rightarrow> u8 \<Rightarrow> npf_state \<Rightarrow> npf_flow \<Rightarrow> npf_tcpstate \<Rightarrow> npf_tcpstate
   \<Rightarrow> u32 \<Rightarrow> u32 \<Rightarrow> u32 \<Rightarrow> u32 \<Rightarrow> bool \<times> npf_state" where
  "tcp_track params tcpfl nst flow fstate tstate seq end ack win =
    (let nst = nst_set2 nst flow fstate tstate;
         ack = tcp_eff_ack tcpfl tstate ack;
         (seq, end) = tcp_rst_fixup tcpfl (nst_state nst) fstate seq end in
     if tcpfl AND TH_RST \<noteq> 0 \<and> params VP_tcp_strict_order_rst \<noteq> 0 \<and> nst_end fstate - seq > 1 then
       (False, nst)
     else if \<not> tcp_window_check fstate tstate (params VP_tcp_max_ack_win) seq end ack then (False, nst)
     else
       let (fstate, tstate) = tcp_window_update fstate tstate end ack win in
       (True, nst_set2 nst flow fstate tstate))"

definition npf_tcp_inwindow ::
  "npf_cache \<Rightarrow> npf_state \<Rightarrow> npf_flow \<Rightarrow> bool \<times> npf_cache \<times> npf_state" where
  "npf_tcp_inwindow npc nst flow =
    (let tcpfl = th_flags npc;
         (seq, ack, win, tcpdlen) = npf_tcpsaw npc;
         end = tcp_seg_end tcpfl seq tcpdlen;
         fstate = nst_tcpst nst flow;
         tstate = nst_tcpst nst (flow_not flow);
         win = (if win \<noteq> 0 then push_bit (nat (nst_wscale fstate)) win else 1) in
     if nst_maxwin fstate = 0 then tcp_first_packet npc nst flow end win
     else
       let (fstate, npc') = tcp_side_init npc tcpfl fstate end win;
           (ok, nst) = tcp_track (npc_ctx npc) tcpfl nst flow fstate tstate seq end ack win in
       (ok, npc', nst))"

section \<open>Inspection\<close>

definition npf_state_tcp ::
  "npf_cache \<Rightarrow> npf_state \<Rightarrow> npf_flow \<Rightarrow> bool \<times> npf_cache \<times> npf_state" where
  "npf_state_tcp npc nst flow =
    (let tcpfl = th_flags npc; state = nst_state nst;
         nstate =
           (if tcpfl AND TH_RST = 0 then npf_tcp_fsm state flow (npf_tcpfl2case (ucast tcpfl))
            else if state = NPF_TCPS_TIME_WAIT then NPF_TCPS_OK
            else NPF_TCPS_CLOSED);
         (inwindow, npc, nst) = npf_tcp_inwindow npc nst flow in
     if \<not> inwindow then (False, npc, nst)
     else if nstate = NPF_TCPS_OK then (True, npc, nst)
     else (True, npc, nst\<lparr> nst_state := nstate \<rparr>))"

definition npf_generic_fsm :: "nat \<Rightarrow> npf_flow \<Rightarrow> nat" where
  "npf_generic_fsm state flow =
     (case flow of
        NPF_FLOW_FORW \<Rightarrow> [NPF_ANY_CONN_NEW, NPF_ANY_CONN_NEW, NPF_ANY_CONN_ESTABLISHED] ! state
      | NPF_FLOW_BACK \<Rightarrow> [0, NPF_ANY_CONN_ESTABLISHED, NPF_ANY_CONN_ESTABLISHED] ! state)"

definition npf_state_inspect ::
  "npf_cache \<Rightarrow> npf_state \<Rightarrow> npf_flow \<Rightarrow> bool \<times> npf_cache \<times> npf_state" where
  "npf_state_inspect npc nst flow =
    (let proto = npc_proto npc in
     if proto = IPPROTO_TCP then npf_state_tcp npc nst flow
     else if proto = IPPROTO_UDP \<or> proto = IPPROTO_ICMP \<or> proto = IPPROTO_GRE then
       (True, npc, nst\<lparr> nst_state := npf_generic_fsm (nst_state nst) flow \<rparr>)
     else (False, npc, nst))"

text \<open>\<open>memset\<close> of the whole structure to zero.\<close>

definition npf_state_zero :: npf_state where
  "npf_state_zero =
     \<lparr> nst_state = 0,
       nst_tcpst = (\<lambda>_. \<lparr> nst_end = 0, nst_maxend = 0, nst_maxwin = 0, nst_wscale = 0 \<rparr>) \<rparr>"

definition npf_state_init :: "npf_cache \<Rightarrow> bool \<times> npf_cache \<times> npf_state" where
  "npf_state_init npc =
    (let proto = npc_proto npc; nst = npf_state_zero in
     if proto = IPPROTO_TCP then npf_state_tcp npc nst NPF_FLOW_FORW
     else if proto = IPPROTO_UDP \<or> proto = IPPROTO_ICMP \<or> proto = IPPROTO_GRE then
       (True, npc, nst\<lparr> nst_state := npf_generic_fsm (nst_state nst) NPF_FLOW_FORW \<rparr>)
     else (False, npc, nst))"

definition npf_state_destroy :: "npf_state \<Rightarrow> npf_state" where
  "npf_state_destroy nst = nst\<lparr> nst_state := 0 \<rparr>"

section \<open>Timeouts\<close>

definition npf_state_tcp_timeout :: "param_store \<Rightarrow> npf_state \<Rightarrow> int" where
  "npf_state_tcp_timeout params nst =
     params (VP_tcp_timeout
       ([NPF_TCPT_CLOSE, NPF_TCPT_NEW, NPF_TCPT_NEW, NPF_TCPT_NEW, NPF_TCPT_ESTABLISHED,
         NPF_TCPT_HALFCLOSE, NPF_TCPT_HALFCLOSE, NPF_TCPT_HALFCLOSE, NPF_TCPT_HALFCLOSE,
         NPF_TCPT_CLOSE, NPF_TCPT_CLOSE, NPF_TCPT_TIMEWAIT] ! nst_state nst))"

definition npf_state_etime :: "param_store \<Rightarrow> npf_state \<Rightarrow> nat \<Rightarrow> int" where
  "npf_state_etime params nst proto =
     (if proto = IPPROTO_TCP then npf_state_tcp_timeout params nst
      else if proto = IPPROTO_UDP \<or> proto = IPPROTO_ICMP then
        params (VP_generic_timeout (nst_state nst))
      else if proto = IPPROTO_GRE then params VP_gre_timeout
      else 0)"

section \<open>Parameter tables\<close>

definition npf_state_sysinit :: "npf_param list" where
  "npf_state_sysinit =
    [\<lparr> p_name = ''state.generic.timeout.closed'', p_valp = VP_generic_timeout NPF_ANY_CONN_CLOSED,
       p_default_val = 0, p_min = 0, p_max = INT_MAX \<rparr>,
     \<lparr> p_name = ''state.generic.timeout.new'', p_valp = VP_generic_timeout NPF_ANY_CONN_NEW,
       p_default_val = 30, p_min = 0, p_max = INT_MAX \<rparr>,
     \<lparr> p_name = ''state.generic.timeout.established'',
       p_valp = VP_generic_timeout NPF_ANY_CONN_ESTABLISHED,
       p_default_val = 60, p_min = 0, p_max = INT_MAX \<rparr>,
     \<lparr> p_name = ''state.generic.timeout.gre'', p_valp = VP_gre_timeout,
       p_default_val = 24 * 60 * 60, p_min = 0, p_max = INT_MAX \<rparr>]"

definition npf_state_tcp_sysinit :: "npf_param list" where
  "npf_state_tcp_sysinit =
    [\<lparr> p_name = ''state.tcp.timeout.new'', p_valp = VP_tcp_timeout NPF_TCPT_NEW,
       p_default_val = 30, p_min = 0, p_max = INT_MAX \<rparr>,
     \<lparr> p_name = ''state.tcp.timeout.established'', p_valp = VP_tcp_timeout NPF_TCPT_ESTABLISHED,
       p_default_val = 60 * 60 * 24, p_min = 0, p_max = INT_MAX \<rparr>,
     \<lparr> p_name = ''state.tcp.timeout.half_close'', p_valp = VP_tcp_timeout NPF_TCPT_HALFCLOSE,
       p_default_val = 60 * 60 * 6, p_min = 0, p_max = INT_MAX \<rparr>,
     \<lparr> p_name = ''state.tcp.timeout.close'', p_valp = VP_tcp_timeout NPF_TCPT_CLOSE,
       p_default_val = 10, p_min = 0, p_max = INT_MAX \<rparr>,
     \<lparr> p_name = ''state.tcp.timeout.time_wait'', p_valp = VP_tcp_timeout NPF_TCPT_TIMEWAIT,
       p_default_val = 60 * 2 * 2, p_min = 0, p_max = INT_MAX \<rparr>,
     \<lparr> p_name = ''state.tcp.strict_order_rst'', p_valp = VP_tcp_strict_order_rst,
       p_default_val = 1, p_min = 0, p_max = 1 \<rparr>,
     \<lparr> p_name = ''state.tcp.max_ack_win'', p_valp = VP_tcp_max_ack_win,
       p_default_val = 66000, p_min = 0, p_max = INT_MAX \<rparr>]"

section \<open>Facts about the flag cases\<close>

lemma npf_tcpfl2case_index:
  "(tcpfl AND (ucast TH_SYN OR ucast TH_FIN)) OR drop_bit 2 (tcpfl AND ucast TH_ACK) =
   of_bool (bit tcpfl 0) + 2 * of_bool (bit tcpfl 1) + (4 :: u32) * of_bool (bit tcpfl 4)"
proof -
  have m: "ucast TH_SYN OR ucast TH_FIN = (mask 2 :: u32)" "ucast TH_ACK = (2 ^ 4 :: u32)"
    by (simp_all add: mask_eq_exp_minus_1)
  have "(tcpfl AND mask 2) OR drop_bit 2 (tcpfl AND 2 ^ 4) =
      of_bool (bit tcpfl 0) OR push_bit 1 (of_bool (bit tcpfl 1)) OR push_bit 2 (of_bool (bit tcpfl 4) :: u32)"
  proof (rule bit_word_eqI)
    fix n assume "n < LENGTH(32)"
    have b4: "bit (4 :: int) n \<longleftrightarrow> n = 2"
      using bit_exp_iff [where 'a = int, of 2 n] by auto
    consider "n = 0" | "n = 1" | "n = 2" | "3 \<le> n" by linarith
    then show "bit ((tcpfl AND mask 2) OR drop_bit 2 (tcpfl AND 2 ^ 4)) n =
        bit (of_bool (bit tcpfl 0) OR push_bit 1 (of_bool (bit tcpfl 1)) OR
             push_bit 2 (of_bool (bit tcpfl 4) :: u32)) n"
      by cases (auto simp: bit_simps b4)
  qed
  then show ?thesis
    unfolding m by (cases "bit tcpfl 0"; cases "bit tcpfl 1"; cases "bit tcpfl 4") simp_all
qed

lemma npf_tcp_inwindow_state [simp]:
  "nst_state (snd (snd (npf_tcp_inwindow npc nst flow))) = nst_state nst"
  by (simp add: npf_tcp_inwindow_def tcp_first_packet_def tcp_track_def Let_def case_prod_beta nst_set2_def)

text \<open>The case that the comment of \<open>npf_tcpfl2case\<close> documents for the flags SYN, FIN and ACK.\<close>

definition tcp_flag_case :: "bool \<Rightarrow> bool \<Rightarrow> bool \<Rightarrow> nat" where
  "tcp_flag_case syn fin ack =
     (if syn \<and> fin then TCPFC_INVALID
      else if syn then (if ack then TCPFC_SYNACK else TCPFC_SYN)
      else if fin then TCPFC_FIN
      else if ack then TCPFC_ACK else TCPFC_INVALID)"

lemma npf_tcpfl2case_bits:
  "npf_tcpfl2case tcpfl = tcp_flag_case (bit tcpfl 1) (bit tcpfl 0) (bit tcpfl 4)"
  unfolding npf_tcpfl2case_def npf_tcpfl2case_index Let_def tcp_flag_case_def
  by (cases "bit tcpfl 0"; cases "bit tcpfl 1"; cases "bit tcpfl 4")
    (simp_all)

section \<open>The state machine\<close>

text \<open>The state after a packet that is in the window.\<close>

definition tcp_next :: "nat \<Rightarrow> npf_flow \<Rightarrow> u8 \<Rightarrow> nat" where
  "tcp_next state flow tcpfl =
    (let nstate =
           (if tcpfl AND TH_RST = 0 then npf_tcp_fsm state flow (npf_tcpfl2case (ucast tcpfl))
            else if state = NPF_TCPS_TIME_WAIT then NPF_TCPS_OK else NPF_TCPS_CLOSED) in
     if nstate = NPF_TCPS_OK then state else nstate)"

lemma npf_state_tcp_next:
  assumes "npf_state_tcp npc nst flow = (ok, npc', nst')"
  shows "nst_state nst' = (if ok then tcp_next (nst_state nst) flow (th_flags npc) else nst_state nst)"
proof -
  obtain ok1 npc1 nst1 where w: "npf_tcp_inwindow npc nst flow = (ok1, npc1, nst1)"
    by (metis prod_cases3)
  then have "nst_state nst1 = nst_state nst"
    using npf_tcp_inwindow_state [of npc nst flow] by simp
  then show ?thesis
    using assms w by (auto simp: npf_state_tcp_def tcp_next_def Let_def split: if_splits)
qed

text \<open>Flag cases are below five, and table entries are states or OK.\<close>

lemma npf_tcpfl2case_lt: "npf_tcpfl2case tcpfl < TCPFC_COUNT"
  by (simp add: npf_tcpfl2case_bits tcp_flag_case_def)

lemma npf_tcp_fsm_table_wf:
  "length npf_tcp_fsm_table = NPF_TCP_NSTATES"
  "list_all (\<lambda>(f, b). length f = TCPFC_COUNT \<and> length b = TCPFC_COUNT \<and>
     list_all (\<lambda>s. s < NPF_TCP_NSTATES \<or> s = NPF_TCPS_OK) (f @ b)) npf_tcp_fsm_table"
  by (simp_all add: npf_tcp_fsm_table_def)

lemma npf_tcp_fsm_range:
  assumes "state < NPF_TCP_NSTATES" "c < TCPFC_COUNT"
  shows "npf_tcp_fsm state flow c < NPF_TCP_NSTATES \<or> npf_tcp_fsm state flow c = NPF_TCPS_OK"
proof -
  obtain f b where fb: "npf_tcp_fsm_table ! state = (f, b)" by force
  have "length f = TCPFC_COUNT \<and> length b = TCPFC_COUNT \<and>
      list_all (\<lambda>s. s < NPF_TCP_NSTATES \<or> s = NPF_TCPS_OK) (f @ b)"
    using npf_tcp_fsm_table_wf assms(1) fb nth_mem [of state npf_tcp_fsm_table]
    unfolding list_all_iff by fastforce
  then show ?thesis
    using fb assms(2) nth_mem [of c f] nth_mem [of c b]
    by (cases flow) (auto simp: npf_tcp_fsm_def list_all_iff)
qed

lemma tcp_next_range: "state < NPF_TCP_NSTATES \<Longrightarrow> tcp_next state flow tcpfl < NPF_TCP_NSTATES"
  using npf_tcp_fsm_range [OF _ npf_tcpfl2case_lt, of state flow "ucast tcpfl"]
  by (auto simp: tcp_next_def Let_def)

text \<open>The transitions into the states of the handshake, read off the table.\<close>

lemma npf_tcp_fsm_cases:
  assumes "state < NPF_TCP_NSTATES" "c < TCPFC_COUNT"
  shows "npf_tcp_fsm state flow c = NPF_TCPS_ESTABLISHED \<longleftrightarrow>
      state = NPF_TCPS_SYN_RECEIVED \<and> flow = NPF_FLOW_FORW \<and> c = TCPFC_ACK"
    "npf_tcp_fsm state flow c = NPF_TCPS_SYN_RECEIVED \<longleftrightarrow>
      state = NPF_TCPS_SYN_SENT \<and> flow = NPF_FLOW_BACK \<and> c = TCPFC_SYNACK \<or>
      state = NPF_TCPS_SIMSYN_SENT \<and> c = TCPFC_SYNACK"
    "npf_tcp_fsm state flow c = NPF_TCPS_SIMSYN_SENT \<longleftrightarrow>
      state = NPF_TCPS_SYN_SENT \<and> flow = NPF_FLOW_BACK \<and> c = TCPFC_SYN"
    "npf_tcp_fsm state flow c = NPF_TCPS_SYN_SENT \<longleftrightarrow>
      (state = NPF_TCPS_CLOSED \<or> state = NPF_TCPS_TIME_WAIT) \<and> flow = NPF_FLOW_FORW \<and> c = TCPFC_SYN"
proof -
  have s: "state \<in> set [0..<NPF_TCP_NSTATES]" and c: "c \<in> set [0..<TCPFC_COUNT]" using assms by auto
  have "list_all (\<lambda>state. list_all (\<lambda>c. list_all (\<lambda>flow.
      (npf_tcp_fsm state flow c = NPF_TCPS_ESTABLISHED \<longleftrightarrow>
        state = NPF_TCPS_SYN_RECEIVED \<and> flow = NPF_FLOW_FORW \<and> c = TCPFC_ACK) \<and>
      (npf_tcp_fsm state flow c = NPF_TCPS_SYN_RECEIVED \<longleftrightarrow>
        state = NPF_TCPS_SYN_SENT \<and> flow = NPF_FLOW_BACK \<and> c = TCPFC_SYNACK \<or>
        state = NPF_TCPS_SIMSYN_SENT \<and> c = TCPFC_SYNACK) \<and>
      (npf_tcp_fsm state flow c = NPF_TCPS_SIMSYN_SENT \<longleftrightarrow>
        state = NPF_TCPS_SYN_SENT \<and> flow = NPF_FLOW_BACK \<and> c = TCPFC_SYN) \<and>
      (npf_tcp_fsm state flow c = NPF_TCPS_SYN_SENT \<longleftrightarrow>
        (state = NPF_TCPS_CLOSED \<or> state = NPF_TCPS_TIME_WAIT) \<and> flow = NPF_FLOW_FORW \<and> c = TCPFC_SYN))
      [NPF_FLOW_FORW, NPF_FLOW_BACK]) [0..<TCPFC_COUNT]) [0..<NPF_TCP_NSTATES]"
    by code_simp
  moreover have "flow \<in> set [NPF_FLOW_FORW, NPF_FLOW_BACK]" by (cases flow) auto
  ultimately show
    "npf_tcp_fsm state flow c = NPF_TCPS_ESTABLISHED \<longleftrightarrow>
      state = NPF_TCPS_SYN_RECEIVED \<and> flow = NPF_FLOW_FORW \<and> c = TCPFC_ACK"
    "npf_tcp_fsm state flow c = NPF_TCPS_SYN_RECEIVED \<longleftrightarrow>
      state = NPF_TCPS_SYN_SENT \<and> flow = NPF_FLOW_BACK \<and> c = TCPFC_SYNACK \<or>
      state = NPF_TCPS_SIMSYN_SENT \<and> c = TCPFC_SYNACK"
    "npf_tcp_fsm state flow c = NPF_TCPS_SIMSYN_SENT \<longleftrightarrow>
      state = NPF_TCPS_SYN_SENT \<and> flow = NPF_FLOW_BACK \<and> c = TCPFC_SYN"
    "npf_tcp_fsm state flow c = NPF_TCPS_SYN_SENT \<longleftrightarrow>
      (state = NPF_TCPS_CLOSED \<or> state = NPF_TCPS_TIME_WAIT) \<and> flow = NPF_FLOW_FORW \<and> c = TCPFC_SYN"
    using s c unfolding list_all_iff by blast+
qed

section \<open>Runs of a tracked connection\<close>

text \<open>
  A run of the tracker: from the zeroed state any packets are inspected in any direction;
  the trace records the direction and the flags of those that were accepted.
\<close>

inductive tcp_run :: "npf_state \<Rightarrow> (npf_flow \<times> u8) list \<Rightarrow> bool" where
  tcp_run_init: "tcp_run npf_state_zero []"
| tcp_run_pass: "tcp_run nst tr \<Longrightarrow> npf_state_tcp npc nst flow = (True, npc', nst') \<Longrightarrow>
    tcp_run nst' (tr @ [(flow, th_flags npc)])"
| tcp_run_drop: "tcp_run nst tr \<Longrightarrow> npf_state_tcp npc nst flow = (False, npc', nst') \<Longrightarrow>
    tcp_run nst' tr"

text \<open>An accepted packet of a given direction and flag case, and the order of such packets.\<close>

definition seg :: "npf_flow \<Rightarrow> nat set \<Rightarrow> npf_flow \<times> u8 \<Rightarrow> bool" where
  "seg flow cs e \<longleftrightarrow> fst e = flow \<and> npf_tcpfl2case (ucast (snd e)) \<in> cs"

definition saw :: "(npf_flow \<times> u8) list \<Rightarrow> (npf_flow \<times> u8 \<Rightarrow> bool) list \<Rightarrow> bool" where
  "saw tr ps \<longleftrightarrow> (\<exists>es. subseq es tr \<and> list_all2 (\<lambda>p e. p e) ps es)"

lemma saw_append: "saw tr ps \<Longrightarrow> saw (tr @ [e]) ps"
  unfolding saw_def by (blast intro: list_emb_prefix)

lemma saw_snoc:
  assumes "saw tr ps" "p e" shows "saw (tr @ [e]) (ps @ [p])"
proof -
  obtain es where es: "subseq es tr" "list_all2 (\<lambda>p e. p e) ps es"
    using assms(1) by (auto simp: saw_def)
  have "subseq (es @ [e]) (tr @ [e])" using es(1) by (simp add: list_emb_append_mono)
  moreover have "list_all2 (\<lambda>p e. p e) (ps @ [p]) (es @ [e])"
    using es(2) assms(2) by (simp add: list_all2_appendI)
  ultimately show ?thesis unfolding saw_def by blast
qed

abbreviation "p_syn \<equiv> seg NPF_FLOW_FORW {TCPFC_SYN}"
abbreviation "p_reply \<equiv> seg NPF_FLOW_BACK {TCPFC_SYN, TCPFC_SYNACK}"
abbreviation "p_ack \<equiv> seg NPF_FLOW_FORW {TCPFC_ACK}"

definition handshake_inv :: "nat \<Rightarrow> (npf_flow \<times> u8) list \<Rightarrow> bool" where
  "handshake_inv state tr \<longleftrightarrow>
     state < NPF_TCP_NSTATES \<and>
     (state = NPF_TCPS_SYN_SENT \<longrightarrow> saw tr [p_syn]) \<and>
     (state = NPF_TCPS_SIMSYN_SENT \<or> state = NPF_TCPS_SYN_RECEIVED \<longrightarrow> saw tr [p_syn, p_reply]) \<and>
     (state = NPF_TCPS_ESTABLISHED \<longrightarrow> saw tr [p_syn, p_reply, p_ack])"

lemma handshake_inv_next:
  assumes inv: "handshake_inv state tr"
  shows "handshake_inv (tcp_next state flow tcpfl) (tr @ [(flow, tcpfl)])"
proof -
  let ?c = "npf_tcpfl2case (ucast tcpfl)" and ?e = "(flow, tcpfl)"
  have st: "state < NPF_TCP_NSTATES" using inv by (simp add: handshake_inv_def)
  have same: "handshake_inv state (tr @ [?e])"
    using inv by (auto simp: handshake_inv_def intro: saw_append)
  note fsm = npf_tcp_fsm_cases [OF st npf_tcpfl2case_lt [of "ucast tcpfl"]]
  show ?thesis
  proof (cases "tcpfl AND TH_RST = 0 \<and> npf_tcp_fsm state flow ?c \<noteq> NPF_TCPS_OK")
    case True
    let ?n = "npf_tcp_fsm state flow ?c"
    have n: "tcp_next state flow tcpfl = ?n" using True by (simp add: tcp_next_def)
    have "?n = NPF_TCPS_SYN_SENT \<Longrightarrow> saw (tr @ [?e]) [p_syn]"
      using saw_snoc [of tr "[]" p_syn ?e] fsm(4) [of flow] by (auto simp: saw_def seg_def)
    moreover have "?n = NPF_TCPS_SIMSYN_SENT \<Longrightarrow> saw (tr @ [?e]) [p_syn, p_reply]"
      using saw_snoc [of tr "[p_syn]" p_reply ?e] fsm(3) [of flow] inv
      by (auto simp: handshake_inv_def seg_def)
    moreover have "?n = NPF_TCPS_SYN_RECEIVED \<Longrightarrow> saw (tr @ [?e]) [p_syn, p_reply]"
      using saw_snoc [of tr "[p_syn]" p_reply ?e] saw_append [of tr "[p_syn, p_reply]" ?e]
        fsm(2) [of flow] inv
      by (auto simp: handshake_inv_def seg_def)
    moreover have "?n = NPF_TCPS_ESTABLISHED \<Longrightarrow> saw (tr @ [?e]) [p_syn, p_reply, p_ack]"
      using saw_snoc [of tr "[p_syn, p_reply]" p_ack ?e] fsm(1) [of flow] inv
      by (auto simp: handshake_inv_def seg_def)
    ultimately show ?thesis
      using tcp_next_range [OF st, of flow tcpfl] unfolding n handshake_inv_def by blast
  next
    case False
    then have "tcp_next state flow tcpfl = state \<or> tcp_next state flow tcpfl = NPF_TCPS_CLOSED"
      by (auto simp: tcp_next_def Let_def)
    then show ?thesis using same by (auto simp: handshake_inv_def)
  qed
qed

lemma tcp_run_handshake: "tcp_run nst tr \<Longrightarrow> handshake_inv (nst_state nst) tr"
proof (induction rule: tcp_run.induct)
  case tcp_run_init
  then show ?case by (simp add: handshake_inv_def npf_state_zero_def)
next
  case (tcp_run_pass nst tr npc flow npc' nst')
  then show ?case using handshake_inv_next npf_state_tcp_next by fastforce
next
  case (tcp_run_drop nst tr npc flow npc' nst')
  then show ?case using npf_state_tcp_next by fastforce
qed

section \<open>Facts about the windows\<close>

lemma flow_not_neq [simp]: "flow_not flow \<noteq> flow" "flow \<noteq> flow_not flow"
  by (cases flow; simp)+

lemma flow_cases: "fl = flow \<or> fl = flow_not flow"
  by (cases fl; cases flow) simp_all

definition side_ok :: "npf_tcpstate \<Rightarrow> bool" where
  "side_ok st \<longleftrightarrow> nst_maxwin st \<noteq> 0 \<and> 0 \<le> nst_wscale st \<and> nst_wscale st \<le> 14"

text \<open>Either nothing was tracked yet, or both sides have a window and a valid scale.\<close>

definition tcp_win_inv :: "npf_state \<Rightarrow> bool" where
  "tcp_win_inv nst \<longleftrightarrow>
     (\<forall>fl. nst_maxwin (nst_tcpst nst fl) = 0 \<and> nst_wscale (nst_tcpst nst fl) = 0) \<or>
     (\<forall>fl. side_ok (nst_tcpst nst fl))"

lemma tcp_win_inv_set2: "side_ok f \<Longrightarrow> side_ok t \<Longrightarrow> side_ok (nst_tcpst (nst_set2 nst flow f t) fl)"
  using flow_cases [of fl flow] by (auto simp: nst_set2_def)

lemma scaled_window_nonzero:
  assumes "k \<le> 14" "(ucast (x :: u16) :: u32) \<noteq> 0"
  shows "push_bit k (ucast x :: u32) \<noteq> 0"
proof
  assume z: "push_bit k (ucast x :: u32) = 0"
  have "x \<noteq> 0" using assms(2) by auto
  then obtain n where n: "bit x n" by (metis bit_eqI bit_0_eq bot_apply bot_bool_def)
  then have "n < 16" using bit_beyond [of n x] by (cases "n < 16") auto
  then have "bit (push_bit k (ucast x :: u32)) (n + k)"
    using n assms(1) by (simp add: bit_simps)
  then show False using z by simp
qed

lemma tcp_side_init_ok:
  assumes "tcp_side_init npc tcpfl f end win = (f', npc')" "side_ok f" "win \<noteq> 0"
  shows "side_ok f'"
proof (cases "nst_end f = 0")
  case True
  obtain ok mss w npc2 where o: "npf_fetch_tcpopts npc None 0 = (ok, mss, w, npc2)"
    by (metis prod_cases4)
  have "0 \<le> w \<and> w \<le> 14" using npf_fetch_tcpopts_wscale [OF o] by simp
  then show ?thesis
    using assms True o by (auto simp: tcp_side_init_def side_ok_def split: if_splits)
qed (use assms in \<open>simp add: tcp_side_init_def\<close>)

lemma tcp_window_update_ok:
  "side_ok f \<Longrightarrow> side_ok t \<Longrightarrow> tcp_window_update f t end ack win = (f', t') \<Longrightarrow>
   side_ok f' \<and> side_ok t'"
  by (auto simp: tcp_window_update_def side_ok_def Let_def split: if_splits)

lemma tcp_track_ok:
  assumes "side_ok f" "side_ok t" "tcp_track params tcpfl nst flow f t seq end ack win = (ok, nst')"
  shows "\<forall>fl. side_ok (nst_tcpst nst' fl)"
proof -
  let ?nst = "nst_set2 nst flow f t" and ?ack = "tcp_eff_ack tcpfl t ack"
  obtain seq' end' where r: "tcp_rst_fixup tcpfl (nst_state ?nst) f seq end = (seq', end')" by force
  obtain f' t' where u: "tcp_window_update f t end' ?ack win = (f', t')" by force
  have "nst' = ?nst \<or> nst' = nst_set2 ?nst flow f' t'"
    using assms(3) r u by (auto simp: tcp_track_def Let_def split: if_splits)
  then show ?thesis
    using tcp_win_inv_set2 assms(1,2) tcp_window_update_ok [OF assms(1,2) u] by metis
qed

lemma npf_tcp_inwindow_inv:
  assumes inv: "tcp_win_inv nst" and r: "npf_tcp_inwindow npc nst flow = (ok, npc', nst')"
  shows "\<forall>fl. side_ok (nst_tcpst nst' fl)"
proof -
  let ?f = "nst_tcpst nst flow" and ?t = "nst_tcpst nst (flow_not flow)"
  obtain seq ack w tcpdlen where s: "npf_tcpsaw npc = (seq, ack, w, tcpdlen)"
    by (metis prod_cases4)
  define end1 where "end1 = tcp_seg_end (th_flags npc) seq tcpdlen"
  define win where "win = (if w \<noteq> 0 then push_bit (nat (nst_wscale ?f)) w else 1)"
  have ws: "nat (nst_wscale ?f) \<le> 14" using inv by (auto simp: tcp_win_inv_def side_ok_def nat_le_iff)
  have "\<exists>x :: u16. w = ucast x" using s by (auto simp: npf_tcpsaw_def Let_def)
  then have win: "win \<noteq> 0" using scaled_window_nonzero [OF ws] by (auto simp: win_def)
  show ?thesis
  proof (cases "nst_maxwin ?f = 0")
    case True
    obtain ok2 mss sc npc2 where o: "npf_fetch_tcpopts npc None 0 = (ok2, mss, sc, npc2)"
      by (metis prod_cases4)
    have sc: "0 \<le> sc \<and> sc \<le> 14" using npf_fetch_tcpopts_wscale [OF o] by simp
    have "nst' = nst_set2 nst flow
        \<lparr> nst_end = end1, nst_maxend = end1, nst_maxwin = win, nst_wscale = sc \<rparr>
        \<lparr> nst_end = 0, nst_maxend = 0, nst_maxwin = 1, nst_wscale = 0 \<rparr>"
      using r s True o
      by (simp add: npf_tcp_inwindow_def Let_def tcp_first_packet_def end1_def win_def)
    then show ?thesis using tcp_win_inv_set2 win sc by (simp add: side_ok_def)
  next
    case False
    obtain f' npc2 where i: "tcp_side_init npc (th_flags npc) ?f end1 win = (f', npc2)" by force
    obtain ok2 nst2 where t:
      "tcp_track (npc_ctx npc) (th_flags npc) nst flow f' ?t seq end1 ack win = (ok2, nst2)" by force
    have sides: "side_ok ?f" "side_ok ?t" using inv False by (auto simp: tcp_win_inv_def)
    have "nst' = nst2"
      using r s False i t by (simp add: npf_tcp_inwindow_def Let_def end1_def win_def)
    then show ?thesis
      using tcp_track_ok [OF tcp_side_init_ok [OF i sides(1) win] sides(2) t] by simp
  qed
qed

lemma npf_state_tcp_inv:
  assumes "tcp_win_inv nst" "npf_state_tcp npc nst flow = (ok, npc', nst')"
  shows "\<forall>fl. side_ok (nst_tcpst nst' fl)"
proof -
  obtain ok1 npc1 nst1 where w: "npf_tcp_inwindow npc nst flow = (ok1, npc1, nst1)"
    by (metis prod_cases3)
  have "nst_tcpst nst' = nst_tcpst nst1"
    using assms(2) w by (auto simp: npf_state_tcp_def Let_def split: if_splits)
  then show ?thesis using npf_tcp_inwindow_inv [OF assms(1) w] by simp
qed

lemma tcp_run_win_inv: "tcp_run nst tr \<Longrightarrow> tcp_win_inv nst \<and> (tr \<noteq> [] \<longrightarrow> (\<forall>fl. side_ok (nst_tcpst nst fl)))"
proof (induction rule: tcp_run.induct)
  case tcp_run_init
  then show ?case by (simp add: tcp_win_inv_def npf_state_zero_def)
qed (auto simp: tcp_win_inv_def dest: npf_state_tcp_inv [rotated])

text \<open>
  A packet of a tracked side, with its effective numbers: the acknowledgement and the
  sequence numbers after the fix-ups for packets without ACK and for RST.
\<close>

definition tcp_eff :: "npf_cache \<Rightarrow> npf_state \<Rightarrow> npf_flow \<Rightarrow> u32 \<times> u32 \<times> u32" where
  "tcp_eff npc nst flow =
    (let (seq, ack, win, tcpdlen) = npf_tcpsaw npc;
         (seq', end') = tcp_rst_fixup (th_flags npc) (nst_state nst) (nst_tcpst nst flow) seq
           (tcp_seg_end (th_flags npc) seq tcpdlen) in
     (seq', end', tcp_eff_ack (th_flags npc) (nst_tcpst nst (flow_not flow)) ack))"

lemma nst_set2_same: "nst_set2 nst flow (nst_tcpst nst flow) (nst_tcpst nst (flow_not flow)) = nst"
  by (simp add: nst_set2_def)

lemma npf_tcp_inwindow_tracked:
  assumes tracked: "nst_maxwin (nst_tcpst nst flow) \<noteq> 0" "nst_end (nst_tcpst nst flow) \<noteq> 0"
    and eff: "tcp_eff npc nst flow = (seq, end1, ack)"
    and r: "npf_tcp_inwindow npc nst flow = (ok, npc', nst')"
  shows "npc' = npc"
    "ok \<longleftrightarrow>
      \<not> (th_flags npc AND TH_RST \<noteq> 0 \<and> npc_ctx npc VP_tcp_strict_order_rst \<noteq> 0 \<and>
         nst_end (nst_tcpst nst flow) - seq > 1) \<and>
      tcp_window_check (nst_tcpst nst flow) (nst_tcpst nst (flow_not flow))
        (npc_ctx npc VP_tcp_max_ack_win) seq end1 ack"
    "\<not> ok \<Longrightarrow> nst' = nst"
    "ok \<Longrightarrow> \<exists>win. nst' = (let (f, t) = tcp_window_update (nst_tcpst nst flow)
        (nst_tcpst nst (flow_not flow)) end1 ack win in nst_set2 nst flow f t)"
proof -
  let ?f = "nst_tcpst nst flow" and ?t = "nst_tcpst nst (flow_not flow)"
  obtain seq0 ack0 w tcpdlen where s: "npf_tcpsaw npc = (seq0, ack0, w, tcpdlen)"
    by (metis prod_cases4)
  define end0 where "end0 = tcp_seg_end (th_flags npc) seq0 tcpdlen"
  define win where "win = (if w \<noteq> 0 then push_bit (nat (nst_wscale ?f)) w else 1)"
  have i: "tcp_side_init npc (th_flags npc) ?f end0 win = (?f, npc)"
    using tracked by (simp add: tcp_side_init_def)
  obtain ok2 nst2 where t:
    "tcp_track (npc_ctx npc) (th_flags npc) nst flow ?f ?t seq0 end0 ack0 win = (ok2, nst2)" by force
  have res: "ok = ok2" "npc' = npc" "nst' = nst2"
    using r s tracked i t by (simp_all add: npf_tcp_inwindow_def Let_def end0_def win_def)
  then show "npc' = npc" by simp
  have fixup: "tcp_rst_fixup (th_flags npc) (nst_state nst) ?f seq0 end0 = (seq, end1)"
    and ack: "tcp_eff_ack (th_flags npc) ?t ack0 = ack"
    using eff s by (auto simp: tcp_eff_def Let_def end0_def split: prod.splits)
  obtain f' t' where u: "tcp_window_update ?f ?t end1 ack win = (f', t')" by force
  have track: "(ok2, nst2) =
      (if th_flags npc AND TH_RST \<noteq> 0 \<and> npc_ctx npc VP_tcp_strict_order_rst \<noteq> 0 \<and> nst_end ?f - seq > 1
       then (False, nst)
       else if \<not> tcp_window_check ?f ?t (npc_ctx npc VP_tcp_max_ack_win) seq end1 ack then (False, nst)
       else (True, nst_set2 nst flow f' t'))"
    unfolding t [symmetric] tcp_track_def by (simp only: Let_def nst_set2_same fixup ack u prod.case)
  show "ok \<longleftrightarrow>
      \<not> (th_flags npc AND TH_RST \<noteq> 0 \<and> npc_ctx npc VP_tcp_strict_order_rst \<noteq> 0 \<and> nst_end ?f - seq > 1) \<and>
      tcp_window_check ?f ?t (npc_ctx npc VP_tcp_max_ack_win) seq end1 ack"
    and "\<not> ok \<Longrightarrow> nst' = nst"
    and "ok \<Longrightarrow> \<exists>win. nst' = (let (f, t) = tcp_window_update ?f ?t end1 ack win in nst_set2 nst flow f t)"
    using track res u by (auto split: if_splits intro!: exI [of _ win])
qed

text \<open>Accepted packets never move the end or the window of the sending side back.\<close>

lemma tcp_window_update_mono:
  assumes "tcp_window_update f t end1 ack win = (f', t')"
  shows "SEQ_GEQ (nst_end f') (nst_end f)" "nst_maxwin f \<le> nst_maxwin f'"
    "nst_wscale f' = nst_wscale f" "nst_maxend f' = nst_maxend f" "nst_maxwin t' = nst_maxwin t"
  using assms by (auto simp: tcp_window_update_def Let_def c_defs split: if_splits)

section \<open>Example connection\<close>

text \<open>The cached packet, and the states along a three-way handshake.\<close>

definition ex_tcp :: "u8 \<Rightarrow> u8 \<Rightarrow> u8 \<Rightarrow> npf_cache" where
  "ex_tcp fl seq ack = snd (npf_cache_all (ex_npc (ex_packet fl seq ack) [40]))"

definition ex_track :: "npf_state \<Rightarrow> npf_cache \<Rightarrow> npf_flow \<Rightarrow> npf_state" where
  "ex_track nst npc flow = snd (snd (npf_state_tcp npc nst flow))"

definition ex_syn_sent :: npf_state where
  "ex_syn_sent = ex_track npf_state_zero (ex_tcp 0x02 0 0) NPF_FLOW_FORW"

definition ex_syn_received :: npf_state where
  "ex_syn_received = ex_track ex_syn_sent (ex_tcp 0x12 0 0) NPF_FLOW_BACK"

definition ex_established :: npf_state where
  "ex_established = ex_track ex_syn_received (ex_tcp 0x10 1 0) NPF_FLOW_FORW"

lemma tcp_run_track:
  assumes "tcp_run nst tr" "fst (npf_state_tcp npc nst flow)"
  shows "tcp_run (ex_track nst npc flow) (tr @ [(flow, th_flags npc)])"
proof -
  obtain npc' nst' where r: "npf_state_tcp npc nst flow = (True, npc', nst')"
    using assms(2) by (cases "npf_state_tcp npc nst flow") auto
  then have "nst' = ex_track nst npc flow" by (simp add: ex_track_def)
  then show ?thesis using tcp_run_pass [OF assms(1) r] by simp
qed

lemma ex_run_syn: "tcp_run ex_syn_sent [(NPF_FLOW_FORW, 0x02)]"
proof -
  have "fst (npf_state_tcp (ex_tcp 0x02 0 0) npf_state_zero NPF_FLOW_FORW)" by code_simp
  moreover have "th_flags (ex_tcp 0x02 0 0) = 0x02" by code_simp
  ultimately show ?thesis
    using tcp_run_track [OF tcp_run_init, of "ex_tcp 0x02 0 0" NPF_FLOW_FORW]
    by (simp add: ex_syn_sent_def)
qed

lemma ex_run_established:
  "tcp_run ex_established [(NPF_FLOW_FORW, 0x02), (NPF_FLOW_BACK, 0x12), (NPF_FLOW_FORW, 0x10)]"
proof -
  have "fst (npf_state_tcp (ex_tcp 0x12 0 0) ex_syn_sent NPF_FLOW_BACK)"
    "fst (npf_state_tcp (ex_tcp 0x10 1 0) ex_syn_received NPF_FLOW_FORW)"
    by code_simp+
  moreover have "th_flags (ex_tcp 0x12 0 0) = 0x12" "th_flags (ex_tcp 0x10 1 0) = 0x10" by code_simp+
  ultimately show ?thesis
    using tcp_run_track [OF tcp_run_track [OF ex_run_syn, of "ex_tcp 0x12 0 0" NPF_FLOW_BACK],
      of "ex_tcp 0x10 1 0" NPF_FLOW_FORW]
    by (simp add: ex_syn_received_def ex_established_def)
qed

section \<open>Properties\<close>

text \<open>
  C8: a connection is ESTABLISHED only after a handshake.  In every run of the tracker,
  whatever packets are inspected, the state ESTABLISHED is reached only if the accepted
  packets contain, in this order, an initial SYN of the originator, a SYN or SYN-ACK of
  the responder, and an ACK of the originator.
\<close>

theorem tcp_established_after_handshake:
  assumes "tcp_run nst tr" "nst_state nst = NPF_TCPS_ESTABLISHED"
  shows "\<exists>f1 f2 f3.
    subseq [(NPF_FLOW_FORW, f1), (NPF_FLOW_BACK, f2), (NPF_FLOW_FORW, f3)] tr \<and>
    npf_tcpfl2case (ucast f1) = TCPFC_SYN \<and>
    npf_tcpfl2case (ucast f2) \<in> {TCPFC_SYN, TCPFC_SYNACK} \<and>
    npf_tcpfl2case (ucast f3) = TCPFC_ACK"
proof -
  have "saw tr [p_syn, p_reply, p_ack]"
    using tcp_run_handshake [OF assms(1)] assms(2) by (simp add: handshake_inv_def)
  then show ?thesis
    by (fastforce simp: saw_def seg_def list_all2_Cons1)
qed

theorem tcp_established_after_handshake_witness:
  "\<exists>f1 f2 f3.
    subseq [(NPF_FLOW_FORW, f1), (NPF_FLOW_BACK, f2), (NPF_FLOW_FORW, f3)]
      [(NPF_FLOW_FORW, 0x02 :: u8), (NPF_FLOW_BACK, 0x12), (NPF_FLOW_FORW, 0x10)] \<and>
    npf_tcpfl2case (ucast f1) = TCPFC_SYN \<and>
    npf_tcpfl2case (ucast f2) \<in> {TCPFC_SYN, TCPFC_SYNACK} \<and>
    npf_tcpfl2case (ucast f3) = TCPFC_ACK"
proof -
  have "nst_state ex_established = NPF_TCPS_ESTABLISHED" by code_simp
  then show ?thesis by (rule tcp_established_after_handshake [OF ex_run_established])
qed

text \<open>
  C9: window tracking of an initialised side.  When the sending side has a window and a
  non-zero end, \<open>npf_tcp_inwindow\<close> accepts the packet exactly if it is no out-of-order RST
  under strict ordering and its effective sequence and acknowledgement numbers satisfy
  the boundaries I to IV of the comment; a rejected packet changes nothing, and an
  accepted one never moves the end or the window of the sender back.
\<close>

theorem npf_tcp_inwindow_boundaries:
  assumes "nst_maxwin (nst_tcpst nst flow) \<noteq> 0" "nst_end (nst_tcpst nst flow) \<noteq> 0"
    "tcp_eff npc nst flow = (seq, end1, ack)"
    "npf_tcp_inwindow npc nst flow = (ok, npc', nst')"
  shows "let f = nst_tcpst nst flow; t = nst_tcpst nst (flow_not flow);
             M = npc_ctx npc VP_tcp_max_ack_win in
    (ok \<longleftrightarrow>
      \<not> (th_flags npc AND TH_RST \<noteq> 0 \<and> npc_ctx npc VP_tcp_strict_order_rst \<noteq> 0 \<and> nst_end f - seq > 1) \<and>
      sint (end1 - nst_maxend f) \<le> 0 \<and>
      sint (seq - (nst_end f - nst_maxwin t)) \<ge> 0 \<and>
      - M \<le> sint (nst_end t - ack) \<and> sint (nst_end t - ack) \<le> c_int (M * 2 ^ nat (nst_wscale f))) \<and>
    (\<not> ok \<longrightarrow> nst' = nst \<and> npc' = npc) \<and>
    (ok \<longrightarrow> sint (nst_end (nst_tcpst nst' flow) - nst_end f) \<ge> 0 \<and>
      nst_maxwin f \<le> nst_maxwin (nst_tcpst nst' flow))"
proof -
  note w = npf_tcp_inwindow_tracked [OF assms]
  let ?f = "nst_tcpst nst flow" and ?t = "nst_tcpst nst (flow_not flow)"
  have "sint (nst_end (nst_tcpst nst' flow) - nst_end ?f) \<ge> 0 \<and>
      nst_maxwin ?f \<le> nst_maxwin (nst_tcpst nst' flow)" if a: "ok"
  proof -
    obtain win where n: "nst' = (let (f, t) = tcp_window_update ?f ?t end1 ack win in nst_set2 nst flow f t)"
      using w(4) [OF a] by blast
    obtain f' t' where u: "tcp_window_update ?f ?t end1 ack win = (f', t')" by force
    have "nst_tcpst nst' flow = f'" using n u by (simp add: nst_set2_def)
    then show ?thesis using tcp_window_update_mono [OF u] by (simp add: SEQ_GEQ_def)
  qed
  then show ?thesis
    using w(1-3) by (auto simp: Let_def tcp_window_check_def SEQ_LEQ_def SEQ_GEQ_def)
qed

theorem npf_tcp_inwindow_boundaries_witness:
  "let nst = ex_established; npc = ex_tcp 0x10 1 0 in
   nst_maxwin (nst_tcpst nst NPF_FLOW_FORW) \<noteq> 0 \<and> nst_end (nst_tcpst nst NPF_FLOW_FORW) \<noteq> 0 \<and>
   fst (npf_tcp_inwindow npc nst NPF_FLOW_FORW) \<and>
   sint (nst_end (nst_tcpst (snd (snd (npf_tcp_inwindow npc nst NPF_FLOW_FORW))) NPF_FLOW_FORW) -
     nst_end (nst_tcpst nst NPF_FLOW_FORW)) \<ge> 0"
proof -
  let ?nst = ex_established and ?npc = "ex_tcp 0x10 1 0" and ?fl = NPF_FLOW_FORW
  obtain seq end1 ack where e: "tcp_eff ?npc ?nst ?fl = (seq, end1, ack)" by (metis prod_cases3)
  obtain ok npc' nst' where r: "npf_tcp_inwindow ?npc ?nst ?fl = (ok, npc', nst')"
    by (metis prod_cases3)
  have 1: "nst_maxwin (nst_tcpst ?nst ?fl) \<noteq> 0" and 2: "nst_end (nst_tcpst ?nst ?fl) \<noteq> 0" by code_simp+
  have 3: "fst (npf_tcp_inwindow ?npc ?nst ?fl)" by code_simp
  show ?thesis
    using npf_tcp_inwindow_boundaries [OF 1 2 e r] 1 2 3 r by (simp add: Let_def)
qed

text \<open>
  The flag case computed from the packed constant 0x2430140 is the documented one for
  every value of the flags: invalid for SYN with FIN and for none of the three flags,
  SYN-ACK, SYN, FIN with or without ACK, or ACK; so it is always below the case count.
\<close>

theorem npf_tcpfl2case_documented:
  "npf_tcpfl2case tcpfl =
     tcp_flag_case (tcpfl AND ucast TH_SYN \<noteq> 0) (tcpfl AND ucast TH_FIN \<noteq> 0) (tcpfl AND ucast TH_ACK \<noteq> 0) \<and>
   npf_tcpfl2case tcpfl < TCPFC_COUNT"
  using and_flag_iff [of 0 tcpfl] and_flag_iff [of 1 tcpfl] and_flag_iff [of 4 tcpfl]
  using npf_tcpfl2case_lt [of tcpfl] by (simp add: npf_tcpfl2case_bits)

text \<open>
  C27: invariant of the TCP state.  In every run the state is one of the twelve states,
  and once a packet was accepted both sides keep a non-zero window and a window scale
  between 0 and 14, so a zero window identifies the untracked connection.
\<close>

theorem tcp_run_invariant:
  assumes "tcp_run nst tr"
  shows "nst_state nst < NPF_TCP_NSTATES \<and>
    (tr \<noteq> [] \<longrightarrow> nst_maxwin (nst_tcpst nst fl) \<noteq> 0 \<and>
       0 \<le> nst_wscale (nst_tcpst nst fl) \<and> nst_wscale (nst_tcpst nst fl) \<le> 14)"
  using tcp_run_handshake [OF assms] tcp_run_win_inv [OF assms]
  by (auto simp: handshake_inv_def side_ok_def)

theorem tcp_run_invariant_witness:
  "nst_state ex_syn_sent < NPF_TCP_NSTATES \<and>
   nst_maxwin (nst_tcpst ex_syn_sent NPF_FLOW_BACK) \<noteq> 0"
  using tcp_run_invariant [OF ex_run_syn, of NPF_FLOW_BACK] by simp

end
