(* ===== verification/NPF_Cksum.thy ===== *)
theory NPF_Cksum
  imports NPF_Prelude
begin

text \<open>
  The Internet checksum (\<open>src/kern/npf_inet.c\<close>): the incremental updates
  \<open>npf_fixup16_cksum\<close>, \<open>npf_fixup32_cksum\<close> and \<open>npf_addr_cksum\<close>, the reference
  definition of the checksum over the 16-bit words of a byte string (RFC 1071), and the
  facts that relate them.  The sums are kept in 32 bits, as the code keeps them.
\<close>

section \<open>Incremental update\<close>

definition npf_fixup16_cksum :: "u16 \<Rightarrow> u16 \<Rightarrow> u16 \<Rightarrow> u16" where
  "npf_fixup16_cksum cksum odatum ndatum =
    (let sum = NOT (ucast cksum) AND 0xffff :: u32;
         sum = sum + ((NOT (ucast odatum) AND 0xffff) + ucast ndatum);
         sum = drop_bit 16 sum + (sum AND 0xffff);
         sum = sum + drop_bit 16 sum in
     ucast (NOT sum AND 0xffff))"

definition npf_fixup32_cksum :: "u16 \<Rightarrow> u32 \<Rightarrow> u32 \<Rightarrow> u16" where
  "npf_fixup32_cksum cksum odatum ndatum =
    (let sum = NOT (ucast cksum) AND 0xffff :: u32;
         sum = sum + ((NOT odatum AND 0xffff) + (ndatum AND 0xffff));
         sum = sum + (drop_bit 16 (NOT odatum) + drop_bit 16 ndatum);
         sum = drop_bit 16 sum + (sum AND 0xffff);
         sum = sum + drop_bit 16 sum in
     ucast (NOT sum AND 0xffff))"

text \<open>
  The loop over the 32-bit words of an address of \<open>sz\<close> bytes; \<open>sz\<close> is 4 or 16, and the
  body runs at least once.
\<close>

fun npf_addr_cksum :: "u16 \<Rightarrow> nat \<Rightarrow> u8 list \<Rightarrow> u8 list \<Rightarrow> u16" where
  "npf_addr_cksum cksum sz oaddr naddr =
    (let cksum = npf_fixup32_cksum cksum (rd32 oaddr 0) (rd32 naddr 0) in
     if sz \<le> 4 then cksum else npf_addr_cksum cksum (sz - 4) (drop 4 oaddr) (drop 4 naddr))"

declare npf_addr_cksum.simps [simp del]

section \<open>Reference: one's complement arithmetic\<close>

text \<open>
  The one's complement sum of 16-bit words, given their integer sum: the end-around-carry
  representative, which is 0 only for an empty sum and 65535 for the other multiples.
\<close>

definition oc_norm :: "nat \<Rightarrow> nat" where
  "oc_norm s = (if s = 0 then 0 else 1 + (s - 1) mod 65535)"

text \<open>The integer sum of the little-endian 16-bit words, an odd last byte padded with zero.\<close>

fun sum16 :: "u8 list \<Rightarrow> nat" where
  "sum16 [] = 0"
| "sum16 [a] = unat a"
| "sum16 (a # b # r) = unat a + 256 * unat b + sum16 r"

definition in_cksum :: "u8 list \<Rightarrow> u16" where
  "in_cksum bs = NOT (of_nat (oc_norm (sum16 bs)))"

text \<open>The receiver's test: the sum over the data with the checksum field is all ones.\<close>

definition cksum_ok :: "nat \<Rightarrow> bool" where
  "cksum_ok s \<longleftrightarrow> oc_norm s = 65535"

lemma cksum_ok_iff: "cksum_ok s \<longleftrightarrow> 0 < s \<and> s mod 65535 = 0"
proof (cases s)
  case (Suc k)
  have "k mod 65535 = 65534 \<longleftrightarrow> Suc k mod 65535 = 0"
    by (simp add: mod_Suc)
  then show ?thesis using Suc by (simp add: cksum_ok_def oc_norm_def)
qed (simp add: cksum_ok_def oc_norm_def)

lemma oc_norm_le: "oc_norm s \<le> 65535"
proof -
  have "(s - 1) mod 65535 < 65535" by simp
  then show ?thesis unfolding oc_norm_def by (cases "s = 0") simp_all
qed

lemma oc_norm_mod: "oc_norm s mod 65535 = s mod 65535"
  by (cases s) (simp_all add: oc_norm_def mod_Suc)

lemma oc_norm_0 [simp]: "oc_norm s = 0 \<longleftrightarrow> s = 0"
  by (simp add: oc_norm_def)

lemma oc_norm_eqI:
  assumes "s mod 65535 = t mod 65535" "s = 0 \<longleftrightarrow> t = 0" shows "oc_norm s = oc_norm t"
proof (cases s)
  case (Suc a)
  then obtain b where b: "t = Suc b" using assms(2) by (cases t) auto
  have "a mod 65535 = b mod 65535"
    using assms(1) Suc b by (simp add: mod_Suc split: if_splits)
  then show ?thesis using Suc b by (simp add: oc_norm_def)
qed (use assms in simp)

text \<open>The two folding steps of the code compute the representative of sums below 2^32.\<close>

lemma fold16_oc_norm:
  fixes s :: nat
  assumes s: "s \<le> 5 * 65535"
  defines "t \<equiv> s div 65536 + s mod 65536"
  shows "(t + t div 65536) mod 65536 = oc_norm s"
proof -
  obtain q r where q: "s = q * 65536 + r" "r < 65536" and d: "s div 65536 = q" "s mod 65536 = r"
    by (metis div_mult_mod_eq mod_less_divisor zero_less_numeral)
  have q4: "q \<le> 4" using q s by linarith
  have t: "t = q + r" using d by (simp add: t_def)
  show ?thesis
  proof (cases "q + r < 65536")
    case True
    then have "(t + t div 65536) mod 65536 = q + r" by (simp add: t)
    moreover have "oc_norm s = q + r"
    proof (cases "s = 0")
      case False
      have "s - 1 = (q + r - 1) + q * 65535" using q False by (cases "q + r") auto
      then have "(s - 1) mod 65535 = (q + r - 1) mod 65535" by (simp only: mod_mult_self1)
      also have "\<dots> = q + r - 1" using True False q by (intro mod_less) linarith
      finally show ?thesis using False q by (auto simp: oc_norm_def)
    qed (use q in simp)
    ultimately show ?thesis by simp
  next
    case False
    then have "t div 65536 = 1" using q q4 t by simp
    then have "(t + t div 65536) mod 65536 = q + r - 65535"
      using False q q4 t by (simp add: mod_if)
    moreover have "s - 1 = (q + r - 65536) + (q + 1) * 65535" using q False by simp
    then have "(s - 1) mod 65535 = (q + r - 65536) mod 65535" by (simp only: mod_mult_self1)
    then have "(s - 1) mod 65535 = q + r - 65536"
      using q q4 mod_less [of "q + r - 65536" 65535] by linarith
    moreover have "s \<noteq> 0" using False q by auto
    ultimately show ?thesis using False by (simp add: oc_norm_def)
  qed
qed

section \<open>The incremental updates in integer terms\<close>

lemma unat_not16: "unat (NOT (x :: u16)) = 65535 - unat x"
proof -
  have "NOT x = - 1 - x" by (simp add: not_eq_complement)
  moreover have "unat (- 1 - x) = unat (- 1 :: u16) - unat x"
    by (rule unat_sub) (rule word_order.extremum)
  ultimately show ?thesis by (simp add: unsigned_minus_1_eq_mask mask_eq_exp_minus_1)
qed

lemma u16_le: "unat (x :: u16) \<le> 65535"
  using unat_lt [of x] by simp

lemma unat_ucast_16_32 [simp]: "unat (ucast (x :: u16) :: u32) = unat x"
  using u16_le [of x] by (simp add: unsigned_ucast_eq take_bit_eq_mod [where 'a = nat])

lemma unat_ucast_32_16: "unat (ucast (x :: u32) :: u16) = unat x mod 65536"
  by (simp add: unsigned_ucast_eq take_bit_eq_mod [where 'a = nat])

lemma and_ffff32: "(x :: u32) AND 0xffff = take_bit 16 x"
  by (simp add: take_bit_eq_mask mask_eq_exp_minus_1)

lemma unat_low16: "unat ((x :: u32) AND 0xffff) = unat x mod 65536"
  by (simp add: and_ffff32 unsigned_take_bit_eq take_bit_eq_mod [where 'a = nat])

lemma unat_not32_low: "unat (NOT (x :: u32) AND 0xffff) = 65535 - unat x mod 65536"
proof -
  have "NOT x AND 0xffff = ucast (NOT (ucast x :: u16))"
    by (rule bit_word_eqI) (auto simp: and_ffff32 bit_simps)
  then show ?thesis by (simp add: unat_not16 unat_ucast_32_16)
qed

lemma unat_drop16: "unat (drop_bit 16 (x :: u32)) = unat x div 65536"
  by (simp add: unat_drop_bit_eq drop_bit_eq_div [where 'a = nat])

lemma unat_add_small: "unat (x :: u32) + unat y < 2 ^ 32 \<Longrightarrow> unat (x + y) = unat x + unat y"
  by (rule unat_add_lem [THEN iffD1]) simp

lemma fixup_fold:
  fixes sum :: u32
  assumes s: "unat sum \<le> 5 * 65535"
  defines "t \<equiv> drop_bit 16 sum + (sum AND 0xffff)"
  shows "unat (ucast (NOT (t + drop_bit 16 t) AND 0xffff) :: u16) = 65535 - oc_norm (unat sum)"
proof -
  have t: "unat t = unat sum div 65536 + unat sum mod 65536"
    unfolding t_def using s by (subst unat_add_small) (simp_all add: unat_drop16 unat_low16)
  then have "unat (t + drop_bit 16 t) = unat t + unat t div 65536"
    using s by (subst unat_add_small) (simp_all add: unat_drop16)
  then have "unat (t + drop_bit 16 t) mod 65536 = oc_norm (unat sum)"
    using fold16_oc_norm [OF s] t by simp
  then show ?thesis
    by (simp add: unat_ucast_32_16 unat_not32_low)
qed

lemma npf_fixup16_cksum_unat:
  "unat (npf_fixup16_cksum c m m') =
     65535 - oc_norm ((65535 - unat c) + (65535 - unat m) + unat m')"
proof -
  let ?sum = "(NOT (ucast c) AND 0xffff :: u32) + ((NOT (ucast m) AND 0xffff) + ucast m')"
  have c: "unat (NOT (ucast c) AND 0xffff :: u32) = 65535 - unat c"
    and m: "unat (NOT (ucast m) AND 0xffff :: u32) = 65535 - unat m"
    and m': "unat (ucast m' :: u32) = unat m'"
    using u16_le [of c] u16_le [of m] by (simp_all add: unat_not32_low)
  have b: "unat m' \<le> 65535" by (rule u16_le)
  have "unat ?sum = (65535 - unat c) + (65535 - unat m) + unat m'"
    using b by (simp add: unat_add_small c m m')
  moreover have "\<dots> \<le> 5 * 65535" using b by simp
  ultimately show ?thesis
    unfolding npf_fixup16_cksum_def Let_def using fixup_fold [of ?sum] by simp
qed

lemma npf_fixup32_cksum_unat:
  "unat (npf_fixup32_cksum c m m') =
     65535 - oc_norm ((65535 - unat c) +
       (65535 - unat m mod 65536) + unat m' mod 65536 +
       (65535 - unat m div 65536) + unat m' div 65536)"
proof -
  let ?s = "(NOT (ucast c) AND 0xffff :: u32) + ((NOT m AND 0xffff) + (m' AND 0xffff))"
  let ?sum = "?s + (drop_bit 16 (NOT m) + drop_bit 16 m')"
  have h: "unat (drop_bit 16 (NOT m)) = 65535 - unat m div 65536"
  proof -
    have "drop_bit 16 (NOT m) = ucast (NOT (ucast (drop_bit 16 m) :: u16))"
      by (rule bit_word_eqI) (auto simp: bit_simps)
    moreover have "unat m div 65536 < 65536" using unat_lt [of m] by simp
    ultimately show ?thesis by (simp add: unat_not16 unat_ucast_32_16 unat_drop16)
  qed
  have c: "unat (NOT (ucast c) AND 0xffff :: u32) = 65535 - unat c"
    using u16_le [of c] by (simp add: unat_not32_low)
  have b: "unat m' div 65536 \<le> 65535" "unat m' mod 65536 \<le> 65535"
    using unat_lt [of m'] by simp_all
  have 1: "unat ?s = (65535 - unat c) + (65535 - unat m mod 65536) + unat m' mod 65536"
    using b u16_le [of c]
    by (simp add: unat_add_small c unat_not32_low [of m] unat_low16 [of m'] add.assoc)
  have 2: "unat (drop_bit 16 (NOT m) + drop_bit 16 m') =
      (65535 - unat m div 65536) + unat m' div 65536"
    using b by (subst unat_add_small) (simp_all add: h unat_drop16 [of m'])
  have "unat ?s + unat (drop_bit 16 (NOT m) + drop_bit 16 m') < 2 ^ 32"
    unfolding 1 2 using b by simp
  from unat_add_small [OF this]
  have "unat ?sum = (65535 - unat c) + (65535 - unat m mod 65536) + unat m' mod 65536 +
       (65535 - unat m div 65536) + unat m' div 65536"
    by (simp only: 1 2 add.assoc)
  note sum = this
  have "unat ?sum \<le> 5 * 65535" unfolding sum using b by simp
  from fixup_fold [OF this] show ?thesis
    unfolding npf_fixup32_cksum_def Let_def sum .
qed

section \<open>The update keeps the checksum right\<close>

text \<open>
  In a sum \<open>S\<close> of 16-bit words the words adding up to \<open>old\<close> are replaced by words adding
  up to \<open>new\<close>; \<open>c\<close> is the checksum field and \<open>65535 - oc_norm x\<close> the updated one.
\<close>

lemma oc_update_dvd:
  assumes "65535 dvd S + c" "x + c + old = N * 65535 + new" "old \<le> S"
  shows "65535 dvd (S - old + new) + (65535 - oc_norm x)"
proof -
  have "int x mod 65535 = int (oc_norm x) mod 65535"
    using oc_norm_mod [of x] by (metis of_nat_mod of_nat_numeral)
  then obtain k :: int where k: "int x = int (oc_norm x) + 65535 * k"
    by (metis add.commute diff_eq_eq dvdE mod_eq_dvd_iff)
  obtain j :: nat where j: "S + c = 65535 * j" using assms(1) by (auto elim: dvdE)
  have "int (S - old + new + (65535 - oc_norm x)) =
      int S - int old + int new + 65535 - int (oc_norm x)"
    using assms(3) oc_norm_le [of x] by simp
  also have "\<dots> = 65535 * (int j - int N + 1 + k)"
    using k j assms(2) by (simp add: algebra_simps)
  finally have "65535 dvd int (S - old + new + (65535 - oc_norm x))" by simp
  then show ?thesis by (metis int_dvd_int_iff of_nat_numeral)
qed

lemma fixup16_dvd:
  assumes "65535 dvd S + unat c" "unat m \<le> S"
  shows "65535 dvd (S - unat m + unat m') + unat (npf_fixup16_cksum c m m')"
  unfolding npf_fixup16_cksum_unat
  using u16_le [of c] u16_le [of m] by (intro oc_update_dvd [OF assms(1) _ assms(2), where N = 2]) simp

definition halves :: "u32 \<Rightarrow> nat" where
  "halves w = unat w mod 65536 + unat w div 65536"

lemma fixup32_dvd:
  assumes "65535 dvd S + unat c" "halves m \<le> S"
  shows "65535 dvd (S - halves m + halves m') + unat (npf_fixup32_cksum c m m')"
proof -
  have "unat m div 65536 \<le> 65535" using unat_lt [of m] by simp
  then show ?thesis
    unfolding npf_fixup32_cksum_unat using u16_le [of c]
    by (intro oc_update_dvd [OF assms(1) _ assms(2), where N = 3]) (simp add: halves_def)
qed

text \<open>Exact agreement with recomputation, whenever the new words are not all zero.\<close>

lemma dvd_mod_eq:
  assumes "65535 dvd A + (65535 - v)" "v \<le> 65535" shows "A mod 65535 = (v :: nat) mod 65535"
proof -
  obtain q where "A + (65535 - v) = 65535 * q" using assms(1) by (auto elim: dvdE)
  then have "A + 65535 = v + 65535 * q" using assms(2) by linarith
  then show ?thesis by (metis mod_add_self2 mod_mult_self2)
qed

lemma oc_update_eq:
  assumes "c = 65535 - oc_norm S" "x + c + old = N * 65535 + new" "old \<le> S"
    "old \<le> (N - 1) * 65535" "1 < N" "0 < S - old + new"
  shows "65535 - oc_norm x = 65535 - oc_norm (S - old + new)"
proof -
  have "65535 dvd (S - old + new) + (65535 - oc_norm x)"
  proof (rule oc_update_dvd [OF _ assms(2,3)])
    have "(S + (65535 - oc_norm S)) mod 65535 = (oc_norm S + (65535 - oc_norm S)) mod 65535"
      by (metis mod_add_left_eq oc_norm_mod)
    then show "65535 dvd S + c" using assms(1) oc_norm_le [of S] by (simp add: dvd_eq_mod_eq_0)
  qed
  then have "(S - old + new) mod 65535 = oc_norm x mod 65535"
    by (rule dvd_mod_eq [OF _ oc_norm_le])
  moreover have "x \<noteq> 0"
  proof
    assume "x = 0"
    then have *: "c + old = N * 65535 + new" using assms(2) by simp
    then have "65535 \<le> c" using assms(4,5) by (cases N) auto
    then have "S = 0" using assms(1) by (cases "oc_norm S") auto
    then show False using * assms(1,3,5) by simp
  qed
  ultimately have "oc_norm x = oc_norm (S - old + new)"
    using assms(6) by (intro oc_norm_eqI) (auto simp: oc_norm_mod)
  then show ?thesis by simp
qed

section \<open>Sums over memory\<close>

lemma sum16_append: "even (length xs) \<Longrightarrow> sum16 (xs @ ys) = sum16 xs + sum16 ys"
  by (induction xs rule: sum16.induct) auto

lemma sum16_0_iff: "sum16 xs = 0 \<longleftrightarrow> (\<forall>b\<in>set xs. b = 0)"
  by (induction xs rule: sum16.induct) (auto simp: unat_eq_0)

lemma unat_rd16: "unat (rd16 d i) = unat (d ! i) + 256 * unat (d ! (i + 1))"
proof -
  have "rd16 d i = ucast (d ! i) + push_bit 8 (ucast (d ! (i + 1)))"
    unfolding rd16_def
    by (subst disjunctive_add) (auto simp: bit_simps bit_beyond)
  moreover have "unat (ucast (d ! i) :: u16) = unat (d ! i)" for i
    using unat_lt [of "d ! i"] by (simp add: unsigned_ucast_eq take_bit_eq_mod [where 'a = nat])
  moreover have "unat (push_bit 8 (ucast (d ! (i + 1))) :: u16) = 256 * unat (d ! (i + 1))"
    using unat_lt [of "d ! (i + 1)"]
    by (simp add: push_bit_eq_mult unat_word_ariths calculation(2))
  ultimately show ?thesis
    using unat_lt [of "d ! i"] unat_lt [of "d ! (i + 1)"]
    by (simp add: unat_word_ariths)
qed

lemma halves_split:
  assumes "(ucast (w :: u32) :: u16) = lo" "(ucast (drop_bit 16 w) :: u16) = hi"
  shows "halves w = unat lo + unat hi"
proof -
  have "unat w mod 65536 = unat lo"
    using assms(1) unat_ucast_32_16 [of w] by simp
  moreover have "unat w div 65536 = unat hi"
    using assms(2) unat_ucast_32_16 [of "drop_bit 16 w"] unat_lt [of w] by (simp add: unat_drop16)
  ultimately show ?thesis by (simp add: halves_def)
qed

lemma halves_rd32: "halves (rd32 d i) = unat (rd16 d i) + unat (rd16 d (i + 2))"
proof (rule halves_split)
  show "(ucast (rd32 d i) :: u16) = rd16 d i"
    by (rule bit_word_eqI) (auto simp: rd32_def rd16_def bit_simps bit_beyond)
  show "(ucast (drop_bit 16 (rd32 d i)) :: u16) = rd16 d (i + 2)"
    by (rule bit_word_eqI) (auto simp: rd32_def rd16_def bit_simps bit_beyond numeral_3_eq_3)
qed

lemma halves_join: "halves (ucast (lo :: u16) OR push_bit 16 (ucast (hi :: u16))) = unat lo + unat hi"
proof (rule halves_split)
  show "(ucast (ucast lo OR push_bit 16 (ucast hi) :: u32) :: u16) = lo"
    by (rule bit_word_eqI) (auto simp: bit_simps)
  show "(ucast (drop_bit 16 (ucast lo OR push_bit 16 (ucast hi) :: u32)) :: u16) = hi"
    by (rule bit_word_eqI) (auto simp: bit_simps bit_beyond)
qed

lemma sum16_rd16_le: "even i \<Longrightarrow> i + 1 < length d \<Longrightarrow> unat (rd16 d i) \<le> sum16 d"
proof (induction d arbitrary: i rule: sum16.induct)
  case (3 a b r)
  show ?case
  proof (cases i)
    case (Suc k)
    then obtain j where j: "i = Suc (Suc j)" using "3.prems" by (cases k) auto
    then show ?thesis using "3.IH" [of j] "3.prems" by (simp add: unat_rd16)
  qed (simp add: unat_rd16)
qed auto

text \<open>Overwriting an aligned word changes the sum by the difference.\<close>

lemma sum16_wr16:
  "even i \<Longrightarrow> i + 1 < length d \<Longrightarrow> sum16 (wr16 d i v) + unat (rd16 d i) = sum16 d + unat v"
proof (induction d arbitrary: i rule: sum16.induct)
  case (3 a b r)
  show ?case
  proof (cases i)
    case 0
    have "unat v = unat (rd16 [ucast v, ucast (drop_bit 8 v)] 0)"
      using rd16_wr16_same [of 0 "[0, 0]" v] by (simp add: wr16_def)
    then show ?thesis using 0 by (simp add: wr16_def unat_rd16)
  next
    case (Suc k)
    then obtain j where j: "i = Suc (Suc j)" using "3.prems" by (cases k) auto
    then show ?thesis using "3.IH" [of j] "3.prems" by (simp add: unat_rd16 wr16_def)
  qed
qed auto

text \<open>The words of an address: its 32-bit words split into halves.\<close>

lemma sum16_take4:
  assumes "4 \<le> length a" shows "sum16 (take 4 a) = halves (rd32 a 0)"
proof -
  obtain w x y z r where "a = w # x # y # z # r"
    using assms by (auto simp: numeral_eq_Suc Suc_le_length_iff)
  then show ?thesis by (simp add: halves_rd32 unat_rd16)
qed

lemma sum16_take_drop4:
  assumes "4 \<le> length a" "4 \<le> sz"
  shows "sum16 (take sz a) = halves (rd32 a 0) + sum16 (take (sz - 4) (drop 4 a))"
proof -
  have "take sz a = take 4 a @ take (sz - 4) (drop 4 a)"
    using assms(2) by (metis le_add_diff_inverse take_add)
  then show ?thesis using assms(1) by (simp add: sum16_append sum16_take4)
qed

lemma npf_addr_cksum_dvd:
  assumes "65535 dvd S + unat c" "sum16 (take sz oaddr) \<le> S"
    "4 dvd sz" "0 < sz" "sz \<le> length oaddr" "sz \<le> length naddr"
  shows "65535 dvd (S - sum16 (take sz oaddr) + sum16 (take sz naddr)) +
    unat (npf_addr_cksum c sz oaddr naddr)"
  using assms
proof (induction c sz oaddr naddr arbitrary: S rule: npf_addr_cksum.induct)
  case (1 c sz oaddr naddr)
  let ?o = "halves (rd32 oaddr 0)" and ?n = "halves (rd32 naddr 0)"
  let ?c = "npf_fixup32_cksum c (rd32 oaddr 0) (rd32 naddr 0)"
  have sz: "4 \<le> sz" using "1.prems"(3,4) by (auto elim!: dvdE)
  note split = sum16_take_drop4 [of oaddr sz] sum16_take_drop4 [of naddr sz]
  have step: "65535 dvd (S - ?o + ?n) + unat ?c"
    using "1.prems"(1,2,5) sz split by (intro fixup32_dvd) auto
  show ?case
  proof (cases "sz \<le> 4")
    case True
    then have "sz = 4" using sz by simp
    then show ?thesis
      using step "1.prems"(5,6) by (simp add: npf_addr_cksum.simps [of c] sum16_take4)
  next
    case False
    have "4 dvd sz - 4" using "1.prems"(3) sz by (simp add: dvd_diff_nat)
    then have "65535 dvd (S - ?o + ?n - sum16 (take (sz - 4) (drop 4 oaddr)) +
        sum16 (take (sz - 4) (drop 4 naddr))) + unat (npf_addr_cksum c sz oaddr naddr)"
      using "1.IH" [OF refl False, of "S - ?o + ?n"] False sz split "1.prems" step
      by (simp add: npf_addr_cksum.simps [of c sz] Let_def)
    moreover have "S - ?o + ?n - sum16 (take (sz - 4) (drop 4 oaddr)) =
        S - sum16 (take sz oaddr) + ?n"
      using split "1.prems" sz by simp
    ultimately show ?thesis using split "1.prems" sz by (simp add: add.assoc)
  qed
qed

section \<open>Agreement with recomputation\<close>

lemma unat_in_cksum: "unat (in_cksum bs) = 65535 - oc_norm (sum16 bs)"
  using oc_norm_le [of "sum16 bs"]
  by (simp add: in_cksum_def unat_not16 unat_of_nat)

text \<open>
  The incremental update of \<open>npf_fixup16_cksum\<close> equals the checksum recomputed from
  scratch (RFC 1071) after the aligned 16-bit field at \<open>i\<close> is overwritten, as long as the
  new data is not all zero.
\<close>

lemma npf_fixup16_cksum_in_cksum:
  assumes "even i" "i + 1 < length d" "sum16 (wr16 d i m') \<noteq> 0"
  shows "npf_fixup16_cksum (in_cksum d) (rd16 d i) m' = in_cksum (wr16 d i m')"
proof -
  let ?m = "unat (rd16 d i)" and ?S = "sum16 d"
  have le: "?m \<le> ?S" using assms(1,2) by (rule sum16_rd16_le)
  have S': "sum16 (wr16 d i m') = ?S - ?m + unat m'"
    using sum16_wr16 [OF assms(1,2), of m'] le by linarith
  have "unat (npf_fixup16_cksum (in_cksum d) (rd16 d i) m') = unat (in_cksum (wr16 d i m'))"
    unfolding npf_fixup16_cksum_unat unat_in_cksum S'
    using u16_le [of "rd16 d i"] oc_norm_le [of ?S] le assms(3) S'
    by (intro oc_update_eq [where N = 2, OF refl]) simp_all
  then show ?thesis by (simp add: word_unat_eq_iff)
qed

lemma npf_fixup32_cksum_in_cksum:
  assumes "even i" "i + 3 < length d" "sum16 (wr16 (wr16 d i lo) (i + 2) hi) \<noteq> 0"
    "m' = ucast lo OR push_bit 16 (ucast hi)"
  shows "npf_fixup32_cksum (in_cksum d) (rd32 d i) m' = in_cksum (wr16 (wr16 d i lo) (i + 2) hi)"
proof -
  let ?m = "halves (rd32 d i)" and ?S = "sum16 d" and ?d' = "wr16 d i lo"
  have hi: "rd16 ?d' (i + 2) = rd16 d (i + 2)" by (simp add: rd16_wr16_other)
  have 1: "sum16 ?d' + unat (rd16 d i) = ?S + unat lo"
    using assms(1,2) by (simp add: sum16_wr16)
  have 2: "sum16 (wr16 ?d' (i + 2) hi) + unat (rd16 d (i + 2)) = sum16 ?d' + unat hi"
    using sum16_wr16 [of "i + 2" ?d' hi] assms(1,2) hi by simp
  have le2: "unat (rd16 d (i + 2)) \<le> sum16 (wr16 d i 0)"
    using sum16_rd16_le [of "i + 2" "wr16 d i 0"] assms(1,2) by (simp add: rd16_wr16_other)
  have "sum16 (wr16 d i 0) + unat (rd16 d i) = ?S"
    using sum16_wr16 [of i d 0] assms(1,2) by simp
  then have le: "?m \<le> ?S" using le2 by (simp add: halves_rd32)
  have h': "halves m' = unat lo + unat hi"
    unfolding assms(4) by (rule halves_join)
  have S': "sum16 (wr16 ?d' (i + 2) hi) = ?S - ?m + halves m'"
    using 1 2 le by (simp add: halves_rd32 h')
  have b: "unat (rd32 d i) div 65536 \<le> 65535" "unat (rd32 d i) mod 65536 \<le> 65535"
    using unat_lt [of "rd32 d i"] by simp_all
  have "unat (npf_fixup32_cksum (in_cksum d) (rd32 d i) m') =
      unat (in_cksum (wr16 ?d' (i + 2) hi))"
    unfolding npf_fixup32_cksum_unat unat_in_cksum S'
    using b oc_norm_le [of ?S] le assms(3) S'
    by (intro oc_update_eq [where N = 3, OF refl]) (simp_all add: halves_def)
  then show ?thesis by (simp add: word_unat_eq_iff)
qed

section \<open>Property\<close>

text \<open>
  The incremental checksum update equals recomputation.  If a checksum was computed
  over some data and one of its aligned 16-bit fields is overwritten, then
  \<open>npf_fixup16_cksum\<close> applied to the old checksum, the old and the new value gives
  exactly the checksum that RFC 1071 computes over the new data, unless that is all zero.
\<close>

theorem npf_fixup16_cksum_recompute:
  assumes "even i" "i + 1 < length d" "\<exists>b \<in> set (wr16 d i new). b \<noteq> 0"
  shows "npf_fixup16_cksum (in_cksum d) (rd16 d i) new = in_cksum (wr16 d i new)"
  using assms by (intro npf_fixup16_cksum_in_cksum) (auto simp: sum16_0_iff)

theorem npf_fixup16_cksum_recompute_witness:
  "npf_fixup16_cksum (in_cksum [0x45, 0, 0xff, 0xff]) (rd16 [0x45, 0, 0xff, 0xff] 2) 0x1234 =
   in_cksum (wr16 [0x45, 0, 0xff, 0xff] 2 0x1234)"
  by (rule npf_fixup16_cksum_recompute) (simp_all add: wr16_def)

text \<open>
  C30: the same for the 32-bit update \<open>npf_fixup32_cksum\<close>, which treats the datum as two
  16-bit words: it equals recomputation after both words have been overwritten.
\<close>

theorem npf_fixup32_cksum_recompute:
  assumes "even i" "i + 3 < length d" "\<exists>b \<in> set (wr16 (wr16 d i lo) (i + 2) hi). b \<noteq> 0"
  shows "npf_fixup32_cksum (in_cksum d) (rd32 d i) (ucast lo OR push_bit 16 (ucast hi)) =
    in_cksum (wr16 (wr16 d i lo) (i + 2) hi)"
  using assms by (intro npf_fixup32_cksum_in_cksum) (auto simp: sum16_0_iff)

theorem npf_fixup32_cksum_recompute_witness:
  "npf_fixup32_cksum (in_cksum [10, 0, 0, 1, 0x45, 0]) (rd32 [10, 0, 0, 1, 0x45, 0] 0)
     (ucast (0xa8c0 :: u16) OR push_bit 16 (ucast (0x0201 :: u16))) =
   in_cksum (wr16 (wr16 [10, 0, 0, 1, 0x45, 0] 0 0xa8c0) (0 + 2) 0x0201)"
  by (rule npf_fixup32_cksum_recompute) (simp_all add: wr16_def)

end
