(* ===== verification/NPF_Rewrite.thy ===== *)
theory NPF_Rewrite
  imports NPF_Cksum NPF_Cache
begin

text \<open>
  Packet rewriting (\<open>src/kern/npf_inet.c\<close>): address, port and checksum rewriting used by
  NAT, the composition \<open>npf_napt_rwr\<close>, and the IPv6 prefix translation \<open>npf_npt66_rwr\<close>.
  Pointers into the packet are offsets, and writes update its bytes.
\<close>

section \<open>Operations\<close>

definition npc_set_data :: "npf_cache \<Rightarrow> u8 list \<Rightarrow> npf_cache" where
  "npc_set_data npc d = npc\<lparr> npc_nbuf := (npc_nbuf npc)\<lparr> nb_data := d \<rparr> \<rparr>"

definition npf_rwrip :: "npf_cache \<Rightarrow> nat \<Rightarrow> npf_addr \<Rightarrow> bool \<times> npf_cache" where
  "npf_rwrip npc which addr =
     (True, npc_set_data npc
        (memcpy_at (npc_data npc) (npc_ips npc ! which) (take (npc_alen npc) addr)))"

text \<open>The port fields of TCP and UDP are at the same places.\<close>

definition port_off :: "npf_cache \<Rightarrow> nat \<Rightarrow> nat" where
  "port_off npc which = the (npc_l4 npc) + (if which = NPF_SRC then 0 else 2)"

definition npf_rwrport :: "npf_cache \<Rightarrow> nat \<Rightarrow> u16 \<Rightarrow> bool \<times> npf_cache" where
  "npf_rwrport npc which port =
     (True, npc_set_data npc (wr16 (npc_data npc) (port_off npc which) port))"

definition npf_rwrcksum :: "npf_cache \<Rightarrow> nat \<Rightarrow> npf_addr \<Rightarrow> u16 \<Rightarrow> bool \<times> npf_cache" where
  "npf_rwrcksum npc which addr port =
    (let alen = npc_alen npc; proto = npc_proto npc; l4 = the (npc_l4 npc);
         oaddr = (\<lambda>d. drop (npc_ips npc ! which) d);
         ip_sum = npc_ip npc + 10;
         d = npc_data npc;
         d = (if npf_iscached npc NPC_IP4
              then wr16 d ip_sum (npf_addr_cksum (rd16 d ip_sum) alen (oaddr d) addr) else d) in
     if proto \<noteq> IPPROTO_TCP \<and> proto \<noteq> IPPROTO_UDP then (True, npc_set_data npc d)
     else
       let ocksum = (if proto = IPPROTO_TCP then l4 + 16 else l4 + 6);
           oport = rd16 d (port_off npc which) in
       if proto = IPPROTO_UDP \<and> rd16 d ocksum = 0 then (True, npc_set_data npc d)
       else
         let cksum = npf_addr_cksum (rd16 d ocksum) alen (oaddr d) addr;
             cksum = (if port \<noteq> 0 then npf_fixup16_cksum cksum oport port else cksum) in
         (True, npc_set_data npc (wr16 d ocksum cksum)))"

definition npf_napt_rwr :: "npf_cache \<Rightarrow> nat \<Rightarrow> npf_addr \<Rightarrow> u16 \<Rightarrow> errno option \<times> npf_cache" where
  "npf_napt_rwr npc which addr port =
    (let proto = npc_proto npc; (ok, npc) = npf_rwrcksum npc which addr port in
     if \<not> ok then (Some EINVAL, npc)
     else
       let (ok, npc) = npf_rwrip npc which addr in
       if \<not> ok then (Some EINVAL, npc)
       else if port = 0 then (None, npc)
       else if proto = IPPROTO_TCP \<or> proto = IPPROTO_UDP then
         let (ok, npc) = npf_rwrport npc which port in
         if \<not> ok then (Some EINVAL, npc) else (None, npc)
       else if proto = IPPROTO_ICMP \<or> proto = IPPROTO_ICMPV6 then (None, npc)
       else (Some ENOTSUP, npc))"

section \<open>IPv6 prefix translation\<close>

text \<open>The words of the address inside the packet, as the \<open>word16\<close> and \<open>word32\<close> members.\<close>

fun npt66_prefix_loop :: "nat \<Rightarrow> nat \<Rightarrow> u8 list \<Rightarrow> nat \<Rightarrow> npf_addr \<Rightarrow> u8 list" where
  "npt66_prefix_loop 0 i d a pref = d"
| "npt66_prefix_loop (Suc n) i d a pref =
     npt66_prefix_loop n (i + 1) (wr16 d (a + 2 * i) (rd16 pref (2 * i))) a pref"

text \<open>The search for the word to adjust in the host part: the counter ends at 8 if all are ones.\<close>

function npt66_find_word :: "nat \<Rightarrow> u8 list \<Rightarrow> nat \<Rightarrow> nat" where
  "npt66_find_word word d a =
     (if word < 8 then
        if rd16 d (a + 2 * word) \<noteq> 0xffff then word else npt66_find_word (word + 1) d a
      else word)"
  by pat_completeness auto

termination
  by (relation "measure (\<lambda>(word, d, a). 8 - word)") auto

declare npt66_find_word.simps [simp del]

lemma npt66_fold_less:
  assumes "drop_bit 16 (csum :: u32) \<noteq> 0"
  shows "unat (drop_bit 16 csum + (csum AND 0xffff)) < unat csum"
proof -
  have q: "unat csum div 65536 \<noteq> 0"
    using assms by (metis unat_drop16 unat_eq_0)
  have "unat (drop_bit 16 csum + (csum AND 0xffff)) = unat csum div 65536 + unat csum mod 65536"
    using unat_lt [of csum] by (subst unat_add_small) (simp_all add: unat_drop16 unat_low16)
  then show ?thesis using q by (simp add: modulo_nat_def)
qed

text \<open>The loop that folds the carries of a 32-bit sum.\<close>

function npt66_fold :: "u32 \<Rightarrow> u32" where
  "npt66_fold csum =
     (if drop_bit 16 csum \<noteq> 0 then npt66_fold (drop_bit 16 csum + (csum AND 0xffff)) else csum)"
  by pat_completeness auto

termination
  by (relation "measure unat") (simp_all add: npt66_fold_less)

declare npt66_fold.simps [simp del]

definition npf_npt66_rwr ::
  "npf_cache \<Rightarrow> nat \<Rightarrow> npf_addr \<Rightarrow> nat \<Rightarrow> u16 \<Rightarrow> errno option \<times> npf_cache" where
  "npf_npt66_rwr npc which pref len adj =
    (let a = npc_ips npc ! which; preflen = len div 16; d = npc_data npc in
     if \<not> npf_iscached npc NPC_IP6 then (Some EINVAL, npc)
     else if len \<le> 48 \<and> rd16 d (a + 6) = 0xffff then (Some EINVAL, npc)
     else if 48 < len \<and>
       (rd32 d (a + 8) = 0 \<and> rd32 d (a + 12) = 0 \<or>
        rd32 d (a + 8) = 0xffffffff \<and> rd32 d (a + 12) = 0xffffffff) then (Some EINVAL, npc)
     else
       let word = (if len \<le> 48 then 3 else npt66_find_word 4 d a);
           d = npt66_prefix_loop preflen 0 d a pref;
           remnant = len - preflen * 16;
           d = (if remnant \<noteq> 0 then
                  let wordmask = ucast (push_bit remnant 1 - 1 :: u32) :: u16; i = preflen in
                  wr16 d (a + 2 * i)
                    ((rd16 pref (2 * i) AND wordmask) OR (rd16 d (a + 2 * i) AND NOT wordmask))
                else d);
           sum = npt66_fold (ucast (rd16 d (a + 2 * word)) + ucast adj);
           sum = (if sum = 0xffff then 0 else sum) in
       (None, npc_set_data npc (wr16 d (a + 2 * word) (ucast sum))))"

section \<open>Sums over regions of the packet\<close>

definition region :: "nat \<Rightarrow> nat \<Rightarrow> u8 list \<Rightarrow> u8 list" where
  "region off n d = take n (drop off d)"

lemma region_wr16_out:
  "i + 1 < off \<or> off + n \<le> i \<Longrightarrow> region off n (wr16 d i v) = region off n d"
  by (intro nth_equalityI) (auto simp: region_def wr16_def nth_list_update)

lemma region_memcpy_out:
  assumes "i + length s \<le> length d" "i + length s \<le> off \<or> off + n \<le> i"
  shows "region off n (memcpy_at d i s) = region off n d"
  using assms by (intro nth_equalityI) (auto simp: region_def nth_memcpy_at)

lemma region_append:
  "region off (m + n) d = region off m d @ region (off + m) n d"
  by (simp add: region_def take_add add.commute)

lemma sum16_region_wr16:
  assumes "off \<le> i" "even (i - off)" "i + 2 \<le> off + n" "off + n \<le> length d"
  shows "sum16 (region off n (wr16 d i v)) + unat (rd16 d i) = sum16 (region off n d) + unat v"
proof -
  have r: "region off n (wr16 d i v) = wr16 (region off n d) (i - off) v"
    using assms by (intro nth_equalityI) (auto simp: region_def wr16_def nth_list_update)
  have "rd16 (region off n d) (i - off) = rd16 d i"
    using assms by (simp add: region_def rd16_def)
  then show ?thesis
    unfolding r using assms sum16_wr16 [of "i - off" "region off n d" v] by (simp add: region_def)
qed

lemma sum16_region_memcpy:
  assumes "off \<le> i" "even (i - off)" "even (length s)" "i + length s \<le> off + n" "off + n \<le> length d"
  shows "sum16 (region off n (memcpy_at d i s)) + sum16 (region i (length s) d) =
    sum16 (region off n d) + sum16 s"
proof -
  let ?d = "memcpy_at d i s" and ?a = "i - off" and ?b = "off + n - (i + length s)"
  have n: "n = ?a + (length s + ?b)" "off + ?a = i" using assms by auto
  have split: "region off n e = region off ?a e @ region i (length s) e @ region (i + length s) ?b e"
    for e :: "u8 list"
    by (subst n(1)) (simp add: region_append n(2))
  have "region i (length s) ?d = s"
    using assms by (intro nth_equalityI) (auto simp: region_def nth_memcpy_at)
  moreover have "region off ?a ?d = region off ?a d" "region (i + length s) ?b ?d = region (i + length s) ?b d"
    using assms by (auto intro!: region_memcpy_out)
  moreover have "even (length (region off ?a d))" "even (length (region i (length s) d))"
    using assms by (auto simp: region_def)
  ultimately show ?thesis
    unfolding split [of ?d] split [of d] using assms(3) by (simp add: sum16_append)
qed

section \<open>Rewriting keeps the checksums\<close>

text \<open>
  A cached packet with a layer 4 segment of \<open>L\<close> bytes, and the sums a receiver checks: the
  IPv4 header, and the segment with the pseudo header of addresses, protocol and length.
\<close>

definition rwr_layout :: "npf_cache \<Rightarrow> nat \<Rightarrow> bool" where
  "rwr_layout npc L \<longleftrightarrow>
     npc_l3_ok npc (npc_info npc) \<and> even (npc_hlen npc) \<and>
     (npc_proto npc = IPPROTO_TCP \<and> 20 \<le> L \<or> npc_proto npc = IPPROTO_UDP \<and> 8 \<le> L) \<and>
     (case npc_l4 npc of None \<Rightarrow> False
      | Some l4 \<Rightarrow> npc_ip npc + npc_hlen npc \<le> l4 \<and> l4 + L \<le> length (npc_data npc))"

definition ip4_sum :: "npf_cache \<Rightarrow> u8 list \<Rightarrow> nat" where
  "ip4_sum npc d = sum16 (region (npc_ip npc) (npc_hlen npc) d)"

definition l4_sum :: "npf_cache \<Rightarrow> nat \<Rightarrow> u8 list \<Rightarrow> nat" where
  "l4_sum npc L d =
     sum16 (region (npc_ips npc ! 0) (2 * npc_alen npc) d) +
     unat (htons (of_nat (npc_proto npc))) + unat (htons (of_nat L)) +
     sum16 (region (the (npc_l4 npc)) L d)"

definition l4_cksum_off :: "npf_cache \<Rightarrow> nat" where
  "l4_cksum_off npc =
     (if npc_proto npc = IPPROTO_TCP then the (npc_l4 npc) + 16 else the (npc_l4 npc) + 6)"

text \<open>The packet after \<open>npf_napt_rwr\<close> when the layer 4 checksum is in use.\<close>

definition rwr_data :: "npf_cache \<Rightarrow> nat \<Rightarrow> npf_addr \<Rightarrow> u16 \<Rightarrow> u8 list" where
  "rwr_data npc which addr port =
    (let d = npc_data npc; alen = npc_alen npc; a = npc_ips npc ! which; ip_sum = npc_ip npc + 10;
         d1 = (if npf_iscached npc NPC_IP4
               then wr16 d ip_sum (npf_addr_cksum (rd16 d ip_sum) alen (drop a d) addr) else d);
         ck = l4_cksum_off npc;
         c = npf_addr_cksum (rd16 d1 ck) alen (drop a d1) addr;
         c = (if port \<noteq> 0 then npf_fixup16_cksum c (rd16 d1 (port_off npc which)) port else c);
         d3 = memcpy_at (wr16 d1 ck c) a (take alen addr) in
     if port \<noteq> 0 then wr16 d3 (port_off npc which) port else d3)"

lemma npf_napt_rwr_data:
  assumes "npc_proto npc = IPPROTO_TCP \<or>
      npc_proto npc = IPPROTO_UDP \<and> rd16 (npc_data npc) (l4_cksum_off npc) \<noteq> 0"
    "npf_iscached npc NPC_IP4 \<longrightarrow> npc_ip npc + 12 \<le> l4_cksum_off npc"
  shows "npf_napt_rwr npc which addr port = (None, npc_set_data npc (rwr_data npc which addr port))"
proof -
  let ?d = "npc_data npc" and ?i = "npc_ip npc + 10"
  have "rd16 (wr16 ?d ?i v) (l4_cksum_off npc) = rd16 ?d (l4_cksum_off npc)"
    if "npf_iscached npc NPC_IP4" for v
    using assms(2) that by (intro rd16_wr16_other) auto
  then show ?thesis
    using assms(1)
    by (auto simp: npf_napt_rwr_def npf_rwrcksum_def npf_rwrip_def npf_rwrport_def rwr_data_def
      npc_set_data_def l4_cksum_off_def port_off_def Let_def)
qed

text \<open>A rewriting problem: the offsets with the disjointness that the layout gives.\<close>

lemma rwr_layout_offs:
  assumes "rwr_layout npc L" "which < 2"
  shows "\<exists>l4. npc_l4 npc = Some l4 \<and>
    npc_ip npc + npc_hlen npc \<le> l4 \<and> l4 + L \<le> length (npc_data npc) \<and>
    l4 \<le> l4_cksum_off npc \<and> even (l4_cksum_off npc - l4) \<and> l4_cksum_off npc + 2 \<le> l4 + L \<and>
    l4 \<le> port_off npc which \<and> even (port_off npc which - l4) \<and> port_off npc which + 2 \<le> l4_cksum_off npc \<and>
    (npc_alen npc = 4 \<or> npc_alen npc = 16) \<and>
    npc_ips npc ! 0 + 2 * npc_alen npc \<le> l4 \<and> npc_ip npc \<le> npc_ips npc ! 0 \<and>
    npc_ips npc ! which = npc_ips npc ! 0 + which * npc_alen npc \<and>
    (npf_iscached npc NPC_IP4 \<longrightarrow>
       npc_alen npc = 4 \<and> npc_ips npc ! 0 = npc_ip npc + 12 \<and> 20 \<le> npc_hlen npc)"
  using assms
  by (auto simp: rwr_layout_def npc_l3_ok_def l4_cksum_off_def port_off_def npf_iscached_def
    less_2_cases_iff split: if_splits option.splits)

text \<open>Two aligned words of a region: their sum is part of the region's sum.\<close>

lemma sum16_region_word_le:
  assumes "off \<le> i" "even (i - off)" "i + 2 \<le> off + n" "off + n \<le> length d"
  shows "unat (rd16 d i) \<le> sum16 (region off n d)"
  using sum16_region_wr16 [OF assms, of 0] by simp

lemma sum16_region_two_words_le:
  assumes "off \<le> i" "even (i - off)" "i + 2 \<le> j" "even (j - off)" "j + 2 \<le> off + n"
    "off + n \<le> length d"
  shows "unat (rd16 d i) + unat (rd16 d j) \<le> sum16 (region off n d)"
proof -
  have "unat (rd16 (wr16 d j 0) i) \<le> sum16 (region off n (wr16 d j 0))"
    using assms by (intro sum16_region_word_le) auto
  moreover have "rd16 (wr16 d j 0) i = rd16 d i" using assms(3) by (intro rd16_wr16_other) simp
  moreover have "sum16 (region off n (wr16 d j 0)) + unat (rd16 d j) = sum16 (region off n d)"
    using sum16_region_wr16 [of off j n d 0] assms by simp
  ultimately show ?thesis by simp
qed

lemma sum16_region_sub_le:
  assumes "off \<le> i" "even (i - off)" "even m" "i + m \<le> off + n" "off + n \<le> length d"
  shows "sum16 (region i m d) \<le> sum16 (region off n d)"
proof -
  have "length (replicate m (0 :: u8)) = m" by simp
  then show ?thesis
    using sum16_region_memcpy [of off i "replicate m 0" n d] assms
    by (metis le_add2 add.commute sum16_0_iff set_replicate_conv_if singletonD empty_iff add_0_right)
qed

text \<open>The new checksum fits the sum without the old checksum, address and port.\<close>

lemma l4_cksum_dvd:
  assumes S: "65535 dvd S + unat c0" and le: "sum16 (take alen oaddr) + unat op \<le> S"
    and A: "alen = 4 \<or> alen = 16" "alen \<le> length oaddr" "alen \<le> length addr"
    and c: "c = npf_addr_cksum c0 alen oaddr addr"
      "c2 = (if port \<noteq> 0 then npf_fixup16_cksum c op port else c)"
  shows "65535 dvd (S - sum16 (take alen oaddr) + sum16 (take alen addr) -
    (if port \<noteq> 0 then unat op else 0) + unat port) + unat c2"
proof -
  have "65535 dvd (S - sum16 (take alen oaddr) + sum16 (take alen addr)) + unat c"
    unfolding c(1) using npf_addr_cksum_dvd [OF S, of alen oaddr addr] le A by auto
  then show ?thesis
    using fixup16_dvd [of "S - sum16 (take alen oaddr) + sum16 (take alen addr)" c op port] le
    unfolding c(2) by (cases "port = 0") auto
qed

lemma l4_update_dvd:
  fixes d :: "u8 list" and alen A0 L l4 ck po :: nat
  assumes l4: "l4 \<le> po" "even (po - l4)" "po + 2 \<le> ck" "even (ck - l4)" "ck + 2 \<le> l4 + L"
      "l4 + L \<le> length d"
    and A: "alen = 4 \<or> alen = 16" "which < 2" "a = A0 + which * alen" "A0 + 2 * alen \<le> l4"
      "alen \<le> length addr"
    and T: "65535 dvd sum16 (region A0 (2 * alen) d) + K + sum16 (region l4 L d)"
    and c: "c = npf_addr_cksum (rd16 d ck) alen (drop a d) addr"
      "c2 = (if port \<noteq> 0 then npf_fixup16_cksum c (rd16 d po) port else c)"
    and d3: "d3 = memcpy_at (wr16 d ck c2) a (take alen addr)"
    and d4: "d4 = (if port \<noteq> 0 then wr16 d3 po port else d3)"
  shows "65535 dvd sum16 (region A0 (2 * alen) d4) + K + sum16 (region l4 L d4)"
proof -
  let ?AR = "\<lambda>d. sum16 (region A0 (2 * alen) d)" and ?SR = "\<lambda>d. sum16 (region l4 L d)"
  let ?c0 = "unat (rd16 d ck)" and ?p0 = "unat (rd16 d po)"
  let ?so = "sum16 (region a alen d)" and ?sa = "sum16 (take alen addr)" and ?d2 = "wr16 d ck c2"
  have al: "even alen" using A(1) by auto
  have ain: "A0 \<le> a" "a + alen \<le> A0 + 2 * alen" "even (a - A0)"
    using A(2,3) al by (auto simp: less_2_cases_iff)
  have w: "?p0 + ?c0 \<le> ?SR d" using l4 by (intro sum16_region_two_words_le) auto
  have so: "?so \<le> ?AR d" using ain al l4 A by (intro sum16_region_sub_le) auto
  define S where "S = ?AR d + K + ?SR d - ?c0"
  have S: "65535 dvd S + ?c0" "take alen (drop a d) = region a alen d"
    using T w by (simp_all add: S_def region_def)
  have c2: "65535 dvd (S - ?so + ?sa - (if port \<noteq> 0 then ?p0 else 0) + unat port) + unat c2"
    using l4_cksum_dvd [OF S(1) _ A(1) _ A(5) c(1) c(2)] w so ain A(4) l4(6)
    unfolding S(2) S_def by auto
  have SR2: "?SR ?d2 + ?c0 = ?SR d + unat c2" using l4 by (intro sum16_region_wr16) auto
  have AR2: "region A0 (2 * alen) ?d2 = region A0 (2 * alen) d" "region a alen ?d2 = region a alen d"
    using l4 A ain by (auto intro!: region_wr16_out)
  have AR3: "?AR d3 + ?so = ?AR d + ?sa"
    using sum16_region_memcpy [of A0 a "take alen addr" "2 * alen" ?d2] ain al A l4 AR2
    unfolding d3 by (simp add: min_absorb2)
  have SR3: "region l4 L d3 = region l4 L ?d2"
    unfolding d3 using ain A l4 by (intro region_memcpy_out) auto
  have "d3 ! k = d ! k" if "k = po \<or> k = po + 1" for k
    unfolding d3 using that ain A l4 by (auto simp: nth_memcpy_at wr16_def)
  then have po3: "rd16 d3 po = rd16 d po" by (simp add: rd16_def)
  have len3: "length d3 = length d"
    unfolding d3 using ain(2) A(4,5) l4 by (subst length_memcpy_at) (simp_all add: min_absorb2)
  have "?AR d4 = ?AR d3" using l4 A unfolding d4 by (simp add: region_wr16_out)
  moreover have "?SR d4 + (if port \<noteq> 0 then ?p0 else 0) = ?SR d3 + unat port"
    using sum16_region_wr16 [of l4 po L d3 port] l4 len3 po3 unfolding d4 by simp
  ultimately have "?AR d4 + K + ?SR d4 =
      S - ?so + ?sa - (if port \<noteq> 0 then ?p0 else 0) + unat port + unat c2"
    using AR3 SR2 SR3 w so unfolding S_def by (simp split: if_splits)
  then show ?thesis using c2 by simp
qed

text \<open>The same for the IPv4 header, where only the checksum and the address change.\<close>

lemma ip4_update_dvd:
  fixes d :: "u8 list" and ip hlen l4 :: nat
  assumes ip: "20 \<le> hlen" "ip + hlen \<le> l4" "l4 \<le> ck" "ck + 2 \<le> length d" "l4 \<le> po" "po + 2 \<le> length d"
    and A: "which < 2" "a = ip + 12 + which * 4" "4 \<le> length addr"
    and T: "65535 dvd sum16 (region ip hlen d)"
    and d1: "d1 = wr16 d (ip + 10) (npf_addr_cksum (rd16 d (ip + 10)) 4 (drop a d) addr)"
    and d3: "d3 = memcpy_at (wr16 d1 ck c2) a (take 4 addr)"
    and d4: "d4 = (if port \<noteq> 0 then wr16 d3 po port else d3)"
  shows "65535 dvd sum16 (region ip hlen d4) \<and> d4 ! ip = d ! ip"
proof
  let ?HR = "\<lambda>d. sum16 (region ip hlen d)" and ?c0 = "rd16 d (ip + 10)"
  let ?c1 = "npf_addr_cksum ?c0 4 (drop a d) addr" and ?d2 = "wr16 d1 ck c2"
  let ?so = "sum16 (region a 4 d)" and ?sa = "sum16 (take 4 addr)"
  have ain: "ip + 12 \<le> a" "a + 4 \<le> ip + 20" "even (a - ip)" using A by (auto simp: less_2_cases_iff)
  have len: "ip + hlen \<le> length d" using ip by simp
  have H1: "?HR d1 + unat ?c0 = ?HR d + unat ?c1"
    unfolding d1 using ip len by (intro sum16_region_wr16) auto
  have a1: "region a 4 ?d2 = region a 4 d"
    unfolding d1 using ain ip by (simp add: region_wr16_out)
  have so: "?so + unat ?c0 \<le> ?HR d"
    using sum16_region_sub_le [of ip a 4 hlen "wr16 d (ip + 10) 0"]
      sum16_region_wr16 [of ip "ip + 10" hlen d 0] region_wr16_out [of "ip + 10" a 4 d 0] ain ip len
    by simp
  have H2: "?HR ?d2 = ?HR d1" using ip by (simp add: region_wr16_out)
  have H3: "?HR d3 + ?so = ?HR ?d2 + ?sa"
    using sum16_region_memcpy [of ip a "take 4 addr" hlen ?d2] ain ip len A a1
    unfolding d3 d1 by (simp add: min_absorb2)
  have "?HR d4 = ?HR d3" using ip unfolding d4 by (simp add: region_wr16_out)
  then have "?HR d4 = (?HR d - unat ?c0 - ?so + ?sa) + unat ?c1" using H1 H2 H3 so by linarith
  moreover have "65535 dvd (?HR d - unat ?c0) + unat ?c0" using T so by simp
  then have "65535 dvd (?HR d - unat ?c0 - ?so + ?sa) + unat ?c1"
    using npf_addr_cksum_dvd [of "?HR d - unat ?c0" ?c0 4 "drop a d" addr] so A ain len ip
    by (simp add: region_def)
  ultimately show "65535 dvd ?HR d4" by simp
  show "d4 ! ip = d ! ip"
    using ip ain A len unfolding d4 d3 d1 by (auto simp: nth_memcpy_at wr16_def)
qed

lemma rwr_data_l4:
  assumes lay: "rwr_layout npc L" "which < 2" "npc_alen npc \<le> length addr"
    and ok: "65535 dvd l4_sum npc L (npc_data npc)"
  shows "65535 dvd l4_sum npc L (rwr_data npc which addr port)"
proof -
  let ?d = "npc_data npc" and ?alen = "npc_alen npc" and ?a = "npc_ips npc ! which"
  let ?ck = "l4_cksum_off npc" and ?po = "port_off npc which" and ?is = "npc_ip npc + 10"
  obtain l4 where o: "npc_l4 npc = Some l4" "npc_ip npc + npc_hlen npc \<le> l4" "l4 + L \<le> length ?d"
    "l4 \<le> ?ck" "even (?ck - l4)" "?ck + 2 \<le> l4 + L" "l4 \<le> ?po" "even (?po - l4)" "?po + 2 \<le> ?ck"
    "?alen = 4 \<or> ?alen = 16" "npc_ips npc ! 0 + 2 * ?alen \<le> l4"
    "?a = npc_ips npc ! 0 + which * ?alen"
    "npf_iscached npc NPC_IP4 \<longrightarrow> ?alen = 4 \<and> npc_ips npc ! 0 = npc_ip npc + 12 \<and> 20 \<le> npc_hlen npc"
    using rwr_layout_offs [OF lay(1,2)] by blast
  define d1 where "d1 = (if npf_iscached npc NPC_IP4
    then wr16 ?d ?is (npf_addr_cksum (rd16 ?d ?is) ?alen (drop ?a ?d) addr) else ?d)"
  let ?K = "unat (htons (of_nat (npc_proto npc))) + unat (htons (of_nat L))"
  have "region (npc_ips npc ! 0) (2 * ?alen) d1 = region (npc_ips npc ! 0) (2 * ?alen) ?d"
    "region l4 L d1 = region l4 L ?d"
    using o by (auto simp: d1_def intro!: region_wr16_out)
  then have T: "65535 dvd sum16 (region (npc_ips npc ! 0) (2 * ?alen) d1) + ?K + sum16 (region l4 L d1)"
    using ok o(1) by (simp add: l4_sum_def add.assoc)
  have len: "l4 + L \<le> length d1" using o by (simp add: d1_def)
  define c2 where "c2 = (if port \<noteq> 0
    then npf_fixup16_cksum (npf_addr_cksum (rd16 d1 ?ck) ?alen (drop ?a d1) addr) (rd16 d1 ?po) port
    else npf_addr_cksum (rd16 d1 ?ck) ?alen (drop ?a d1) addr)"
  define d3 where "d3 = memcpy_at (wr16 d1 ?ck c2) ?a (take ?alen addr)"
  define d4 where "d4 = (if port \<noteq> 0 then wr16 d3 ?po port else d3)"
  have "rwr_data npc which addr port = d4"
    unfolding rwr_data_def Let_def d1_def [symmetric] c2_def d3_def d4_def by (rule refl)
  moreover have "65535 dvd sum16 (region (npc_ips npc ! 0) (2 * ?alen) d4) + ?K + sum16 (region l4 L d4)"
    by (rule l4_update_dvd [OF o(7,8,9,5,6) len o(10) lay(2) o(12,11) lay(3) T refl c2_def d3_def d4_def])
  ultimately show ?thesis using o(1) by (simp add: l4_sum_def add.assoc)
qed

lemma length_rwr_data:
  "npc_ips npc ! which + npc_alen npc \<le> length (npc_data npc) \<Longrightarrow> npc_alen npc \<le> length addr \<Longrightarrow>
   length (rwr_data npc which addr port) = length (npc_data npc)"
  by (cases "port = 0"; cases "npf_iscached npc NPC_IP4") (simp_all add: rwr_data_def Let_def min_absorb2)

lemma rwr_data_ip4:
  assumes lay: "rwr_layout npc L" "which < 2" "npc_alen npc \<le> length addr"
    and ip4: "npf_iscached npc NPC_IP4" and ok: "65535 dvd ip4_sum npc (npc_data npc)"
  shows "65535 dvd ip4_sum npc (rwr_data npc which addr port) \<and>
    rwr_data npc which addr port ! npc_ip npc = npc_data npc ! npc_ip npc"
proof -
  obtain l4 where o: "npc_ip npc + npc_hlen npc \<le> l4" "l4 + L \<le> length (npc_data npc)"
    "l4 \<le> l4_cksum_off npc" "l4_cksum_off npc + 2 \<le> l4 + L" "l4 \<le> port_off npc which"
    "port_off npc which + 2 \<le> l4_cksum_off npc"
    "npc_ips npc ! which = npc_ips npc ! 0 + which * npc_alen npc"
    "npc_alen npc = 4" "npc_ips npc ! 0 = npc_ip npc + 12" "20 \<le> npc_hlen npc"
    using rwr_layout_offs [OF lay(1,2)] ip4 by auto
  have 1: "l4_cksum_off npc + 2 \<le> length (npc_data npc)" "port_off npc which + 2 \<le> length (npc_data npc)"
    "npc_ips npc ! which = npc_ip npc + 12 + which * 4" "4 \<le> length addr"
    using o lay(3) by simp_all
  from ip4_update_dvd [OF o(10,1,3) 1(1) o(5) 1(2) lay(2) 1(3,4) _ refl refl refl] ok
  show ?thesis
    by (simp add: ip4_sum_def rwr_data_def ip4 o(8) Let_def)
qed

section \<open>Properties\<close>

text \<open>
  C13: NAT rewriting keeps the packet's checksums right.  For a cached TCP packet, or a UDP
  packet that carries a checksum, over IPv4 or IPv6, \<open>npf_napt_rwr\<close> succeeds; if the
  checksum of the segment with its pseudo header was valid before, it is valid for the
  rewritten address and port, and so is the checksum of the IPv4 header.
\<close>

theorem npf_napt_rwr_keeps_checksums:
  assumes "rwr_layout npc L" "which < 2" "npc_alen npc \<le> length addr"
    "npc_proto npc = IPPROTO_UDP \<longrightarrow> rd16 (npc_data npc) (l4_cksum_off npc) \<noteq> 0"
    "cksum_ok (l4_sum npc L (npc_data npc))"
    "npf_iscached npc NPC_IP4 \<longrightarrow>
       cksum_ok (ip4_sum npc (npc_data npc)) \<and> npc_data npc ! npc_ip npc \<noteq> 0"
  shows "\<exists>npc'. npf_napt_rwr npc which addr port = (None, npc') \<and>
    cksum_ok (l4_sum npc L (npc_data npc')) \<and>
    (npf_iscached npc NPC_IP4 \<longrightarrow> cksum_ok (ip4_sum npc (npc_data npc')))"
proof -
  let ?d = "rwr_data npc which addr port"
  have proto: "npc_proto npc = IPPROTO_TCP \<or> npc_proto npc = IPPROTO_UDP"
    using assms(1) by (auto simp: rwr_layout_def)
  have "npf_iscached npc NPC_IP4 \<longrightarrow> npc_ip npc + 12 \<le> l4_cksum_off npc"
    using rwr_layout_offs [OF assms(1,2)] by auto
  then have "npf_napt_rwr npc which addr port = (None, npc_set_data npc ?d)"
    using proto assms(4) by (intro npf_napt_rwr_data) auto
  moreover have "0 < unat (htons (of_nat (npc_proto npc)))" using proto by (auto simp: bswap16_def)
  then have "cksum_ok (l4_sum npc L ?d)"
    using rwr_data_l4 [OF assms(1-3)] assms(5) by (auto simp: cksum_ok_iff dvd_eq_mod_eq_0 l4_sum_def)
  moreover have "cksum_ok (ip4_sum npc ?d)" if ip4: "npf_iscached npc NPC_IP4"
  proof -
    have d: "65535 dvd ip4_sum npc ?d \<and> ?d ! npc_ip npc = npc_data npc ! npc_ip npc"
      using rwr_data_ip4 [OF assms(1-3) ip4] assms(6) ip4 by (simp add: cksum_ok_iff dvd_eq_mod_eq_0)
    have "npc_ips npc ! which + npc_alen npc \<le> length (npc_data npc)" "20 \<le> npc_hlen npc"
      "npc_ip npc + npc_hlen npc \<le> length (npc_data npc)"
      using rwr_layout_offs [OF assms(1,2)] ip4 assms(2) by (auto simp: less_2_cases_iff)
    then have "20 \<le> npc_hlen npc" "npc_ip npc + npc_hlen npc \<le> length ?d"
      using assms(3) by (simp_all add: length_rwr_data)
    then have "?d ! npc_ip npc \<in> set (region (npc_ip npc) (npc_hlen npc) ?d)"
      by (auto simp: region_def in_set_conv_nth intro!: exI [of _ 0])
    then have "ip4_sum npc ?d \<noteq> 0"
      using d assms(6) ip4 unfolding ip4_sum_def sum16_0_iff by metis
    then show ?thesis using d by (simp add: cksum_ok_iff dvd_eq_mod_eq_0)
  qed
  ultimately show ?thesis by (auto simp: npc_set_data_def)
qed

definition ex_rwr_npc :: npf_cache where
  "ex_rwr_npc =
     snd (npf_cache_all (ex_npc ((ex_packet 0x10 1 0)[36 := 0x90, 37 := 0x9f]) [40]))"

lemma ex_rwr_npc_simps:
  "npc_data ex_rwr_npc = (ex_packet 0x10 1 0)[36 := 0x90, 37 := 0x9f]"
  "npc_info ex_rwr_npc = NPC_IP4 OR NPC_LAYER4 OR NPC_TCP"
  "npc_alen ex_rwr_npc = 4" "npc_ips ex_rwr_npc = [12, 16]" "npc_hlen ex_rwr_npc = 20"
  "npc_proto ex_rwr_npc = IPPROTO_TCP" "npc_ip ex_rwr_npc = 0" "npc_l4 ex_rwr_npc = Some 20"
  by code_simp+

theorem npf_napt_rwr_keeps_checksums_witness:
  "\<exists>npc'. npf_napt_rwr ex_rwr_npc NPF_SRC ([203, 0, 113, 7] @ replicate 12 0) 0xbeef = (None, npc') \<and>
    cksum_ok (l4_sum ex_rwr_npc 20 (npc_data npc')) \<and>
    (npf_iscached ex_rwr_npc NPC_IP4 \<longrightarrow> cksum_ok (ip4_sum ex_rwr_npc (npc_data npc')))"
proof -
  note simps = ex_rwr_npc_simps ex_packet_def region_def cksum_ok_def oc_norm_def bswap16_def
  have "rwr_layout ex_rwr_npc 20" by (simp add: rwr_layout_def npc_l3_ok_def simps)
  moreover have "cksum_ok (l4_sum ex_rwr_npc 20 (npc_data ex_rwr_npc))"
    by (simp add: l4_sum_def simps)
  moreover have "cksum_ok (ip4_sum ex_rwr_npc (npc_data ex_rwr_npc))"
    "npc_data ex_rwr_npc ! npc_ip ex_rwr_npc \<noteq> 0"
    by (simp_all add: ip4_sum_def simps)
  ultimately show ?thesis
    by (intro npf_napt_rwr_keeps_checksums) (simp_all add: ex_rwr_npc_simps)
qed

text \<open>A UDP datagram from 10.0.0.1 port 12345 to 192.168.1.2 port 53.\<close>

definition ex_udp_npc :: npf_cache where
  "ex_udp_npc = snd (npf_cache_all (ex_npc
     [0x45, 0, 0, 28, 0, 1, 0, 0, 64, 17, 0xaf, 0x25, 10, 0, 0, 1, 192, 168, 1, 2,
      0x30, 0x39, 0, 53, 0, 8, 0x03, 0xc5] [28]))"

lemma ex_udp_npc_simps:
  "npc_data ex_udp_npc =
     [0x45, 0, 0, 28, 0, 1, 0, 0, 64, 17, 0xaf, 0x25, 10, 0, 0, 1, 192, 168, 1, 2,
      0x30, 0x39, 0, 53, 0, 8, 0x03, 0xc5]"
  "npc_info ex_udp_npc = NPC_IP4 OR NPC_LAYER4 OR NPC_UDP"
  "npc_alen ex_udp_npc = 4" "npc_ips ex_udp_npc = [12, 16]" "npc_hlen ex_udp_npc = 20"
  "npc_proto ex_udp_npc = IPPROTO_UDP" "npc_ip ex_udp_npc = 0" "npc_l4 ex_udp_npc = Some 20"
  by code_simp+

text \<open>
  The updated UDP checksum can become zero.  A UDP datagram with a valid, non-zero
  checksum is rewritten to another source address; the incremental update then yields
  the value zero, which on the wire means that the datagram carries no checksum (RFC 768
  transmits 0xffff instead).
\<close>

theorem npf_napt_rwr_udp_zero_checksum:
  "cksum_ok (l4_sum ex_udp_npc 8 (npc_data ex_udp_npc)) \<and>
   rd16 (npc_data ex_udp_npc) (l4_cksum_off ex_udp_npc) \<noteq> 0 \<and>
   rd16 (npc_data (snd (npf_napt_rwr ex_udp_npc NPF_SRC ([203, 0, 0x42, 0xc5] @ replicate 12 0) 0)))
     (l4_cksum_off ex_udp_npc) = 0"
proof -
  note simps = ex_udp_npc_simps region_def cksum_ok_def oc_norm_def bswap16_def l4_cksum_off_def
  have "cksum_ok (l4_sum ex_udp_npc 8 (npc_data ex_udp_npc))" by (simp add: l4_sum_def simps)
  moreover have "rd16 (npc_data ex_udp_npc) (l4_cksum_off ex_udp_npc) \<noteq> 0"
    by (simp add: simps rd16_def)
  moreover have "rwr_data ex_udp_npc NPF_SRC ([203, 0, 0x42, 0xc5] @ replicate 12 0) 0 !
      l4_cksum_off ex_udp_npc = 0 \<and>
      rwr_data ex_udp_npc NPF_SRC ([203, 0, 0x42, 0xc5] @ replicate 12 0) 0 !
      (l4_cksum_off ex_udp_npc + 1) = 0"
    by code_simp
  moreover have "npf_napt_rwr ex_udp_npc NPF_SRC ([203, 0, 0x42, 0xc5] @ replicate 12 0) 0 =
      (None, npc_set_data ex_udp_npc (rwr_data ex_udp_npc NPF_SRC ([203, 0, 0x42, 0xc5] @ replicate 12 0) 0))"
    by (rule npf_napt_rwr_data) (simp_all add: simps rd16_def)
  ultimately show ?thesis by (simp add: npc_set_data_def rd16_def)
qed


section \<open>Prefix translation\<close>

lemma npt66_fold_mod:
  "unat (npt66_fold s) mod 65535 = unat s mod 65535 \<and> unat (npt66_fold s) < 65536"
proof (induction s rule: npt66_fold.induct)
  case (1 s)
  show ?case
  proof (cases "drop_bit 16 s = 0")
    case True
    then have "unat s div 65536 = 0" by (metis unat_drop16 unat_0)
    then show ?thesis using True by (simp add: npt66_fold.simps [of s])
  next
    case False
    have s: "unat (drop_bit 16 s + (s AND 0xffff)) = unat s div 65536 + unat s mod 65536"
      using unat_lt [of s] by (subst unat_add_small) (simp_all add: unat_drop16 unat_low16)
    have "unat s = (unat s div 65536 + unat s mod 65536) + 65535 * (unat s div 65536)"
      using div_mult_mod_eq [of "unat s" 65536] by simp
    then have "(unat s div 65536 + unat s mod 65536) mod 65535 = unat s mod 65535"
      by (metis mod_mult_self2)
    then show ?thesis
      using "1.IH" [OF False] s False by (simp add: npt66_fold.simps [of s])
  qed
qed

text \<open>The prefix loop overwrites the first words and nothing else.\<close>

lemma npt66_prefix_loop_nth:
  assumes "a + 2 * (i + n) \<le> length d"
  shows "length (npt66_prefix_loop n i d a pref) = length d \<and>
    (\<forall>j. rd16 (npt66_prefix_loop n i d a pref) (a + 2 * j) =
      (if i \<le> j \<and> j < i + n then rd16 pref (2 * j) else rd16 d (a + 2 * j))) \<and>
    (\<forall>k. k < a + 2 * i \<or> a + 2 * (i + n) \<le> k \<longrightarrow> npt66_prefix_loop n i d a pref ! k = d ! k)"
  using assms
proof (induction n arbitrary: i d)
  case (Suc n)
  let ?d = "wr16 d (a + 2 * i) (rd16 pref (2 * i))"
  have same: "rd16 ?d (a + 2 * i) = rd16 pref (2 * i)" using Suc.prems by (intro rd16_wr16_same) simp
  have other: "rd16 ?d (a + 2 * j) = rd16 d (a + 2 * j)" if "j \<noteq> i" for j
    using that by (intro rd16_wr16_other) linarith
  have out: "?d ! k = d ! k" if "k < a + 2 * i \<or> a + 2 * (i + Suc n) \<le> k" for k
    using that by (auto simp: wr16_def)
  show ?case
    using Suc.IH [of "i + 1" ?d] Suc.prems same other out by (auto simp: not_less_eq_eq dest: le_antisym)
qed auto

lemma npt66_find_word_range:
  "w \<le> 8 \<Longrightarrow> w \<le> npt66_find_word w d a \<and> npt66_find_word w d a \<le> 8 \<and>
   (npt66_find_word w d a = 8 \<longrightarrow> (\<forall>j. w \<le> j \<and> j < 8 \<longrightarrow> rd16 d (a + 2 * j) = 0xffff))"
proof (induction w d a rule: npt66_find_word.induct)
  case (1 w d a)
  show ?case
  proof (cases "w < 8 \<and> rd16 d (a + 2 * w) = 0xffff")
    case True
    then have "npt66_find_word w d a = npt66_find_word (w + 1) d a"
      by (simp add: npt66_find_word.simps [of w])
    then show ?thesis using "1.IH" True by (auto simp: le_Suc_eq) (metis Suc_leI le_neq_implies_less)
  next
    case False
    then have "npt66_find_word w d a = w" by (auto simp: npt66_find_word.simps [of w])
    then show ?thesis using "1.prems" by auto
  qed
qed

lemma npt66_prefix_loop_snoc:
  "npt66_prefix_loop (Suc n) i d a pref =
     wr16 (npt66_prefix_loop n i d a pref) (a + 2 * (i + n)) (rd16 pref (2 * (i + n)))"
proof (induction n arbitrary: i d)
  case (Suc n)
  have "npt66_prefix_loop (Suc (Suc n)) i d a pref =
      npt66_prefix_loop (Suc n) (i + 1) (wr16 d (a + 2 * i) (rd16 pref (2 * i))) a pref"
    by (rule npt66_prefix_loop.simps(2))
  also note Suc.IH
  finally show ?case by simp
qed simp

text \<open>The sum of the address after its first \<open>n\<close> words were replaced.\<close>

lemma npt66_prefix_loop_sum:
  assumes "a + 16 \<le> length d" "n \<le> 8" "16 \<le> length pref"
  shows "sum16 (region a 16 (npt66_prefix_loop n 0 d a pref)) + sum16 (region a (2 * n) d) =
    sum16 (region a 16 d) + sum16 (take (2 * n) pref)"
  using assms(2)
proof (induction n)
  case 0
  then show ?case by (simp add: region_def)
next
  case (Suc n)
  let ?d = "npt66_prefix_loop n 0 d a pref"
  have nth: "length ?d = length d" "rd16 ?d (a + 2 * n) = rd16 d (a + 2 * n)"
    using npt66_prefix_loop_nth [of a 0 n d pref] assms Suc.prems by auto
  have w: "sum16 (region a 16 (npt66_prefix_loop (Suc n) 0 d a pref)) + unat (rd16 d (a + 2 * n)) =
      sum16 (region a 16 ?d) + unat (rd16 pref (2 * n))"
    unfolding npt66_prefix_loop_snoc using sum16_region_wr16 [of a "a + 2 * n" 16 ?d] assms Suc.prems nth by simp
  have two: "sum16 (region j 2 e) = unat (rd16 e j)" if "j + 2 \<le> length e" for j e
  proof -
    have "region j 2 e = [e ! j, e ! (j + 1)]"
      using that by (intro nth_equalityI) (auto simp: region_def less_Suc_eq numeral_2_eq_2)
    then show ?thesis by (simp add: unat_rd16)
  qed
  have "sum16 (region a (2 * Suc n) d) = sum16 (region a (2 * n) d) + unat (rd16 d (a + 2 * n))"
    using region_append [of a "2 * n" 2 d] two [of "a + 2 * n" d] assms Suc.prems
    by (simp add: sum16_append region_def)
  moreover have "sum16 (take (2 * Suc n) pref) = sum16 (take (2 * n) pref) + unat (rd16 pref (2 * n))"
    using region_append [of 0 "2 * n" 2 pref] two [of "2 * n" pref] assms Suc.prems
    by (simp add: sum16_append region_def)
  ultimately show ?case using w Suc.IH Suc.prems by simp
qed

text \<open>The word to adjust lies behind the prefix and inside the address.\<close>

lemma npt66_word_range:
  assumes "len \<in> {16, 32, 48, 64}"
    "len \<le> 48 \<or> \<not> (rd32 d (a + 8) = 0xffffffff \<and> rd32 d (a + 12) = 0xffffffff)"
  shows "len div 16 \<le> (if len \<le> 48 then 3 else npt66_find_word 4 d a) \<and>
    (if len \<le> 48 then 3 else npt66_find_word 4 d a) < 8"
proof (cases "len \<le> 48")
  case False
  have ones: "rd32 d i = 0xffffffff" if "rd16 d i = 0xffff" "rd16 d (i + 2) = 0xffff" for i
  proof -
    have "rd32 d i = ucast (rd16 d i) OR push_bit 16 (ucast (rd16 d (i + 2)))"
      by (rule bit_word_eqI) (auto simp: rd32_def rd16_def bit_simps bit_beyond numeral_3_eq_3)
    then show ?thesis using that by simp
  qed
  have "npt66_find_word 4 d a \<noteq> 8"
  proof
    assume "npt66_find_word 4 d a = 8"
    then have "rd16 d (a + 2 * j) = 0xffff" if "4 \<le> j" "j < 8" for j
      using npt66_find_word_range [of 4 d a] that by simp
    from this [of 4] this [of 5] this [of 6] this [of 7] show False
      using ones [of "a + 8"] ones [of "a + 12"] assms(2) False by (simp add: add.commute)
  qed
  then show ?thesis using False assms(1) npt66_find_word_range [of 4 d a] by auto
qed (use assms in auto)

lemma mod_update:
  assumes "R' + x = R1 + v" "R1 + P = R + Q" "v mod m = (x + adj) mod (m :: nat)"
  shows "(R' + P) mod m = (R + Q + adj) mod m"
proof -
  have "int v mod int m = int (x + adj) mod int m" using assms(3) by (metis of_nat_mod)
  then have "int m dvd int v - int (x + adj)" by (simp only: mod_eq_dvd_iff)
  moreover have "int (R' + P) - int (R + Q + adj) = int v - int (x + adj)" using assms(1,2) by linarith
  ultimately have "int (R' + P) mod int m = int (R + Q + adj) mod int m"
    by (simp only: mod_eq_dvd_iff)
  then show ?thesis by (metis of_nat_eq_iff of_nat_mod)
qed


definition ex_ip6_npc :: npf_cache where
  "ex_ip6_npc = (ex_npc
     ([0x60, 0, 0, 0, 0, 0, 59, 64] @
      [0xfd, 1, 2, 3, 4, 5, 0, 1, 0xd5, 0x50, 0, 0, 0, 0, 0, 1] @ replicate 16 7) [40])
     \<lparr> npc_info := NPC_IP6, npc_ips := [8, 24], npc_alen := 16 \<rparr>"

definition ex_ip6_pref :: npf_addr where
  "ex_ip6_pref = [0x20, 1, 0x0d, 0xb8, 0x12, 0x3f] @ replicate 10 0"


text \<open>
  Prefixes that do not end on a byte boundary are not applied.  With a prefix of 44
  bits \<open>npf_npt66_rwr\<close> succeeds, but the mask of the partial word selects the wrong bits
  of the 16-bit word in network byte order: bit 43 of the new address is not the one of
  the prefix.
\<close>

theorem npf_npt66_rwr_partial_word:
  "fst (npf_npt66_rwr ex_ip6_npc 0 ex_ip6_pref 44 0) = None \<and>
   addr_bit (drop 8 (npc_data (snd (npf_npt66_rwr ex_ip6_npc 0 ex_ip6_pref 44 0)))) 43 \<noteq>
     addr_bit ex_ip6_pref 43"
  by code_simp

end
