(* ===== verification/NPF_Portmap.thy ===== *)
theory NPF_Portmap
  imports NPF_Params NPF_Addr
begin

text \<open>
  The NAT port map (\<open>src/kern/npf_portmap.c\<close>): per translation address a two-level
  compressed bitmap of the 65536 ports, and the allocation, reservation and release of
  ports.

  A word of level 0 is either packed (up to five 12-bit values in a 64-bit integer) or a
  tagged pointer to a level 1 block.  The tagged pointer is the constructor \<open>L1\<close> with the
  block it points to, which no other word shares.  Operations are the ones of a single
  thread: a compare-and-swap succeeds.  Whether an allocation succeeds is an argument.
\<close>

section \<open>Packed words\<close>

definition bitmap_word_isset :: "u64 \<Rightarrow> nat \<Rightarrow> bool" where
  "bitmap_word_isset x n =
    (let n = n + 1;
         m = drop_bit 4 x XOR (0x1001001001001 * of_nat n);
         r = (m - 0x1001001001001) AND (NOT m AND 0x800800800800800) in
     r \<noteq> 0)"

text \<open>
  \<open>bitmap_word_cax\<close> with the expected field value \<open>e\<close> (\<open>exp + 1\<close>): 0 searches a free field.
\<close>

definition bitmap_word_cax :: "u64 \<Rightarrow> nat \<Rightarrow> nat \<Rightarrow> u64" where
  "bitmap_word_cax x e n =
    (let v = of_nat (n + 1) :: u64; e = of_nat e in
     if drop_bit 52 x AND 0xfff = e then x XOR push_bit 52 v
     else if drop_bit 40 x AND 0xfff = e then x XOR push_bit 40 v
     else if drop_bit 28 x AND 0xfff = e then x XOR push_bit 28 v
     else if drop_bit 16 x AND 0xfff = e then x XOR push_bit 16 v
     else if drop_bit 4 x AND 0xfff = e then x XOR push_bit 4 v
     else 0)"

definition bitmap_word_unpack :: "u64 \<Rightarrow> nat list" where
  "bitmap_word_unpack x =
     map (\<lambda>v. unat v - 1) (filter (\<lambda>v. v \<noteq> 0)
       [drop_bit 52 x AND 0xfff, drop_bit 40 x AND 0xfff, drop_bit 28 x AND 0xfff,
        drop_bit 16 x AND 0xfff, drop_bit 4 x AND 0xfff])"

section \<open>Bitmaps\<close>

abbreviation PORTMAP_MAX_BITS :: nat where "PORTMAP_MAX_BITS \<equiv> 65536"
abbreviation PORTMAP_L0_WORDS :: nat where "PORTMAP_L0_WORDS \<equiv> 64"
abbreviation PORTMAP_L1_WORDS :: nat where "PORTMAP_L1_WORDS \<equiv> 16"

datatype l0_word = Packed u64 | L1 "u64 list"

record bitmap =
  bm_addr :: npf_addr
  bits0 :: "l0_word list"
  addr_len :: nat

text \<open>The loop that copies the unpacked values into a level 1 block, last value first.\<close>

definition l1_or :: "nat \<Rightarrow> u64 list \<Rightarrow> u64 list" where
  "l1_or v bits1 = (let off = v div 64 in bits1[off := bits1 ! off OR push_bit (v mod 64) 1])"

definition l1_of_packed :: "u64 \<Rightarrow> u64 list" where
  "l1_of_packed x = fold l1_or (rev (bitmap_word_unpack x)) (replicate PORTMAP_L1_WORDS 0)"

definition l1_set :: "bitmap \<Rightarrow> nat \<Rightarrow> nat \<Rightarrow> u64 list \<Rightarrow> bool \<times> bitmap" where
  "l1_set bm i0 chunk_bit bits1 =
    (let i = chunk_bit div 64; b = push_bit (chunk_bit mod 64) 1; oval = bits1 ! i in
     if oval AND b \<noteq> 0 then (False, bm\<lparr> bits0 := (bits0 bm)[i0 := L1 bits1] \<rparr>)
     else (True, bm\<lparr> bits0 := (bits0 bm)[i0 := L1 (bits1[i := oval OR b])] \<rparr>))"

definition bitmap_set :: "bool \<Rightarrow> bitmap \<Rightarrow> nat \<Rightarrow> bool \<times> bitmap" where
  "bitmap_set mem bm n =
    (let i = n div 1024; chunk_bit = n mod 1024 in
     case bits0 bm ! i of
       Packed bval \<Rightarrow>
         if bitmap_word_isset bval chunk_bit then (False, bm)
         else
           let nval = bitmap_word_cax bval 0 chunk_bit in
           if nval \<noteq> 0 then (True, bm\<lparr> bits0 := (bits0 bm)[i := Packed nval] \<rparr>)
           else if \<not> mem then (False, bm)
           else l1_set bm i chunk_bit (l1_of_packed bval)
     | L1 bits1 \<Rightarrow> l1_set bm i chunk_bit bits1)"

definition bitmap_clr :: "bitmap \<Rightarrow> nat \<Rightarrow> bool \<times> bitmap" where
  "bitmap_clr bm n =
    (let i = n div 1024; chunk_bit = n mod 1024 in
     case bits0 bm ! i of
       Packed bval \<Rightarrow>
         if \<not> bitmap_word_isset bval chunk_bit then (False, bm)
         else
           let nval = bitmap_word_cax bval (chunk_bit + 1) chunk_bit in
           (True, bm\<lparr> bits0 := (bits0 bm)[i := Packed nval] \<rparr>)
     | L1 bits1 \<Rightarrow>
         let j = chunk_bit div 64; b = push_bit (chunk_bit mod 64) 1; oval = bits1 ! j in
         if oval AND b = 0 then (False, bm)
         else (True, bm\<lparr> bits0 := (bits0 bm)[i := L1 (bits1[j := oval AND NOT b])] \<rparr>))"

section \<open>Port maps\<close>

text \<open>
  The bitmaps live in a heap indexed by pointer; \<open>addr_map\<close> maps the \<open>alen\<close> bytes of an
  address to a pointer, and \<open>bitmap_list\<close> holds all of them.
\<close>

record 'm npf_portmap =
  pm_addr_map :: 'm
  pm_list :: "nat list"
  pm_heap :: "bitmap list"

type_synonym 'm portmap_ops = "('m, u8 list, nat) thmap_ops"

definition npf_portmap_create :: "'m portmap_ops \<Rightarrow> 'm npf_portmap" where
  "npf_portmap_create T = \<lparr> pm_addr_map = thmap_create T, pm_list = [], pm_heap = [] \<rparr>"

definition npf_portmap_init :: "npf_param list" where
  "npf_portmap_init =
    [\<lparr> p_name = ''portmap.min_port'', p_valp = VP_portmap_min_port,
       p_default_val = 1024, p_min = 1024, p_max = 65535 \<rparr>,
     \<lparr> p_name = ''portmap.max_port'', p_valp = VP_portmap_max_port,
       p_default_val = 49151, p_min = 1024, p_max = 65535 \<rparr>]"

definition bitmap_zero :: "npf_addr \<Rightarrow> nat \<Rightarrow> bitmap" where
  "bitmap_zero addr alen =
     \<lparr> bm_addr = take alen addr, bits0 = replicate PORTMAP_L0_WORDS (Packed 0), addr_len = alen \<rparr>"

definition npf_portmap_autoget ::
  "'m portmap_ops \<Rightarrow> bool \<Rightarrow> 'm npf_portmap \<Rightarrow> nat \<Rightarrow> npf_addr \<Rightarrow> nat option \<times> 'm npf_portmap" where
  "npf_portmap_autoget T mem pm alen addr =
    (case thmap_get T (pm_addr_map pm) (take alen addr) of
       Some p \<Rightarrow> (Some p, pm)
     | None \<Rightarrow>
         if \<not> mem then (None, pm)
         else
           let p = length (pm_heap pm);
               (ret, m) = thmap_put T (pm_addr_map pm) (take alen addr) p in
           if ret = p then
             (Some p, pm\<lparr> pm_addr_map := m, pm_heap := pm_heap pm @ [bitmap_zero addr alen],
                          pm_list := p # pm_list pm \<rparr>)
           else (Some ret, pm\<lparr> pm_addr_map := m \<rparr>))"

definition npf_portmap_flush :: "'m portmap_ops \<Rightarrow> 'm npf_portmap \<Rightarrow> 'm npf_portmap" where
  "npf_portmap_flush T pm =
     \<lparr> pm_addr_map = fold (\<lambda>p m. snd (thmap_del T m (bm_addr (pm_heap pm ! p)))) (pm_list pm) (pm_addr_map pm),
       pm_list = [], pm_heap = [] \<rparr>"

text \<open>
  The search of \<open>npf_portmap_get\<close> from its label \<open>next\<close>, for any operation that sets a
  bit.  \<open>Some 0\<close> means no space; None means that the fuel is exhausted.
\<close>

fun portmap_search ::
  "('b \<Rightarrow> nat \<Rightarrow> bool \<times> 'b) \<Rightarrow> nat \<Rightarrow> nat \<Rightarrow> nat \<Rightarrow> nat \<Rightarrow> nat \<Rightarrow> 'b \<Rightarrow> (nat \<times> 'b) option" where
  "portmap_search set_op min_port port_delta target 0 n bm = None"
| "portmap_search set_op min_port port_delta target (Suc fuel) n bm =
    (let (ok, bm) = set_op bm n in
     if ok then Some (n, bm)
     else
       let n' = min_port + (n + 1) mod port_delta in
       if target \<noteq> n' then portmap_search set_op min_port port_delta target fuel n' bm
       else Some (0, bm))"

text \<open>\<open>rnd\<close> is the value of \<open>cprng_fast32\<close>.\<close>

definition npf_portmap_get ::
  "'m portmap_ops \<Rightarrow> param_store \<Rightarrow> bool \<Rightarrow> u32 \<Rightarrow> 'm npf_portmap \<Rightarrow> nat \<Rightarrow> npf_addr
   \<Rightarrow> (u16 \<times> 'm npf_portmap) option" where
  "npf_portmap_get T params mem rnd pm alen addr =
    (let min_port = nat (params VP_portmap_min_port); max_port = nat (params VP_portmap_max_port) in
     if min_port > max_port then Some (0, pm)
     else
       let port_delta = max_port - min_port + 1 in
       case npf_portmap_autoget T mem pm alen addr of
         (None, pm) \<Rightarrow> Some (0, pm)
       | (Some p, pm) \<Rightarrow>
           let target = min_port + unat rnd mod port_delta in
           map_option (\<lambda>(n, bm). (htons (of_nat n), pm\<lparr> pm_heap := (pm_heap pm)[p := bm] \<rparr>))
             (portmap_search (bitmap_set mem) min_port port_delta target port_delta target
               (pm_heap pm ! p)))"

definition npf_portmap_take ::
  "'m portmap_ops \<Rightarrow> param_store \<Rightarrow> bool \<Rightarrow> 'm npf_portmap \<Rightarrow> nat \<Rightarrow> npf_addr \<Rightarrow> u16
   \<Rightarrow> bool \<times> 'm npf_portmap" where
  "npf_portmap_take T params mem pm alen addr nport =
    (case npf_portmap_autoget T mem pm alen addr of
       (None, pm) \<Rightarrow> (False, pm)
     | (Some p, pm) \<Rightarrow>
         let port = uint (ntohs nport) in
         if port < params VP_portmap_min_port \<or> port > params VP_portmap_max_port then (False, pm)
         else
           let (ok, bm) = bitmap_set mem (pm_heap pm ! p) (nat port) in
           (ok, pm\<lparr> pm_heap := (pm_heap pm)[p := bm] \<rparr>))"

definition npf_portmap_put ::
  "'m portmap_ops \<Rightarrow> bool \<Rightarrow> 'm npf_portmap \<Rightarrow> nat \<Rightarrow> npf_addr \<Rightarrow> u16 \<Rightarrow> 'm npf_portmap" where
  "npf_portmap_put T mem pm alen addr nport =
    (case npf_portmap_autoget T mem pm alen addr of
       (None, pm) \<Rightarrow> pm
     | (Some p, pm) \<Rightarrow>
         let (ok, bm) = bitmap_clr (pm_heap pm ! p) (unat (ntohs nport)) in
         pm\<lparr> pm_heap := (pm_heap pm)[p := bm] \<rparr>)"

section \<open>Packed words as five 12-bit fields\<close>

definition fld :: "u64 \<Rightarrow> nat \<Rightarrow> u64" where
  "fld x j = drop_bit (4 + 12 * j) x AND 0xfff"

text \<open>
  The search for a zero field with one subtraction is exact: on the integers, by induction
  on the number of fields.
\<close>

fun ones12 :: "nat \<Rightarrow> int" where
  "ones12 0 = 0"
| "ones12 (Suc n) = 1 + 4096 * ones12 n"

lemma bit_split12:
  fixes a y :: int
  assumes "0 \<le> a" "a < 4096"
  shows "bit (a + 4096 * y) (12 + k) = bit y k" "bit (a + 4096 * y) 11 \<longleftrightarrow> 2048 \<le> a"
proof -
  have "(a + 4096 * y) div 2 ^ 12 = y"
    using assms by simp
  then have "drop_bit 12 (a + 4096 * y) = y"
    by (simp only: drop_bit_eq_div)
  then show "bit (a + 4096 * y) (12 + k) = bit y k"
    by (metis bit_drop_bit_eq comp_apply)
  have "(a + 4096 * y) div 2048 = a div 2048 + 2 * y" by simp
  moreover have "odd (a div 2048) \<longleftrightarrow> 2048 \<le> a"
  proof (cases "2048 \<le> a")
    case True
    then have "a div 2048 = 1" using assms by (intro int_div_pos_eq [where r = "a - 2048"]) auto
    then show ?thesis using True by simp
  next
    case False
    then show ?thesis using assms by simp
  qed
  ultimately show "bit (a + 4096 * y) 11 \<longleftrightarrow> 2048 \<le> a"
    by (simp add: bit_iff_odd)
qed

lemma zero_field_int:
  fixes m :: int
  shows "(\<exists>j<n. bit (m - ones12 n) (12 * j + 11) \<and> \<not> bit m (12 * j + 11)) \<longleftrightarrow>
         (\<exists>j<n. drop_bit (12 * j) m mod 4096 = 0)"
proof (induction n arbitrary: m)
  case 0
  then show ?case by simp
next
  case (Suc n)
  define f where "f = m mod 4096"
  define m' where "m' = m div 4096"
  have f: "0 \<le> f" "f < 4096" by (simp_all add: f_def)
  have m: "m = f + 4096 * m'" by (simp add: f_def m'_def)
  have d: "drop_bit (12 * Suc j) m mod 4096 = drop_bit (12 * j) m' mod 4096" for j
    by (simp add: m'_def drop_bit_eq_div power_add zdiv_zmult2_eq [symmetric] mult.commute)
  have ex: "(\<exists>j<Suc n. P j) \<longleftrightarrow> P 0 \<or> (\<exists>j<n. P (Suc j))" for P
    using less_Suc_eq_0_disj by auto
  show ?case
  proof (cases "f = 0")
    case True
    have "m - ones12 (Suc n) = 4095 + 4096 * (m' - ones12 n - 1)"
      using True by (simp add: m)
    then have "bit (m - ones12 (Suc n)) 11" by (simp only: bit_split12(2))
    moreover have "\<not> bit m 11" using bit_split12(2) [of 0 m'] True by (simp add: m)
    ultimately show ?thesis using True by (auto simp: ex f_def intro: exI [of _ 0])
  next
    case False
    define y where "y = m' - ones12 n"
    have e: "m - ones12 (Suc n) = (f - 1) + 4096 * y" by (simp add: m y_def)
    have f': "0 \<le> f - 1" "f - 1 < 4096" using False f by auto
    note b1 = bit_split12 [OF f', of y, folded e] and b2 = bit_split12 [OF f, of m', folded m]
    have b0: "\<not> (bit (m - ones12 (Suc n)) 11 \<and> \<not> bit m 11)"
      by (simp add: b1(2) b2(2) del: ones12.simps)
    have c: "12 * Suc j + 11 = 12 + (12 * j + 11)" for j by simp
    have bS: "bit (m - ones12 (Suc n)) (12 * Suc j + 11) = bit (m' - ones12 n) (12 * j + 11)"
      "bit m (12 * Suc j + 11) = bit m' (12 * j + 11)" for j
      by (simp_all only: c b1(1) b2(1) y_def)
    show ?thesis
      using False b0 Suc.IH [of m'] by (simp only: ex bS d) (auto simp: f_def)
  qed
qed

lemma ex_less_5: "(\<exists>j<5 :: nat. P j) \<longleftrightarrow> P 0 \<or> P 1 \<or> P 2 \<or> P 3 \<or> P 4"
  by (auto simp: numeral_eq_Suc less_Suc_eq)

lemma top_bits_of_fields:
  "bit (0x800800800800800 :: u64) k \<longleftrightarrow> (\<exists>j<5. k = 12 * j + 11)"
proof -
  have e: "(0x800800800800800 :: u64) =
      push_bit 11 1 OR push_bit 23 1 OR push_bit 35 1 OR push_bit 47 1 OR push_bit 59 1"
    by (simp add: push_bit_eq_mult)
  have p: "bit (push_bit n (1 :: u64)) k \<longleftrightarrow> k = n" if "n < 64" for n
    using that by (auto simp: push_bit_of_1 bit_exp_iff)
  have "bit (0x800800800800800 :: u64) k \<longleftrightarrow> k = 11 \<or> k = 23 \<or> k = 35 \<or> k = 47 \<or> k = 59"
    unfolding e bit_or_iff by (simp add: p del: push_bit_numeral push_bit_of_1)
  also have "\<dots> \<longleftrightarrow> (\<exists>j<5. k = 12 * j + 11)"
    by (simp add: ex_less_5)
  finally show ?thesis .
qed

lemma and_fff_take_bit: "x AND 0xfff = take_bit 12 (x :: u64)"
  by (simp add: take_bit_eq_mask mask_eq_exp_minus_1)

lemma and_not_nonzero:
  "a AND (NOT b AND c) \<noteq> 0 \<longleftrightarrow> (\<exists>k<64. bit a k \<and> \<not> bit b k \<and> bit c k)" for a b c :: u64
  by (auto simp: bit_eq_iff bit_and_iff bit_not_iff)

lemma zero_field_word:
  fixes m :: u64
  shows "(m - 0x1001001001001) AND (NOT m AND 0x800800800800800) \<noteq> 0 \<longleftrightarrow>
         (\<exists>j<5. drop_bit (12 * j) m AND 0xfff = 0)"
proof -
  have o: "ones12 5 = 0x1001001001001" by (simp add: numeral_eq_Suc)
  have sub: "bit (m - 0x1001001001001) k \<longleftrightarrow> k < 64 \<and> bit (uint m - ones12 5) k" for k
  proof -
    have "m - 0x1001001001001 = word_of_int (uint m - ones12 5)" by (simp add: o)
    then show ?thesis by (simp only: bit_word_of_int_iff) simp
  qed
  have um: "bit m k = bit (uint m) k" for k
    by (cases "k < 64") (simp_all add: bit_uint_iff bit_beyond)
  have z: "drop_bit (12 * j) m AND 0xfff = 0 \<longleftrightarrow> drop_bit (12 * j) (uint m) mod 4096 = 0" for j
  proof -
    have "drop_bit (12 * j) m AND 0xfff = 0 \<longleftrightarrow> uint (take_bit 12 (drop_bit (12 * j) m)) = 0"
      by (simp only: and_fff_take_bit uint_0_iff)
    also have "\<dots> \<longleftrightarrow> take_bit 12 (drop_bit (12 * j) (uint m)) = 0"
      using take_bit_int_eq_self [of "uint m" 64] unsigned_less [of m, where ?'a = int]
      by (simp add: unsigned_take_bit_eq unsigned_drop_bit_eq)
    finally show ?thesis by (simp add: take_bit_eq_mod)
  qed
  have "(m - 0x1001001001001) AND (NOT m AND 0x800800800800800) \<noteq> 0 \<longleftrightarrow>
      (\<exists>k<64. (k < 64 \<and> bit (uint m - ones12 5) k) \<and> \<not> bit (uint m) k \<and> (\<exists>j<5. k = 12 * j + 11))"
    by (simp only: and_not_nonzero sub um top_bits_of_fields)
  also have "\<dots> \<longleftrightarrow> (\<exists>j<5. bit (uint m - ones12 5) (12 * j + 11) \<and> \<not> bit (uint m) (12 * j + 11))"
    (is "_ \<longleftrightarrow> (\<exists>j<5. ?B j)")
  proof
    assume "\<exists>j<5. ?B j"
    then obtain j where "j < 5" "?B j" by blast
    then show "\<exists>k<64. (k < 64 \<and> bit (uint m - ones12 5) k) \<and> \<not> bit (uint m) k \<and> (\<exists>j<5. k = 12 * j + 11)"
      by (intro exI [of _ "12 * j + 11"]) auto
  qed blast
  also have "\<dots> \<longleftrightarrow> (\<exists>j<5. drop_bit (12 * j) m AND 0xfff = 0)"
    by (simp only: zero_field_int z)
  finally show ?thesis .
qed

lemma bit_fld: "bit (fld x j) k \<longleftrightarrow> k < 12 \<and> bit x (4 + 12 * j + k)"
  by (auto simp: fld_def and_fff_take_bit bit_take_bit_iff bit_drop_bit_eq)

lemma bit_small_value: "(v :: u64) < 4096 \<Longrightarrow> bit v k \<Longrightarrow> k < 12"
proof (rule ccontr)
  assume v: "v < 4096" "bit v k" "\<not> k < 12"
  have "take_bit 12 (unat v) = unat v"
    using v(1) by (intro take_bit_nat_eq_self) (simp add: word_less_nat_alt)
  then show False
    using v(2,3) bit_take_bit_iff [of 12 "unat v" k] by (simp add: bit_unsigned_iff)
qed

lemma bit_repeat_value:
  fixes v :: u64
  assumes "v < 4096" "k < 12" "j < 5"
  shows "bit (0x1001001001001 * v) (12 * j + k) = bit v k"
proof -
  let ?w = "\<lambda>n. push_bit n v"
  have nb: "\<not> bit v n" if "12 \<le> n" for n using bit_small_value [OF assms(1)] that by fastforce
  have "0x1001001001001 * v = ?w 48 + (?w 36 + (?w 24 + (?w 12 + v)))"
    by (simp add: push_bit_eq_mult algebra_simps)
  also have "?w 12 + v = ?w 12 OR v"
    by (rule disjunctive_add) (auto simp: bit_simps nb)
  also have "?w 24 + (?w 12 OR v) = ?w 24 OR (?w 12 OR v)"
    by (rule disjunctive_add) (auto simp: bit_simps nb)
  also have "?w 36 + (?w 24 OR (?w 12 OR v)) = ?w 36 OR (?w 24 OR (?w 12 OR v))"
    by (rule disjunctive_add) (auto simp: bit_simps nb)
  also have "?w 48 + (?w 36 OR (?w 24 OR (?w 12 OR v))) = ?w 48 OR (?w 36 OR (?w 24 OR (?w 12 OR v)))"
    by (rule disjunctive_add) (auto simp: bit_simps nb)
  finally have "bit (0x1001001001001 * v) (12 * j + k) =
      bit (?w 48 OR (?w 36 OR (?w 24 OR (?w 12 OR v)))) (12 * j + k)" by simp
  moreover have "j = 0 \<or> j = 1 \<or> j = 2 \<or> j = 3 \<or> j = 4" using assms(3) by linarith
  ultimately show ?thesis
    using assms(2) by (elim disjE) (simp_all add: bit_or_iff bit_push_bit_iff nb)
qed

text \<open>
  The word test of \<open>bitmap_word_isset\<close> is exact: it finds a value iff one of the five
  fields holds it.
\<close>

lemma bitmap_word_isset_iff:
  assumes "n < 4095"
  shows "bitmap_word_isset x n \<longleftrightarrow> (\<exists>j<5. fld x j = of_nat (n + 1))"
proof -
  define v :: u64 where "v = of_nat (n + 1)"
  have "unat v = n + 1" unfolding v_def using assms by (subst unat_of_nat) simp
  then have v: "v < 4096" using assms by (simp add: word_less_nat_alt)
  have "drop_bit (12 * j) (drop_bit 4 x XOR 0x1001001001001 * v) AND 0xfff = fld x j XOR v"
    if "j < 5" for j
  proof (rule bit_eqI)
    fix k
    have ac: "12 * j + (4 + k) = 4 + (12 * j + k)" by simp
    show "bit (drop_bit (12 * j) (drop_bit 4 x XOR 0x1001001001001 * v) AND 0xfff) k =
        bit (fld x j XOR v) k"
      using bit_repeat_value [OF v _ that, of k] bit_small_value [OF v, of k]
      by (auto simp: and_fff_take_bit bit_take_bit_iff bit_drop_bit_eq bit_xor_iff bit_fld add.assoc ac)
  qed
  moreover have "a XOR b = 0 \<longleftrightarrow> a = b" for a b :: u64
    using bit_eq_iff [of "a XOR b" 0] bit_eq_iff [of a b] by (simp add: bit_xor_iff)
  ultimately show ?thesis
    by (simp add: bitmap_word_isset_def Let_def zero_field_word v_def cong: conj_cong)
qed

text \<open>Writing one field leaves the others.\<close>

lemma fld_xor:
  assumes "v < 4096" "i < 5" "j < 5"
  shows "fld (x XOR push_bit (4 + 12 * i) v) j = (if i = j then fld x j XOR v else fld x j)"
proof (rule bit_eqI)
  fix k
  have "bit v (4 + 12 * j + k - (4 + 12 * i)) \<longleftrightarrow> i = j \<and> bit v k"
    if "k < 12" "4 + 12 * i \<le> 4 + 12 * j + k"
  proof (cases "i = j")
    case False
    then have "i < j" using that by linarith
    then have "12 \<le> 4 + 12 * j + k - (4 + 12 * i)" by linarith
    then show ?thesis using bit_small_value [OF assms(1)] False leD by blast
  qed simp
  then show "bit (fld (x XOR push_bit (4 + 12 * i) v) j) k =
      bit (if i = j then fld x j XOR v else fld x j) k"
    using assms(2,3) bit_small_value [OF assms(1), of k]
    by (auto simp: bit_fld bit_xor_iff bit_push_bit_iff)
qed

lemma fld_less: "fld x j < 4096"
proof -
  have "fld x j \<le> 0xfff" unfolding fld_def by (rule word_and_le1)
  also have "(0xfff :: u64) < 4096" by simp
  finally show ?thesis .
qed

text \<open>
  A packed word is well formed when its fields are 0 or a value plus one, no value occurs
  twice, and the tag bit is clear.
\<close>

definition packed_ok :: "u64 \<Rightarrow> bool" where
  "packed_ok x \<longleftrightarrow> \<not> bit x 0 \<and> (\<forall>j<5. fld x j \<le> 1024) \<and>
     (\<forall>i<5. \<forall>j<5. i \<noteq> j \<longrightarrow> fld x i = fld x j \<longrightarrow> fld x i = 0)"

lemma fld_0 [simp]: "fld 0 j = 0"
  by (simp add: fld_def)

lemma cax_cases:
  "(\<exists>j<5. fld x j = of_nat e \<and> bitmap_word_cax x e n = x XOR push_bit (4 + 12 * j) (of_nat (n + 1))) \<or>
   (\<forall>j<5. fld x j \<noteq> of_nat e) \<and> bitmap_word_cax x e n = 0"
proof -
  note d = bitmap_word_cax_def Let_def
  consider "fld x 4 = of_nat e" | "fld x 4 \<noteq> of_nat e" "fld x 3 = of_nat e"
    | "fld x 4 \<noteq> of_nat e" "fld x 3 \<noteq> of_nat e" "fld x 2 = of_nat e"
    | "fld x 4 \<noteq> of_nat e" "fld x 3 \<noteq> of_nat e" "fld x 2 \<noteq> of_nat e" "fld x 1 = of_nat e"
    | "fld x 4 \<noteq> of_nat e" "fld x 3 \<noteq> of_nat e" "fld x 2 \<noteq> of_nat e" "fld x 1 \<noteq> of_nat e"
      "fld x 0 = of_nat e"
    | "\<not> (\<exists>j<5. fld x j = of_nat e)"
    unfolding ex_less_5 by blast
  then show ?thesis
  proof cases
    case 1
    then show ?thesis by (intro disjI1 exI [of _ 4]) (simp add: d fld_def)
  next
    case 2
    then show ?thesis by (intro disjI1 exI [of _ 3]) (simp add: d fld_def)
  next
    case 3
    then show ?thesis by (intro disjI1 exI [of _ 2]) (simp add: d fld_def)
  next
    case 4
    then show ?thesis by (intro disjI1 exI [of _ 1]) (simp add: d fld_def)
  next
    case 5
    then show ?thesis by (intro disjI1 exI [of _ 0]) (simp add: d fld_def)
  next
    case 6
    then show ?thesis unfolding ex_less_5
      by (intro disjI2 conjI) (use 6 in blast, simp add: d fld_def)
  qed
qed

lemma unat_chunk: "k < 1024 \<Longrightarrow> unat (of_nat (k + 1) :: u64) = k + 1"
  by (subst unat_of_nat) simp

lemma of_nat_chunk:
  assumes "n < 1024"
  shows "(of_nat (n + 1) :: u64) \<noteq> 0" "(of_nat (n + 1) :: u64) \<le> 1024" "(of_nat (n + 1) :: u64) < 4096"
    "m < 1024 \<Longrightarrow> (of_nat (n + 1) :: u64) = of_nat (m + 1) \<longleftrightarrow> n = m"
proof -
  note u = unat_chunk
  show "(of_nat (n + 1) :: u64) \<noteq> 0" using u [OF assms] by (metis unat_0 add_is_0 one_neq_zero)
  show "(of_nat (n + 1) :: u64) \<le> 1024" "(of_nat (n + 1) :: u64) < 4096"
    using u [OF assms] assms by (simp_all add: word_le_nat_alt word_less_nat_alt del: of_nat_add of_nat_Suc)
  show "(of_nat (n + 1) :: u64) = of_nat (m + 1) \<longleftrightarrow> n = m" if "m < 1024"
    using u [OF assms] u [OF that] by (metis add_right_cancel)
qed

text \<open>Setting a value in a packed word, unless it is full, and clearing it.\<close>

lemma packed_write:
  assumes "packed_ok x" "v \<le> 1024" "j < 5" "fld x j = 0 \<and> w = v \<or> fld x j = v \<and> w = 0"
    "\<forall>i<5. i \<noteq> j \<longrightarrow> fld x i \<noteq> v" "y = x XOR push_bit (4 + 12 * j) v"
  shows "packed_ok y" "i < 5 \<Longrightarrow> fld y i = (if i = j then w else fld x i)"
proof -
  have v: "v < 4096" using assms(2) by (rule le_less_trans) simp
  have f: "fld y i = (if i = j then w else fld x i)" if "i < 5" for i
    using assms(3,4) that by (auto simp: assms(6) fld_xor [OF v])
  then show "i < 5 \<Longrightarrow> fld y i = (if i = j then w else fld x i)" .
  have "\<not> bit y 0" using assms(1) by (simp add: assms(6) packed_ok_def bit_xor_iff bit_push_bit_iff)
  moreover have "w \<le> 1024" using assms(2,4) by auto
  moreover have "fld x i \<noteq> w \<or> w = 0" if "i < 5" "i \<noteq> j" for i using assms(4,5) that by auto
  ultimately show "packed_ok y"
    using assms(1) unfolding packed_ok_def by (auto simp: f split: if_splits)
qed

lemma isset_iff: "n < 1024 \<Longrightarrow> bitmap_word_isset x n \<longleftrightarrow> (\<exists>j<5. fld x j = of_nat (n + 1))"
  by (rule bitmap_word_isset_iff) simp

lemma packed_set:
  assumes ok: "packed_ok x" and n: "n < 1024" and new: "\<not> bitmap_word_isset x n"
    and y: "y = bitmap_word_cax x 0 n" "y \<noteq> 0"
  shows "packed_ok y" "m < 1024 \<Longrightarrow> bitmap_word_isset y m \<longleftrightarrow> m = n \<or> bitmap_word_isset x m"
proof -
  define v :: u64 where "v = of_nat (n + 1)"
  note v = of_nat_chunk [OF n, folded v_def]
  obtain j where j: "j < 5" "fld x j = 0" "y = x XOR push_bit (4 + 12 * j) v"
    using cax_cases [of x 0 n, folded v_def] y by auto
  have nv: "\<forall>i<5. fld x i \<noteq> v" using new by (simp only: isset_iff [OF n] v_def) blast
  note w = packed_write [OF ok v(2) j(1) _ _ j(3), of v]
  show "packed_ok y" using w(1) j nv by blast
  show "bitmap_word_isset y m \<longleftrightarrow> m = n \<or> bitmap_word_isset x m" if m: "m < 1024"
  proof -
    have "fld y i = (if i = j then v else fld x i)" if "i < 5" for i
      using w(2) j(2) nv that by blast
    moreover have "v = of_nat (m + 1) \<longleftrightarrow> m = n" using v(4) [OF m] by auto
    ultimately show ?thesis
      using j of_nat_chunk(1) [OF m] unfolding isset_iff [OF m] by metis
  qed
qed

lemma packed_clr:
  assumes ok: "packed_ok x" and n: "n < 1024" and set: "bitmap_word_isset x n"
    and y: "y = bitmap_word_cax x (n + 1) n"
  shows "packed_ok y" "m < 1024 \<Longrightarrow> bitmap_word_isset y m \<longleftrightarrow> m \<noteq> n \<and> bitmap_word_isset x m"
proof -
  define v :: u64 where "v = of_nat (n + 1)"
  note v = of_nat_chunk [OF n, folded v_def]
  have "\<exists>j<5. fld x j = v" using set by (simp only: isset_iff [OF n] v_def)
  then obtain j where j: "j < 5" "fld x j = v" "y = x XOR push_bit (4 + 12 * j) v"
    using cax_cases [of x "n + 1" n, folded v_def] y by blast
  have nv: "\<forall>i<5. i \<noteq> j \<longrightarrow> fld x i \<noteq> v" using ok j v(1) by (auto simp: packed_ok_def)
  note w = packed_write [OF ok v(2) j(1) _ nv j(3), of 0]
  show "packed_ok y" using w(1) j by blast
  show "bitmap_word_isset y m \<longleftrightarrow> m \<noteq> n \<and> bitmap_word_isset x m" if m: "m < 1024"
  proof -
    have "fld y i = (if i = j then 0 else fld x i)" if "i < 5" for i
      using w(2) j(2) that by blast
    moreover have "v = of_nat (m + 1) \<longleftrightarrow> m = n" using v(4) [OF m] by auto
    ultimately show ?thesis
      using j nv of_nat_chunk(1) [OF m] unfolding isset_iff [OF m] by metis
  qed
qed

lemma set_unpack:
  assumes "packed_ok x"
  shows "set (bitmap_word_unpack x) \<subseteq> {..<1024}"
    "n < 1024 \<Longrightarrow> n \<in> set (bitmap_word_unpack x) \<longleftrightarrow> bitmap_word_isset x n"
proof -
  have u: "bitmap_word_unpack x =
      map (\<lambda>v. unat v - 1) (filter (\<lambda>v. v \<noteq> 0) [fld x 4, fld x 3, fld x 2, fld x 1, fld x 0])"
    by (simp add: bitmap_word_unpack_def fld_def)
  have s: "n \<in> set (bitmap_word_unpack x) \<longleftrightarrow> (\<exists>j<5. fld x j \<noteq> 0 \<and> unat (fld x j) - 1 = n)" for n
    unfolding u ex_less_5 set_map set_filter image_iff by (simp only: list.set mem_Collect_eq) blast
  have le: "unat (fld x j) \<le> 1024" if "j < 5" for j
    using assms that by (auto simp: packed_ok_def word_le_nat_alt)
  have nz: "unat (fld x j) - 1 < 1024" if "j < 5" "fld x j \<noteq> 0" for j
    using le [OF that(1)] by linarith
  then show "set (bitmap_word_unpack x) \<subseteq> {..<1024}" by (auto simp: s)
  show "n \<in> set (bitmap_word_unpack x) \<longleftrightarrow> bitmap_word_isset x n" if n: "n < 1024"
  proof -
    have "fld x j \<noteq> 0 \<and> unat (fld x j) - 1 = n \<longleftrightarrow> fld x j = of_nat (n + 1)" if "j < 5" for j
    proof -
      have "unat (of_nat (n + 1) :: u64) = n + 1" using n by (rule unat_chunk)
      moreover have "fld x j = of_nat (n + 1) \<longleftrightarrow> unat (fld x j) = unat (of_nat (n + 1) :: u64)"
        by (rule word_unat_eq_iff)
      moreover have "fld x j = 0 \<longleftrightarrow> unat (fld x j) = 0" by (rule unat_eq_0 [symmetric])
      ultimately show ?thesis by linarith
    qed
    then show ?thesis unfolding s isset_iff [OF n] by blast
  qed
qed

section \<open>A bitmap is a set of ports\<close>

definition l1_isset :: "u64 list \<Rightarrow> nat \<Rightarrow> bool" where
  "l1_isset bits1 n \<longleftrightarrow> bit (bits1 ! (n div 64)) (n mod 64)"

lemma l1_or_isset:
  assumes "length b = 16" "n < 1024" "m < 1024"
  shows "length (l1_or n b) = 16" "l1_isset (l1_or n b) m \<longleftrightarrow> m = n \<or> l1_isset b m"
proof -
  have "m = n \<longleftrightarrow> m div 64 = n div 64 \<and> m mod 64 = n mod 64" by (metis div_mod_decomp)
  moreover have "n div 64 < 16" using assms(2) by (simp add: div_less_iff_less_mult)
  ultimately show "l1_isset (l1_or n b) m \<longleftrightarrow> m = n \<or> l1_isset b m"
    using assms(1)
    by (auto simp: l1_isset_def l1_or_def Let_def nth_list_update bit_or_iff push_bit_of_1 bit_exp_iff)
qed (simp add: l1_or_def Let_def assms(1))

lemma fold_l1_or:
  assumes "length b = 16" "set ns \<subseteq> {..<1024}" "m < 1024"
  shows "length (fold l1_or ns b) = 16 \<and> (l1_isset (fold l1_or ns b) m \<longleftrightarrow> m \<in> set ns \<or> l1_isset b m)"
  using assms
proof (induction ns arbitrary: b)
  case (Cons n ns)
  then show ?case using l1_or_isset [of b n m] by auto
qed simp

lemma l1_of_packed_isset:
  assumes "packed_ok x"
  shows "length (l1_of_packed x) = 16" "m < 1024 \<Longrightarrow> l1_isset (l1_of_packed x) m \<longleftrightarrow> bitmap_word_isset x m"
proof -
  note f = fold_l1_or [of "replicate 16 0" "rev (bitmap_word_unpack x)"]
  show "length (l1_of_packed x) = 16"
    using f [of 0] set_unpack(1) [OF assms] by (simp add: l1_of_packed_def)
  show "l1_isset (l1_of_packed x) m \<longleftrightarrow> bitmap_word_isset x m" if m: "m < 1024"
  proof -
    have "\<not> l1_isset (replicate 16 0) m" using m by (simp add: l1_isset_def div_less_iff_less_mult)
    then show ?thesis
      using f [OF _ _ m] set_unpack [OF assms] m by (simp add: l1_of_packed_def)
  qed
qed

fun chunk_isset :: "l0_word \<Rightarrow> nat \<Rightarrow> bool" where
  "chunk_isset (Packed x) n = bitmap_word_isset x n"
| "chunk_isset (L1 b) n = l1_isset b n"

fun chunk_ok :: "l0_word \<Rightarrow> bool" where
  "chunk_ok (Packed x) = packed_ok x"
| "chunk_ok (L1 b) = (length b = PORTMAP_L1_WORDS)"

definition bitmap_ok :: "bitmap \<Rightarrow> bool" where
  "bitmap_ok bm \<longleftrightarrow> length (bits0 bm) = PORTMAP_L0_WORDS \<and> (\<forall>w \<in> set (bits0 bm). chunk_ok w)"

definition bitmap_ports :: "bitmap \<Rightarrow> nat set" where
  "bitmap_ports bm = {n. n < PORTMAP_MAX_BITS \<and> chunk_isset (bits0 bm ! (n div 1024)) (n mod 1024)}"

lemma bitmap_chunk_update:
  assumes ok: "bitmap_ok bm" and n: "n < 65536" and w: "chunk_ok w"
    and sem: "\<And>m. m < 1024 \<Longrightarrow> chunk_isset w m \<longleftrightarrow> Q (m = n mod 1024) (chunk_isset (bits0 bm ! (n div 1024)) m)"
    and Q: "\<And>b. Q False b = b"
  shows "bitmap_ok (bm\<lparr> bits0 := (bits0 bm)[n div 1024 := w] \<rparr>)"
    "m \<in> bitmap_ports (bm\<lparr> bits0 := (bits0 bm)[n div 1024 := w] \<rparr>) \<longleftrightarrow> m < 65536 \<and> Q (m = n) (m \<in> bitmap_ports bm)"
proof -
  have i: "n div 1024 < 64" using n by (simp add: div_less_iff_less_mult)
  show "bitmap_ok (bm\<lparr> bits0 := (bits0 bm)[n div 1024 := w] \<rparr>)"
    using ok w set_update_subset_insert [of "bits0 bm" "n div 1024" w] by (auto simp: bitmap_ok_def)
  have "m = n \<longleftrightarrow> m div 1024 = n div 1024 \<and> m mod 1024 = n mod 1024" by (metis div_mod_decomp)
  moreover have "m mod 1024 < 1024" by simp
  ultimately show "m \<in> bitmap_ports (bm\<lparr> bits0 := (bits0 bm)[n div 1024 := w] \<rparr>) \<longleftrightarrow>
      m < 65536 \<and> Q (m = n) (m \<in> bitmap_ports bm)"
    using ok i sem [of "m mod 1024"] Q
    by (cases "m div 1024 = n div 1024") (auto simp: bitmap_ports_def bitmap_ok_def nth_list_update)
qed

lemma chunk_nth_ok: "bitmap_ok bm \<Longrightarrow> n < 65536 \<Longrightarrow> chunk_ok (bits0 bm ! (n div 1024))"
  by (simp add: bitmap_ok_def div_less_iff_less_mult)

lemma ports_iff: "n < 65536 \<Longrightarrow> n \<in> bitmap_ports bm \<longleftrightarrow> chunk_isset (bits0 bm ! (n div 1024)) (n mod 1024)"
  by (simp add: bitmap_ports_def)

lemma ports_less: "n \<in> bitmap_ports bm \<Longrightarrow> n < 65536"
  by (simp add: bitmap_ports_def)

lemma l1_flag_iff: "b ! (n div 64) AND 2 ^ (n mod 64) = 0 \<longleftrightarrow> \<not> l1_isset b n"
  by (simp add: l1_isset_def and_exp_eq_0_iff_not_bit)

lemma l1_set_spec:
  assumes ok: "bitmap_ok bm" and n: "n < 65536" and b: "length bits1 = 16"
    and same: "\<And>m. m < 1024 \<Longrightarrow> l1_isset bits1 m = chunk_isset (bits0 bm ! (n div 1024)) m"
    and r: "l1_set bm (n div 1024) (n mod 1024) bits1 = (ret, bm')"
  shows "bitmap_ok bm' \<and> (ret \<longleftrightarrow> n \<notin> bitmap_ports bm) \<and> bitmap_ports bm' = insert n (bitmap_ports bm)"
proof -
  note up = bitmap_chunk_update [OF ok n]
  note or_set = l1_or_isset [OF b, of "n mod 1024"]
  have or_len: "length (l1_or (n mod 1024) bits1) = 16" by (simp add: l1_or_def Let_def b)
  show ?thesis
  proof (cases "l1_isset bits1 (n mod 1024)")
    case True
    then have "ret = False" and bm': "bm' = bm\<lparr> bits0 := (bits0 bm)[n div 1024 := L1 bits1] \<rparr>"
      using r by (auto simp: l1_set_def Let_def l1_flag_iff)
    moreover have "n \<in> bitmap_ports bm" using True same ports_iff [OF n] by simp
    moreover note up [of "L1 bits1" "\<lambda>e b. b"]
    ultimately show ?thesis using b same ports_less by (auto simp: set_eq_iff)
  next
    case False
    then have "ret" and bm': "bm' = bm\<lparr> bits0 := (bits0 bm)[n div 1024 := L1 (l1_or (n mod 1024) bits1)] \<rparr>"
      using r by (auto simp: l1_set_def l1_or_def Let_def l1_flag_iff)
    moreover have "n \<notin> bitmap_ports bm" using False same ports_iff [OF n] by simp
    moreover note up [of "L1 (l1_or (n mod 1024) bits1)" "\<lambda>e b. e \<or> b"]
    ultimately show ?thesis using or_len or_set same n ports_less by (auto simp: set_eq_iff)
  qed
qed

lemma bitmap_set_spec:
  assumes ok: "bitmap_ok bm" and n: "n < 65536" and r: "bitmap_set mem bm n = (ret, bm')"
  shows "bitmap_ok bm' \<and>
    (ret \<and> n \<notin> bitmap_ports bm \<and> bitmap_ports bm' = insert n (bitmap_ports bm) \<or>
     \<not> ret \<and> (n \<in> bitmap_ports bm \<or> \<not> mem) \<and> bitmap_ports bm' = bitmap_ports bm)"
proof (cases "bits0 bm ! (n div 1024)")
  case (L1 b)
  then have "length b = 16" using chunk_nth_ok [OF ok n] by simp
  then show ?thesis
    using l1_set_spec [OF ok n, of b ret bm'] r L1 by (auto simp: bitmap_set_def Let_def)
next
  case (Packed x)
  have x: "packed_ok x" using chunk_nth_ok [OF ok n] Packed by simp
  have c: "n mod 1024 < 1024" by simp
  have set: "n \<in> bitmap_ports bm \<longleftrightarrow> bitmap_word_isset x (n mod 1024)"
    by (simp add: ports_iff [OF n] Packed)
  let ?y = "bitmap_word_cax x 0 (n mod 1024)"
  consider "bitmap_word_isset x (n mod 1024)" | "\<not> bitmap_word_isset x (n mod 1024)" "?y \<noteq> 0"
    | "\<not> bitmap_word_isset x (n mod 1024)" "?y = 0" by blast
  then show ?thesis
  proof cases
    case 1
    then show ?thesis using r ok set by (auto simp: bitmap_set_def Packed Let_def)
  next
    case 2
    note y = packed_set [OF x c 2(1) refl 2(2)]
    have "ret" "bm' = bm\<lparr> bits0 := (bits0 bm)[n div 1024 := Packed ?y] \<rparr>"
      using r 2 by (auto simp: bitmap_set_def Packed Let_def)
    moreover note bitmap_chunk_update [OF ok n, of "Packed ?y" "\<lambda>e b. e \<or> b"]
    ultimately show ?thesis using y 2(1) set n ports_less by (auto simp: set_eq_iff Packed)
  next
    case 3
    note l = l1_of_packed_isset [OF x]
    show ?thesis
    proof (cases mem)
      case True
      then have "l1_set bm (n div 1024) (n mod 1024) (l1_of_packed x) = (ret, bm')"
        using r 3 by (simp add: bitmap_set_def Packed Let_def)
      from l1_set_spec [OF ok n l(1) _ this] l(2) Packed show ?thesis using 3 set by auto
    next
      case False
      then show ?thesis using r 3 ok by (auto simp: bitmap_set_def Packed Let_def)
    qed
  qed
qed

lemma bitmap_clr_spec:
  assumes ok: "bitmap_ok bm" and n: "n < 65536" and r: "bitmap_clr bm n = (ret, bm')"
  shows "bitmap_ok bm' \<and> (ret \<longleftrightarrow> n \<in> bitmap_ports bm) \<and> bitmap_ports bm' = bitmap_ports bm - {n}"
proof (cases "bits0 bm ! (n div 1024)")
  case (Packed x)
  have x: "packed_ok x" using chunk_nth_ok [OF ok n] Packed by simp
  have c: "n mod 1024 < 1024" by simp
  have set: "n \<in> bitmap_ports bm \<longleftrightarrow> bitmap_word_isset x (n mod 1024)"
    by (simp add: ports_iff [OF n] Packed)
  show ?thesis
  proof (cases "bitmap_word_isset x (n mod 1024)")
    case True
    note y = packed_clr [OF x c True refl]
    note up = bitmap_chunk_update [OF ok n, of "Packed (bitmap_word_cax x (n mod 1024 + 1) (n mod 1024))"
        "\<lambda>e b. \<not> e \<and> b"]
    show ?thesis using r y up True set ports_less by (auto simp: bitmap_clr_def Packed Let_def set_eq_iff)
  next
    case False
    then show ?thesis using r ok set by (auto simp: bitmap_clr_def Packed Let_def)
  qed
next
  case (L1 b)
  have b: "length b = 16" using chunk_nth_ok [OF ok n] L1 by simp
  have set: "n \<in> bitmap_ports bm \<longleftrightarrow> l1_isset b (n mod 1024)" by (simp add: ports_iff [OF n] L1)
  show ?thesis
  proof (cases "l1_isset b (n mod 1024)")
    case True
    let ?j = "n mod 1024 div 64" and ?k = "n mod 1024 mod 64"
    let ?b = "b[?j := b ! ?j AND NOT (push_bit ?k 1)]"
    have j: "?j < 16" by (simp add: div_less_iff_less_mult)
    have "l1_isset ?b m \<longleftrightarrow> m \<noteq> n mod 1024 \<and> l1_isset b m" if "m < 1024" for m
    proof -
      have "m = n mod 1024 \<longleftrightarrow> m div 64 = ?j \<and> m mod 64 = ?k" by (metis div_mod_decomp)
      then show ?thesis using j b
        by (auto simp: l1_isset_def nth_list_update bit_and_iff bit_not_iff push_bit_of_1 bit_exp_iff
            simp del: mod_mod_trivial)
    qed
    note sem = this and up = bitmap_chunk_update [OF ok n, of "L1 ?b" "\<lambda>e b. \<not> e \<and> b"]
    have "ret" "bm' = bm\<lparr> bits0 := (bits0 bm)[n div 1024 := L1 ?b] \<rparr>"
      using r True by (auto simp: bitmap_clr_def L1 Let_def l1_flag_iff simp del: mod_mod_trivial)
    then show ?thesis using up sem b set True ports_less by (auto simp: set_eq_iff L1)
  next
    case False
    then show ?thesis using r ok set by (auto simp: bitmap_clr_def L1 Let_def l1_flag_iff)
  qed
qed

section \<open>The interface of a port set and the search\<close>

text \<open>
  What the port allocation relies on: setting a port that is taken fails, setting a free
  one takes it or, when memory is short, fails and changes nothing.
\<close>

definition next_port :: "nat \<Rightarrow> nat \<Rightarrow> nat \<Rightarrow> nat" where
  "next_port min_port delta m = min_port + (m + 1) mod delta"

locale port_set =
  fixes set_op :: "'b \<Rightarrow> nat \<Rightarrow> bool \<times> 'b" and clr_op :: "'b \<Rightarrow> nat \<Rightarrow> bool \<times> 'b"
    and ports :: "'b \<Rightarrow> nat set" and ok :: "'b \<Rightarrow> bool" and bound :: nat
  assumes set_law: "ok b \<Longrightarrow> n < bound \<Longrightarrow> set_op b n = (ret, b') \<Longrightarrow>
      ok b' \<and> (ret \<and> n \<notin> ports b \<and> ports b' = insert n (ports b) \<or> \<not> ret \<and> ports b' = ports b)"
    and clr_law: "ok b \<Longrightarrow> n < bound \<Longrightarrow> clr_op b n = (ret, b') \<Longrightarrow>
      ok b' \<and> (ret \<longleftrightarrow> n \<in> ports b) \<and> ports b' = ports b - {n}"
begin

lemma search_sound:
  assumes "ok b" "min_port \<le> n" "n < min_port + delta" "min_port + delta \<le> bound" "0 < min_port"
    and "portmap_search set_op min_port delta target fuel n b = Some (p, b')"
  shows "ok b' \<and> (p = 0 \<and> ports b' = ports b \<or>
    min_port \<le> p \<and> p < min_port + delta \<and> p \<notin> ports b \<and> ports b' = insert p (ports b))"
  using assms
proof (induction fuel arbitrary: n b)
  case (Suc fuel)
  obtain ret c where c: "set_op b n = (ret, c)" by force
  have n: "n < bound" using Suc.prems by linarith
  let ?n = "min_port + (n + 1) mod delta"
  have n': "min_port \<le> ?n" "?n < min_port + delta" using Suc.prems(2,3) by auto
  show ?case
    using set_law [OF Suc.prems(1) n c] Suc.IH [OF _ n' Suc.prems(4,5), of c] Suc.prems c
    by (auto simp: Let_def split: if_splits)
qed simp

lemma take_put:
  assumes "ok b" "n < bound" "set_op b n = (True, b1)" "clr_op b1 n = (ret, b2)"
  shows "ret \<and> ports b2 = ports b"
  using set_law [OF assms(1-3)] clr_law [OF _ assms(2,4)] by auto

end

text \<open>With memory at hand setting a free port succeeds.\<close>

locale port_set_total = port_set +
  assumes set_free: "ok b \<Longrightarrow> n < bound \<Longrightarrow> n \<notin> ports b \<Longrightarrow> fst (set_op b n)"
begin

lemma search_exhausted:
  assumes "ok b" "min_port \<le> n" "n < min_port + delta" "min_port + delta \<le> bound" "0 < min_port"
    and "portmap_search set_op min_port delta target fuel n b = Some (0, b')"
  shows "\<exists>k>0. k \<le> fuel \<and> target = (next_port min_port delta ^^ k) n \<and>
    (\<forall>i<k. (next_port min_port delta ^^ i) n \<in> ports b)"
  using assms
proof (induction fuel arbitrary: n b)
  case (Suc fuel)
  let ?f = "next_port min_port delta"
  obtain ret c where c: "set_op b n = (ret, c)" by force
  have n: "n < bound" using Suc.prems by linarith
  have n': "min_port \<le> ?f n" "?f n < min_port + delta" using Suc.prems(2,3) by (auto simp: next_port_def)
  have "\<not> ret" using Suc.prems c by (auto simp: Let_def split: if_splits)
  then have taken: "n \<in> ports b" using set_free [OF Suc.prems(1) n] c by auto
  have same: "ok c" "ports c = ports b" using set_law [OF Suc.prems(1) n c] \<open>\<not> ret\<close> by auto
  show ?case
  proof (cases "target = ?f n")
    case True
    then show ?thesis using taken by (intro exI [of _ 1]) auto
  next
    case False
    then have "portmap_search set_op min_port delta target fuel (?f n) c = Some (0, b')"
      using Suc.prems(6) c \<open>\<not> ret\<close> by (simp add: Let_def next_port_def)
    from Suc.IH [OF same(1) n' Suc.prems(4,5) this] obtain k where k: "k > 0" "k \<le> fuel"
      "target = (?f ^^ k) (?f n)" "\<forall>i<k. (?f ^^ i) (?f n) \<in> ports b" unfolding same(2) by blast
    have "(?f ^^ i) n \<in> ports b" if "i < Suc k" for i
      using that taken k(4) by (cases i) (simp_all add: funpow_swap1)
    then show ?thesis using k by (intro exI [of _ "Suc k"]) (simp add: funpow_swap1)
  qed
qed simp

end

lemma bitmap_port_set: "port_set (bitmap_set mem) bitmap_clr bitmap_ports bitmap_ok PORTMAP_MAX_BITS"
  by unfold_locales (use bitmap_set_spec bitmap_clr_spec in blast)+

interpretation bm_any: port_set "bitmap_set mem" bitmap_clr bitmap_ports bitmap_ok PORTMAP_MAX_BITS for mem
  by (rule bitmap_port_set)

interpretation bm_mem: port_set_total "bitmap_set True" bitmap_clr bitmap_ports bitmap_ok PORTMAP_MAX_BITS
proof (rule port_set_total.intro)
  show "port_set_total_axioms (bitmap_set True) bitmap_ports bitmap_ok PORTMAP_MAX_BITS"
  proof
    fix b n
    assume "bitmap_ok b" "n < PORTMAP_MAX_BITS" "n \<notin> bitmap_ports b"
    then show "fst (bitmap_set True b n)"
      using bitmap_set_spec [of b n True] by (metis prod.collapse)
  qed
qed (rule bitmap_port_set)

text \<open>
  The search steps by \<open>min_port + 1\<close> modulo the size of the range.  It comes back to the
  target, so the range size is enough fuel.
\<close>

definition port_at :: "nat \<Rightarrow> nat \<Rightarrow> nat \<Rightarrow> nat \<Rightarrow> nat" where
  "port_at min_port delta y k = min_port + (y + k * (min_port + 1)) mod delta"

lemma port_at_next: "next_port min_port delta (port_at min_port delta y k) = port_at min_port delta y (Suc k)"
proof -
  have "(min_port + a mod delta + 1) mod delta = (a + (min_port + 1)) mod delta" for a
    by (metis add.assoc add.commute mod_add_left_eq)
  then show ?thesis by (simp only: port_at_def next_port_def mult_Suc) (simp only: ac_simps)
qed

lemma port_at_period: "y < delta \<Longrightarrow> port_at min_port delta y delta = min_port + y"
  unfolding port_at_def by (metis mod_less mod_mult_self2)

lemma port_at_0: "y < delta \<Longrightarrow> port_at min_port delta y 0 = min_port + y"
  by (simp add: port_at_def)

lemma funpow_port_at:
  "(next_port min_port delta ^^ i) (port_at min_port delta y k) = port_at min_port delta y (k + i)"
  by (induction i) (simp_all only: funpow.simps o_apply id_apply port_at_next add_Suc_right add_0_right)

lemma search_returns:
  assumes "y < delta" "k + fuel = delta" "0 < fuel"
  shows "\<exists>r. portmap_search set_op min_port delta (min_port + y) fuel (port_at min_port delta y k) b = Some r"
  using assms
proof (induction fuel arbitrary: k b)
  case (Suc fuel)
  obtain ret c where c: "set_op b (port_at min_port delta y k) = (ret, c)" by force
  show ?case
  proof (cases "ret \<or> min_port + y = port_at min_port delta y (Suc k)")
    case True
    then show ?thesis by (auto simp: c Let_def next_port_def simp flip: port_at_next)
  next
    case False
    then have "fuel \<noteq> 0" using Suc.prems port_at_period [of y delta min_port] by (cases fuel) auto
    then show ?thesis using Suc.IH [of "Suc k" c] Suc.prems False
      by (simp add: c Let_def port_at_next [unfolded next_port_def, simplified])
  qed
qed simp

lemma orbit_all:
  assumes "y < delta" "0 < k" "port_at min_port delta y k = min_port + y"
    "\<forall>i<k. port_at min_port delta y i \<in> P"
  shows "port_at min_port delta y i \<in> P"
proof -
  let ?f = "next_port min_port delta"
  have s: "(?f ^^ j) (min_port + y) = port_at min_port delta y j" for j
    using funpow_port_at [of j min_port delta y 0] port_at_0 [OF assms(1)] by simp
  have "(?f ^^ i) (min_port + y) = (?f ^^ (i mod k)) (min_port + y)"
    using funpow_mod_eq [of k ?f "min_port + y" i] s [of k] assms(3) by simp
  then show ?thesis using assms(2,4) s by simp
qed

text \<open>The search reaches every port of the range when \<open>min_port + 1\<close> and the range size are coprime.\<close>

lemma orbit_covers:
  assumes "coprime (min_port + 1) delta" "y < delta" "min_port \<le> p" "p < min_port + delta"
  shows "\<exists>k. port_at min_port delta y k = p"
proof -
  obtain x z where "(min_port + 1) * x = delta * z + gcd (min_port + 1) delta"
    using bezout_nat [of "min_port + 1" delta] by auto
  then have x: "(min_port + 1) * x = delta * z + 1" using assms(1) by (simp add: coprime_iff_gcd_eq_1)
  define q where "q = p - min_port"
  have q: "q < delta" "p = min_port + q" using assms(3,4) by (auto simp: q_def)
  obtain d where d: "y + d = q + delta" using assms(2) by (metis add.commute le_add_diff_inverse2 less_imp_le trans_le_add2)
  have "y + d * x * (min_port + 1) = y + d * (delta * z + 1)" by (simp only: x [symmetric]) (simp only: ac_simps)
  also have "\<dots> = y + d + delta * (z * d)" by (simp add: algebra_simps)
  also have "\<dots> = q + delta + delta * (z * d)" by (simp only: d)
  finally have "(y + d * x * (min_port + 1)) mod delta = q" using q by simp
  then show ?thesis using q by (auto simp: port_at_def)
qed

section \<open>Port maps\<close>

definition portmap_ok :: "'m portmap_ops \<Rightarrow> 'm npf_portmap \<Rightarrow> bool" where
  "portmap_ok T pm \<longleftrightarrow>
     (\<forall>k p. thmap_get T (pm_addr_map pm) k = Some p \<longleftrightarrow> p < length (pm_heap pm) \<and> bm_addr (pm_heap pm ! p) = k) \<and>
     (\<forall>bm \<in> set (pm_heap pm). bitmap_ok bm) \<and> pm_list pm = rev [0..<length (pm_heap pm)]"

definition portmap_ports :: "'m portmap_ops \<Rightarrow> 'm npf_portmap \<Rightarrow> u8 list \<Rightarrow> nat set" where
  "portmap_ports T pm k =
    (case thmap_get T (pm_addr_map pm) k of None \<Rightarrow> {} | Some p \<Rightarrow> bitmap_ports (pm_heap pm ! p))"

lemma bitmap_zero_ok: "bitmap_ok (bitmap_zero a n)" "bitmap_ports (bitmap_zero a n) = {}"
proof -
  show "bitmap_ok (bitmap_zero a n)" by (auto simp: bitmap_ok_def bitmap_zero_def packed_ok_def)
  have "\<not> bitmap_word_isset 0 m" if "m < 1024" for m
    using that of_nat_chunk(1) [of m] by (simp add: isset_iff del: of_nat_add of_nat_Suc)
  then show "bitmap_ports (bitmap_zero a n) = {}"
    by (auto simp: bitmap_ports_def bitmap_zero_def div_less_iff_less_mult)
qed

lemma portmap_get_iff:
  "portmap_ok T pm \<Longrightarrow> thmap_get T (pm_addr_map pm) k = Some p \<longleftrightarrow>
     p < length (pm_heap pm) \<and> bm_addr (pm_heap pm ! p) = k"
  by (simp add: portmap_ok_def)

lemma portmap_get_bitmap:
  "portmap_ok T pm \<Longrightarrow> thmap_get T (pm_addr_map pm) k = Some p \<Longrightarrow>
     p < length (pm_heap pm) \<and> bm_addr (pm_heap pm ! p) = k \<and> bitmap_ok (pm_heap pm ! p)"
  unfolding portmap_ok_def by (metis nth_mem)

lemma autoget_spec:
  assumes T: "thmap_laws T" and ok: "portmap_ok T pm"
    and r: "npf_portmap_autoget T mem pm alen addr = (ret, pm')"
  shows "portmap_ok T pm'" "portmap_ports T pm' = portmap_ports T pm"
    "ret = None \<Longrightarrow> \<not> mem"
    "ret = Some p \<Longrightarrow> thmap_get T (pm_addr_map pm') (take alen addr) = Some p"
proof -
  let ?k = "take alen addr"
  have "portmap_ok T pm' \<and> portmap_ports T pm' = portmap_ports T pm \<and> (ret = None \<longrightarrow> \<not> mem) \<and>
      (\<forall>p. ret = Some p \<longrightarrow> thmap_get T (pm_addr_map pm') ?k = Some p)"
  proof (cases "thmap_get T (pm_addr_map pm) ?k = None \<and> mem")
    case False
    then show ?thesis using r ok by (auto simp: npf_portmap_autoget_def split: option.splits)
  next
    case True
    let ?p = "length (pm_heap pm)"
    obtain q m where m: "thmap_put T (pm_addr_map pm) ?k ?p = (q, m)" by force
    have q: "q = ?p" and g: "thmap_get T m = (thmap_get T (pm_addr_map pm))(?k \<mapsto> ?p)"
      using thmap_put_ret [OF T, of "pm_addr_map pm" ?k ?p] thmap_get_put [OF T, of "pm_addr_map pm" ?k ?p]
        m True by auto
    have ret: "ret = Some ?p" and pm': "pm' = pm\<lparr> pm_addr_map := m,
        pm_heap := pm_heap pm @ [bitmap_zero addr alen], pm_list := ?p # pm_list pm \<rparr>"
      using r True m q by (auto simp: npf_portmap_autoget_def Let_def)
    have none: "bm_addr (pm_heap pm ! i) \<noteq> ?k" if "i < ?p" for i
      using portmap_get_iff [OF ok, of ?k i] True that by auto
    have addr: "bm_addr (bitmap_zero addr alen) = ?k" by (simp add: bitmap_zero_def)
    have ok': "portmap_ok T pm'"
      using ok none addr unfolding portmap_ok_def
      by (auto simp: pm' g nth_append bitmap_zero_ok less_Suc_eq)
    have "portmap_ports T pm' k = portmap_ports T pm k" for k
    proof (cases "thmap_get T (pm_addr_map pm) k")
      case None
      then show ?thesis by (simp add: portmap_ports_def pm' g bitmap_zero_ok)
    next
      case (Some q)
      moreover have "q < ?p" using Some by (simp only: portmap_get_iff [OF ok])
      moreover have "k \<noteq> ?k" using Some True by auto
      ultimately show ?thesis by (simp add: portmap_ports_def pm' g nth_append)
    qed
    then have "portmap_ports T pm' = portmap_ports T pm" by (rule ext)
    then show ?thesis using ok' ret g by (simp add: pm')
  qed
  then show "portmap_ok T pm'" "portmap_ports T pm' = portmap_ports T pm" "ret = None \<Longrightarrow> \<not> mem"
    "ret = Some p \<Longrightarrow> thmap_get T (pm_addr_map pm') ?k = Some p" by auto
qed

text \<open>Replacing the bitmap of one address changes the ports of that address only.\<close>

lemma heap_update_spec:
  assumes ok: "portmap_ok T pm" and g: "thmap_get T (pm_addr_map pm) k = Some p"
    and bm: "bitmap_ok bm" "bm_addr bm = bm_addr (pm_heap pm ! p)"
  shows "portmap_ok T (pm\<lparr> pm_heap := (pm_heap pm)[p := bm] \<rparr>)"
    "portmap_ports T (pm\<lparr> pm_heap := (pm_heap pm)[p := bm] \<rparr>) = (portmap_ports T pm)(k := bitmap_ports bm)"
proof -
  have p: "p < length (pm_heap pm)" "bm_addr (pm_heap pm ! p) = k" using ok g by (auto simp: portmap_ok_def)
  show "portmap_ok T (pm\<lparr> pm_heap := (pm_heap pm)[p := bm] \<rparr>)"
    using ok bm p set_update_subset_insert [of "pm_heap pm" p bm]
    unfolding portmap_ok_def by (auto simp: nth_list_update)
  show "portmap_ports T (pm\<lparr> pm_heap := (pm_heap pm)[p := bm] \<rparr>) = (portmap_ports T pm)(k := bitmap_ports bm)"
  proof
    fix k'
    have "p \<noteq> q" if "k' \<noteq> k" "thmap_get T (pm_addr_map pm) k' = Some q" for q
      using that g by (metis ok portmap_get_iff)
    then show "portmap_ports T (pm\<lparr> pm_heap := (pm_heap pm)[p := bm] \<rparr>) k' = ((portmap_ports T pm)(k := bitmap_ports bm)) k'"
      using g p by (cases "k' = k") (simp_all add: portmap_ports_def split: option.split)
  qed
qed

lemma bm_addr_set: "bm_addr (snd (bitmap_set mem bm n)) = bm_addr bm"
  by (simp add: bitmap_set_def l1_set_def Let_def split: l0_word.split)

lemma bm_addr_clr: "bm_addr (snd (bitmap_clr bm n)) = bm_addr bm"
  by (simp add: bitmap_clr_def Let_def split: l0_word.split)

lemma bm_addr_search:
  "portmap_search (bitmap_set mem) min_port delta target fuel n bm = Some (p, bm') \<Longrightarrow> bm_addr bm' = bm_addr bm"
proof (induction fuel arbitrary: n bm)
  case (Suc fuel)
  then show ?case using bm_addr_set [of mem bm n] by (auto simp: Let_def split: prod.splits if_splits)
qed simp

lemma unat_port: "n < 65536 \<Longrightarrow> unat (ntohs (htons (of_nat n))) = n"
  by (simp add: unat_of_nat)

lemma port_zero_iff: "n < 65536 \<Longrightarrow> htons (of_nat n) = 0 \<longleftrightarrow> n = 0"
proof -
  assume n: "n < 65536"
  have z: "htons 0 = 0" by (simp add: bswap16_def)
  show ?thesis
  proof
    assume "htons (of_nat n) = 0"
    then have "ntohs (htons (of_nat n)) = 0" by (simp only: z)
    then show "n = 0" using unat_port [OF n] by (simp only: unat_0)
  qed (simp add: z)
qed

definition port_range_ok :: "param_store \<Rightarrow> bool" where
  "port_range_ok params \<longleftrightarrow> 1024 \<le> params VP_portmap_min_port \<and> params VP_portmap_min_port \<le> 65535 \<and>
     1024 \<le> params VP_portmap_max_port \<and> params VP_portmap_max_port \<le> 65535"

text \<open>
  The result of \<open>npf_portmap_get\<close> in terms of the search: the address has a bitmap, or
  memory is short, or the range is empty.
\<close>

lemma portmap_get_cases:
  assumes T: "thmap_laws T" and ok: "portmap_ok T pm" and rng: "port_range_ok params"
  obtains "params VP_portmap_min_port > params VP_portmap_max_port"
      "npf_portmap_get T params mem rnd pm alen addr = Some (0, pm)"
  | pm' where "\<not> mem" "portmap_ok T pm'" "portmap_ports T pm' = portmap_ports T pm"
      "npf_portmap_get T params mem rnd pm alen addr = Some (0, pm')"
  | pm' p y delta n bm where "portmap_ok T pm'" "portmap_ports T pm' = portmap_ports T pm"
      "thmap_get T (pm_addr_map pm') (take alen addr) = Some p"
      "delta = nat (params VP_portmap_max_port) - nat (params VP_portmap_min_port) + 1" "y < delta"
      "params VP_portmap_min_port \<le> params VP_portmap_max_port"
      "portmap_search (bitmap_set mem) (nat (params VP_portmap_min_port)) delta
         (nat (params VP_portmap_min_port) + y) delta (nat (params VP_portmap_min_port) + y)
         (pm_heap pm' ! p) = Some (n, bm)"
      "npf_portmap_get T params mem rnd pm alen addr =
         Some (htons (of_nat n), pm'\<lparr> pm_heap := (pm_heap pm')[p := bm] \<rparr>)"
proof -
  let ?min = "nat (params VP_portmap_min_port)" and ?max = "nat (params VP_portmap_max_port)"
  obtain ret pm' where a: "npf_portmap_autoget T mem pm alen addr = (ret, pm')" by force
  note s = autoget_spec [OF T ok a]
  show ?thesis
  proof (cases "?min > ?max")
    case True
    show ?thesis
    proof (rule that(1))
      show "params VP_portmap_min_port > params VP_portmap_max_port" using True by simp
      show "npf_portmap_get T params mem rnd pm alen addr = Some (0, pm)"
        unfolding npf_portmap_get_def Let_def if_P [OF True] by (rule refl)
    qed
  next
    case F: False
    show ?thesis
    proof (cases ret)
      case None
      have "npf_portmap_get T params mem rnd pm alen addr = Some (0, pm')"
        unfolding npf_portmap_get_def Let_def if_not_P [OF F] a None prod.case option.case by (rule refl)
      then show ?thesis by (rule that(2) [OF s(3) [OF None] s(1,2)])
    next
      case (Some p)
      define delta where "delta = ?max - ?min + 1"
      define y where "y = unat rnd mod delta"
      have y: "y < delta" by (simp add: y_def delta_def)
      obtain n bm where r: "portmap_search (bitmap_set mem) ?min delta (?min + y) delta (?min + y)
          (pm_heap pm' ! p) = Some (n, bm)"
        using search_returns [of y delta 0 delta "bitmap_set mem" ?min "pm_heap pm' ! p"] y
        unfolding port_at_0 [OF y] by auto
      have "npf_portmap_get T params mem rnd pm alen addr =
          Some (htons (of_nat n), pm'\<lparr> pm_heap := (pm_heap pm')[p := bm] \<rparr>)"
        unfolding npf_portmap_get_def Let_def if_not_P [OF F] a Some prod.case option.case
          delta_def [symmetric] y_def [symmetric] r by simp
      moreover have "params VP_portmap_min_port \<le> params VP_portmap_max_port"
        using F rng by (simp add: port_range_ok_def)
      ultimately show ?thesis by (intro that(3) [OF s(1,2) s(4) [OF Some] delta_def y _ r])
    qed
  qed
qed

lemma portmap_get_spec:
  assumes T: "thmap_laws T" and ok: "portmap_ok T pm" and rng: "port_range_ok params"
  obtains port pm' where "npf_portmap_get T params mem rnd pm alen addr = Some (port, pm')" "portmap_ok T pm'"
    "port = 0 \<and> portmap_ports T pm' = portmap_ports T pm \<or>
     params VP_portmap_min_port \<le> uint (ntohs port) \<and> uint (ntohs port) \<le> params VP_portmap_max_port \<and>
     unat (ntohs port) \<notin> portmap_ports T pm (take alen addr) \<and>
     portmap_ports T pm' = (portmap_ports T pm)
       (take alen addr := insert (unat (ntohs port)) (portmap_ports T pm (take alen addr)))"
    "port = 0 \<Longrightarrow> params VP_portmap_min_port \<le> params VP_portmap_max_port \<Longrightarrow> mem \<Longrightarrow>
     \<exists>y < nat (params VP_portmap_max_port) - nat (params VP_portmap_min_port) + 1. \<forall>i.
       port_at (nat (params VP_portmap_min_port))
         (nat (params VP_portmap_max_port) - nat (params VP_portmap_min_port) + 1) y i
       \<in> portmap_ports T pm (take alen addr)"
  using T ok rng
proof (cases rule: portmap_get_cases [where mem = mem and rnd = rnd and alen = alen and addr = addr])
  case 1
  show ?thesis by (rule that [OF 1(2) ok]) (use 1(1) in simp_all)
next
  case (2 pm')
  show ?thesis by (rule that [OF 2(4,2)]) (use 2(1,3) in simp_all)
next
  case (3 pm' p y delta n bm)
  let ?k = "take alen addr" and ?min = "nat (params VP_portmap_min_port)"
  let ?b = "pm_heap pm' ! p"
  let ?pm = "pm'\<lparr> pm_heap := (pm_heap pm')[p := bm] \<rparr>"
  have r: "0 < ?min" "?min + delta \<le> 65536" "int (?min + delta) = params VP_portmap_max_port + 1"
    using rng 3(4,6) by (auto simp: port_range_ok_def)
  have p: "p < length (pm_heap pm')" "bitmap_ok ?b"
    using portmap_get_bitmap [OF 3(1,3)] by blast+
  have b: "bitmap_ports ?b = portmap_ports T pm ?k"
    using 3(3) by (simp flip: 3(2) add: portmap_ports_def)
  have y: "?min \<le> ?min + y" "?min + y < ?min + delta" using 3(5) by auto
  note s = bm_any.search_sound [OF p(2) y r(2,1) 3(7), unfolded b]
  then have n: "n < 65536" using r(2) by auto
  have le: "params VP_portmap_min_port \<le> int n \<and> int n \<le> params VP_portmap_max_port"
    if "?min \<le> n" "n < ?min + delta"
    using that r(3) by linarith
  note up = heap_update_spec [OF 3(1,3) _ bm_addr_search [OF 3(7)]]
  have ex: "\<exists>y<delta. \<forall>i. port_at ?min delta y i \<in> portmap_ports T pm ?k" if "n = 0" mem
  proof -
    have "portmap_search (bitmap_set True) ?min delta (?min + y) delta (?min + y) ?b = Some (0, bm)"
      using 3(7) that by simp
    from bm_mem.search_exhausted [OF p(2) y r(2,1) this, unfolded b]
    obtain k where k: "k > 0" "?min + y = (next_port ?min delta ^^ k) (?min + y)"
      "\<forall>i<k. (next_port ?min delta ^^ i) (?min + y) \<in> portmap_ports T pm ?k"
      by blast
    have o: "(next_port ?min delta ^^ i) (?min + y) = port_at ?min delta y i" for i
      by (rule funpow_port_at [of i ?min delta y 0, unfolded port_at_0 [OF 3(5)] add_0])
    show ?thesis using orbit_all [OF 3(5) k(1) _ k(3) [unfolded o]] k(2) [unfolded o] 3(5) by auto
  qed
  have main: "n = 0 \<and> portmap_ports T ?pm = portmap_ports T pm \<or>
      params VP_portmap_min_port \<le> int n \<and> int n \<le> params VP_portmap_max_port \<and>
      n \<notin> portmap_ports T pm ?k \<and>
      portmap_ports T ?pm = (portmap_ports T pm)(?k := insert n (portmap_ports T pm ?k))"
    using s
  proof (elim conjE disjE)
    assume "bitmap_ok bm" "n = 0" "bitmap_ports bm = portmap_ports T pm ?k"
    then show ?thesis using up(2) [unfolded 3(2)] by auto
  next
    assume a: "bitmap_ok bm" "?min \<le> n" "n < ?min + delta" "n \<notin> portmap_ports T pm ?k"
      "bitmap_ports bm = insert n (portmap_ports T pm ?k)"
    show ?thesis using up(2) [OF a(1), unfolded 3(2) a(5)] le [OF a(2,3)] a(4) by blast
  qed
  show ?thesis
  proof (rule that [of "htons (of_nat n)" ?pm])
    show "npf_portmap_get T params mem rnd pm alen addr = Some (htons (of_nat n), ?pm)" by (rule 3(8))
    show "portmap_ok T ?pm" using up(1) s by blast
    show "\<exists>y < nat (params VP_portmap_max_port) - ?min + 1. \<forall>i.
        port_at ?min (nat (params VP_portmap_max_port) - ?min + 1) y i \<in> portmap_ports T pm ?k"
      if "htons (of_nat n) = (0 :: u16)" mem
      using ex that port_zero_iff [OF n] 3(4) by blast
    have u: "unat (ntohs (htons (of_nat n))) = n" "uint (ntohs (htons (of_nat n))) = int n"
      using unat_port [OF n] by (simp_all add: uint_nat del: bswap16_bswap16)
    show "htons (of_nat n) = 0 \<and> portmap_ports T ?pm = portmap_ports T pm \<or>
      params VP_portmap_min_port \<le> uint (ntohs (htons (of_nat n))) \<and>
      uint (ntohs (htons (of_nat n))) \<le> params VP_portmap_max_port \<and>
      unat (ntohs (htons (of_nat n))) \<notin> portmap_ports T pm ?k \<and>
      portmap_ports T ?pm = (portmap_ports T pm)
        (?k := insert (unat (ntohs (htons (of_nat n)))) (portmap_ports T pm ?k))"
      unfolding u port_zero_iff [OF n] by (rule main)
  qed
qed

lemma portmap_create_ok:
  "thmap_laws T \<Longrightarrow> portmap_ok T (npf_portmap_create T) \<and> portmap_ports T (npf_portmap_create T) = (\<lambda>k. {})"
  by (auto simp: portmap_ok_def portmap_ports_def npf_portmap_create_def thmap_get_create)

lemma portmap_take_spec:
  assumes T: "thmap_laws T" and ok: "portmap_ok T pm" and rng: "port_range_ok params"
    and r: "npf_portmap_take T params mem pm alen addr port = (ret, pm')"
  shows "portmap_ok T pm'"
    "ret \<Longrightarrow> params VP_portmap_min_port \<le> uint (ntohs port) \<and> uint (ntohs port) \<le> params VP_portmap_max_port \<and>
       unat (ntohs port) \<notin> portmap_ports T pm (take alen addr) \<and>
       portmap_ports T pm' = (portmap_ports T pm)
         (take alen addr := insert (unat (ntohs port)) (portmap_ports T pm (take alen addr)))"
    "\<not> ret \<Longrightarrow> portmap_ports T pm' = portmap_ports T pm \<and>
       (\<not> mem \<or> uint (ntohs port) < params VP_portmap_min_port \<or> params VP_portmap_max_port < uint (ntohs port) \<or>
        unat (ntohs port) \<in> portmap_ports T pm (take alen addr))"
proof -
  let ?k = "take alen addr" and ?n = "unat (ntohs port)"
  obtain a pm1 where a: "npf_portmap_autoget T mem pm alen addr = (a, pm1)" by force
  note s = autoget_spec [OF T ok a]
  have "portmap_ok T pm' \<and>
    (ret \<longrightarrow> params VP_portmap_min_port \<le> uint (ntohs port) \<and> uint (ntohs port) \<le> params VP_portmap_max_port \<and>
      ?n \<notin> portmap_ports T pm ?k \<and>
      portmap_ports T pm' = (portmap_ports T pm)(?k := insert ?n (portmap_ports T pm ?k))) \<and>
    (\<not> ret \<longrightarrow> portmap_ports T pm' = portmap_ports T pm \<and>
      (\<not> mem \<or> uint (ntohs port) < params VP_portmap_min_port \<or> params VP_portmap_max_port < uint (ntohs port) \<or>
       ?n \<in> portmap_ports T pm ?k))"
  proof (cases "a = None \<or> uint (ntohs port) < params VP_portmap_min_port \<or> params VP_portmap_max_port < uint (ntohs port)")
    case True
    then show ?thesis using r s(1-3) a by (auto simp: npf_portmap_take_def Let_def split: option.splits)
  next
    case F: False
    then obtain p where p: "a = Some p" by (cases a) auto
    obtain ok' bm where b: "bitmap_set mem (pm_heap pm1 ! p) ?n = (ok', bm)" by force
    have e: "ret = ok'" "pm' = pm1\<lparr> pm_heap := (pm_heap pm1)[p := bm] \<rparr>"
      using r F a p b by (simp_all add: npf_portmap_take_def Let_def flip: unat_eq_nat_uint)
    note g = portmap_get_bitmap [OF s(1) s(4) [OF p]]
    have n: "?n < 65536" using unat_lt [of "ntohs port"] by simp
    have k: "bitmap_ports (pm_heap pm1 ! p) = portmap_ports T pm ?k"
      using s(4) [OF p] by (simp flip: s(2) add: portmap_ports_def)
    note w = bitmap_set_spec [OF conjunct2 [OF conjunct2 [OF g]] n b, unfolded k]
    have "bm_addr bm = bm_addr (pm_heap pm1 ! p)" using bm_addr_set [of mem "pm_heap pm1 ! p" ?n] b by simp
    note u = heap_update_spec [OF s(1) s(4) [OF p] _ this, folded e(2), unfolded s(2)]
    show ?thesis
    proof (cases ok')
      case True
      then show ?thesis using u e F w by simp
    next
      case False
      then show ?thesis using u e w by auto
    qed
  qed
  then show "portmap_ok T pm'"
    "ret \<Longrightarrow> params VP_portmap_min_port \<le> uint (ntohs port) \<and> uint (ntohs port) \<le> params VP_portmap_max_port \<and>
       ?n \<notin> portmap_ports T pm ?k \<and>
       portmap_ports T pm' = (portmap_ports T pm)(?k := insert ?n (portmap_ports T pm ?k))"
    "\<not> ret \<Longrightarrow> portmap_ports T pm' = portmap_ports T pm \<and>
       (\<not> mem \<or> uint (ntohs port) < params VP_portmap_min_port \<or> params VP_portmap_max_port < uint (ntohs port) \<or>
        ?n \<in> portmap_ports T pm ?k)" by blast+
qed

lemma portmap_put_spec:
  assumes T: "thmap_laws T" and ok: "portmap_ok T pm"
  shows "portmap_ok T (npf_portmap_put T mem pm alen addr port)"
    "mem \<Longrightarrow> portmap_ports T (npf_portmap_put T mem pm alen addr port) = (portmap_ports T pm)
       (take alen addr := portmap_ports T pm (take alen addr) - {unat (ntohs port)})"
proof -
  let ?k = "take alen addr" and ?n = "unat (ntohs port)"
  obtain a pm1 where a: "npf_portmap_autoget T mem pm alen addr = (a, pm1)" by force
  note s = autoget_spec [OF T ok a]
  have "portmap_ok T (npf_portmap_put T mem pm alen addr port) \<and> (mem \<longrightarrow>
      portmap_ports T (npf_portmap_put T mem pm alen addr port) = (portmap_ports T pm)(?k := portmap_ports T pm ?k - {?n}))"
  proof (cases a)
    case None
    then show ?thesis using s(1,3) a by (simp add: npf_portmap_put_def)
  next
    case (Some p)
    obtain ok' bm where b: "bitmap_clr (pm_heap pm1 ! p) ?n = (ok', bm)" by force
    have e: "npf_portmap_put T mem pm alen addr port = pm1\<lparr> pm_heap := (pm_heap pm1)[p := bm] \<rparr>"
      using a Some b by (simp add: npf_portmap_put_def)
    note g = portmap_get_bitmap [OF s(1) s(4) [OF Some]]
    have n: "?n < 65536" using unat_lt [of "ntohs port"] by simp
    have k: "bitmap_ports (pm_heap pm1 ! p) = portmap_ports T pm ?k"
      using s(4) [OF Some] by (simp flip: s(2) add: portmap_ports_def)
    note w = bitmap_clr_spec [OF conjunct2 [OF conjunct2 [OF g]] n b, unfolded k]
    have "bm_addr bm = bm_addr (pm_heap pm1 ! p)" using bm_addr_clr [of "pm_heap pm1 ! p" ?n] b by simp
    note u = heap_update_spec [OF s(1) s(4) [OF Some] _ this, folded e, unfolded s(2)]
    then show ?thesis using w by metis
  qed
  then show "portmap_ok T (npf_portmap_put T mem pm alen addr port)"
    "mem \<Longrightarrow> portmap_ports T (npf_portmap_put T mem pm alen addr port) = (portmap_ports T pm)
       (?k := portmap_ports T pm ?k - {?n})" by blast+
qed

lemma portmap_flush_spec:
  assumes T: "thmap_laws T" and ok: "portmap_ok T pm"
  shows "portmap_ok T (npf_portmap_flush T pm)" "portmap_ports T (npf_portmap_flush T pm) = (\<lambda>k. {})"
proof -
  have l: "set (pm_list pm) = {..<length (pm_heap pm)}" using ok by (auto simp: portmap_ok_def)
  have "thmap_get T (pm_addr_map (npf_portmap_flush T pm)) k = None" for k
  proof (cases "thmap_get T (pm_addr_map pm) k")
    case (Some p)
    then have "k \<in> (\<lambda>p. bm_addr (pm_heap pm ! p)) ` set (pm_list pm)"
      using portmap_get_bitmap [OF ok Some] by (auto simp: l)
    then show ?thesis by (simp add: npf_portmap_flush_def thmap_get_fold_del [OF T])
  qed (simp add: npf_portmap_flush_def thmap_get_fold_del [OF T])
  then show "portmap_ok T (npf_portmap_flush T pm)" "portmap_ports T (npf_portmap_flush T pm) = (\<lambda>k. {})"
    by (simp_all add: portmap_ok_def portmap_ports_def npf_portmap_flush_def fun_eq_iff)
qed

section \<open>Properties\<close>

text \<open>
  The word-parallel test of \<open>bitmap_word_isset\<close> agrees with looking at the five packed
  12-bit values one by one, for every 64-bit word and every value a field can hold.
\<close>

theorem bitmap_word_isset_exact:
  assumes "n < 4095"
  shows "bitmap_word_isset x n \<longleftrightarrow> (\<exists>s \<in> {4, 16, 28, 40, 52}. drop_bit s x AND 0xfff = of_nat (n + 1))"
  unfolding bitmap_word_isset_iff [OF assms] ex_less_5 fld_def by simp

theorem bitmap_word_isset_exact_witness:
  "bitmap_word_isset 0x0010020030040050 2 \<longleftrightarrow>
     (\<exists>s \<in> {4, 16, 28, 40, 52}. drop_bit s (0x0010020030040050 :: u64) AND 0xfff = of_nat (2 + 1))"
  using bitmap_word_isset_exact [of 2 "0x0010020030040050"] by simp

text \<open>
  C15: the compressed two-level bitmap implements a set of ports.  Whatever the
  representation of the chunk (packed words, a full packed word that is expanded to a level
  1 block, a level 1 block), setting a port succeeds iff it is not in the set and inserts
  it, and clearing succeeds iff it is in the set and removes it.
\<close>

theorem bitmap_refines_set:
  assumes "bitmap_ok bm" "n < PORTMAP_MAX_BITS"
  shows "fst (bitmap_set True bm n) = (n \<notin> bitmap_ports bm) \<and>
    bitmap_ports (snd (bitmap_set True bm n)) = insert n (bitmap_ports bm) \<and>
    bitmap_ok (snd (bitmap_set True bm n)) \<and>
    fst (bitmap_clr bm n) = (n \<in> bitmap_ports bm) \<and>
    bitmap_ports (snd (bitmap_clr bm n)) = bitmap_ports bm - {n} \<and>
    bitmap_ok (snd (bitmap_clr bm n))"
  using bitmap_set_spec [OF assms surjective_pairing] bitmap_clr_spec [OF assms surjective_pairing]
  by auto

theorem bitmap_refines_set_witness:
  "bitmap_ports (snd (bitmap_set True (bitmap_zero [] 0) 8080)) = insert 8080 (bitmap_ports (bitmap_zero [] 0))"
  using bitmap_refines_set [of "bitmap_zero [] 0" 8080] bitmap_zero_ok(1) by simp

text \<open>
  C14: port allocation.  For port parameters within their registered bounds
  \<open>npf_portmap_get\<close> always returns: its search loop comes back to the port it started from.
  The result is 0 and no port changes hands, or a port between \<open>portmap.min_port\<close> and
  \<open>portmap.max_port\<close> that was free at that address and is now taken, all other ports and
  addresses being unchanged.
\<close>

theorem npf_portmap_get_fresh:
  assumes "thmap_laws T" "portmap_ok T pm" "port_range_ok params"
  shows "\<exists>port pm'. npf_portmap_get T params mem rnd pm alen addr = Some (port, pm') \<and> portmap_ok T pm' \<and>
    (port = 0 \<and> portmap_ports T pm' = portmap_ports T pm \<or>
     params VP_portmap_min_port \<le> uint (ntohs port) \<and> uint (ntohs port) \<le> params VP_portmap_max_port \<and>
     unat (ntohs port) \<notin> portmap_ports T pm (take alen addr) \<and>
     portmap_ports T pm' = (portmap_ports T pm)
       (take alen addr := insert (unat (ntohs port)) (portmap_ports T pm (take alen addr))))"
  by (rule portmap_get_spec [OF assms]) blast

definition ex_port_params :: "int \<Rightarrow> int \<Rightarrow> param_store" where
  "ex_port_params a b = (\<lambda>v. 0)(VP_portmap_min_port := a, VP_portmap_max_port := b)"

theorem npf_portmap_get_fresh_witness:
  "\<exists>port pm'. npf_portmap_get fun_thmap (ex_port_params 1024 49151) True 7 (npf_portmap_create fun_thmap) 4
      [10, 0, 0, 1] = Some (port, pm') \<and> portmap_ok fun_thmap pm' \<and>
     (port = 0 \<and> portmap_ports fun_thmap pm' = portmap_ports fun_thmap (npf_portmap_create fun_thmap) \<or>
      1024 \<le> uint (ntohs port) \<and> uint (ntohs port) \<le> 49151 \<and>
      unat (ntohs port) \<notin> portmap_ports fun_thmap (npf_portmap_create fun_thmap) (take 4 [10, 0, 0, 1]) \<and>
      portmap_ports fun_thmap pm' = (portmap_ports fun_thmap (npf_portmap_create fun_thmap))
        (take 4 [10, 0, 0, 1] := insert (unat (ntohs port))
          (portmap_ports fun_thmap (npf_portmap_create fun_thmap) (take 4 [10, 0, 0, 1]))))"
  using npf_portmap_get_fresh [OF fun_thmap_laws conjunct1 [OF portmap_create_ok [OF fun_thmap_laws]],
      of "ex_port_params 1024 49151" True 7 4 "[10, 0, 0, 1]"]
  by (simp add: ex_port_params_def port_range_ok_def)

text \<open>
  C34: the search is exhaustive when \<open>min_port + 1\<close> and the number of ports in the range have
  no common factor, as with the default range 1024 to 49151: with memory at hand the
  allocation fails only if every port of the range is taken.
\<close>

theorem npf_portmap_get_exhaustive:
  assumes "thmap_laws T" "portmap_ok T pm" "port_range_ok params"
    and "params VP_portmap_min_port \<le> params VP_portmap_max_port"
    and "coprime (nat (params VP_portmap_min_port) + 1)
           (nat (params VP_portmap_max_port) - nat (params VP_portmap_min_port) + 1)"
    and "npf_portmap_get T params True rnd pm alen addr = Some (0, pm')"
  shows "{nat (params VP_portmap_min_port)..nat (params VP_portmap_max_port)}
           \<subseteq> portmap_ports T pm (take alen addr)"
proof (rule portmap_get_spec [OF assms(1-3), of True rnd alen addr])
  let ?min = "nat (params VP_portmap_min_port)"
  let ?d = "nat (params VP_portmap_max_port) - ?min + 1"
  fix port pm''
  assume "npf_portmap_get T params True rnd pm alen addr = Some (port, pm'')"
    and all: "port = 0 \<Longrightarrow> params VP_portmap_min_port \<le> params VP_portmap_max_port \<Longrightarrow> True \<Longrightarrow>
      \<exists>y<?d. \<forall>i. port_at ?min ?d y i \<in> portmap_ports T pm (take alen addr)"
  then obtain y where y: "y < ?d" "\<forall>i. port_at ?min ?d y i \<in> portmap_ports T pm (take alen addr)"
    using assms(4,6) by auto
  show ?thesis
  proof
    fix p assume "p \<in> {?min..nat (params VP_portmap_max_port)}"
    then obtain k where "port_at ?min ?d y k = p" using orbit_covers [OF assms(5) y(1), of p] by auto
    then show "p \<in> portmap_ports T pm (take alen addr)" using y(2) by metis
  qed
qed

definition ex_portmap :: "int \<Rightarrow> (u8 list \<Rightarrow> nat option) npf_portmap" where
  "ex_portmap b = snd (npf_portmap_take fun_thmap (ex_port_params 1024 b) True
     (npf_portmap_create fun_thmap) 4 [10, 0, 0, 1] (htons 1024))"

theorem npf_portmap_get_exhaustive_witness:
  "{1024..1024} \<subseteq> portmap_ports fun_thmap (ex_portmap 1024) (take 4 [10, 0, 0, 1])"
proof -
  have "portmap_ok fun_thmap (ex_portmap 1024)"
    unfolding ex_portmap_def
    by (rule portmap_take_spec(1) [OF fun_thmap_laws _ _ surjective_pairing])
      (simp_all add: portmap_create_ok fun_thmap_laws ex_port_params_def port_range_ok_def)
  moreover have "map_option fst (npf_portmap_get fun_thmap (ex_port_params 1024 1024) True 7 (ex_portmap 1024) 4
      [10, 0, 0, 1]) = Some 0" by code_simp
  then obtain pm' where "npf_portmap_get fun_thmap (ex_port_params 1024 1024) True 7 (ex_portmap 1024) 4
      [10, 0, 0, 1] = Some (0, pm')" by auto
  ultimately show ?thesis
    using npf_portmap_get_exhaustive [OF fun_thmap_laws, of "ex_portmap 1024" "ex_port_params 1024 1024" 7 4
        "[10, 0, 0, 1]" pm'] by (simp add: ex_port_params_def port_range_ok_def)
qed

text \<open>
  The search is not exhaustive in general.  It steps by \<open>min_port + 1\<close> modulo the size of
  the range rather than by one, so for the range 1024 to 1028 it never leaves the port it
  starts from: the allocation fails although only one of the five ports is taken and, for
  example, port 1025 can still be reserved.
\<close>

theorem npf_portmap_get_skips_free_ports:
  "map_option fst (npf_portmap_get fun_thmap (ex_port_params 1024 1028) True 0 (ex_portmap 1028) 4
     [10, 0, 0, 1]) = Some 0 \<and>
   fst (npf_portmap_take fun_thmap (ex_port_params 1024 1028) True (ex_portmap 1028) 4 [10, 0, 0, 1] (htons 1025))"
  by code_simp

text \<open>
  C35: reserving a port and releasing it.  \<open>npf_portmap_take\<close> succeeds iff the port is within
  the range and free, it takes that port only, and \<open>npf_portmap_put\<close> afterwards restores the
  ports of every address.
\<close>

theorem npf_portmap_take_put:
  assumes "thmap_laws T" "portmap_ok T pm" "port_range_ok params"
    and "npf_portmap_take T params True pm alen addr port = (ret, pm')"
  shows "(ret \<longleftrightarrow> params VP_portmap_min_port \<le> uint (ntohs port) \<and> uint (ntohs port) \<le> params VP_portmap_max_port \<and>
      unat (ntohs port) \<notin> portmap_ports T pm (take alen addr)) \<and>
    (ret \<longrightarrow> portmap_ports T pm' (take alen addr) =
        insert (unat (ntohs port)) (portmap_ports T pm (take alen addr)) \<and>
      portmap_ports T (npf_portmap_put T True pm' alen addr port) = portmap_ports T pm)"
proof -
  note s = portmap_take_spec [OF assms]
  note p = portmap_put_spec(2) [OF assms(1) s(1), of True alen addr port]
  show ?thesis using s(2,3) p by (cases ret) auto
qed

theorem npf_portmap_take_put_witness:
  "portmap_ports fun_thmap (npf_portmap_put fun_thmap True (ex_portmap 1028) 4 [10, 0, 0, 1] (htons 1024)) =
     portmap_ports fun_thmap (npf_portmap_create fun_thmap)"
proof -
  have t: "npf_portmap_take fun_thmap (ex_port_params 1024 1028) True (npf_portmap_create fun_thmap) 4
      [10, 0, 0, 1] (htons 1024) = (True, ex_portmap 1028)"
  proof -
    have "fst (npf_portmap_take fun_thmap (ex_port_params 1024 1028) True (npf_portmap_create fun_thmap) 4
      [10, 0, 0, 1] (htons 1024))" by code_simp
    then show ?thesis by (simp add: ex_portmap_def prod_eq_iff)
  qed
  show ?thesis
    using npf_portmap_take_put [OF fun_thmap_laws conjunct1 [OF portmap_create_ok [OF fun_thmap_laws]] _ t]
    by (simp add: ex_port_params_def port_range_ok_def)
qed

end
