(* ===== verification/NPF_BPF.thy ===== *)
theory NPF_BPF
  imports NPF_Cache
begin

text \<open>
  The byte-code of the packet filter: the BPF interpreter and its validator
  (\<open>src/kern/stand/bpf_filter.c\<close>, standalone build).  NPF's own context and coprocessor
  functions are in \<open>NPF_Bpfcop\<close>.

  The switch of the interpreter over the instruction code is the table \<open>bpf_cases\<close>, with
  one entry per case label, and \<open>bpf_exec\<close>, with one equation per case body.  What C leaves
  undefined (an access outside the program, the packet or the memory store, the read of a
  word that was never written, a division by zero, a shift by 32 or more) is a fault value,
  as is the call of \<open>abort\<close> for an unknown instruction code.
\<close>

section \<open>Instructions\<close>

record bpf_insn =
  i_code :: u16
  i_jt :: u8
  i_jf :: u8
  i_k :: u32

abbreviation BPF_LD :: u16 where "BPF_LD \<equiv> 0x00"
abbreviation BPF_LDX :: u16 where "BPF_LDX \<equiv> 0x01"
abbreviation BPF_ST :: u16 where "BPF_ST \<equiv> 0x02"
abbreviation BPF_STX :: u16 where "BPF_STX \<equiv> 0x03"
abbreviation BPF_ALU :: u16 where "BPF_ALU \<equiv> 0x04"
abbreviation BPF_JMP :: u16 where "BPF_JMP \<equiv> 0x05"
abbreviation BPF_RET :: u16 where "BPF_RET \<equiv> 0x06"
abbreviation BPF_MISC :: u16 where "BPF_MISC \<equiv> 0x07"

definition BPF_CLASS :: "u16 \<Rightarrow> u16" where "BPF_CLASS c = c AND 0x07"
definition BPF_MODE :: "u16 \<Rightarrow> u16" where "BPF_MODE c = c AND 0xe0"
definition BPF_OP :: "u16 \<Rightarrow> u16" where "BPF_OP c = c AND 0xf0"
definition BPF_SRC :: "u16 \<Rightarrow> u16" where "BPF_SRC c = c AND 0x08"
definition BPF_MISCOP :: "u16 \<Rightarrow> u16" where "BPF_MISCOP c = c AND 0xf8"

datatype bpf_size = SzW | SzH | SzB
datatype bpf_src = SrcK | SrcX
datatype bpf_cond = JGT | JGE | JEQ | JSET
datatype bpf_alu = ALU_ADD | ALU_SUB | ALU_MUL | ALU_DIV | ALU_MOD | ALU_AND | ALU_OR | ALU_XOR | ALU_LSH | ALU_RSH
datatype bpf_op =
    RET_K | RET_A
  | LD_ABS bpf_size | LD_LEN | LDX_LEN | LD_IND bpf_size | LDX_MSH
  | LD_IMM | LDX_IMM | LD_MEM | LDX_MEM | ST | STX
  | JA | JCOND bpf_cond bpf_src
  | ALU bpf_alu bpf_src | NEG
  | TAX | TXA | COP | COPX

definition bpf_cases :: "(u16 \<times> bpf_op) list" where
  "bpf_cases =
    [(0x06, RET_K), (0x16, RET_A),
     (0x20, LD_ABS SzW), (0x28, LD_ABS SzH), (0x30, LD_ABS SzB),
     (0x80, LD_LEN), (0x81, LDX_LEN),
     (0x40, LD_IND SzW), (0x48, LD_IND SzH), (0x50, LD_IND SzB),
     (0xb1, LDX_MSH), (0x00, LD_IMM), (0x01, LDX_IMM), (0x60, LD_MEM), (0x61, LDX_MEM),
     (0x02, ST), (0x03, STX), (0x05, JA),
     (0x25, JCOND JGT SrcK), (0x35, JCOND JGE SrcK), (0x15, JCOND JEQ SrcK), (0x45, JCOND JSET SrcK),
     (0x2d, JCOND JGT SrcX), (0x3d, JCOND JGE SrcX), (0x1d, JCOND JEQ SrcX), (0x4d, JCOND JSET SrcX),
     (0x0c, ALU ALU_ADD SrcX), (0x1c, ALU ALU_SUB SrcX), (0x2c, ALU ALU_MUL SrcX), (0x3c, ALU ALU_DIV SrcX),
     (0x9c, ALU ALU_MOD SrcX), (0x5c, ALU ALU_AND SrcX), (0x4c, ALU ALU_OR SrcX), (0xac, ALU ALU_XOR SrcX),
     (0x6c, ALU ALU_LSH SrcX), (0x7c, ALU ALU_RSH SrcX),
     (0x04, ALU ALU_ADD SrcK), (0x14, ALU ALU_SUB SrcK), (0x24, ALU ALU_MUL SrcK), (0x34, ALU ALU_DIV SrcK),
     (0x94, ALU ALU_MOD SrcK), (0x54, ALU ALU_AND SrcK), (0x44, ALU ALU_OR SrcK), (0xa4, ALU ALU_XOR SrcK),
     (0x64, ALU ALU_LSH SrcK), (0x74, ALU ALU_RSH SrcK),
     (0x84, NEG), (0x07, TAX), (0x87, TXA), (0x27, COP), (0x47, COPX)]"

section \<open>Context and arguments\<close>

text \<open>
  A word of the memory store is None until it is written.  \<open>pkt\<close> holds the bytes that can
  be read at the packet pointer.
\<close>

record 'a bpf_args =
  pkt :: "u8 list"
  wirelen :: nat
  buflen :: nat
  bpf_mem :: "u32 option list"
  bpf_arg :: 'a

type_synonym 'a bpf_copfunc = "'a bpf_args \<Rightarrow> u32 \<Rightarrow> u32 \<times> 'a bpf_args"

record 'a bpf_ctx =
  copfuncs :: "'a bpf_copfunc list option"
  nfuncs :: nat
  extwords :: nat
  preinited :: u32

abbreviation BPF_MEMWORDS :: nat where "BPF_MEMWORDS \<equiv> 16"
abbreviation BPF_MAX_MEMWORDS :: nat where "BPF_MAX_MEMWORDS \<equiv> 30"
abbreviation BPF_MAXINSNS :: nat where "BPF_MAXINSNS \<equiv> 512"

definition BPF_MEMWORD_INIT :: "nat \<Rightarrow> u32" where
  "BPF_MEMWORD_INIT k = push_bit k 1"

definition bpf_create :: "'a bpf_ctx" where
  "bpf_create = \<lparr> copfuncs = None, nfuncs = 0, extwords = 0, preinited = 0 \<rparr>"

definition bpf_set_cop :: "'a bpf_ctx \<Rightarrow> 'a bpf_copfunc list \<Rightarrow> 'a bpf_ctx" where
  "bpf_set_cop bc funcs = bc\<lparr> copfuncs := Some funcs, nfuncs := length funcs \<rparr>"

definition bpf_set_extmem :: "'a bpf_ctx \<Rightarrow> nat \<Rightarrow> u32 \<Rightarrow> errno option \<times> 'a bpf_ctx" where
  "bpf_set_extmem bc nwords pre =
    (if nwords > BPF_MAX_MEMWORDS \<or> drop_bit nwords pre \<noteq> 0 then (Some EINVAL, bc)
     else (None, bc\<lparr> extwords := nwords, preinited := pre \<rparr>))"

section \<open>The interpreter\<close>

datatype bpf_fault =
  ProgramEnd | PacketRead | MemoryIndex | MemoryUninit | DivisionByZero | ShiftRange | NullContext | AbortCall

record 'a bpf_state =
  pc :: nat
  regA :: u32
  regX :: u32
  args :: "'a bpf_args"

datatype 'a bpf_result = Go "'a bpf_state" | Return u32 | Fault bpf_fault

definition be16dec :: "u8 list \<Rightarrow> nat \<Rightarrow> u32" where
  "be16dec p i = push_bit 8 (ucast (p ! i)) OR ucast (p ! (i + 1))"

definition be32dec :: "u8 list \<Rightarrow> nat \<Rightarrow> u32" where
  "be32dec p i = push_bit 24 (ucast (p ! i)) OR push_bit 16 (ucast (p ! (i + 1))) OR
                 push_bit 8 (ucast (p ! (i + 2))) OR ucast (p ! (i + 3))"

fun size_bytes :: "bpf_size \<Rightarrow> nat" where
  "size_bytes SzW = 4"
| "size_bytes SzH = 2"
| "size_bytes SzB = 1"

definition bpf_extract :: "bpf_size \<Rightarrow> u8 list \<Rightarrow> nat \<Rightarrow> u32" where
  "bpf_extract sz p k = (case sz of SzW \<Rightarrow> be32dec p k | SzH \<Rightarrow> be16dec p k | SzB \<Rightarrow> ucast (p ! k))"

definition load_pkt :: "bpf_size \<Rightarrow> 'a bpf_state \<Rightarrow> nat \<Rightarrow> 'a bpf_result" where
  "load_pkt sz s k =
    (if k + size_bytes sz \<le> length (pkt (args s)) then Go (s\<lparr> regA := bpf_extract sz (pkt (args s)) k \<rparr>)
     else Fault PacketRead)"

definition load_mem :: "'a bpf_state \<Rightarrow> u32 \<Rightarrow> (u32 \<Rightarrow> 'a bpf_state) \<Rightarrow> 'a bpf_result" where
  "load_mem s k f =
    (if unat k < length (bpf_mem (args s)) then
       case bpf_mem (args s) ! unat k of None \<Rightarrow> Fault MemoryUninit | Some v \<Rightarrow> Go (f v)
     else Fault MemoryIndex)"

definition store_mem :: "'a bpf_state \<Rightarrow> u32 \<Rightarrow> u32 \<Rightarrow> 'a bpf_result" where
  "store_mem s k v =
    (if unat k < length (bpf_mem (args s)) then
       Go (s\<lparr> args := (args s)\<lparr> bpf_mem := (bpf_mem (args s))[unat k := Some v] \<rparr> \<rparr>)
     else Fault MemoryIndex)"

definition jump :: "'a bpf_state \<Rightarrow> nat \<Rightarrow> 'a bpf_result" where
  "jump s off = Go (s\<lparr> pc := pc s + off \<rparr>)"

fun bpf_compare :: "bpf_cond \<Rightarrow> u32 \<Rightarrow> u32 \<Rightarrow> bool" where
  "bpf_compare JGT a b = (a > b)"
| "bpf_compare JGE a b = (a \<ge> b)"
| "bpf_compare JEQ a b = (a = b)"
| "bpf_compare JSET a b = (a AND b \<noteq> 0)"

text \<open>An arithmetic operation; the faults are a division by zero or a shift out of range.\<close>

fun bpf_alu_op :: "bpf_alu \<Rightarrow> u32 \<Rightarrow> u32 \<Rightarrow> bpf_fault + u32" where
  "bpf_alu_op ALU_ADD a b = Inr (a + b)"
| "bpf_alu_op ALU_SUB a b = Inr (a - b)"
| "bpf_alu_op ALU_MUL a b = Inr (a * b)"
| "bpf_alu_op ALU_DIV a b = (if b = 0 then Inl DivisionByZero else Inr (a div b))"
| "bpf_alu_op ALU_MOD a b = (if b = 0 then Inl DivisionByZero else Inr (a mod b))"
| "bpf_alu_op ALU_AND a b = Inr (a AND b)"
| "bpf_alu_op ALU_OR a b = Inr (a OR b)"
| "bpf_alu_op ALU_XOR a b = Inr (a XOR b)"
| "bpf_alu_op ALU_LSH a b = (if unat b < 32 then Inr (push_bit (unat b) a) else Inl ShiftRange)"
| "bpf_alu_op ALU_RSH a b = (if unat b < 32 then Inr (drop_bit (unat b) a) else Inl ShiftRange)"

definition call_cop :: "'a bpf_ctx option \<Rightarrow> 'a bpf_state \<Rightarrow> u32 \<Rightarrow> 'a bpf_result" where
  "call_cop bc s n =
    (case bc of None \<Rightarrow> Fault NullContext
     | Some bc \<Rightarrow>
         if unat n < nfuncs bc then
           case copfuncs bc of None \<Rightarrow> Fault NullContext
           | Some fns \<Rightarrow> let (a, args') = (fns ! unat n) (args s) (regA s) in Go (s\<lparr> regA := a, args := args' \<rparr>)
         else Return 0)"

text \<open>The body of each case.  \<open>s\<close> is the state with the program counter past the instruction.\<close>

fun bpf_exec :: "'a bpf_ctx option \<Rightarrow> bpf_op \<Rightarrow> bpf_insn \<Rightarrow> 'a bpf_state \<Rightarrow> 'a bpf_result" where
  "bpf_exec bc RET_K i s = Return (i_k i)"
| "bpf_exec bc RET_A i s = Return (regA s)"
| "bpf_exec bc (LD_ABS sz) i s =
    (let k = unat (i_k i); n = buflen (args s) in
     if (if sz = SzB then k \<ge> n else k > n \<or> size_bytes sz > n - k) then Return 0 else load_pkt sz s k)"
| "bpf_exec bc LD_LEN i s = Go (s\<lparr> regA := of_nat (wirelen (args s)) \<rparr>)"
| "bpf_exec bc LDX_LEN i s = Go (s\<lparr> regX := of_nat (wirelen (args s)) \<rparr>)"
| "bpf_exec bc (LD_IND sz) i s =
    (let k = regX s + i_k i; n = buflen (args s) in
     if k < regX s \<or> unat k \<ge> n \<or> (sz \<noteq> SzB \<and> size_bytes sz > n - unat k) then Return 0
     else load_pkt sz s (unat k))"
| "bpf_exec bc LDX_MSH i s =
    (let k = unat (i_k i) in
     if k \<ge> buflen (args s) then Return 0
     else if k < length (pkt (args s)) then
       Go (s\<lparr> regX := push_bit 2 (ucast (pkt (args s) ! k) AND 0xf) \<rparr>)
     else Fault PacketRead)"
| "bpf_exec bc LD_IMM i s = Go (s\<lparr> regA := i_k i \<rparr>)"
| "bpf_exec bc LDX_IMM i s = Go (s\<lparr> regX := i_k i \<rparr>)"
| "bpf_exec bc LD_MEM i s = load_mem s (i_k i) (\<lambda>v. s\<lparr> regA := v \<rparr>)"
| "bpf_exec bc LDX_MEM i s = load_mem s (i_k i) (\<lambda>v. s\<lparr> regX := v \<rparr>)"
| "bpf_exec bc ST i s = store_mem s (i_k i) (regA s)"
| "bpf_exec bc STX i s = store_mem s (i_k i) (regX s)"
| "bpf_exec bc JA i s = jump s (unat (i_k i))"
| "bpf_exec bc (JCOND c src) i s =
    jump s (if bpf_compare c (regA s) (if src = SrcK then i_k i else regX s)
            then unat (i_jt i) else unat (i_jf i))"
| "bpf_exec bc (ALU f src) i s =
    (if src = SrcX \<and> (f = ALU_DIV \<or> f = ALU_MOD) \<and> regX s = 0 then Return 0
     else case bpf_alu_op f (regA s) (if src = SrcK then i_k i else regX s) of
       Inl e \<Rightarrow> Fault e | Inr a \<Rightarrow> Go (s\<lparr> regA := a \<rparr>))"
| "bpf_exec bc NEG i s = Go (s\<lparr> regA := - regA s \<rparr>)"
| "bpf_exec bc TAX i s = Go (s\<lparr> regX := regA s \<rparr>)"
| "bpf_exec bc TXA i s = Go (s\<lparr> regA := regX s \<rparr>)"
| "bpf_exec bc COP i s = call_cop bc s (i_k i)"
| "bpf_exec bc COPX i s = call_cop bc s (regX s)"

definition bpf_step :: "'a bpf_ctx option \<Rightarrow> bpf_insn \<Rightarrow> 'a bpf_state \<Rightarrow> 'a bpf_result" where
  "bpf_step bc i s =
    (case map_of bpf_cases (i_code i) of
       None \<Rightarrow> Fault AbortCall
     | Some op \<Rightarrow> bpf_exec bc op i (s\<lparr> pc := pc s + 1 \<rparr>))"

text \<open>
  The loop.  Jump offsets are unsigned, so the program counter only grows and the loop ends
  at the latest at the end of the program.  The result is the returned value with the arguments,
  whose memory store the program writes in place.
\<close>

lemma bpf_exec_pc: "bpf_exec bc op i s = Go s' \<Longrightarrow> pc s \<le> pc s'"
  by (induction bc op i s rule: bpf_exec.induct)
    (auto simp: Let_def load_pkt_def load_mem_def store_mem_def jump_def call_cop_def
      split: if_splits option.splits sum.splits prod.splits)

lemma bpf_step_pc: "bpf_step bc i s = Go s' \<Longrightarrow> pc s < pc s'"
  by (auto simp: bpf_step_def split: option.splits dest!: bpf_exec_pc)

function bpf_run :: "'a bpf_ctx option \<Rightarrow> bpf_insn list \<Rightarrow> 'a bpf_state \<Rightarrow> bpf_fault + u32 \<times> 'a bpf_args" where
  "bpf_run bc f s =
    (if pc s < length f then
       case bpf_step bc (f ! pc s) s of
         Go s' \<Rightarrow> bpf_run bc f s'
       | Return v \<Rightarrow> Inr (v, args s)
       | Fault e \<Rightarrow> Inl e
     else Inl ProgramEnd)"
  by pat_completeness auto

termination
  by (relation "measure (\<lambda>(bc, f, s). length f - pc s)") (auto dest: bpf_step_pc)

declare bpf_run.simps [simp del]

definition bpf_filter_ext ::
  "'a bpf_ctx option \<Rightarrow> bpf_insn list option \<Rightarrow> 'a bpf_args \<Rightarrow> bpf_fault + u32 \<times> 'a bpf_args" where
  "bpf_filter_ext bc f ar =
    (case f of None \<Rightarrow> Inr (-1, ar)
     | Some f \<Rightarrow> bpf_run bc f \<lparr> pc = 0, regA = 0, regX = 0, args = ar \<rparr>)"

definition bpf_filter :: "bpf_insn list option \<Rightarrow> u8 list \<Rightarrow> nat \<Rightarrow> nat \<Rightarrow> bpf_fault + u32" where
  "bpf_filter f p wlen blen =
     map_sum id fst (bpf_filter_ext None f \<lparr> pkt = p, wirelen = wlen, buflen = blen,
       bpf_mem = replicate BPF_MEMWORDS None, bpf_arg = () \<rparr>)"

section \<open>The validator\<close>

text \<open>
  The switch of one iteration, on the instruction at index \<open>i\<close> with the memory words that
  may be invalid there.  None is \<open>goto out\<close>; the result is the updated \<open>invalid\<close> and \<open>mem\<close>.
  The sum \<open>from + p->k\<close> is a 32-bit unsigned integer.
\<close>

definition validate_ld :: "nat \<Rightarrow> bpf_insn \<Rightarrow> u32 \<Rightarrow> u32 list \<Rightarrow> (u32 \<times> u32 list) option" where
  "validate_ld memwords p invalid mem =
    (if BPF_MODE (i_code p) = 0x60 then
       if unat (i_k p) \<ge> memwords then None
       else if invalid AND BPF_MEMWORD_INIT (unat (i_k p)) \<noteq> 0 then None
       else Some (invalid, mem)
     else if BPF_MODE (i_code p) \<in> {0x20, 0x40, 0xa0, 0x00, 0x80} then Some (invalid, mem)
     else None)"

definition validate_st :: "nat \<Rightarrow> bpf_insn \<Rightarrow> u32 \<Rightarrow> u32 list \<Rightarrow> (u32 \<times> u32 list) option" where
  "validate_st memwords p invalid mem =
    (if unat (i_k p) \<ge> memwords then None
     else Some (invalid AND NOT (BPF_MEMWORD_INIT (unat (i_k p))), mem))"

definition validate_alu :: "bpf_insn \<Rightarrow> u32 \<Rightarrow> u32 list \<Rightarrow> (u32 \<times> u32 list) option" where
  "validate_alu p invalid mem =
    (if BPF_OP (i_code p) \<in> {0x00, 0x10, 0x20, 0x40, 0xa0, 0x50, 0x60, 0x70, 0x80} then Some (invalid, mem)
     else if BPF_OP (i_code p) \<in> {0x30, 0x90} then
       if BPF_SRC (i_code p) = 0 \<and> i_k p = 0 then None else Some (invalid, mem)
     else None)"

definition mem_or :: "nat \<Rightarrow> u32 \<Rightarrow> u32 list \<Rightarrow> u32 list" where
  "mem_or i v mem = mem[i := mem ! i OR v]"

definition validate_jmp :: "nat \<Rightarrow> nat \<Rightarrow> bpf_insn \<Rightarrow> u32 \<Rightarrow> u32 list \<Rightarrow> (u32 \<times> u32 list) option" where
  "validate_jmp len i p invalid mem =
    (let from = of_nat (i + 1) :: u32 in
     if BPF_OP (i_code p) = 0x00 then
       let t = from + i_k p in
       if unat t \<ge> len then None
       else if t < from then None
       else Some (0, mem_or (unat t) invalid mem)
     else if BPF_OP (i_code p) \<in> {0x10, 0x20, 0x30, 0x40} then
       let t = from + ucast (i_jt p); e = from + ucast (i_jf p) in
       if unat t \<ge> len \<or> unat e \<ge> len then None
       else Some (0, mem_or (unat e) invalid (mem_or (unat t) invalid mem))
     else None)"

definition validate_misc :: "'a bpf_ctx option \<Rightarrow> bpf_insn \<Rightarrow> u32 \<Rightarrow> u32 list \<Rightarrow> (u32 \<times> u32 list) option" where
  "validate_misc bc p invalid mem =
    (if BPF_MISCOP (i_code p) \<in> {0x20, 0x40} then
       case bc of None \<Rightarrow> None
       | Some bc \<Rightarrow>
           if copfuncs bc = None then None
           else if BPF_MISCOP (i_code p) = 0x20 \<and> unat (i_k p) \<ge> nfuncs bc then None
           else Some (invalid, mem)
     else Some (invalid, mem))"

definition validate_insn ::
  "'a bpf_ctx option \<Rightarrow> nat \<Rightarrow> nat \<Rightarrow> nat \<Rightarrow> bpf_insn \<Rightarrow> u32 \<Rightarrow> u32 list \<Rightarrow> (u32 \<times> u32 list) option" where
  "validate_insn bc memwords len i p invalid mem =
    (let c = BPF_CLASS (i_code p) in
     if c = BPF_LD \<or> c = BPF_LDX then validate_ld memwords p invalid mem
     else if c = BPF_ST \<or> c = BPF_STX then validate_st memwords p invalid mem
     else if c = BPF_ALU then validate_alu p invalid mem
     else if c = BPF_JMP then validate_jmp len i p invalid mem
     else if c = BPF_RET then Some (invalid, mem)
     else if c = BPF_MISC then validate_misc bc p invalid mem
     else None)"

text \<open>The loop over the remaining instructions \<open>ps\<close>, the first of which has index \<open>i\<close>.\<close>

fun validate_loop ::
  "'a bpf_ctx option \<Rightarrow> nat \<Rightarrow> nat \<Rightarrow> nat \<Rightarrow> bpf_insn list \<Rightarrow> u32 \<Rightarrow> u32 list \<Rightarrow> bool" where
  "validate_loop bc memwords len i [] invalid mem = True"
| "validate_loop bc memwords len i (p # ps) invalid mem =
    (case validate_insn bc memwords len i p (invalid OR mem ! i) mem of
       None \<Rightarrow> False
     | Some (invalid', mem') \<Rightarrow> validate_loop bc memwords len (i + 1) ps invalid' mem')"

definition bpf_memwords :: "'a bpf_ctx option \<Rightarrow> nat" where
  "bpf_memwords bc = (let e = (case bc of None \<Rightarrow> 0 | Some bc \<Rightarrow> extwords bc) in if e \<noteq> 0 then e else BPF_MEMWORDS)"

definition bpf_preinited :: "'a bpf_ctx option \<Rightarrow> u32" where
  "bpf_preinited bc = (case bc of None \<Rightarrow> 0 | Some bc \<Rightarrow> if extwords bc \<noteq> 0 then preinited bc else 0)"

definition bpf_validate_ext :: "'a bpf_ctx option \<Rightarrow> bpf_insn list \<Rightarrow> bool" where
  "bpf_validate_ext bc f =
    (let len = length f in
     if len < 1 then False
     else if len > BPF_MAXINSNS then False
     else if i_code (f ! (len - 1)) \<noteq> 0x06 \<and> i_code (f ! (len - 1)) \<noteq> 0x16 then False
     else validate_loop bc (bpf_memwords bc) len 0 f (NOT (bpf_preinited bc)) (replicate len 0))"

definition bpf_validate :: "bpf_insn list \<Rightarrow> bool" where
  "bpf_validate f = bpf_validate_ext (None :: unit bpf_ctx option) f"

section \<open>Soundness of the validator\<close>

text \<open>
  \<open>args_ok w ar ivm\<close>: the memory store has \<open>w\<close> words, of which only those in the mask \<open>ivm\<close>
  may be unwritten, and the packet has \<open>buflen\<close> readable bytes.
\<close>

definition args_ok :: "nat \<Rightarrow> 'a bpf_args \<Rightarrow> u32 \<Rightarrow> bool" where
  "args_ok w ar ivm \<longleftrightarrow> w \<le> length (bpf_mem ar) \<and> buflen ar \<le> length (pkt ar) \<and>
     (\<forall>k<w. bpf_mem ar ! k = None \<longrightarrow> bit ivm k)"

text \<open>
  A coprocessor function keeps the size of the memory store, leaves written words written
  and leaves the packet alone.
\<close>

definition cop_ok :: "'a bpf_copfunc \<Rightarrow> bool" where
  "cop_ok fn \<longleftrightarrow> (\<forall>ar a. let ar' = snd (fn ar a) in
     length (bpf_mem ar') = length (bpf_mem ar) \<and> pkt ar' = pkt ar \<and> buflen ar' = buflen ar \<and>
     (\<forall>k<length (bpf_mem ar). bpf_mem ar ! k \<noteq> None \<longrightarrow> bpf_mem ar' ! k \<noteq> None))"

definition ctx_ok :: "'a bpf_ctx option \<Rightarrow> bool" where
  "ctx_ok bc \<longleftrightarrow> bpf_memwords bc \<le> 32 \<and>
     (\<forall>c fns. bc = Some c \<longrightarrow> copfuncs c = Some fns \<longrightarrow> nfuncs c = length fns \<and> (\<forall>fn \<in> set fns. cop_ok fn))"

lemma args_ok_mono: "args_ok w ar ivm \<Longrightarrow> (\<And>k. bit ivm k \<Longrightarrow> bit ivm' k) \<Longrightarrow> args_ok w ar ivm'"
  by (auto simp: args_ok_def)

lemma cop_args_ok:
  assumes "cop_ok fn" "args_ok w ar ivm"
  shows "args_ok w (snd (fn ar a)) ivm"
proof -
  let ?ar = "snd (fn ar a)"
  have l: "length (bpf_mem ?ar) = length (bpf_mem ar)" "pkt ?ar = pkt ar" "buflen ?ar = buflen ar"
    and k: "\<And>k. k < length (bpf_mem ar) \<Longrightarrow> bpf_mem ar ! k \<noteq> None \<Longrightarrow> bpf_mem ?ar ! k \<noteq> None"
    using assms(1) unfolding cop_ok_def Let_def by blast+
  show ?thesis using assms(2) l k unfolding args_ok_def by (metis less_le_trans)
qed

text \<open>What one accepted instruction may do.\<close>

definition step_good :: "nat \<Rightarrow> nat \<Rightarrow> nat \<Rightarrow> u32 \<Rightarrow> u32 list \<Rightarrow> 'a bpf_result \<Rightarrow> bool" where
  "step_good w len i ivm mem r =
    (case r of Return v \<Rightarrow> True
     | Fault e \<Rightarrow> e = ShiftRange \<or> e = AbortCall
     | Go s \<Rightarrow> pc s = i + 1 \<and> args_ok w (args s) ivm \<or>
               i < pc s \<and> pc s < len \<and> args_ok w (args s) (mem ! pc s))"

lemma step_good_simps [simp]:
  "step_good w len i ivm mem (Return v)"
  "step_good w len i ivm mem (Fault e) \<longleftrightarrow> e = ShiftRange \<or> e = AbortCall"
  by (simp_all add: step_good_def)

lemma step_good_next:
  "args_ok w (args s) ivm \<Longrightarrow> pc s = i + 1 \<Longrightarrow> step_good w len i ivm mem (Go s)"
  by (simp add: step_good_def)

lemma load_pkt_good:
  assumes "args_ok w (args s) ivm" "pc s = i + 1" "k + size_bytes sz \<le> buflen (args s)"
  shows "step_good w len i ivm mem (load_pkt sz s k)"
  using assms by (auto simp: load_pkt_def step_good_def args_ok_def)

lemma load_mem_good:
  assumes "args_ok w (args s) ivm" "unat k < w" "w \<le> 32" "ivm AND BPF_MEMWORD_INIT (unat k) = 0"
    "\<And>v. pc (f v) = i + 1 \<and> args (f v) = args s"
  shows "step_good w len i ivm mem (load_mem s k f)"
proof -
  have "\<not> bit ivm (unat k)"
    using assms(4) by (simp add: BPF_MEMWORD_INIT_def push_bit_of_1 and_exp_eq_0_iff_not_bit)
  then have "bpf_mem (args s) ! unat k \<noteq> None" "unat k < length (bpf_mem (args s))"
    using assms(1,2) unfolding args_ok_def by (blast, linarith)
  then show ?thesis using assms(1,5) by (auto simp: load_mem_def step_good_def split: option.split)
qed

lemma store_mem_good:
  assumes "args_ok w (args s) ivm" "unat k < w" "w \<le> 32" "pc s = i + 1"
  shows "step_good w len i (ivm AND NOT (BPF_MEMWORD_INIT (unat k))) mem (store_mem s k v)"
proof -
  have l: "unat k < length (bpf_mem (args s))" using assms(1,2) by (simp add: args_ok_def)
  have "bit (ivm AND NOT (BPF_MEMWORD_INIT (unat k))) n" if "n < w" "n \<noteq> unat k" "bit ivm n" for n
    using that assms(3) by (simp add: BPF_MEMWORD_INIT_def bit_and_iff bit_not_iff push_bit_of_1 bit_exp_iff)
  then show ?thesis using assms l
    by (auto simp: store_mem_def step_good_def args_ok_def nth_list_update)
qed

lemma call_cop_good:
  assumes "args_ok w (args s) ivm" "pc s = i + 1" "ctx_ok bc" "bc = Some c" "copfuncs c \<noteq> None"
  shows "step_good w len i ivm mem (call_cop bc s n)"
proof -
  obtain fns where f: "copfuncs c = Some fns" using assms(5) by auto
  have "nfuncs c = length fns" "\<And>fn. fn \<in> set fns \<Longrightarrow> cop_ok fn"
    using assms(3,4) f by (auto simp: ctx_ok_def)
  then have "args_ok w (snd ((fns ! unat n) (args s) (regA s))) ivm" if "unat n < nfuncs c"
    using cop_args_ok [OF _ assms(1)] that by (metis nth_mem)
  then show ?thesis using assms(2,4) f by (auto simp: call_cop_def step_good_def split: prod.split)
qed

text \<open>Jump targets: the 32-bit sum does not wrap for a program of at most 512 instructions.\<close>

lemma jump_target:
  assumes "i < 512"
  shows "unat (of_nat (i + 1) + ucast (j :: u8) :: u32) = i + 1 + unat j"
    "\<not> (of_nat (i + 1) + k :: u32) < of_nat (i + 1) \<Longrightarrow> unat (of_nat (i + 1) + k :: u32) = i + 1 + unat k"
proof -
  have f: "unat (of_nat (i + 1) :: u32) = i + 1" using assms by (subst unat_of_nat) simp
  have j: "unat (ucast j :: u32) = unat j" by (simp add: unsigned_ucast_eq take_bit_nat_eq_self_iff unat_lt [THEN less_trans])
  have "unat j < 256" using unat_lt [of j] by simp
  then show "unat (of_nat (i + 1) + ucast j :: u32) = i + 1 + unat j"
    using assms f j by (subst unat_add_lem [THEN iffD1]) auto
  show "unat (of_nat (i + 1) + k :: u32) = i + 1 + unat k" if "\<not> (of_nat (i + 1) + k :: u32) < of_nat (i + 1)"
  proof -
    have "of_nat (i + 1) \<le> (of_nat (i + 1) + k :: u32)" using that by simp
    then show ?thesis using f by (metis unat_plus_simple)
  qed
qed

lemma length_mem_or [simp]: "length (mem_or i v mem) = length mem"
  by (simp add: mem_or_def)

lemma bit_mem_or: "t < length mem \<Longrightarrow> bit (mem_or i v mem ! t) n \<longleftrightarrow> bit (mem ! t) n \<or> t = i \<and> bit v n"
  by (cases "t = i") (auto simp: mem_or_def bit_or_iff)

lemma jump_good:
  assumes "args_ok w (args s) ivm" "pc s = i + 1" "i + 1 + off < len" "\<And>n. bit ivm n \<Longrightarrow> bit (mem ! (i + 1 + off)) n"
  shows "step_good w len i ivm' mem (jump s off)"
  using assms args_ok_mono [OF assms(1)] by (auto simp: jump_def step_good_def)

lemmas bpf_fields = BPF_CLASS_def BPF_MODE_def BPF_OP_def BPF_SRC_def BPF_MISCOP_def

lemma validate_insn_mem:
  assumes "validate_insn bc w len i p ivm mem = Some (ivm', mem')"
  shows "length mem' = length mem" "t < length mem \<Longrightarrow> bit (mem ! t) n \<Longrightarrow> bit (mem' ! t) n"
  using assms
  by (auto simp: validate_insn_def validate_ld_def validate_st_def validate_alu_def validate_jmp_def
      validate_misc_def bit_mem_or Let_def split: if_splits option.splits)

text \<open>The instructions that touch the memory store, jump, divide or call a function.\<close>

lemma exec_ld_good:
  assumes c: "map_of bpf_cases (i_code p) = Some op" "op = LD_MEM \<or> op = LDX_MEM"
    and v: "validate_insn bc w len i p ivm mem = Some (ivm', mem')"
    and s: "args_ok w (args s) ivm" "pc s = i + 1" "w \<le> 32"
  shows "step_good w len i ivm' mem' (bpf_exec bc op p s)"
proof -
  have "i_code p = 0x60 \<or> i_code p = 0x61" using map_of_SomeD [OF c(1)] c(2) by (auto simp: bpf_cases_def)
  then have "validate_ld w p ivm mem = Some (ivm', mem')" "BPF_MODE (i_code p) = 0x60"
    using v by (auto simp: validate_insn_def bpf_fields)
  then have k: "unat (i_k p) < w" "ivm AND BPF_MEMWORD_INIT (unat (i_k p)) = 0" "ivm' = ivm"
    by (auto simp: validate_ld_def split: if_splits)
  then show ?thesis using c(2) load_mem_good [OF s(1) k(1) s(3) k(2)] s(2) by auto
qed

lemma exec_st_good:
  assumes c: "map_of bpf_cases (i_code p) = Some op" "op = ST \<or> op = STX"
    and v: "validate_insn bc w len i p ivm mem = Some (ivm', mem')"
    and s: "args_ok w (args s) ivm" "pc s = i + 1" "w \<le> 32"
  shows "step_good w len i ivm' mem' (bpf_exec bc op p s)"
proof -
  have "i_code p = 0x02 \<or> i_code p = 0x03" using map_of_SomeD [OF c(1)] c(2) by (auto simp: bpf_cases_def)
  then have "validate_st w p ivm mem = Some (ivm', mem')"
    using v by (auto simp: validate_insn_def bpf_fields)
  then have k: "unat (i_k p) < w" "ivm' = ivm AND NOT (BPF_MEMWORD_INIT (unat (i_k p)))"
    by (auto simp: validate_st_def split: if_splits)
  then show ?thesis using c(2) store_mem_good [OF s(1) k(1) s(3,2)] by auto
qed

lemma exec_jmp_good:
  assumes c: "map_of bpf_cases (i_code p) = Some op" "op = JA \<or> (\<exists>cond src. op = JCOND cond src)"
    and v: "validate_insn bc w len i p ivm mem = Some (ivm', mem')"
    and s: "args_ok w (args s) ivm" "pc s = i + 1" and l: "length mem = len" "i < 512"
  shows "step_good w len i ivm' mem' (bpf_exec bc op p s)"
proof -
  have "op = JA \<and> i_code p = 0x05 \<or> (\<exists>cond src. op = JCOND cond src) \<and>
      i_code p \<in> {0x25, 0x35, 0x15, 0x45, 0x2d, 0x3d, 0x1d, 0x4d}"
    using map_of_SomeD [OF c(1)] c(2) by (auto simp: bpf_cases_def)
  then show ?thesis
  proof (elim disjE conjE exE)
    assume op: "op = JA" and code: "i_code p = 0x05"
    let ?t = "of_nat (i + 1) + i_k p :: u32"
    have "validate_jmp len i p ivm mem = Some (ivm', mem')" "BPF_OP (i_code p) = 0"
      using v code by (auto simp: validate_insn_def bpf_fields)
    then have t: "unat ?t < len" "\<not> ?t < of_nat (i + 1)" "mem' = mem_or (unat ?t) ivm mem"
      by (auto simp: validate_jmp_def Let_def split: if_splits)
    note u = jump_target(2) [OF l(2) t(2)]
    show ?thesis
      using jump_good [OF s, of "unat (i_k p)" len mem' ivm'] t(1,3) [unfolded u] l(1)
      by (simp add: op bit_mem_or)
  next
    fix cond src
    assume op: "op = JCOND cond src" and code: "i_code p \<in> {0x25, 0x35, 0x15, 0x45, 0x2d, 0x3d, 0x1d, 0x4d}"
    let ?t = "of_nat (i + 1) + ucast (i_jt p) :: u32" and ?e = "of_nat (i + 1) + ucast (i_jf p) :: u32"
    have "validate_jmp len i p ivm mem = Some (ivm', mem')" "BPF_OP (i_code p) \<in> {0x10, 0x20, 0x30, 0x40}"
      using v code by (auto simp: validate_insn_def bpf_fields)
    then have t: "unat ?t < len" "unat ?e < len" "mem' = mem_or (unat ?e) ivm (mem_or (unat ?t) ivm mem)"
      by (auto simp: validate_jmp_def Let_def split: if_splits)
    note u = jump_target(1) [OF l(2)]
    have "step_good w len i ivm' mem' (jump s (unat j))" if "j = i_jt p \<or> j = i_jf p" for j
      using jump_good [OF s, of "unat j" len mem' ivm'] t [unfolded u] l(1) that by (auto simp: bit_mem_or)
    then show ?thesis by (simp add: op)
  qed
qed

lemma exec_alu_good:
  assumes c: "map_of bpf_cases (i_code p) = Some (ALU f src)"
    and v: "validate_insn bc w len i p ivm mem = Some (ivm', mem')"
    and s: "args_ok w (args s) ivm" "pc s = i + 1"
  shows "step_good w len i ivm' mem' (bpf_exec bc (ALU f src) p s)"
proof -
  have code: "BPF_CLASS (i_code p) = BPF_ALU \<and> (src = SrcK \<longrightarrow> BPF_SRC (i_code p) = 0) \<and>
      (f = ALU_DIV \<longrightarrow> BPF_OP (i_code p) = 0x30) \<and> (f = ALU_MOD \<longrightarrow> BPF_OP (i_code p) = 0x90)"
    using map_of_SomeD [OF c] by (auto simp: bpf_cases_def bpf_fields)
  then have a: "validate_alu p ivm mem = Some (ivm', mem')"
    using v by (auto simp: validate_insn_def)
  have "i_k p \<noteq> 0" if "src = SrcK" "f = ALU_DIV \<or> f = ALU_MOD"
    using a code that by (auto simp: validate_alu_def split: if_splits)
  moreover have "ivm' = ivm" using a by (auto simp: validate_alu_def split: if_splits)
  ultimately show ?thesis using s
    by (cases f; cases src) (auto intro!: step_good_next)
qed

lemma exec_misc_good:
  assumes c: "map_of bpf_cases (i_code p) = Some op" "op = COP \<or> op = COPX"
    and v: "validate_insn bc w len i p ivm mem = Some (ivm', mem')"
    and s: "args_ok w (args s) ivm" "pc s = i + 1" "ctx_ok bc"
  shows "step_good w len i ivm' mem' (bpf_exec bc op p s)"
proof -
  have "i_code p = 0x27 \<or> i_code p = 0x47" using map_of_SomeD [OF c(1)] c(2) by (auto simp: bpf_cases_def)
  then have "validate_misc bc p ivm mem = Some (ivm', mem')" "BPF_MISCOP (i_code p) \<in> {0x20, 0x40}"
    using v by (auto simp: validate_insn_def bpf_fields)
  then obtain b where "bc = Some b" "copfuncs b \<noteq> None" "ivm' = ivm"
    by (auto simp: validate_misc_def split: if_splits option.splits)
  then show ?thesis using c(2) call_cop_good [OF s] by auto
qed

text \<open>The remaining instructions only read the packet or work on the registers.\<close>

lemma validate_insn_ivm:
  assumes "map_of bpf_cases (i_code p) = Some op" "validate_insn bc w len i p ivm mem = Some (ivm', mem')"
    "op \<notin> {ST, STX, JA}" "\<forall>c src. op \<noteq> JCOND c src"
  shows "ivm' = ivm"
proof -
  have "BPF_CLASS (i_code p) \<notin> {BPF_ST, BPF_STX, BPF_JMP}"
    using map_of_SomeD [OF assms(1)] assms(3,4) by (auto simp: bpf_cases_def bpf_fields)
  then show ?thesis using assms(2)
    by (auto simp: validate_insn_def validate_ld_def validate_alu_def validate_misc_def Let_def
        split: if_splits option.splits)
qed

lemma exec_other_good:
  assumes "args_ok w (args s) ivm" "pc s = i + 1"
    "op \<notin> {LD_MEM, LDX_MEM, ST, STX, JA, COP, COPX}" "\<forall>c src. op \<noteq> JCOND c src \<and> (\<forall>f. op \<noteq> ALU f src)"
  shows "step_good w len i ivm mem (bpf_exec bc op p s)"
proof (cases op)
  case (LD_ABS sz)
  then show ?thesis using load_pkt_good [OF assms(1,2)] by (cases sz) (auto simp: Let_def)
next
  case (LD_IND sz)
  then show ?thesis using load_pkt_good [OF assms(1,2)] by (cases sz) (auto simp: Let_def)
next
  case LDX_MSH
  then show ?thesis using assms(1,2) by (auto simp: Let_def step_good_def args_ok_def)
qed (use assms in \<open>auto intro!: step_good_next\<close>)

lemma bpf_step_good:
  assumes v: "validate_insn bc w len i p ivm mem = Some (ivm', mem')"
    and s: "args_ok w (args s) ivm" "pc s = i" "w \<le> 32" "ctx_ok bc" "length mem = len" "i < 512"
  shows "step_good w len i ivm' mem' (bpf_step bc p s)"
proof (cases "map_of bpf_cases (i_code p)")
  case None
  then show ?thesis by (simp add: bpf_step_def)
next
  case (Some op)
  let ?s = "s\<lparr> pc := pc s + 1 \<rparr>"
  have s': "args_ok w (args ?s) ivm" "pc ?s = i + 1" using s by auto
  consider "op = LD_MEM \<or> op = LDX_MEM" | "op = ST \<or> op = STX" | "op = JA \<or> (\<exists>c src. op = JCOND c src)"
    | f src where "op = ALU f src" | "op = COP \<or> op = COPX"
    | "op \<notin> {LD_MEM, LDX_MEM, ST, STX, JA, COP, COPX}" "\<forall>c src. op \<noteq> JCOND c src \<and> (\<forall>f. op \<noteq> ALU f src)"
    by (cases op) auto
  then have "step_good w len i ivm' mem' (bpf_exec bc op p ?s)"
  proof cases
    case 1
    then show ?thesis using exec_ld_good [OF Some _ v s' s(3)] by blast
  next
    case 2
    then show ?thesis using exec_st_good [OF Some _ v s' s(3)] by blast
  next
    case 3
    then show ?thesis using exec_jmp_good [OF Some _ v s' s(5,6)] by blast
  next
    case 4
    then show ?thesis using exec_alu_good [OF _ v s'] Some by blast
  next
    case 5
    then show ?thesis using exec_misc_good [OF Some _ v s' s(4)] by blast
  next
    case 6
    then have "ivm' = ivm" using validate_insn_ivm [OF Some v] by blast
    then show ?thesis using exec_other_good [OF s' 6] by blast
  qed
  then show ?thesis by (simp add: bpf_step_def Some)
qed

definition run_good :: "bpf_fault + u32 \<times> 'a bpf_args \<Rightarrow> bool" where
  "run_good r \<longleftrightarrow> r = Inl ShiftRange \<or> r = Inl AbortCall \<or> (\<exists>v. r = Inr v)"

lemma validate_loop_sound:
  assumes "validate_loop bc w (length f) i ps ivm mem" "ps = drop i f" "length mem = length f"
    "length f \<le> 512" "w \<le> 32" "ctx_ok bc" "i_code (last f) = 0x06 \<or> i_code (last f) = 0x16"
    "i \<le> pc s" "pc s < length f"
    "args_ok w (args s) (if pc s = i then ivm OR mem ! i else mem ! pc s)"
  shows "run_good (bpf_run bc f s)"
  using assms
proof (induction bc w "length f" i ps ivm mem arbitrary: s rule: validate_loop.induct)
  case 1
  then show ?case by simp
next
  case (2 bc w i p ps ivm mem)
  have i: "i < length f" using 2(3) by (cases "i < length f") auto
  then have p: "p = f ! i" "ps = drop (i + 1) f"
    using 2(3) unfolding Cons_nth_drop_Suc [OF i, symmetric] by auto
  obtain ivm' mem' where v: "validate_insn bc w (length f) i p (ivm OR mem ! i) mem = Some (ivm', mem')"
    and rec: "validate_loop bc w (length f) (i + 1) ps ivm' mem'"
    using 2(2) by (auto split: option.splits)
  have l: "length mem' = length f" using validate_insn_mem(1) [OF v] 2(4) by simp
  note mono = validate_insn_mem(2) [OF v, unfolded 2(4)]
  note IH = 2(1) [OF v refl rec p(2) l 2(5-8)]
  have later: "run_good (bpf_run bc f t)"
    if "i < pc t" "pc t < length f" "args_ok w (args t) (mem' ! pc t)" for t
    by (rule IH) (use that in \<open>auto elim!: args_ok_mono simp: bit_or_iff\<close>)
  show ?case
  proof (cases "pc s = i")
    case False
    then show ?thesis
      using 2(9-11) mono by (intro later) (auto elim!: args_ok_mono)
  next
    case True
    have g: "step_good w (length f) i ivm' mem' (bpf_step bc p s)"
      using bpf_step_good [OF v _ True 2(6,7,4)] 2(5,10,11) True i by simp
    show ?thesis
    proof (cases "bpf_step bc p s")
      case (Go t)
      have "run_good (bpf_run bc f t)"
      proof (cases "pc t = i + 1 \<and> args_ok w (args t) ivm'")
        case T: True
        have "pc t < length f"
        proof (rule ccontr)
          assume "\<not> pc t < length f"
          then have "i = length f - 1" "f \<noteq> []" using i T by auto
          then have "p = last f" by (simp add: p last_conv_nth)
          then show False using 2(8) Go by (auto simp: bpf_step_def bpf_cases_def)
        qed
        then show ?thesis by (intro IH) (use T in \<open>auto elim!: args_ok_mono simp: bit_or_iff\<close>)
      next
        case F: False
        then show ?thesis using later g Go by (auto simp: step_good_def)
      qed
      then show ?thesis using True i p Go bpf_run.simps [of bc f s] by simp
    next
      case (Return v)
      then show ?thesis using True i p bpf_run.simps [of bc f s] by (simp add: run_good_def)
    next
      case (Fault e)
      then show ?thesis using g True i p bpf_run.simps [of bc f s] by (auto simp: run_good_def)
    qed
  qed
qed

text \<open>A run leaves the arguments as good as it found them, so that the next program can use them.\<close>

lemma load_args: "load_pkt sz s k = Go s' \<Longrightarrow> args s' = args s"
  by (auto simp: load_pkt_def split: if_splits)

lemma store_mem_args: "store_mem s k v = Go s' \<Longrightarrow> args_ok w (args s) ivm \<Longrightarrow> args_ok w (args s') ivm"
  by (auto simp: store_mem_def args_ok_def nth_list_update split: if_splits)

lemma call_cop_args:
  assumes "call_cop bc s n = Go s'" "args_ok w (args s) ivm" "ctx_ok bc"
  shows "args_ok w (args s') ivm"
proof -
  obtain c fns where c: "bc = Some c" "copfuncs c = Some fns" "unat n < nfuncs c"
    and s': "args s' = snd ((fns ! unat n) (args s) (regA s))"
    using assms(1) by (auto simp: call_cop_def split: option.splits if_splits prod.splits)
  then have "cop_ok (fns ! unat n)" using assms(3) by (simp add: ctx_ok_def)
  then show ?thesis using cop_args_ok [OF _ assms(2)] s' by simp
qed

lemma bpf_exec_args:
  assumes "bpf_exec bc op i s = Go s'" "args_ok w (args s) ivm" "ctx_ok bc"
  shows "args_ok w (args s') ivm"
  using assms
  by (induction bc op i s rule: bpf_exec.induct)
    (auto simp: Let_def load_mem_def jump_def split: if_splits option.splits sum.splits
      dest!: load_args dest: store_mem_args call_cop_args)

lemma bpf_run_args:
  "bpf_run bc f s = Inr (v, ar) \<Longrightarrow> args_ok w (args s) ivm \<Longrightarrow> ctx_ok bc \<Longrightarrow> args_ok w ar ivm"
proof (induction bc f s rule: bpf_run.induct)
  case (1 bc f s)
  have p: "pc s < length f" using 1(2) bpf_run.simps [of bc f s] by (auto split: if_splits)
  show ?case
  proof (cases "bpf_step bc (f ! pc s) s")
    case (Go t)
    then obtain op where "bpf_exec bc op (f ! pc s) (s\<lparr> pc := pc s + 1 \<rparr>) = Go t"
      by (auto simp: bpf_step_def split: option.splits)
    then have "args_ok w (args t) ivm" using bpf_exec_args [OF _ _ 1(4)] 1(3) by fastforce
    moreover have "bpf_run bc f t = Inr (v, ar)" using 1(2) Go p bpf_run.simps [of bc f s] by simp
    ultimately show ?thesis using 1(1) [OF p Go _ _ 1(4)] by blast
  next
    case (Return u)
    then show ?thesis using 1(2,3) p bpf_run.simps [of bc f s] by simp
  next
    case (Fault e)
    then show ?thesis using 1(2) p bpf_run.simps [of bc f s] by simp
  qed
qed

lemma bpf_filter_ext_args:
  "bpf_filter_ext bc f ar = Inr (v, ar') \<Longrightarrow> args_ok w ar ivm \<Longrightarrow> ctx_ok bc \<Longrightarrow> args_ok w ar' ivm"
  by (auto simp: bpf_filter_ext_def split: option.splits dest!: bpf_run_args)

text \<open>Instructions with a defined effect: a known code, and no shift out of range.\<close>

definition insn_defined :: "bpf_insn \<Rightarrow> bool" where
  "insn_defined p =
    (case map_of bpf_cases (i_code p) of
       None \<Rightarrow> False
     | Some op \<Rightarrow> (\<forall>f \<in> {ALU_LSH, ALU_RSH}. op \<noteq> ALU f SrcX \<and> (op = ALU f SrcK \<longrightarrow> unat (i_k p) < 32)))"

lemma bpf_exec_defined:
  assumes "\<forall>f \<in> {ALU_LSH, ALU_RSH}. op \<noteq> ALU f SrcX \<and> (op = ALU f SrcK \<longrightarrow> unat (i_k p) < 32)"
  shows "bpf_exec bc op p s \<noteq> Fault ShiftRange" "bpf_exec bc op p s \<noteq> Fault AbortCall"
proof -
  have "bpf_exec bc op p s \<noteq> Fault ShiftRange \<and> bpf_exec bc op p s \<noteq> Fault AbortCall"
  proof (cases op)
    case (ALU f src)
    then show ?thesis using assms by (cases f; cases src) auto
  qed (auto simp: Let_def load_pkt_def load_mem_def store_mem_def jump_def call_cop_def split: option.splits prod.splits)
  then show "bpf_exec bc op p s \<noteq> Fault ShiftRange" "bpf_exec bc op p s \<noteq> Fault AbortCall" by blast+
qed

lemma bpf_run_defined:
  assumes "\<forall>p \<in> set f. insn_defined p"
  shows "bpf_run bc f s \<noteq> Inl ShiftRange \<and> bpf_run bc f s \<noteq> Inl AbortCall"
  using assms
proof (induction bc f s rule: bpf_run.induct)
  case (1 bc f s)
  show ?case
  proof (cases "pc s < length f")
    case True
    then have "insn_defined (f ! pc s)" using 1(2) by simp
    then have "bpf_step bc (f ! pc s) s \<noteq> Fault ShiftRange" "bpf_step bc (f ! pc s) s \<noteq> Fault AbortCall"
      using bpf_exec_defined by (fastforce simp: insn_defined_def bpf_step_def split: option.splits)+
    then show ?thesis using 1 True bpf_run.simps [of bc f s] by (cases "bpf_step bc (f ! pc s) s") auto
  qed (simp add: bpf_run.simps [of bc f s])
qed

lemma bpf_validate_run:
  assumes "bpf_validate_ext bc f" "ctx_ok bc" "args_ok (bpf_memwords bc) ar (NOT (bpf_preinited bc))"
  shows "run_good (bpf_filter_ext bc (Some f) ar)"
proof -
  have f: "f \<noteq> []" "length f \<le> 512" "i_code (last f) = 0x06 \<or> i_code (last f) = 0x16"
    and v: "validate_loop bc (bpf_memwords bc) (length f) 0 f (NOT (bpf_preinited bc)) (replicate (length f) 0)"
    using assms(1) by (auto simp: bpf_validate_ext_def last_conv_nth Let_def split: if_splits)
  have "run_good (bpf_run bc f \<lparr> pc = 0, regA = 0, regX = 0, args = ar \<rparr>)"
    using assms(2,3) f by (intro validate_loop_sound [OF v]) (auto simp: ctx_ok_def)
  then show ?thesis by (simp add: bpf_filter_ext_def)
qed

section \<open>Properties\<close>


definition ex_bpf :: "u8 \<Rightarrow> bpf_insn list" where
  "ex_bpf jf =
    [\<lparr> i_code = 0x28, i_jt = 0, i_jf = 0, i_k = 12 \<rparr>,
     \<lparr> i_code = 0x15, i_jt = 0, i_jf = jf, i_k = 0x800 \<rparr>,
     \<lparr> i_code = 0x30, i_jt = 0, i_jf = 0, i_k = 23 \<rparr>,
     \<lparr> i_code = 0x02, i_jt = 0, i_jf = 0, i_k = 1 \<rparr>,
     \<lparr> i_code = 0x60, i_jt = 0, i_jf = 0, i_k = 1 \<rparr>,
     \<lparr> i_code = 0x16, i_jt = 0, i_jf = 0, i_k = 0 \<rparr>]"

definition ex_bpf_args :: "unit bpf_args" where
  "ex_bpf_args = \<lparr> pkt = replicate 14 0, wirelen = 14, buflen = 14,
     bpf_mem = replicate BPF_MEMWORDS None, bpf_arg = () \<rparr>"

lemma ex_bpf_args_ok: "args_ok (bpf_memwords (None :: unit bpf_ctx option)) ex_bpf_args (NOT (bpf_preinited (None :: unit bpf_ctx option)))"
  by (auto simp: args_ok_def ex_bpf_args_def bpf_memwords_def bpf_preinited_def)

text \<open>With the offset 2 the program jumps over the store to the load of the stored word.\<close>

lemma ex_bpf_validate: "bpf_validate (ex_bpf 3)" "\<not> bpf_validate (ex_bpf 2)"
  by code_simp+


text \<open>
  A validated program whose instruction codes the interpreter knows and whose shifts are
  by constants below 32 returns a value on every packet.
\<close>

theorem bpf_filter_returns:
  assumes "bpf_validate_ext bc f" "ctx_ok bc"
    and "args_ok (bpf_memwords bc) ar (NOT (bpf_preinited bc))" "\<forall>p \<in> set f. insn_defined p"
  shows "\<exists>v. bpf_filter_ext bc (Some f) ar = Inr v"
  using bpf_validate_run [OF assms(1-3)] bpf_run_defined [OF assms(4)]
  by (auto simp: run_good_def bpf_filter_ext_def)

theorem bpf_filter_returns_witness: "\<exists>v. bpf_filter_ext None (Some (ex_bpf 3)) ex_bpf_args = Inr v"
proof (rule bpf_filter_returns [OF _ _ ex_bpf_args_ok])
  show "\<forall>p \<in> set (ex_bpf 3). insn_defined p" by code_simp
qed (use ex_bpf_validate in \<open>simp_all add: bpf_validate_def ctx_ok_def bpf_memwords_def\<close>)

text \<open>
  The validator accepts programs that the interpreter cannot run: a load with a mode and
  size it has no case for, where the standalone build calls \<open>abort\<close>, and a shift by 32,
  which C leaves undefined.
\<close>

theorem bpf_validate_gaps:
  "let ld = \<lparr> i_code = 0x08, i_jt = 0, i_jf = 0, i_k = 0 \<rparr>;
       sh = \<lparr> i_code = 0x64, i_jt = 0, i_jf = 0, i_k = 32 \<rparr>;
       ret = \<lparr> i_code = 0x16, i_jt = 0, i_jf = 0, i_k = 0 \<rparr> in
   bpf_validate [ld, ret] \<and> bpf_filter (Some [ld, ret]) [] 0 0 = Inl AbortCall \<and>
   bpf_validate [sh, ret] \<and> bpf_filter (Some [sh, ret]) [] 0 0 = Inl ShiftRange"
  by code_simp

end
