(* ===== verification/NPF_Tableset.thy ===== *)
theory NPF_Tableset
  imports NPF_Addr
begin

text \<open>
  Tables of addresses and the set of tables (\<open>src/kern/npf_tableset.c\<close>).  The hash map, the
  longest prefix match and the constant database are libraries outside the sources; their
  operations are the parameter \<open>L\<close>, with the documented behaviour in \<open>thmap_laws\<close> and
  \<open>lpm_laws\<close>.

  A table entry is an object of a pool, identified by its pointer; \<open>t_heap\<close> holds the
  objects of a table, and the lists and maps hold pointers.
\<close>

section \<open>The libraries\<close>

record ('l, 'v) lpm_ops =
  lpm_create :: 'l
  lpm_lookup :: "'l \<Rightarrow> u8 list \<Rightarrow> nat \<Rightarrow> 'v option"
  lpm_insert :: "'l \<Rightarrow> u8 list \<Rightarrow> nat \<Rightarrow> nat \<Rightarrow> 'v \<Rightarrow> int \<times> 'l"
  lpm_remove :: "'l \<Rightarrow> u8 list \<Rightarrow> nat \<Rightarrow> nat \<Rightarrow> 'l"
  lpm_clear :: "'l \<Rightarrow> 'l"

record 'c cdb_ops =
  cdbr_open_mem :: "u8 list \<Rightarrow> 'c option"
  cdbr_find :: "'c \<Rightarrow> u8 list \<Rightarrow> u8 list option"
  cdbr_entries :: "'c \<Rightarrow> nat"
  cdbr_get :: "'c \<Rightarrow> nat \<Rightarrow> u8 list option"

record ('m, 'l, 'c) table_libs =
  lib_map :: "('m, u8 list, nat) thmap_ops"
  lib_lpm :: "('l, nat) lpm_ops"
  lib_cdb :: "'c cdb_ops"

section \<open>Tables\<close>

record npf_tblent =
  te_preflen :: nat
  te_alen :: nat
  te_addr :: npf_addr

abbreviation NPF_TABLE_IPSET :: nat where "NPF_TABLE_IPSET \<equiv> 1"
abbreviation NPF_TABLE_LPM :: nat where "NPF_TABLE_LPM \<equiv> 2"
abbreviation NPF_TABLE_CONST :: nat where "NPF_TABLE_CONST \<equiv> 3"
abbreviation NPF_TABLE_IFADDR :: nat where "NPF_TABLE_IFADDR \<equiv> 4"
abbreviation NPF_TABLE_MAXNAMELEN :: nat where "NPF_TABLE_MAXNAMELEN \<equiv> 32"

definition NPF_ADDRLEN2IDX :: "nat \<Rightarrow> nat" where
  "NPF_ADDRLEN2IDX alen = alen div 16"

text \<open>The members of the union are separate fields; the type says which are in use.\<close>

record ('m, 'l, 'c) npf_table =
  t_map :: 'm
  t_gc :: "nat list"
  t_lpm :: 'l
  t_cdb :: "'c option"
  t_elements :: "nat option list list"
  t_allocated :: "nat list"
  t_used :: "nat list"
  t_list :: "nat list"
  t_nitems :: nat
  t_type :: nat
  t_id :: nat
  t_refcnt :: nat
  t_name :: string
  t_heap :: "nat \<Rightarrow> npf_tblent"

definition table_ipset_flush ::
  "('m, 'l, 'c) table_libs \<Rightarrow> ('m, 'l, 'c) npf_table \<Rightarrow> ('m, 'l, 'c) npf_table" where
  "table_ipset_flush L t =
     t\<lparr> t_map := fold (\<lambda>e m. snd (thmap_del (lib_map L) m (take (te_alen (t_heap t e)) (te_addr (t_heap t e)))))
                  (t_list t) (t_map t),
        t_list := [], t_nitems := 0 \<rparr>"

definition table_tree_flush ::
  "('m, 'l, 'c) table_libs \<Rightarrow> ('m, 'l, 'c) npf_table \<Rightarrow> ('m, 'l, 'c) npf_table" where
  "table_tree_flush L t = t\<lparr> t_list := [], t_lpm := lpm_clear (lib_lpm L) (t_lpm t), t_nitems := 0 \<rparr>"

definition table_ifaddr_flush :: "('m, 'l, 'c) npf_table \<Rightarrow> ('m, 'l, 'c) npf_table" where
  "table_ifaddr_flush t =
     t\<lparr> t_elements := [[], []], t_allocated := [0, 0], t_used := [0, 0], t_list := [], t_nitems := 0 \<rparr>"

text \<open>\<open>strlcpy\<close> into the name buffer truncates.\<close>

definition npf_table_create ::
  "('m, 'l, 'c) table_libs \<Rightarrow> string \<Rightarrow> nat \<Rightarrow> nat \<Rightarrow> u8 list \<Rightarrow> ('m, 'l, 'c) npf_table option" where
  "npf_table_create L name tid type blob =
    (let t = \<lparr> t_map = thmap_create (lib_map L), t_gc = [], t_lpm = lpm_create (lib_lpm L), t_cdb = None,
               t_elements = [[], []], t_allocated = [0, 0], t_used = [0, 0],
               t_list = [], t_nitems = 0, t_type = type, t_id = tid, t_refcnt = 0,
               t_name = take (NPF_TABLE_MAXNAMELEN - 1) name,
               t_heap = (\<lambda>e. \<lparr> te_preflen = 0, te_alen = 0, te_addr = [] \<rparr>) \<rparr> in
     if type = NPF_TABLE_CONST then
       case cdbr_open_mem (lib_cdb L) blob of
         None \<Rightarrow> None
       | Some c \<Rightarrow> Some (t\<lparr> t_cdb := Some c, t_nitems := cdbr_entries (lib_cdb L) c \<rparr>)
     else Some t)"

definition roundup2 :: "nat \<Rightarrow> nat \<Rightarrow> nat" where
  "roundup2 x m = (x + m - 1) div m * m"

definition table_ifaddr_insert ::
  "bool \<Rightarrow> ('m, 'l, 'c) npf_table \<Rightarrow> nat \<Rightarrow> nat \<Rightarrow> errno option \<times> ('m, 'l, 'c) npf_table" where
  "table_ifaddr_insert mem t alen ent =
    (let aidx = NPF_ADDRLEN2IDX alen; allocated = t_allocated t ! aidx; used = t_used t ! aidx in
     if allocated \<le> used \<and> \<not> mem then (Some ENOMEM, t)
     else
       let t1 = (if allocated \<le> used then
                   let toalloc = roundup2 (allocated + 1) 4 in
                   t\<lparr> t_elements := (t_elements t)[aidx :=
                          take used (t_elements t ! aidx) @ replicate (toalloc - used) None],
                      t_allocated := (t_allocated t)[aidx := toalloc] \<rparr>
                 else t) in
       (None, t1\<lparr> t_elements := (t_elements t1)[aidx := (t_elements t1 ! aidx)[used := Some ent]],
                  t_used := (t_used t1)[aidx := used + 1] \<rparr>))"

text \<open>\<open>ent\<close> is the object that \<open>pool_cache_get\<close> returns.\<close>

definition npf_table_insert ::
  "('m, 'l, 'c) table_libs \<Rightarrow> bool \<Rightarrow> nat \<Rightarrow> ('m, 'l, 'c) npf_table \<Rightarrow> nat \<Rightarrow> npf_addr \<Rightarrow> nat
   \<Rightarrow> errno option \<times> ('m, 'l, 'c) npf_table" where
  "npf_table_insert L mem ent t alen addr nmask =
    (case npf_netmask_check alen nmask of
       Some e \<Rightarrow> (Some e, t)
     | None \<Rightarrow>
       let obj = \<lparr> te_preflen = 0, te_alen = alen, te_addr = take alen addr \<rparr>;
           h = t_heap t in
       if t_type t = NPF_TABLE_IPSET then
         if nmask \<noteq> NPF_NO_NETMASK then (Some EINVAL, t)
         else
           let (r, m) = thmap_put (lib_map L) (t_map t) (take alen addr) ent in
           if r = ent then
             (None, t\<lparr> t_map := m, t_list := ent # t_list t, t_nitems := t_nitems t + 1, t_heap := h(ent := obj) \<rparr>)
           else (Some EEXIST, t\<lparr> t_map := m \<rparr>)
       else if t_type t = NPF_TABLE_LPM then
         let preflen = (if nmask = NPF_NO_NETMASK then alen * 8 else nmask) in
         if lpm_lookup (lib_lpm L) (t_lpm t) (take alen addr) alen \<noteq> None then (Some EEXIST, t)
         else
           let (r, l) = lpm_insert (lib_lpm L) (t_lpm t) (take alen addr) alen preflen ent in
           if r = 0 then
             (None, t\<lparr> t_lpm := l, t_list := ent # t_list t, t_nitems := t_nitems t + 1,
                       t_heap := h(ent := obj\<lparr> te_preflen := preflen \<rparr>) \<rparr>)
           else (Some EEXIST, t\<lparr> t_lpm := l \<rparr>)
       else if t_type t = NPF_TABLE_CONST then (Some EINVAL, t)
       else
         case table_ifaddr_insert mem (t\<lparr> t_heap := h(ent := obj) \<rparr>) alen ent of
           (Some e, t') \<Rightarrow> (Some e, t)
         | (None, t') \<Rightarrow> (None, t'\<lparr> t_list := ent # t_list t', t_nitems := t_nitems t' + 1 \<rparr>))"

definition npf_table_remove ::
  "('m, 'l, 'c) table_libs \<Rightarrow> ('m, 'l, 'c) npf_table \<Rightarrow> nat \<Rightarrow> npf_addr \<Rightarrow> nat
   \<Rightarrow> errno option \<times> ('m, 'l, 'c) npf_table" where
  "npf_table_remove L t alen addr nmask =
    (case npf_netmask_check alen nmask of
       Some e \<Rightarrow> (Some e, t)
     | None \<Rightarrow>
       if t_type t = NPF_TABLE_IPSET then
         case thmap_del (lib_map L) (t_map t) (take alen addr) of
           (Some ent, m) \<Rightarrow> (None, t\<lparr> t_map := m, t_list := remove1 ent (t_list t), t_gc := ent # t_gc t,
                                      t_nitems := t_nitems t - 1 \<rparr>)
         | (None, m) \<Rightarrow> (Some ENOENT, t\<lparr> t_map := m \<rparr>)
       else if t_type t = NPF_TABLE_LPM then
         case lpm_lookup (lib_lpm L) (t_lpm t) (take alen addr) alen of
           Some ent \<Rightarrow>
             (None, t\<lparr> t_list := remove1 ent (t_list t),
                       t_lpm := lpm_remove (lib_lpm L) (t_lpm t) (te_addr (t_heap t ent)) (te_alen (t_heap t ent))
                                  (te_preflen (t_heap t ent)),
                       t_nitems := t_nitems t - 1 \<rparr>)
         | None \<Rightarrow> (Some ENOENT, t)
       else (Some EINVAL, t))"

text \<open>The scan of \<open>t_elements\<close> in \<open>npf_table_lookup\<close>, over the used part.\<close>

fun ifaddr_find :: "(nat \<Rightarrow> npf_tblent) \<Rightarrow> nat option list \<Rightarrow> npf_addr \<Rightarrow> nat \<Rightarrow> bool" where
  "ifaddr_find h [] addr alen = False"
| "ifaddr_find h (None # es) addr alen = ifaddr_find h es addr alen"
| "ifaddr_find h (Some e # es) addr alen =
    (memcmp (te_addr (h e)) addr alen = 0 \<or> ifaddr_find h es addr alen)"

definition npf_table_lookup ::
  "('m, 'l, 'c) table_libs \<Rightarrow> ('m, 'l, 'c) npf_table \<Rightarrow> nat \<Rightarrow> npf_addr \<Rightarrow> errno option" where
  "npf_table_lookup L t alen addr =
    (case npf_netmask_check alen NPF_NO_NETMASK of
       Some e \<Rightarrow> Some e
     | None \<Rightarrow>
       let found =
         (if t_type t = NPF_TABLE_IPSET then thmap_get (lib_map L) (t_map t) (take alen addr) \<noteq> None
          else if t_type t = NPF_TABLE_LPM then lpm_lookup (lib_lpm L) (t_lpm t) (take alen addr) alen \<noteq> None
          else if t_type t = NPF_TABLE_CONST then
            (case t_cdb t of None \<Rightarrow> False
             | Some c \<Rightarrow>
                 case cdbr_find (lib_cdb L) c (take alen addr) of
                   None \<Rightarrow> False
                 | Some data \<Rightarrow> length data = alen \<and> memcmp addr data (length data) = 0)
          else
            let aidx = NPF_ADDRLEN2IDX alen in
            ifaddr_find (t_heap t) (take (t_used t ! aidx) (t_elements t ! aidx)) addr alen) in
       if found then None else Some ENOENT)"

definition npf_table_getsome :: "('m, 'l, 'c) npf_table \<Rightarrow> nat \<Rightarrow> nat \<Rightarrow> npf_addr option" where
  "npf_table_getsome t alen idx =
    (let aidx = NPF_ADDRLEN2IDX alen; nitems = t_used t ! aidx in
     if nitems = 0 then None
     else map_option (\<lambda>e. te_addr (t_heap t e)) (t_elements t ! aidx ! (idx mod nitems)))"

record npf_ioctl_ent =
  ue_alen :: nat
  ue_addr :: npf_addr
  ue_mask :: nat

abbreviation IOCTL_ENT_SIZE :: nat where "IOCTL_ENT_SIZE \<equiv> 24"

text \<open>
  The loop of the listing functions with \<open>table_ent_copyout\<close>: the user buffer is the list of
  the entries written so far, and copying to user space succeeds.
\<close>

fun table_copyout :: "npf_ioctl_ent list \<Rightarrow> nat \<Rightarrow> nat \<Rightarrow> npf_ioctl_ent list \<Rightarrow> errno option \<times> npf_ioctl_ent list" where
  "table_copyout [] len off ubuf = (None, ubuf)"
| "table_copyout (e # es) len off ubuf =
    (if off + IOCTL_ENT_SIZE > len then (Some ENOMEM, ubuf)
     else table_copyout es len (off + IOCTL_ENT_SIZE) (ubuf @ [e]))"

definition table_generic_list :: "('m, 'l, 'c) npf_table \<Rightarrow> nat \<Rightarrow> errno option \<times> npf_ioctl_ent list" where
  "table_generic_list t len =
     table_copyout (map (\<lambda>e. let o1 = t_heap t e in
       \<lparr> ue_alen = te_alen o1, ue_addr = te_addr o1, ue_mask = te_preflen o1 \<rparr>) (t_list t)) len 0 []"

fun table_cdb_list ::
  "('m, 'l, 'c) table_libs \<Rightarrow> 'c \<Rightarrow> nat list \<Rightarrow> nat \<Rightarrow> nat \<Rightarrow> npf_ioctl_ent list \<Rightarrow> errno option \<times> npf_ioctl_ent list" where
  "table_cdb_list L c [] len off ubuf = (None, ubuf)"
| "table_cdb_list L c (i # is) len off ubuf =
    (case cdbr_get (lib_cdb L) c i of
       None \<Rightarrow> (Some EINVAL, ubuf)
     | Some data \<Rightarrow>
         if off + IOCTL_ENT_SIZE > len then (Some ENOMEM, ubuf)
         else table_cdb_list L c is len (off + IOCTL_ENT_SIZE)
                (ubuf @ [\<lparr> ue_alen = length data, ue_addr = data, ue_mask = 0 \<rparr>]))"

definition npf_table_list ::
  "('m, 'l, 'c) table_libs \<Rightarrow> ('m, 'l, 'c) npf_table \<Rightarrow> nat \<Rightarrow> errno option \<times> npf_ioctl_ent list" where
  "npf_table_list L t len =
    (if t_type t = NPF_TABLE_CONST then
       case t_cdb t of None \<Rightarrow> (None, []) | Some c \<Rightarrow> table_cdb_list L c [0..<t_nitems t] len 0 []
     else table_generic_list t len)"

definition npf_table_flush ::
  "('m, 'l, 'c) table_libs \<Rightarrow> ('m, 'l, 'c) npf_table \<Rightarrow> errno option \<times> ('m, 'l, 'c) npf_table" where
  "npf_table_flush L t =
    (if t_type t = NPF_TABLE_IPSET then (None, table_ipset_flush L t)
     else if t_type t = NPF_TABLE_LPM then (None, table_tree_flush L t)
     else (Some EINVAL, t))"

definition npf_table_gc :: "('m, 'l, 'c) npf_table \<Rightarrow> ('m, 'l, 'c) npf_table" where
  "npf_table_gc t = (if t_type t \<noteq> NPF_TABLE_IPSET \<or> t_gc t = [] then t else t\<lparr> t_gc := [] \<rparr>)"

section \<open>Sets of tables\<close>

text \<open>
  A table set maps identifiers to tables.  Tables are shared between the old and the new
  set during a reload, so the sets hold pointers into a heap of tables.
\<close>

record npf_tableset =
  ts_nitems :: nat
  ts_map :: "nat option list"

type_synonym ('m, 'l, 'c) tables = "nat \<rightharpoonup> ('m, 'l, 'c) npf_table"

definition npf_tableset_create :: "nat \<Rightarrow> npf_tableset" where
  "npf_tableset_create nitems = \<lparr> ts_nitems = nitems, ts_map = replicate nitems None \<rparr>"

definition table_ref :: "('m, 'l, 'c) tables \<Rightarrow> nat \<Rightarrow> ('m, 'l, 'c) npf_table" where
  "table_ref H p = the (H p)"

definition npf_table_destroy :: "nat \<Rightarrow> ('m, 'l, 'c) tables \<Rightarrow> ('m, 'l, 'c) tables" where
  "npf_table_destroy p H = H(p := None)"

text \<open>The loop of \<open>npf_tableset_destroy\<close> over the slots.\<close>

fun tableset_release :: "nat option list \<Rightarrow> ('m, 'l, 'c) tables \<Rightarrow> ('m, 'l, 'c) tables" where
  "tableset_release [] H = H"
| "tableset_release (None # ps) H = tableset_release ps H"
| "tableset_release (Some p # ps) H =
    (let t = table_ref H p; t = t\<lparr> t_refcnt := t_refcnt t - 1 \<rparr> in
     tableset_release ps (if t_refcnt t = 0 then npf_table_destroy p H else H(p \<mapsto> t)))"

definition npf_tableset_destroy :: "npf_tableset \<Rightarrow> ('m, 'l, 'c) tables \<Rightarrow> ('m, 'l, 'c) tables" where
  "npf_tableset_destroy ts H = tableset_release (take (ts_nitems ts) (ts_map ts)) H"

definition npf_tableset_insert ::
  "npf_tableset \<Rightarrow> nat \<Rightarrow> ('m, 'l, 'c) tables \<Rightarrow> errno option \<times> npf_tableset \<times> ('m, 'l, 'c) tables" where
  "npf_tableset_insert ts p H =
    (let t = table_ref H p; tid = t_id t in
     if ts_map ts ! tid = None then
       (None, ts\<lparr> ts_map := (ts_map ts)[tid := Some p] \<rparr>, H(p \<mapsto> t\<lparr> t_refcnt := t_refcnt t + 1 \<rparr>))
     else (Some EEXIST, ts, H))"

definition npf_tableset_swap ::
  "npf_tableset \<Rightarrow> nat \<Rightarrow> ('m, 'l, 'c) tables \<Rightarrow> nat option \<times> npf_tableset \<times> ('m, 'l, 'c) tables" where
  "npf_tableset_swap ts np H =
    (let newt = table_ref H np; tid = t_id newt; op = ts_map ts ! tid in
     case op of
       None \<Rightarrow> (None, ts, H)
     | Some o1 \<Rightarrow>
         let oldt = table_ref H o1 in
         (Some o1, ts\<lparr> ts_map := (ts_map ts)[tid := Some np] \<rparr>,
          H(np \<mapsto> newt\<lparr> t_refcnt := t_refcnt oldt \<rparr>, o1 \<mapsto> oldt\<lparr> t_refcnt := 0 \<rparr>)))"

fun tableset_find :: "('m, 'l, 'c) tables \<Rightarrow> nat option list \<Rightarrow> string \<Rightarrow> nat option" where
  "tableset_find H [] name = None"
| "tableset_find H (None # ps) name = tableset_find H ps name"
| "tableset_find H (Some p # ps) name =
    (if name = t_name (table_ref H p) then Some p else tableset_find H ps name)"

definition npf_tableset_getbyname :: "('m, 'l, 'c) tables \<Rightarrow> npf_tableset \<Rightarrow> string \<Rightarrow> nat option" where
  "npf_tableset_getbyname H ts name = tableset_find H (take (ts_nitems ts) (ts_map ts)) name"

definition npf_tableset_getbyid :: "npf_tableset \<Rightarrow> nat \<Rightarrow> nat option" where
  "npf_tableset_getbyid ts tid = (if tid < ts_nitems ts then ts_map ts ! tid else None)"

definition npf_table_check ::
  "('m, 'l, 'c) tables \<Rightarrow> npf_tableset \<Rightarrow> string \<Rightarrow> nat \<Rightarrow> nat \<Rightarrow> bool \<Rightarrow> errno option" where
  "npf_table_check H ts name tid type replacing =
    (if tid \<ge> ts_nitems ts then Some EINVAL
     else if \<not> replacing \<and> ts_map ts ! tid \<noteq> None then Some EEXIST
     else if type \<notin> {NPF_TABLE_LPM, NPF_TABLE_IPSET, NPF_TABLE_CONST, NPF_TABLE_IFADDR} then Some EINVAL
     else if length name \<ge> NPF_TABLE_MAXNAMELEN then Some ENAMETOOLONG
     else
       case npf_tableset_getbyname H ts name of
         None \<Rightarrow> None
       | Some p \<Rightarrow> if \<not> replacing \<or> t_id (table_ref H p) \<noteq> tid then Some EEXIST else None)"

text \<open>One iteration of \<open>npf_tableset_reload\<close>, for the slot \<open>tid\<close> of the new set.\<close>

definition tableset_reload1 ::
  "npf_tableset \<Rightarrow> nat \<Rightarrow> npf_tableset \<times> ('m, 'l, 'c) tables \<Rightarrow> npf_tableset \<times> ('m, 'l, 'c) tables" where
  "tableset_reload1 ots tid st =
    (let (nts, H) = st in
     case ts_map nts ! tid of
       None \<Rightarrow> st
     | Some p \<Rightarrow>
         let t = table_ref H p in
         if t_nitems t \<noteq> 0 then st
         else
           case npf_tableset_getbyname H ots (t_name t) of
             None \<Rightarrow> st
           | Some q \<Rightarrow>
               let ot = table_ref H q in
               if t_type t \<noteq> t_type ot then st
               else
                 let H1 = H(q \<mapsto> ot\<lparr> t_refcnt := t_refcnt ot + 1, t_id := tid \<rparr>);
                     H2 = H1(p \<mapsto> (table_ref H1 p)\<lparr> t_refcnt := t_refcnt (table_ref H1 p) - 1 \<rparr>) in
                 (nts\<lparr> ts_map := (ts_map nts)[tid := Some q] \<rparr>, npf_table_destroy p H2))"

definition npf_tableset_reload ::
  "npf_tableset \<Rightarrow> npf_tableset \<Rightarrow> ('m, 'l, 'c) tables \<Rightarrow> npf_tableset \<times> ('m, 'l, 'c) tables" where
  "npf_tableset_reload nts ots H = fold (tableset_reload1 ots) [0..<ts_nitems nts] (nts, H)"

fun tableset_export :: "('m, 'l, 'c) tables \<Rightarrow> nat \<Rightarrow> nat option list \<Rightarrow> (string \<times> nat \<times> nat) list" where
  "tableset_export H tid [] = []"
| "tableset_export H tid (None # ps) = tableset_export H (tid + 1) ps"
| "tableset_export H tid (Some p # ps) =
    (t_name (table_ref H p), t_type (table_ref H p), tid) # tableset_export H (tid + 1) ps"

definition npf_tableset_export :: "('m, 'l, 'c) tables \<Rightarrow> npf_tableset \<Rightarrow> (string \<times> nat \<times> nat) list" where
  "npf_tableset_export H ts = tableset_export H 0 (take (ts_nitems ts) (ts_map ts))"

section \<open>The interface of an address set\<close>

text \<open>
  What the users of a table of addresses rely on.  \<open>addrs\<close> is the set of addresses in the
  table; \<open>valid\<close> holds for the addresses that may be added.
\<close>

datatype 'a table_op = TAdd 'a | TRemove 'a | TFlush

fun table_op_set :: "'a table_op \<Rightarrow> 'a set \<Rightarrow> 'a set" where
  "table_op_set (TAdd a) A = insert a A"
| "table_op_set (TRemove a) A = A - {a}"
| "table_op_set TFlush A = {}"

fun table_op_valid :: "('a \<Rightarrow> bool) \<Rightarrow> 'a table_op \<Rightarrow> bool" where
  "table_op_valid valid (TAdd a) = valid a"
| "table_op_valid valid (TRemove a) = valid a"
| "table_op_valid valid TFlush = True"

fun table_run ::
  "('t \<Rightarrow> 'a \<Rightarrow> errno option \<times> 't) \<Rightarrow> ('t \<Rightarrow> 'a \<Rightarrow> errno option \<times> 't) \<Rightarrow> ('t \<Rightarrow> errno option \<times> 't) \<Rightarrow>
   'a table_op list \<Rightarrow> 't \<Rightarrow> 't" where
  "table_run add del flush [] t = t"
| "table_run add del flush (TAdd a # ops) t = table_run add del flush ops (snd (add t a))"
| "table_run add del flush (TRemove a # ops) t = table_run add del flush ops (snd (del t a))"
| "table_run add del flush (TFlush # ops) t = table_run add del flush ops (snd (flush t))"

locale address_set =
  fixes add :: "'t \<Rightarrow> 'a \<Rightarrow> errno option \<times> 't" and del :: "'t \<Rightarrow> 'a \<Rightarrow> errno option \<times> 't"
    and flush :: "'t \<Rightarrow> errno option \<times> 't" and look :: "'t \<Rightarrow> 'a \<Rightarrow> errno option"
    and addrs :: "'t \<Rightarrow> 'a set" and valid :: "'a \<Rightarrow> bool" and ok :: "'t \<Rightarrow> bool"
  assumes add_law: "ok t \<Longrightarrow> valid a \<Longrightarrow> add t a = (r, t') \<Longrightarrow>
      ok t' \<and> addrs t' = insert a (addrs t) \<and> r = (if a \<in> addrs t then Some EEXIST else None)"
    and del_law: "ok t \<Longrightarrow> valid a \<Longrightarrow> del t a = (r, t') \<Longrightarrow>
      ok t' \<and> addrs t' = addrs t - {a} \<and> r = (if a \<in> addrs t then None else Some ENOENT)"
    and flush_law: "ok t \<Longrightarrow> flush t = (r, t') \<Longrightarrow> ok t' \<and> addrs t' = {} \<and> r = None"
    and look_law: "ok t \<Longrightarrow> valid a \<Longrightarrow> look t a = (if a \<in> addrs t then None else Some ENOENT)"
begin

lemma table_run_refines:
  assumes "ok t" "\<forall>x \<in> set ops. table_op_valid valid x"
  shows "ok (table_run add del flush ops t) \<and> addrs (table_run add del flush ops t) = fold table_op_set ops (addrs t)"
  using assms
proof (induction ops arbitrary: t)
  case (Cons x ops)
  show ?case
  proof (cases x)
    case (TAdd a)
    then show ?thesis using Cons add_law [of t a "fst (add t a)" "snd (add t a)"] by simp
  next
    case (TRemove a)
    then show ?thesis using Cons del_law [of t a "fst (del t a)" "snd (del t a)"] by simp
  next
    case TFlush
    then show ?thesis using Cons flush_law [of t "fst (flush t)" "snd (flush t)"] by simp
  qed
qed simp

lemma lookup_after_run:
  assumes "ok t" "\<forall>x \<in> set ops. table_op_valid valid x" "valid a"
  shows "look (table_run add del flush ops t) a = (if a \<in> fold table_op_set ops (addrs t) then None else Some ENOENT)"
  using table_run_refines [OF assms(1,2)] look_law [OF _ assms(3)] by simp

end

section \<open>Hash tables of addresses implement it\<close>

definition te_key :: "('m, 'l, 'c) npf_table \<Rightarrow> nat \<Rightarrow> u8 list" where
  "te_key t e = take (te_alen (t_heap t e)) (te_addr (t_heap t e))"

definition ipset_ok :: "('m, 'l, 'c) table_libs \<Rightarrow> ('m, 'l, 'c) npf_table \<Rightarrow> bool" where
  "ipset_ok L t \<longleftrightarrow> t_type t = NPF_TABLE_IPSET \<and> distinct (t_list t) \<and> t_nitems t = length (t_list t) \<and>
     (\<forall>k e. thmap_get (lib_map L) (t_map t) k = Some e \<longleftrightarrow> e \<in> set (t_list t) \<and> te_key t e = k)"

definition ipset_addrs :: "('m, 'l, 'c) table_libs \<Rightarrow> ('m, 'l, 'c) npf_table \<Rightarrow> u8 list set" where
  "ipset_addrs L t = {k. thmap_get (lib_map L) (t_map t) k \<noteq> None}"

text \<open>An address is its bytes, 4 or 16 of them; the pool returns an object not in use.\<close>

definition addr_valid :: "u8 list \<Rightarrow> bool" where
  "addr_valid a \<longleftrightarrow> length a = 4 \<or> length a = 16"

definition pool_get :: "('m, 'l, 'c) npf_table \<Rightarrow> nat" where
  "pool_get t = Suc (fold max (t_list t @ t_gc t) 0)"

lemma fold_max_ge: "x \<in> set xs \<or> x \<le> a \<Longrightarrow> x \<le> fold max xs (a :: nat)"
proof (induction xs arbitrary: a)
  case (Cons y xs)
  then have "x \<in> set xs \<or> x \<le> max y a" by (auto simp: le_max_iff_disj)
  from Cons.IH [OF this] show ?case by simp
qed simp

lemma pool_get_fresh: "pool_get t \<notin> set (t_list t)"
proof
  assume "pool_get t \<in> set (t_list t)"
  then have "pool_get t \<le> fold max (t_list t @ t_gc t) 0" by (intro fold_max_ge) simp
  then show False unfolding pool_get_def by linarith
qed

lemma netmask_none: "addr_valid a \<Longrightarrow> npf_netmask_check (length a) NPF_NO_NETMASK = None"
  by (auto simp: addr_valid_def npf_netmask_check_def)

lemma ipset_get_iff:
  "ipset_ok L t \<Longrightarrow> thmap_get (lib_map L) (t_map t) k = Some e \<longleftrightarrow> e \<in> set (t_list t) \<and> te_key t e = k"
  by (simp add: ipset_ok_def)

lemma ipset_insert_law:
  assumes T: "thmap_laws (lib_map L)" and ok: "ipset_ok L t" and a: "addr_valid a"
    and ent: "ent \<notin> set (t_list t)"
    and r: "npf_table_insert L mem ent t (length a) a NPF_NO_NETMASK = (r, t')"
  shows "ipset_ok L t' \<and> ipset_addrs L t' = insert a (ipset_addrs L t) \<and>
    r = (if a \<in> ipset_addrs L t then Some EEXIST else None)"
proof -
  let ?M = "lib_map L"
  obtain u m where p: "thmap_put ?M (t_map t) a ent = (u, m)" by force
  have ty: "t_type t = NPF_TABLE_IPSET" using ok by (simp add: ipset_ok_def)
  have pu: "u = (case thmap_get ?M (t_map t) a of None \<Rightarrow> ent | Some u \<Rightarrow> u)"
    and pm: "thmap_get ?M m = (case thmap_get ?M (t_map t) a of None \<Rightarrow> (thmap_get ?M (t_map t))(a \<mapsto> ent)
        | Some u \<Rightarrow> thmap_get ?M (t_map t))"
    using thmap_put_ret [OF T, of "t_map t" a ent] thmap_get_put [OF T, of "t_map t" a ent] p by auto
  show ?thesis
  proof (cases "thmap_get ?M (t_map t) a")
    case (Some v)
    then have "v \<in> set (t_list t)" using ipset_get_iff [OF ok, of a v] by simp
    then have "v \<noteq> ent" using ent by auto
    then have e: "r = Some EEXIST" "t' = t\<lparr> t_map := m \<rparr>"
      using r p pu Some ty netmask_none [OF a] by (auto simp: npf_table_insert_def Let_def)
    have pm': "thmap_get ?M m = thmap_get ?M (t_map t)" using pm Some by simp
    have "ipset_ok L t'" using ok unfolding ipset_ok_def te_key_def e(2) by (simp add: pm')
    then show ?thesis using Some e(1) by (auto simp: ipset_addrs_def e(2) pm')
  next
    case None
    then have e: "r = None" "t' = t\<lparr> t_map := m, t_list := ent # t_list t, t_nitems := t_nitems t + 1,
        t_heap := (t_heap t)(ent := \<lparr> te_preflen = 0, te_alen = length a, te_addr = a \<rparr>) \<rparr>"
      using r p pu ty netmask_none [OF a] by (auto simp: npf_table_insert_def Let_def)
    have k: "te_key t' e = (if e = ent then a else te_key t e)" for e by (simp add: e te_key_def)
    have na: "te_key t e \<noteq> a" if "e \<in> set (t_list t)" for e
      using ipset_get_iff [OF ok, of a e] that None by auto
    have "thmap_get ?M (t_map t') k' = Some e \<longleftrightarrow> e \<in> set (t_list t') \<and> te_key t' e = k'" for k' e
      using ipset_get_iff [OF ok, of k' e] None pm ent na unfolding k by (auto simp: e)
    then have "ipset_ok L t'" using ok ent by (simp add: ipset_ok_def e)
    moreover have "ipset_addrs L t' = insert a (ipset_addrs L t)"
      using None pm by (auto simp: ipset_addrs_def e)
    ultimately show ?thesis using None e(1) by (simp add: ipset_addrs_def)
  qed
qed

lemma ipset_remove_law:
  assumes T: "thmap_laws (lib_map L)" and ok: "ipset_ok L t" and a: "addr_valid a"
    and r: "npf_table_remove L t (length a) a NPF_NO_NETMASK = (r, t')"
  shows "ipset_ok L t' \<and> ipset_addrs L t' = ipset_addrs L t - {a} \<and>
    r = (if a \<in> ipset_addrs L t then None else Some ENOENT)"
proof -
  let ?M = "lib_map L"
  obtain u m where d: "thmap_del ?M (t_map t) a = (u, m)" by force
  have ty: "t_type t = NPF_TABLE_IPSET" using ok by (simp add: ipset_ok_def)
  have u: "u = thmap_get ?M (t_map t) a" and m: "thmap_get ?M m = (thmap_get ?M (t_map t))(a := None)"
    using thmap_del_ret [OF T, of "t_map t" a] thmap_get_del [OF T, of "t_map t" a] d by auto
  have addrs: "{k. thmap_get ?M m k \<noteq> None} = ipset_addrs L t - {a}" by (auto simp: ipset_addrs_def m)
  show ?thesis
  proof (cases u)
    case None
    then have e: "r = Some ENOENT" "t' = t\<lparr> t_map := m \<rparr>"
      using r d ty netmask_none [OF a] by (auto simp: npf_table_remove_def)
    have m': "thmap_get ?M m = thmap_get ?M (t_map t)" using None u m by auto
    have "ipset_ok L t'" using ok unfolding ipset_ok_def te_key_def e(2) by (simp add: m')
    then show ?thesis using None u e addrs by (simp add: ipset_addrs_def)
  next
    case (Some e)
    then have t': "r = None" "t' = t\<lparr> t_map := m, t_list := remove1 e (t_list t), t_gc := e # t_gc t,
        t_nitems := t_nitems t - 1 \<rparr>"
      using r d ty netmask_none [OF a] by (auto simp: npf_table_remove_def)
    have el: "e \<in> set (t_list t)" "te_key t e = a" using ipset_get_iff [OF ok, of a e] Some u by auto
    have dl: "distinct (t_list t)" "t_nitems t = length (t_list t)" using ok by (auto simp: ipset_ok_def)
    have g: "thmap_get ?M (t_map t') k = Some x \<longleftrightarrow> x \<in> set (t_list t') \<and> te_key t' x = k" for k x
    proof -
      have "te_key t x = a \<Longrightarrow> x \<in> set (t_list t) \<Longrightarrow> x = e"
        using ipset_get_iff [OF ok, of a x] Some u by auto
      then show ?thesis using ipset_get_iff [OF ok, of k x] el dl m
        by (auto simp: t'(2) te_key_def)
    qed
    have "ipset_ok L t'" unfolding ipset_ok_def using g el dl ty by (simp add: t'(2) length_remove1)
    then show ?thesis using Some u t' addrs by (simp add: ipset_addrs_def)
  qed
qed

lemma ipset_flush_law:
  assumes T: "thmap_laws (lib_map L)" and ok: "ipset_ok L t" and r: "npf_table_flush L t = (r, t')"
  shows "ipset_ok L t' \<and> ipset_addrs L t' = {} \<and> r = None"
proof -
  have ty: "t_type t = NPF_TABLE_IPSET" using ok by (simp add: ipset_ok_def)
  have e: "r = None" "t' = table_ipset_flush L t" using r ty by (auto simp: npf_table_flush_def)
  have "thmap_get (lib_map L) (t_map t') k = None" for k
  proof (cases "thmap_get (lib_map L) (t_map t) k")
    case (Some x)
    then have "x \<in> set (t_list t)" "te_key t x = k" using ipset_get_iff [OF ok, of k x] by auto
    then have "k \<in> te_key t ` set (t_list t)" by blast
    then show ?thesis by (simp add: e(2) table_ipset_flush_def thmap_get_fold_del [OF T] te_key_def)
  qed (simp add: e(2) table_ipset_flush_def thmap_get_fold_del [OF T])
  then show ?thesis using e ty by (simp add: ipset_ok_def ipset_addrs_def table_ipset_flush_def)
qed

lemma ipset_lookup_law:
  assumes "ipset_ok L t" "addr_valid a"
  shows "npf_table_lookup L t (length a) a = (if a \<in> ipset_addrs L t then None else Some ENOENT)"
  using assms netmask_none [OF assms(2)] by (simp add: npf_table_lookup_def ipset_ok_def ipset_addrs_def)

lemma ipset_create:
  assumes "thmap_laws (lib_map L)" "npf_table_create L name tid NPF_TABLE_IPSET blob = Some t"
  shows "ipset_ok L t \<and> ipset_addrs L t = {}"
  using assms by (auto simp: npf_table_create_def Let_def ipset_ok_def ipset_addrs_def thmap_get_create)

definition ipset_insert ::
  "('m, 'l, 'c) table_libs \<Rightarrow> bool \<Rightarrow> ('m, 'l, 'c) npf_table \<Rightarrow> u8 list \<Rightarrow> errno option \<times> ('m, 'l, 'c) npf_table" where
  "ipset_insert L mem t a = npf_table_insert L mem (pool_get t) t (length a) a NPF_NO_NETMASK"

definition ipset_remove ::
  "('m, 'l, 'c) table_libs \<Rightarrow> ('m, 'l, 'c) npf_table \<Rightarrow> u8 list \<Rightarrow> errno option \<times> ('m, 'l, 'c) npf_table" where
  "ipset_remove L t a = npf_table_remove L t (length a) a NPF_NO_NETMASK"

interpretation ipset: address_set "ipset_insert L mem" "ipset_remove L" "npf_table_flush L"
  "\<lambda>t a. npf_table_lookup L t (length a) a" "ipset_addrs L" addr_valid
  "\<lambda>t. thmap_laws (lib_map L) \<and> ipset_ok L t" for L mem
proof
  fix t a r t'
  assume ok: "thmap_laws (lib_map L) \<and> ipset_ok L t" and a: "addr_valid a"
  show "ipset_insert L mem t a = (r, t') \<Longrightarrow> (thmap_laws (lib_map L) \<and> ipset_ok L t') \<and>
      ipset_addrs L t' = insert a (ipset_addrs L t) \<and> r = (if a \<in> ipset_addrs L t then Some EEXIST else None)"
    using ipset_insert_law [OF _ _ a pool_get_fresh] ok unfolding ipset_insert_def by blast
  show "ipset_remove L t a = (r, t') \<Longrightarrow> (thmap_laws (lib_map L) \<and> ipset_ok L t') \<and>
      ipset_addrs L t' = ipset_addrs L t - {a} \<and> r = (if a \<in> ipset_addrs L t then None else Some ENOENT)"
    using ipset_remove_law [OF _ _ a] ok unfolding ipset_remove_def by blast
  show "npf_table_lookup L t (length a) a = (if a \<in> ipset_addrs L t then None else Some ENOENT)"
    using ipset_lookup_law [OF _ a] ok by blast
next
  fix t r t'
  assume "thmap_laws (lib_map L) \<and> ipset_ok L t" "npf_table_flush L t = (r, t')"
  then show "(thmap_laws (lib_map L) \<and> ipset_ok L t') \<and> ipset_addrs L t' = {} \<and> r = None"
    using ipset_flush_law by blast
qed

section \<open>Longest prefix match\<close>

text \<open>
  The documented behaviour of the library, over the entries \<open>E l\<close> of the tree: prefixes (the
  address length and the bits) with their values.  A lookup returns the value of the longest
  prefix of the address.
\<close>

definition addr_bits :: "nat \<Rightarrow> u8 list \<Rightarrow> bool list" where
  "addr_bits alen a = map (addr_bit a) [0..<8 * alen]"

fun lpm_best :: "(nat \<times> bool list \<Rightarrow> 'v option) \<Rightarrow> nat \<Rightarrow> bool list \<Rightarrow> nat \<Rightarrow> 'v option" where
  "lpm_best m alen bits 0 = m (alen, [])"
| "lpm_best m alen bits (Suc n) =
    (case m (alen, take (Suc n) bits) of Some v \<Rightarrow> Some v | None \<Rightarrow> lpm_best m alen bits n)"

definition lpm_laws :: "('l \<Rightarrow> nat \<times> bool list \<Rightarrow> 'v option) \<Rightarrow> ('l, 'v) lpm_ops \<Rightarrow> bool" where
  "lpm_laws E P \<longleftrightarrow>
     E (lpm_create P) = Map.empty \<and>
     (\<forall>l a n. lpm_lookup P l a n = lpm_best (E l) n (addr_bits n a) (8 * n)) \<and>
     (\<forall>l a n p v. p \<le> 8 * n \<longrightarrow> E l (n, take p (addr_bits n a)) = None \<longrightarrow>
        fst (lpm_insert P l a n p v) = 0 \<and>
        E (snd (lpm_insert P l a n p v)) = (E l)((n, take p (addr_bits n a)) \<mapsto> v)) \<and>
     (\<forall>l a n p. E (lpm_remove P l a n p) = (E l)((n, take p (addr_bits n a)) := None)) \<and>
     (\<forall>l. E (lpm_clear P l) = Map.empty)"

definition fun_lpm :: "(nat \<times> bool list \<Rightarrow> 'v option, 'v) lpm_ops" where
  "fun_lpm = \<lparr>
     lpm_create = Map.empty,
     lpm_lookup = (\<lambda>l a n. lpm_best l n (addr_bits n a) (8 * n)),
     lpm_insert = (\<lambda>l a n p v. (0, l((n, take p (addr_bits n a)) \<mapsto> v))),
     lpm_remove = (\<lambda>l a n p. l((n, take p (addr_bits n a)) := None)),
     lpm_clear = (\<lambda>l. Map.empty) \<rparr>"

lemma fun_lpm_laws: "lpm_laws (\<lambda>l. l) fun_lpm"
  by (simp add: lpm_laws_def fun_lpm_def)

lemma lpm_best_iff: "lpm_best m alen bits n \<noteq> None \<longleftrightarrow> (\<exists>p\<le>n. m (alen, take p bits) \<noteq> None)"
proof (induction n)
  case (Suc n)
  then show ?case by (auto simp: le_Suc_eq split: option.split)
qed simp

lemma lpm_lookup_best: "lpm_laws E P \<Longrightarrow> lpm_lookup P l a n = lpm_best (E l) n (addr_bits n a) (8 * n)"
  by (simp add: lpm_laws_def)

lemma lpm_insert_new:
  "lpm_laws E P \<Longrightarrow> p \<le> 8 * n \<Longrightarrow> E l (n, take p (addr_bits n a)) = None \<Longrightarrow> lpm_insert P l a n p v = (u, l') \<Longrightarrow>
   u = 0 \<and> E l' = (E l)((n, take p (addr_bits n a)) \<mapsto> v)"
  unfolding lpm_laws_def by (metis fst_conv snd_conv)

definition ent_prefix :: "npf_tblent \<Rightarrow> nat \<times> bool list" where
  "ent_prefix e = (te_alen e, take (te_preflen e) (addr_bits (te_alen e) (te_addr e)))"

definition lpm_table_ok ::
  "('l \<Rightarrow> nat \<times> bool list \<Rightarrow> nat option) \<Rightarrow> ('m, 'l, 'c) npf_table \<Rightarrow> bool" where
  "lpm_table_ok E t \<longleftrightarrow> t_type t = NPF_TABLE_LPM \<and> distinct (t_list t) \<and> t_nitems t = length (t_list t) \<and>
     (\<forall>k e. E (t_lpm t) k = Some e \<longleftrightarrow> e \<in> set (t_list t) \<and> ent_prefix (t_heap t e) = k) \<and>
     (\<forall>e \<in> set (t_list t). te_preflen (t_heap t e) \<le> 8 * te_alen (t_heap t e))"

text \<open>An entry covers the addresses that have its prefix.\<close>

definition ent_covers :: "npf_tblent \<Rightarrow> u8 list \<Rightarrow> bool" where
  "ent_covers e a \<longleftrightarrow> te_alen e = length a \<and>
     (\<forall>k < te_preflen e. addr_bit (te_addr e) k = addr_bit a k)"

lemma take_addr_bits_eq:
  assumes "p \<le> 8 * n"
  shows "take p (addr_bits n a) = take p (addr_bits n b) \<longleftrightarrow> (\<forall>k<p. addr_bit a k = addr_bit b k)"
  using assms by (auto simp: addr_bits_def list_eq_iff_nth_eq take_map)

lemma length_take_addr_bits: "p \<le> 8 * n \<Longrightarrow> length (take p (addr_bits n a)) = p"
  by (simp add: addr_bits_def)

lemma lpm_get_iff:
  "lpm_table_ok E t \<Longrightarrow> E (t_lpm t) k = Some e \<longleftrightarrow> e \<in> set (t_list t) \<and> ent_prefix (t_heap t e) = k"
  unfolding lpm_table_ok_def by blast

lemma lpm_lookup_covers:
  assumes P: "lpm_laws E (lib_lpm L)" and ok: "lpm_table_ok E t"
  shows "lpm_lookup (lib_lpm L) (t_lpm t) a (length a) \<noteq> None \<longleftrightarrow>
    (\<exists>e \<in> set (t_list t). ent_covers (t_heap t e) a)"
proof -
  let ?n = "length a"
  have "lpm_lookup (lib_lpm L) (t_lpm t) a ?n \<noteq> None \<longleftrightarrow>
      (\<exists>p\<le>8 * ?n. E (t_lpm t) (?n, take p (addr_bits ?n a)) \<noteq> None)"
    unfolding lpm_lookup_best [OF P] lpm_best_iff by (rule refl)
  also have "\<dots> \<longleftrightarrow> (\<exists>p\<le>8 * ?n. \<exists>e \<in> set (t_list t). ent_prefix (t_heap t e) = (?n, take p (addr_bits ?n a)))"
    using ok by (auto simp: lpm_table_ok_def)
  also have "\<dots> \<longleftrightarrow> (\<exists>e \<in> set (t_list t). ent_covers (t_heap t e) a)"
  proof
    assume "\<exists>p\<le>8 * ?n. \<exists>e \<in> set (t_list t). ent_prefix (t_heap t e) = (?n, take p (addr_bits ?n a))"
    then obtain p e where e: "p \<le> 8 * ?n" "e \<in> set (t_list t)" "te_alen (t_heap t e) = ?n"
      "take (te_preflen (t_heap t e)) (addr_bits ?n (te_addr (t_heap t e))) = take p (addr_bits ?n a)"
      by (auto simp: ent_prefix_def)
    have "te_preflen (t_heap t e) \<le> 8 * ?n" using ok e(2,3) by (auto simp: lpm_table_ok_def)
    then have "te_preflen (t_heap t e) = p" using e(1,4) length_take_addr_bits by metis
    then have "ent_covers (t_heap t e) a" using e take_addr_bits_eq [OF e(1)] by (simp add: ent_covers_def)
    then show "\<exists>e \<in> set (t_list t). ent_covers (t_heap t e) a" using e(2) by blast
  next
    assume "\<exists>e \<in> set (t_list t). ent_covers (t_heap t e) a"
    then obtain e where e: "e \<in> set (t_list t)" "ent_covers (t_heap t e) a" by blast
    have p: "te_preflen (t_heap t e) \<le> 8 * ?n" using ok e by (auto simp: lpm_table_ok_def ent_covers_def)
    then have "ent_prefix (t_heap t e) = (?n, take (te_preflen (t_heap t e)) (addr_bits ?n a))"
      using e(2) take_addr_bits_eq [OF p] by (simp add: ent_prefix_def ent_covers_def)
    then show "\<exists>p\<le>8 * ?n. \<exists>e \<in> set (t_list t). ent_prefix (t_heap t e) = (?n, take p (addr_bits ?n a))"
      using p e(1) by blast
  qed
  finally show ?thesis .
qed

lemma lpm_lookup_iff:
  assumes "lpm_laws E (lib_lpm L)" "lpm_table_ok E t" "addr_valid a"
  shows "npf_table_lookup L t (length a) a = (if \<exists>e \<in> set (t_list t). ent_covers (t_heap t e) a then None else Some ENOENT)"
proof -
  have "t_type t = NPF_TABLE_LPM" using assms(2) by (simp add: lpm_table_ok_def)
  then show ?thesis
    using netmask_none [OF assms(3)] lpm_lookup_covers [OF assms(1,2), of a] by (simp add: npf_table_lookup_def)
qed

lemma lpm_insert_ok:
  assumes P: "lpm_laws E (lib_lpm L)" and ok: "lpm_table_ok E t" and a: "addr_valid a"
    and m: "npf_netmask_check (length a) nmask = None" and ent: "ent \<notin> set (t_list t)"
    and r: "npf_table_insert L mem ent t (length a) a nmask = (r, t')"
  defines "obj \<equiv> \<lparr> te_preflen = (if nmask = NPF_NO_NETMASK then length a * 8 else nmask), te_alen = length a, te_addr = a \<rparr>"
  shows "(\<exists>e \<in> set (t_list t). ent_covers (t_heap t e) a) \<Longrightarrow> r = Some EEXIST \<and> t' = t"
    "\<not> (\<exists>e \<in> set (t_list t). ent_covers (t_heap t e) a) \<Longrightarrow>
       r = None \<and> lpm_table_ok E t' \<and> t_list t' = ent # t_list t \<and> t_heap t' = (t_heap t)(ent := obj)"
proof -
  let ?n = "length a" and ?p = "te_preflen obj"
  have ty: "t_type t = NPF_TABLE_LPM" using ok by (simp add: lpm_table_ok_def)
  note c = lpm_lookup_covers [OF P ok, of a]
  show "r = Some EEXIST \<and> t' = t" if "\<exists>e \<in> set (t_list t). ent_covers (t_heap t e) a"
    using r m ty c that by (auto simp: npf_table_insert_def Let_def)
  have p: "?p \<le> 8 * ?n" using a m by (auto simp: obj_def addr_valid_def npf_netmask_check_def split: if_splits)
  show "r = None \<and> lpm_table_ok E t' \<and> t_list t' = ent # t_list t \<and> t_heap t' = (t_heap t)(ent := obj)"
    if nc: "\<not> (\<exists>e \<in> set (t_list t). ent_covers (t_heap t e) a)"
  proof -
    let ?k = "(?n, take ?p (addr_bits ?n a))"
    have new: "E (t_lpm t) ?k = None"
    proof (rule ccontr)
      assume "E (t_lpm t) ?k \<noteq> None"
      then have "lpm_lookup (lib_lpm L) (t_lpm t) a ?n \<noteq> None"
        unfolding lpm_lookup_best [OF P] lpm_best_iff using p by blast
      then show False using c nc by simp
    qed
    obtain u l where i: "lpm_insert (lib_lpm L) (t_lpm t) a ?n ?p ent = (u, l)" by force
    have "u = 0" and E: "E l = (E (t_lpm t))(?k \<mapsto> ent)"
      using lpm_insert_new [OF P p new i] by blast+
    then have e: "r = None" "t' = t\<lparr> t_lpm := l, t_list := ent # t_list t, t_nitems := t_nitems t + 1,
        t_heap := (t_heap t)(ent := obj) \<rparr>"
      using r m ty c nc i by (auto simp: npf_table_insert_def Let_def obj_def)
    have k: "ent_prefix obj = ?k" by (simp add: ent_prefix_def obj_def)
    have nk: "ent_prefix (t_heap t e) \<noteq> ?k" if "e \<in> set (t_list t)" for e
      using lpm_get_iff [OF ok, of ?k e] new that by auto
    have g: "E l k' = Some e \<longleftrightarrow> e \<in> set (ent # t_list t) \<and> ent_prefix (((t_heap t)(ent := obj)) e) = k'" for k' e
      using lpm_get_iff [OF ok, of k' e] nk ent k unfolding E by auto
    have "\<forall>e \<in> set (t_list t). te_preflen (t_heap t e) \<le> 8 * te_alen (t_heap t e)"
      using ok by (simp add: lpm_table_ok_def)
    then have "lpm_table_ok E t'"
      unfolding lpm_table_ok_def e(2) using ok ent p g by (simp add: lpm_table_ok_def obj_def)
    then show ?thesis by (simp add: e)
  qed
qed

section \<open>Table sets\<close>

definition tableset_ok :: "('m, 'l, 'c) tables \<Rightarrow> npf_tableset \<Rightarrow> bool" where
  "tableset_ok H ts \<longleftrightarrow> length (ts_map ts) = ts_nitems ts \<and>
     (\<forall>i<ts_nitems ts. \<forall>p. ts_map ts ! i = Some p \<longrightarrow> p \<in> dom H \<and> t_id (table_ref H p) = i \<and>
        t_refcnt (table_ref H p) > 0) \<and>
     (\<forall>i<ts_nitems ts. \<forall>j<ts_nitems ts. \<forall>p q. ts_map ts ! i = Some p \<longrightarrow> ts_map ts ! j = Some q \<longrightarrow>
        t_name (table_ref H p) = t_name (table_ref H q) \<longrightarrow> i = j)"

lemma tableset_find_Some:
  "tableset_find H ps name = Some p \<Longrightarrow> Some p \<in> set ps \<and> t_name (table_ref H p) = name"
  by (induction H ps name rule: tableset_find.induct) (auto split: if_splits)

lemma tableset_find_None:
  "tableset_find H ps name = None \<Longrightarrow> Some p \<in> set ps \<Longrightarrow> t_name (table_ref H p) \<noteq> name"
  by (induction H ps name rule: tableset_find.induct) (auto split: if_splits)

lemma getbyname_unique:
  assumes ok: "tableset_ok H ts" and i: "i < ts_nitems ts" "ts_map ts ! i = Some p"
  shows "npf_tableset_getbyname H ts (t_name (table_ref H p)) = Some p"
proof -
  let ?r = "npf_tableset_getbyname H ts (t_name (table_ref H p))"
  have l: "length (ts_map ts) = ts_nitems ts" using ok by (simp add: tableset_ok_def)
  have "Some p \<in> set (ts_map ts)" using i l by (metis nth_mem)
  then obtain q where q: "?r = Some q"
    using tableset_find_None [of H "ts_map ts" "t_name (table_ref H p)" p] l
    by (cases ?r) (auto simp: npf_tableset_getbyname_def)
  then have "Some q \<in> set (ts_map ts)" "t_name (table_ref H q) = t_name (table_ref H p)"
    using tableset_find_Some [of H "ts_map ts"] l by (auto simp: npf_tableset_getbyname_def)
  then obtain j where "j < ts_nitems ts" "ts_map ts ! j = Some q" using l by (metis in_set_conv_nth)
  then show ?thesis using ok i q \<open>t_name (table_ref H q) = t_name (table_ref H p)\<close>
    unfolding tableset_ok_def by (metis option.inject)
qed

lemma getbyname_Some:
  assumes "tableset_ok H ts" "npf_tableset_getbyname H ts name = Some p"
  obtains i where "i < ts_nitems ts" "ts_map ts ! i = Some p" "t_name (table_ref H p) = name"
proof -
  have l: "length (ts_map ts) = ts_nitems ts" using assms(1) by (simp add: tableset_ok_def)
  have "Some p \<in> set (ts_map ts)" "t_name (table_ref H p) = name"
    using tableset_find_Some [of H "ts_map ts"] assms(2) l by (auto simp: npf_tableset_getbyname_def)
  then show ?thesis using that l by (metis in_set_conv_nth)
qed

lemma table_check_insert:
  assumes ok: "tableset_ok H ts" and c: "npf_table_check H ts name tid type False = None"
    and t: "npf_table_create L name tid type blob = Some t" and p: "p \<notin> dom H"
  obtains ts' H' where "npf_tableset_insert ts p (H(p \<mapsto> t)) = (None, ts', H')" "tableset_ok H' ts'"
    "npf_tableset_getbyname H' ts' name = Some p" "npf_tableset_getbyid ts' tid = Some p"
proof -
  have tid: "tid < ts_nitems ts" "ts_map ts ! tid = None" and nl: "length name < 32"
    and nn: "npf_tableset_getbyname H ts name = None"
    using c by (auto simp: npf_table_check_def split: if_splits option.splits)
  have tn: "t_name t = name" "t_id t = tid" using t nl by (auto simp: npf_table_create_def Let_def split: if_splits option.splits)
  let ?t = "t\<lparr> t_refcnt := t_refcnt t + 1 \<rparr>"
  let ?ts = "ts\<lparr> ts_map := (ts_map ts)[tid := Some p] \<rparr>" and ?H = "H(p \<mapsto> ?t)"
  have l: "length (ts_map ts) = ts_nitems ts" using ok by (simp add: tableset_ok_def)
  have i: "npf_tableset_insert ts p (H(p \<mapsto> t)) = (None, ?ts, ?H)"
    using tid tn by (simp add: npf_tableset_insert_def table_ref_def Let_def)
  have old: "q \<noteq> p \<and> table_ref ?H q = table_ref H q \<and> t_name (table_ref H q) \<noteq> name"
    if "j < ts_nitems ts" "ts_map ts ! j = Some q" for j q
  proof -
    have "q \<in> dom H" using ok that by (auto simp: tableset_ok_def)
    moreover have "Some q \<in> set (ts_map ts)" using that l by (metis nth_mem)
    ultimately show ?thesis
      using p tableset_find_None [of H "ts_map ts" name q] nn l by (auto simp: npf_tableset_getbyname_def table_ref_def)
  qed
  have new: "table_ref ?H p = ?t" by (simp add: table_ref_def)
  have slot: "ts_map ?ts ! j = (if j = tid then Some p else ts_map ts ! j)" if "j < ts_nitems ts" for j
    using tid l by (simp add: nth_list_update)
  have "tableset_ok ?H ?ts"
    unfolding tableset_ok_def
  proof (intro conjI allI impI)
    show "length (ts_map ?ts) = ts_nitems ?ts" using l by simp
  next
    fix j q assume j: "j < ts_nitems ?ts" "ts_map ?ts ! j = Some q"
    then show "q \<in> dom ?H" "t_id (table_ref ?H q) = j" "t_refcnt (table_ref ?H q) > 0"
      using slot [of j] old [of j q] ok new tn by (auto simp: tableset_ok_def split: if_splits)
  next
    fix j j' q q'
    assume j: "j < ts_nitems ?ts" "j' < ts_nitems ?ts" "ts_map ?ts ! j = Some q" "ts_map ?ts ! j' = Some q'"
      "t_name (table_ref ?H q) = t_name (table_ref ?H q')"
    have name: "t_name (table_ref ?H x) = (if k = tid then name else t_name (table_ref H x))"
      if "k < ts_nitems ts" "ts_map ?ts ! k = Some x" for k x
      using slot [OF that(1)] old [of k x] that new tn by (cases "k = tid") auto
    show "j = j'"
    proof (cases "j = tid \<or> j' = tid")
      case True
      then show ?thesis using name [of j q] name [of j' q'] j slot [of j] slot [of j'] old [of j q] old [of j' q']
        by (auto split: if_splits)
    next
      case False
      then have "ts_map ts ! j = Some q" "ts_map ts ! j' = Some q'" "t_name (table_ref H q) = t_name (table_ref H q')"
        using j slot [of j] slot [of j'] name [of j q] name [of j' q'] by auto
      then show ?thesis using ok j(1,2) unfolding tableset_ok_def by simp
    qed
  qed
  moreover have "npf_tableset_getbyname ?H ?ts name = Some p"
    using getbyname_unique [OF calculation, of tid p] tid slot new tn by simp
  moreover have "npf_tableset_getbyid ?ts tid = Some p" using tid slot by (simp add: npf_tableset_getbyid_def)
  ultimately show ?thesis using that i by blast
qed

subsection \<open>Reload\<close>

text \<open>Tables that differ in the reference count and the identifier only.\<close>

definition same_table :: "('m, 'l, 'c) npf_table \<Rightarrow> ('m, 'l, 'c) npf_table \<Rightarrow> bool" where
  "same_table t t' \<longleftrightarrow> t'\<lparr> t_refcnt := t_refcnt t, t_id := t_id t \<rparr> = t"

lemma same_table_refl [simp]: "same_table t t"
  by (simp add: same_table_def)

lemma same_table_fields:
  "same_table t t' \<Longrightarrow> t_name t' = t_name t \<and> t_type t' = t_type t \<and> t_nitems t' = t_nitems t \<and>
     t_list t' = t_list t \<and> t_map t' = t_map t"
proof -
  assume h: "same_table t t'"
  note e = arg_cong [OF h [unfolded same_table_def]]
  show ?thesis using e [of t_name] e [of t_type] e [of t_nitems] e [of t_list] e [of t_map] by simp
qed

lemma same_table_update: "same_table t t' \<Longrightarrow> same_table t (t'\<lparr> t_refcnt := a, t_id := b \<rparr>)"
  by (simp add: same_table_def)

text \<open>The old table that is kept in place of the new table \<open>p\<close>, if any.\<close>

definition reload_pick :: "('m, 'l, 'c) tables \<Rightarrow> npf_tableset \<Rightarrow> nat \<Rightarrow> nat option" where
  "reload_pick H ots p =
    (if t_nitems (table_ref H p) \<noteq> 0 then None
     else case npf_tableset_getbyname H ots (t_name (table_ref H p)) of
       None \<Rightarrow> None
     | Some q \<Rightarrow> if t_type (table_ref H p) \<noteq> t_type (table_ref H q) then None else Some q)"

definition reload_slot :: "('m, 'l, 'c) tables \<Rightarrow> npf_tableset \<Rightarrow> npf_tableset \<Rightarrow> nat \<Rightarrow> nat option" where
  "reload_slot H nts ots tid =
    (case ts_map nts ! tid of
       None \<Rightarrow> None
     | Some p \<Rightarrow> Some (case reload_pick H ots p of None \<Rightarrow> p | Some q \<Rightarrow> q))"

lemma reload1_keep:
  "ts_map n ! k = None \<or> (\<exists>p. ts_map n ! k = Some p \<and> reload_pick G ots p = None) \<Longrightarrow>
   tableset_reload1 ots k (n, G) = (n, G)"
  by (auto simp: tableset_reload1_def reload_pick_def Let_def split: option.splits if_splits)

lemma reload1_take:
  assumes "ts_map n ! k = Some p" "reload_pick G ots p = Some q" "p \<noteq> q"
  shows "tableset_reload1 ots k (n, G) = (n\<lparr> ts_map := (ts_map n)[k := Some q] \<rparr>,
    (G(q \<mapsto> (table_ref G q)\<lparr> t_refcnt := t_refcnt (table_ref G q) + 1, t_id := k \<rparr>))(p := None))"
  using assms
  by (simp add: tableset_reload1_def reload_pick_def Let_def npf_table_destroy_def split: option.splits if_splits)

lemma tableset_find_cong:
  "(\<And>p. Some p \<in> set ps \<Longrightarrow> t_name (table_ref H' p) = t_name (table_ref H p)) \<Longrightarrow>
   tableset_find H' ps name = tableset_find H ps name"
  by (induction H ps name rule: tableset_find.induct) auto

lemma getbyname_in_set:
  assumes "npf_tableset_getbyname H ts name = Some q"
  shows "Some q \<in> set (ts_map ts)"
  using assms tableset_find_Some [of H "take (ts_nitems ts) (ts_map ts)" name q]
  by (auto simp: npf_tableset_getbyname_def dest: in_set_takeD)

lemma reload_pick_in_set: "reload_pick H ots p = Some q \<Longrightarrow> Some q \<in> set (ts_map ots)"
  by (auto simp: reload_pick_def getbyname_in_set split: if_splits option.splits)

lemma reload_pick_cong:
  assumes "\<And>q. Some q \<in> set (ts_map ots) \<Longrightarrow> same_table (table_ref H q) (table_ref G q)"
    and "table_ref G p = table_ref H p"
  shows "reload_pick G ots p = reload_pick H ots p"
proof -
  have f: "npf_tableset_getbyname G ots nm = npf_tableset_getbyname H ots nm" for nm
    unfolding npf_tableset_getbyname_def
    by (rule tableset_find_cong) (use assms(1) same_table_fields in \<open>blast dest: in_set_takeD\<close>)
  have "t_type (table_ref G q) = t_type (table_ref H q)" if "npf_tableset_getbyname H ots nm = Some q" for nm q
    using same_table_fields [OF assms(1) [OF getbyname_in_set [OF that]]] by simp
  then show ?thesis unfolding reload_pick_def f assms(2) by (simp split: option.split)
qed

definition reload_inv ::
  "('m, 'l, 'c) tables \<Rightarrow> npf_tableset \<Rightarrow> npf_tableset \<Rightarrow> nat \<Rightarrow> npf_tableset \<times> ('m, 'l, 'c) tables \<Rightarrow> bool" where
  "reload_inv H nts ots k st \<longleftrightarrow> ts_nitems (fst st) = ts_nitems nts \<and> length (ts_map (fst st)) = ts_nitems nts \<and>
     (\<forall>i<ts_nitems nts. ts_map (fst st) ! i = (if i < k then reload_slot H nts ots i else ts_map nts ! i)) \<and>
     (\<forall>i<ts_nitems nts. \<forall>p. k \<le> i \<longrightarrow> ts_map nts ! i = Some p \<longrightarrow> snd st p = H p) \<and>
     (\<forall>q. Some q \<in> set (ts_map ots) \<longrightarrow> q \<in> dom (snd st) \<and> same_table (table_ref H q) (table_ref (snd st) q))"

lemma reload_inv_new:
  "reload_inv H nts ots k (n, G) \<Longrightarrow> i < ts_nitems nts \<Longrightarrow> k \<le> i \<Longrightarrow> ts_map nts ! i = Some p \<Longrightarrow> G p = H p"
  unfolding reload_inv_def snd_conv by blast

lemma reload_step:
  assumes ok: "tableset_ok H nts"
    and dis: "\<And>p. Some p \<in> set (ts_map nts) \<Longrightarrow> Some p \<notin> set (ts_map ots)"
    and k: "k < ts_nitems nts" and iv: "reload_inv H nts ots k (n, G)"
  shows "reload_inv H nts ots (Suc k) (tableset_reload1 ots k (n, G))"
proof -
  have ln: "length (ts_map nts) = ts_nitems nts" using ok by (simp add: tableset_ok_def)
  have mem: "Some p \<in> set (ts_map nts)" if "i < ts_nitems nts" "ts_map nts ! i = Some p" for i p
    using that ln by (metis nth_mem)
  have slotk: "ts_map n ! k = ts_map nts ! k"
    and G: "\<And>q. Some q \<in> set (ts_map ots) \<Longrightarrow> q \<in> dom G \<and> same_table (table_ref H q) (table_ref G q)"
    using iv k by (auto simp: reload_inv_def)
  have keep: "reload_inv H nts ots (Suc k) (n, G)" if "reload_slot H nts ots k = ts_map nts ! k"
    using iv that slotk unfolding reload_inv_def by (simp add: less_Suc_eq)
  show ?thesis
  proof (cases "ts_map nts ! k")
    case None
    have e: "tableset_reload1 ots k (n, G) = (n, G)" by (rule reload1_keep) (simp add: slotk None)
    show ?thesis unfolding e by (rule keep) (simp add: reload_slot_def None)
  next
    case p: (Some p)
    have "G p = H p" by (rule reload_inv_new [OF iv k _ p]) simp
    then have rp: "table_ref G p = table_ref H p" by (simp add: table_ref_def)
    have pick: "reload_pick G ots p = reload_pick H ots p"
      by (rule reload_pick_cong [OF conjunct2 [OF G] rp])
    show ?thesis
    proof (cases "reload_pick H ots p")
      case None
      have e: "tableset_reload1 ots k (n, G) = (n, G)" by (rule reload1_keep) (simp add: slotk p pick None)
      show ?thesis unfolding e by (rule keep) (simp add: reload_slot_def p None)
    next
      case (Some q)
      have qo: "Some q \<in> set (ts_map ots)" by (rule reload_pick_in_set [OF Some])
      have pq: "p \<noteq> q" using dis [OF mem [OF k p]] qo by auto
      define G' where "G' = (G(q \<mapsto> (table_ref G q)\<lparr> t_refcnt := t_refcnt (table_ref G q) + 1, t_id := k \<rparr>))(p := None)"
      have r: "tableset_reload1 ots k (n, G) = (n\<lparr> ts_map := (ts_map n)[k := Some q] \<rparr>, G')"
        unfolding G'_def by (rule reload1_take) (simp_all add: slotk p pick Some pq)
      have slot: "reload_slot H nts ots k = Some q" by (simp add: reload_slot_def p Some)
      have new: "G' p' = H p'" if i: "Suc k \<le> i" "i < ts_nitems nts" "ts_map nts ! i = Some p'" for i p'
      proof -
        have "t_id (table_ref H p') = i" "t_id (table_ref H p) = k" using ok i p k by (auto simp: tableset_ok_def)
        then have "p' \<noteq> p" using i(1) by auto
        moreover have "p' \<noteq> q" using dis [OF mem [OF i(2,3)]] qo by auto
        moreover have "G p' = H p'" by (rule reload_inv_new [OF iv i(2) _ i(3)]) (use i(1) in simp)
        ultimately show ?thesis by (simp add: G'_def)
      qed
      have old: "x \<in> dom G' \<and> same_table (table_ref H x) (table_ref G' x)" if x: "Some x \<in> set (ts_map ots)" for x
      proof -
        have "x \<noteq> p" using dis [OF mem [OF k p]] x by auto
        then show ?thesis using G [OF x] by (cases "x = q") (auto simp: G'_def table_ref_def same_table_update)
      qed
      show ?thesis
        using iv slot k new old unfolding r reload_inv_def by (simp add: nth_list_update less_Suc_eq)
    qed
  qed
qed

lemma reload_fold:
  assumes "tableset_ok H nts" "tableset_ok H ots" "\<And>p. Some p \<in> set (ts_map nts) \<Longrightarrow> Some p \<notin> set (ts_map ots)"
    and "k \<le> ts_nitems nts"
  shows "reload_inv H nts ots k (fold (tableset_reload1 ots) [0..<k] (nts, H))"
  using assms(4)
proof (induction k)
  case 0
  have "q \<in> dom H" if "Some q \<in> set (ts_map ots)" for q
    using assms(2) that unfolding tableset_ok_def by (metis in_set_conv_nth)
  then show ?case using assms(1) by (auto simp: reload_inv_def tableset_ok_def)
next
  case (Suc k)
  then show ?case
    using reload_step [OF assms(1,3), of k "fst (fold (tableset_reload1 ots) [0..<k] (nts, H))"
        "snd (fold (tableset_reload1 ots) [0..<k] (nts, H))"] by simp
qed

section \<open>Properties\<close>

text \<open>
  C18: a hash table of addresses is a set.  After any sequence of insertions, removals and
  flushes of a freshly created table, a lookup finds exactly the addresses that the same
  sequence of operations leaves in a set.
\<close>

theorem npf_table_ipset_refines:
  assumes "thmap_laws (lib_map L)" "npf_table_create L name tid NPF_TABLE_IPSET blob = Some t"
    and "\<forall>x \<in> set ops. table_op_valid addr_valid x" "addr_valid a"
  shows "npf_table_lookup L (table_run (ipset_insert L mem) (ipset_remove L) (npf_table_flush L) ops t) (length a) a =
    (if a \<in> fold table_op_set ops {} then None else Some ENOENT)"
  using ipset.lookup_after_run [of L t ops a mem] ipset_create [OF assms(1,2)] assms by simp

definition fun_libs :: "(u8 list \<Rightarrow> nat option, nat \<times> bool list \<Rightarrow> nat option, unit) table_libs" where
  "fun_libs = \<lparr> lib_map = fun_thmap, lib_lpm = fun_lpm,
     lib_cdb = \<lparr> cdbr_open_mem = (\<lambda>b. None), cdbr_find = (\<lambda>c k. None), cdbr_entries = (\<lambda>c. 0),
                 cdbr_get = (\<lambda>c i. None) \<rparr> \<rparr>"

definition ex_table :: "nat \<Rightarrow> (u8 list \<Rightarrow> nat option, nat \<times> bool list \<Rightarrow> nat option, unit) npf_table" where
  "ex_table type = the (npf_table_create fun_libs ''t'' 0 type [])"

lemma ex_table_create: "type \<noteq> NPF_TABLE_CONST \<Longrightarrow> npf_table_create fun_libs ''t'' 0 type [] = Some (ex_table type)"
  by (simp add: ex_table_def npf_table_create_def Let_def)

theorem npf_table_ipset_refines_witness:
  "npf_table_lookup fun_libs (table_run (ipset_insert fun_libs True) (ipset_remove fun_libs) (npf_table_flush fun_libs)
     [TAdd [10, 0, 0, 1], TAdd [10, 0, 0, 2], TRemove [10, 0, 0, 1]] (ex_table NPF_TABLE_IPSET)) 4 [10, 0, 0, 2] = None"
proof -
  let ?ops = "[TAdd [10, 0, 0, 1], TAdd [10, 0, 0, 2], TRemove [10, 0, 0, 1]] :: u8 list table_op list"
  have "npf_table_lookup fun_libs (table_run (ipset_insert fun_libs True) (ipset_remove fun_libs)
      (npf_table_flush fun_libs) ?ops (ex_table NPF_TABLE_IPSET)) (length [10, 0, 0, 2 :: u8]) [10, 0, 0, 2] =
    (if [10, 0, 0, 2] \<in> fold table_op_set ?ops {} then None else Some ENOENT)"
    by (rule npf_table_ipset_refines [OF _ ex_table_create])
      (simp_all add: fun_libs_def fun_thmap_laws addr_valid_def)
  then show ?thesis by (simp add: eval_nat_numeral)
qed



text \<open>
  In a longest prefix match table a more specific prefix cannot be added under a less
  specific one, although it is not a duplicate, and removing a prefix removes the entry that
  the lookup of its address finds, whatever mask is given: here removing 10.1.0.0/16, which
  is not in the table, removes 10.0.0.0/8.
\<close>

theorem npf_table_lpm_coarse:
  "let t = snd (npf_table_insert fun_libs True 1 (ex_table NPF_TABLE_LPM) 4 [10, 0, 0, 0] 8);
       (r, t') = npf_table_remove fun_libs t 4 [10, 1, 0, 0] 16 in
   fst (npf_table_insert fun_libs True 2 t 4 [10, 1, 0, 0] 16) = Some EEXIST \<and>
   r = None \<and> npf_table_lookup fun_libs t 4 [10, 2, 3, 4] = None \<and>
   npf_table_lookup fun_libs t' 4 [10, 2, 3, 4] = Some ENOENT"
  by code_simp

text \<open>
  C25: what \<open>npf_table_check\<close> accepts can be inserted.  The insertion then succeeds, every
  table of the set keeps its slot and the names stay unique, and the new table is found by
  its name and by its identifier.
\<close>

theorem npf_table_check_insert:
  assumes "tableset_ok H ts" "npf_table_check H ts name tid type False = None"
    and "npf_table_create L name tid type blob = Some t" "p \<notin> dom H"
  shows "\<exists>ts' H'. npf_tableset_insert ts p (H(p \<mapsto> t)) = (None, ts', H') \<and> tableset_ok H' ts' \<and>
    npf_tableset_getbyname H' ts' name = Some p \<and> npf_tableset_getbyid ts' tid = Some p"
  using table_check_insert [OF assms] by blast

lemma tableset_create_ok: "tableset_ok H (npf_tableset_create n)"
  by (simp add: tableset_ok_def npf_tableset_create_def)

theorem npf_table_check_insert_witness:
  "\<exists>ts' H'. npf_tableset_insert (npf_tableset_create 4) 7 (Map.empty(7 \<mapsto> ex_table NPF_TABLE_IPSET)) = (None, ts', H') \<and>
     tableset_ok H' ts' \<and> npf_tableset_getbyname H' ts' ''t'' = Some 7 \<and> npf_tableset_getbyid ts' 0 = Some 7"
proof (rule npf_table_check_insert [OF tableset_create_ok _ ex_table_create])
  show "npf_table_check (Map.empty :: nat \<rightharpoonup> (u8 list \<Rightarrow> nat option, nat \<times> bool list \<Rightarrow> nat option, unit) npf_table)
      (npf_tableset_create 4) ''t'' 0 NPF_TABLE_IPSET False = None"
    by code_simp
qed simp_all

text \<open>
  C24: reload.  A table of the new configuration that has no entries is replaced by the old
  table of the same name and type, with all its entries; every other slot keeps the new table.
\<close>

theorem npf_tableset_reload_keeps:
  assumes "tableset_ok H nts" "tableset_ok H ots"
    and "\<And>p. Some p \<in> set (ts_map nts) \<Longrightarrow> Some p \<notin> set (ts_map ots)"
    and "tid < ts_nitems nts" "ts_map nts ! tid = Some p" "npf_tableset_reload nts ots H = (ts', H')"
  shows "ts_map ts' ! tid =
      (case npf_tableset_getbyname H ots (t_name (table_ref H p)) of
         Some q \<Rightarrow> if t_nitems (table_ref H p) = 0 \<and> t_type (table_ref H p) = t_type (table_ref H q)
                   then Some q else Some p
       | None \<Rightarrow> Some p) \<and>
    (\<forall>q. Some q \<in> set (ts_map ots) \<longrightarrow> same_table (table_ref H q) (table_ref H' q))"
proof -
  have "reload_inv H nts ots (ts_nitems nts) (ts', H')"
    using reload_fold [OF assms(1-3) order_refl] assms(6) by (simp add: npf_tableset_reload_def)
  then have "ts_map ts' ! tid = reload_slot H nts ots tid"
    and "\<forall>q. Some q \<in> set (ts_map ots) \<longrightarrow> same_table (table_ref H q) (table_ref H' q)"
    using assms(4) unfolding reload_inv_def by auto
  then show ?thesis by (simp add: reload_slot_def reload_pick_def assms(5) split: option.split)
qed

text \<open>An old set with one table that has an entry, and a new set with an empty table of the same name.\<close>

definition ex_heap :: "nat \<rightharpoonup> (u8 list \<Rightarrow> nat option, nat \<times> bool list \<Rightarrow> nat option, unit) npf_table" where
  "ex_heap = [1 \<mapsto> (snd (ipset_insert fun_libs True (ex_table NPF_TABLE_IPSET) [10, 0, 0, 1]))\<lparr> t_refcnt := 1 \<rparr>,
              2 \<mapsto> (ex_table NPF_TABLE_IPSET)\<lparr> t_refcnt := 1 \<rparr>]"

definition ex_set :: "nat \<Rightarrow> npf_tableset" where
  "ex_set p = \<lparr> ts_nitems = 1, ts_map = [Some p] \<rparr>"

theorem npf_tableset_reload_keeps_witness: "ts_map (fst (npf_tableset_reload (ex_set 2) (ex_set 1) ex_heap)) ! 0 = Some 1"
proof -
  have f: "t_id (table_ref ex_heap 1) = 0 \<and> t_name (table_ref ex_heap 1) = ''t'' \<and> t_refcnt (table_ref ex_heap 1) = 1 \<and>
      t_type (table_ref ex_heap 1) = NPF_TABLE_IPSET"
    "t_id (table_ref ex_heap 2) = 0 \<and> t_name (table_ref ex_heap 2) = ''t'' \<and> t_refcnt (table_ref ex_heap 2) = 1 \<and>
      t_type (table_ref ex_heap 2) = NPF_TABLE_IPSET \<and> t_nitems (table_ref ex_heap 2) = 0"
    by code_simp+
  have d: "1 \<in> dom ex_heap" "2 \<in> dom ex_heap" by (simp_all add: ex_heap_def)
  have "tableset_ok ex_heap (ex_set 2)" "tableset_ok ex_heap (ex_set 1)"
    using f d by (simp_all add: tableset_ok_def ex_set_def)
  moreover have "npf_tableset_getbyname ex_heap (ex_set 1) ''t'' = Some 1"
    using f by (simp add: npf_tableset_getbyname_def ex_set_def)
  ultimately show ?thesis
    using npf_tableset_reload_keeps [of ex_heap "ex_set 2" "ex_set 1" 0 2
        "fst (npf_tableset_reload (ex_set 2) (ex_set 1) ex_heap)" "snd (npf_tableset_reload (ex_set 2) (ex_set 1) ex_heap)"] f
    by (simp add: ex_set_def)
qed

end
