(* ===== verification/NPF_Bpfcop.thy ===== *)
theory NPF_Bpfcop
  imports NPF_BPF NPF_Tableset
begin

text \<open>
  NPF's BPF context (\<open>src/kern/npf_bpf.c\<close>): the arguments of a filter program, the two
  coprocessor functions and the context they form, for the standalone build.  A filter
  program that was compiled (\<open>bpfjit\<close>) is a function of the arguments.
\<close>

section \<open>The argument of the coprocessor\<close>

text \<open>
  The coprocessor functions get the packet cache and, through the configuration, the tables.
\<close>

record ('m, 'l, 'c) cop_arg =
  ca_npc :: npf_cache
  ca_libs :: "('m, 'l, 'c) table_libs"
  ca_tables :: "('m, 'l, 'c) tables"
  ca_tblset :: npf_tableset

abbreviation BPF_MW_IPVER :: nat where "BPF_MW_IPVER \<equiv> 0"
abbreviation BPF_MW_L4OFF :: nat where "BPF_MW_L4OFF \<equiv> 1"
abbreviation BPF_MW_L4PROTO :: nat where "BPF_MW_L4PROTO \<equiv> 2"
abbreviation NPF_BPF_NWORDS :: nat where "NPF_BPF_NWORDS \<equiv> 3"

definition npc_ipver :: "npf_cache \<Rightarrow> u32" where
  "npc_ipver npc = (of_nat (npc_alen npc) AND 4) OR (drop_bit 4 (of_nat (npc_alen npc)) * 6)"

definition set_npc_words :: "npf_cache \<Rightarrow> u32 option list \<Rightarrow> u32 option list" where
  "set_npc_words npc M =
     M[BPF_MW_IPVER := Some (npc_ipver npc), BPF_MW_L4OFF := Some (of_nat (npc_hlen npc)),
       BPF_MW_L4PROTO := Some (of_nat (npc_proto npc))]"

definition npf_cop_l3 :: "('m, 'l, 'c) cop_arg bpf_copfunc" where
  "npf_cop_l3 ar A =
    (let npc = ca_npc (bpf_arg ar) in
     (npc_ipver npc, ar\<lparr> bpf_mem := set_npc_words npc (bpf_mem ar) \<rparr>))"

definition npf_cop_table :: "('m, 'l, 'c) cop_arg bpf_copfunc" where
  "npf_cop_table ar A =
    (let npc = ca_npc (bpf_arg ar); tid = A AND (push_bit 31 1 - 1) in
     if \<not> npf_iscached npc NPC_IP46 then (0, ar)
     else
       case npf_tableset_getbyid (ca_tblset (bpf_arg ar)) (unat tid) of
         None \<Rightarrow> (0, ar)
       | Some p \<Rightarrow>
           let addr = (if A AND push_bit 31 1 \<noteq> 0 then npc_addr npc NPF_SRC else npc_addr npc NPF_DST);
               t = table_ref (ca_tables (bpf_arg ar)) p in
           (if npf_table_lookup (ca_libs (bpf_arg ar)) t (npc_alen npc) addr = None then 1 else 0, ar))"

section \<open>The context\<close>

definition npf_bpfcop :: "('m, 'l, 'c) cop_arg bpf_copfunc list" where
  "npf_bpfcop = [npf_cop_l3, npf_cop_table]"

definition BPF_MW_ALLMASK :: u32 where
  "BPF_MW_ALLMASK = push_bit BPF_MW_IPVER 1 OR push_bit BPF_MW_L4OFF 1 OR push_bit BPF_MW_L4PROTO 1"

definition npf_bpf_sysinit :: "('m, 'l, 'c) cop_arg bpf_ctx" where
  "npf_bpf_sysinit = snd (bpf_set_extmem (bpf_set_cop bpf_create npf_bpfcop) NPF_BPF_NWORDS BPF_MW_ALLMASK)"

text \<open>
  The packet pointer is the data pointer of the cursor, from which the rest of the current
  buffer can be read; the buffer length is the length of the whole chain.
\<close>

definition npf_bpf_prepare :: "('m, 'l, 'c) cop_arg \<Rightarrow> u32 option list \<Rightarrow> ('m, 'l, 'c) cop_arg bpf_args" where
  "npf_bpf_prepare arg M =
    (let npc = ca_npc arg; nb = npc_nbuf npc; pktlen = nbuf_datalen nb in
     \<lparr> pkt = take (nb_segs nb ! nb_mbuf nb - nb_nptr nb) (drop (nbuf_dataptr nb) (nb_data nb)),
       wirelen = pktlen, buflen = pktlen, bpf_mem = set_npc_words npc M, bpf_arg = arg \<rparr>)"

definition npf_bpf_filter ::
  "('m, 'l, 'c) cop_arg bpf_args \<Rightarrow> bpf_insn list \<Rightarrow>
   (('m, 'l, 'c) cop_arg bpf_args \<Rightarrow> u32 \<times> ('m, 'l, 'c) cop_arg bpf_args) option \<Rightarrow>
   bpf_fault + u32 \<times> ('m, 'l, 'c) cop_arg bpf_args" where
  "npf_bpf_filter ar code jcode =
    (case jcode of
       Some f \<Rightarrow> Inr (f ar)
     | None \<Rightarrow> bpf_filter_ext (Some npf_bpf_sysinit) (Some code) ar)"

definition npf_bpf_validate :: "bpf_insn list \<Rightarrow> bool" where
  "npf_bpf_validate code = bpf_validate_ext (Some (npf_bpf_sysinit :: (unit, unit, unit) cop_arg bpf_ctx)) code"

section \<open>Running a filter\<close>

lemma npf_bpf_sysinit_simps [simp]:
  "copfuncs npf_bpf_sysinit = Some npf_bpfcop" "nfuncs (npf_bpf_sysinit :: ('m, 'l, 'c) cop_arg bpf_ctx) = 2"
  "extwords (npf_bpf_sysinit :: ('m, 'l, 'c) cop_arg bpf_ctx) = 3"
  "preinited (npf_bpf_sysinit :: ('m, 'l, 'c) cop_arg bpf_ctx) = 7"
  by (simp_all add: npf_bpf_sysinit_def bpf_set_extmem_def bpf_set_cop_def bpf_create_def BPF_MW_ALLMASK_def
      npf_bpfcop_def)

lemma length_set_npc_words [simp]: "length (set_npc_words npc M) = length M"
  by (simp add: set_npc_words_def)

lemma set_npc_words_written:
  "k < length M \<Longrightarrow> k < 3 \<or> M ! k \<noteq> None \<Longrightarrow> set_npc_words npc M ! k \<noteq> None"
  by (cases "k = 0"; cases "k = 1"; cases "k = 2") (auto simp: set_npc_words_def)

lemma npf_cop_l3_ok: "cop_ok npf_cop_l3"
  using set_npc_words_written by (auto simp: cop_ok_def npf_cop_l3_def Let_def simp del: not_None_eq)

lemma npf_cop_table_ok: "cop_ok npf_cop_table"
  by (auto simp: cop_ok_def npf_cop_table_def Let_def split: option.split)

lemma npf_ctx_ok: "ctx_ok (Some npf_bpf_sysinit)"
  by (simp add: ctx_ok_def bpf_memwords_def npf_bpfcop_def npf_cop_l3_ok npf_cop_table_ok)

text \<open>The validator reads the context only for the number of its functions and words.\<close>

lemma validate_misc_ctx:
  "(copfuncs bc = None) = (copfuncs bd = None) \<Longrightarrow> nfuncs bc = nfuncs bd \<Longrightarrow>
   validate_misc (Some bc) p ivm mem = validate_misc (Some bd) p ivm mem"
  by (simp add: validate_misc_def)

lemma validate_loop_ctx:
  assumes "(copfuncs bc = None) = (copfuncs bd = None)" "nfuncs bc = nfuncs bd"
  shows "validate_loop (Some bc) w len i ps ivm mem = validate_loop (Some bd) w len i ps ivm mem"
proof (induction ps arbitrary: i ivm mem)
  case (Cons p ps)
  have "validate_insn (Some bc) w len i p x mem = validate_insn (Some bd) w len i p x mem" for x
    unfolding validate_insn_def by (simp only: validate_misc_ctx [OF assms])
  then show ?case
    by (simp add: Cons.IH split: option.split)
qed simp

lemma npf_bpf_validate_ctx:
  assumes "npf_bpf_validate code"
  shows "bpf_validate_ext (Some (npf_bpf_sysinit :: ('m, 'l, 'c) cop_arg bpf_ctx)) code"
proof -
  have "bpf_memwords (Some (npf_bpf_sysinit :: ('m, 'l, 'c) cop_arg bpf_ctx)) =
      bpf_memwords (Some (npf_bpf_sysinit :: (unit, unit, unit) cop_arg bpf_ctx))"
    "bpf_preinited (Some (npf_bpf_sysinit :: ('m, 'l, 'c) cop_arg bpf_ctx)) =
      bpf_preinited (Some (npf_bpf_sysinit :: (unit, unit, unit) cop_arg bpf_ctx))"
    by (simp_all add: bpf_memwords_def bpf_preinited_def)
  then show ?thesis
    using assms validate_loop_ctx [of "npf_bpf_sysinit :: ('m, 'l, 'c) cop_arg bpf_ctx"
      "npf_bpf_sysinit :: (unit, unit, unit) cop_arg bpf_ctx"]
    unfolding npf_bpf_validate_def bpf_validate_ext_def by (simp only: npf_bpf_sysinit_simps simp_thms option.distinct)
qed

lemma prepare_args_ok:
  assumes "nb_segs (npc_nbuf (ca_npc arg)) = [length (nb_data (npc_nbuf (ca_npc arg)))]"
    "nb_mbuf (npc_nbuf (ca_npc arg)) = 0" "nb_nptr (npc_nbuf (ca_npc arg)) = 0" "length M = NPF_BPF_NWORDS"
  shows "args_ok (bpf_memwords (Some (npf_bpf_sysinit :: ('m, 'l, 'c) cop_arg bpf_ctx))) (npf_bpf_prepare arg M) ivm"
proof -
  have "set_npc_words npc M ! k \<noteq> None" if "k < 3" for npc k
    using that assms(4) set_npc_words_written [of k M] by simp
  then show ?thesis using assms
    by (auto simp: args_ok_def bpf_memwords_def npf_bpf_prepare_def Let_def nbuf_datalen_def nbuf_dataptr_def
        nbuf_offset_def simp del: not_None_eq)
qed

section \<open>Properties\<close>

text \<open>
  C11: running a filter on a packet.  For a packet in one buffer with the cursor at its start,
  a program accepted by \<open>npf_bpf_validate\<close> whose instructions are defined returns a value:
  the context that NPF sets up, its coprocessor functions and the three words that
  \<open>npf_bpf_prepare\<close> writes meet what the interpreter relies on.
\<close>

theorem npf_bpf_filter_returns:
  fixes arg :: "('m, 'l, 'c) cop_arg"
  assumes "npf_bpf_validate code" "\<forall>p \<in> set code. insn_defined p" "length M = NPF_BPF_NWORDS"
    and "nb_segs (npc_nbuf (ca_npc arg)) = [length (nb_data (npc_nbuf (ca_npc arg)))]"
    and "nb_mbuf (npc_nbuf (ca_npc arg)) = 0" "nb_nptr (npc_nbuf (ca_npc arg)) = 0"
  shows "\<exists>v. npf_bpf_filter (npf_bpf_prepare arg M) code None = Inr v"
proof -
  note run = bpf_validate_run [OF npf_bpf_validate_ctx [OF assms(1)] npf_ctx_ok prepare_args_ok [OF assms(4-6,3)]]
  show ?thesis
    using run bpf_run_defined [OF assms(2)] by (auto simp: run_good_def npf_bpf_filter_def bpf_filter_ext_def)
qed

definition ex_cop_arg :: "nat list \<Rightarrow> (u8 list \<Rightarrow> nat option, nat \<times> bool list \<Rightarrow> nat option, unit) cop_arg" where
  "ex_cop_arg segs =
     \<lparr> ca_npc = ex_npc (ex_packet 0x02 0 0) segs, ca_libs = fun_libs, ca_tables = Map.empty, ca_tblset = npf_tableset_create 1 \<rparr>"

definition ex_proto_filter :: "bpf_insn list" where
  "ex_proto_filter =
    [\<lparr> i_code = 0x60, i_jt = 0, i_jf = 0, i_k = 2 \<rparr>,
     \<lparr> i_code = 0x15, i_jt = 0, i_jf = 1, i_k = 6 \<rparr>,
     \<lparr> i_code = 0x06, i_jt = 0, i_jf = 0, i_k = 1 \<rparr>,
     \<lparr> i_code = 0x06, i_jt = 0, i_jf = 0, i_k = 0 \<rparr>]"

definition ex_port_filter :: "bpf_insn list" where
  "ex_port_filter =
    [\<lparr> i_code = 0x28, i_jt = 0, i_jf = 0, i_k = 22 \<rparr>,
     \<lparr> i_code = 0x16, i_jt = 0, i_jf = 0, i_k = 0 \<rparr>]"

theorem npf_bpf_filter_returns_witness:
  "\<exists>v. npf_bpf_filter (npf_bpf_prepare (ex_cop_arg [40]) [None, None, None]) ex_proto_filter None = Inr v"
proof (rule npf_bpf_filter_returns)
  show "npf_bpf_validate ex_proto_filter" by code_simp
  show "\<forall>p \<in> set ex_proto_filter. insn_defined p" by code_simp
qed (simp_all add: ex_cop_arg_def ex_npc_def nbuf_init_def nbuf_reset_def ex_packet_def)

text \<open>
  The standalone build passes the length of the whole chain as the buffer length, with a
  packet pointer into the current buffer.  A validated program that reads the port of a TCP
  segment returns it when the packet is in one buffer and reads past the end of the first
  buffer when the chain is split before the port.
\<close>

theorem npf_bpf_prepare_overread:
  "npf_bpf_validate ex_port_filter \<and>
   map_sum id fst (npf_bpf_filter (npf_bpf_prepare (ex_cop_arg [40]) [None, None, None]) ex_port_filter None) =
     Inr 80 \<and>
   map_sum id fst (npf_bpf_filter (npf_bpf_prepare (ex_cop_arg [20, 20]) [None, None, None]) ex_port_filter None) =
     Inl PacketRead"
  by code_simp

end
