(* ===== verification/NPF_Ifmap.thy ===== *)
theory NPF_Ifmap
  imports NPF_Prelude
begin

text \<open>
  The map of network interfaces (\<open>src/kern/npf_if.c\<close>): the names that rules refer to, in
  slots, and the identifier of each name, which is also kept as the metadata of the interface.
  The host's interfaces are reached through the operations \<open>npf_ifops_t\<close> given to the library;
  they are the parameter \<open>ops\<close> on a host state, with their documented behaviour in
  \<open>ifops_laws\<close>.  Identifiers and the offset are 32-bit unsigned integers.
\<close>

section \<open>The host's interfaces\<close>

record ('s, 'i) npf_ifops =
  if_getname :: "'s \<Rightarrow> 'i \<Rightarrow> string"
  if_lookup :: "'s \<Rightarrow> string \<Rightarrow> 'i option"
  if_flush :: "'s \<Rightarrow> u32 \<Rightarrow> 's"
  if_getmeta :: "'s \<Rightarrow> 'i \<Rightarrow> u32"
  if_setmeta :: "'s \<Rightarrow> 'i \<Rightarrow> u32 \<Rightarrow> 's"

definition ifops_laws :: "('s, 'i) npf_ifops \<Rightarrow> bool" where
  "ifops_laws ops \<longleftrightarrow>
     (\<forall>s i v j. if_getmeta ops (if_setmeta ops s i v) j = (if j = i then v else if_getmeta ops s j)) \<and>
     (\<forall>s v j. if_getmeta ops (if_flush ops s v) j = v) \<and>
     (\<forall>s i v. if_getname ops (if_setmeta ops s i v) = if_getname ops s \<and>
              if_lookup ops (if_setmeta ops s i v) = if_lookup ops s) \<and>
     (\<forall>s v. if_getname ops (if_flush ops s v) = if_getname ops s \<and>
            if_lookup ops (if_flush ops s v) = if_lookup ops s) \<and>
     (\<forall>s n i. if_lookup ops s n = Some i \<longrightarrow> if_getname ops s i = n)"

text \<open>The laws as rewrite rules, and the last one as a destruction rule.\<close>

lemma ifops_simps:
  assumes "ifops_laws ops"
  shows "if_getmeta ops (if_setmeta ops s i v) j = (if j = i then v else if_getmeta ops s j)"
    "if_getmeta ops (if_flush ops s v) j = v"
    "if_getname ops (if_setmeta ops s i v) = if_getname ops s"
    "if_lookup ops (if_setmeta ops s i v) = if_lookup ops s"
    "if_getname ops (if_flush ops s v) = if_getname ops s"
    "if_lookup ops (if_flush ops s v) = if_lookup ops s"
  using assms unfolding ifops_laws_def by blast+

lemma if_lookup_name: "ifops_laws ops \<Longrightarrow> if_lookup ops s n = Some i \<Longrightarrow> if_getname ops s i = n"
  unfolding ifops_laws_def by blast

section \<open>The map\<close>

abbreviation NPF_MAX_IFMAP :: nat where "NPF_MAX_IFMAP \<equiv> 64"
abbreviation IFNAMSIZ :: nat where "IFNAMSIZ \<equiv> 16"
abbreviation UINT_MAX :: u32 where "UINT_MAX \<equiv> - 1"
abbreviation NPF_IFMAP_NOID :: u32 where "NPF_IFMAP_NOID \<equiv> 0"

record 's npf_ifmap =
  ifmap :: "string list"
  ifmap_cnt :: nat
  ifmap_off :: u32
  if_host :: 's

definition NPF_IFMAP_SLOT2ID :: "'s npf_ifmap \<Rightarrow> nat \<Rightarrow> u32" where
  "NPF_IFMAP_SLOT2ID npf slot = ifmap_off npf + of_nat slot + 1"

definition NPF_IFMAP_ID2SLOT :: "'s npf_ifmap \<Rightarrow> u32 \<Rightarrow> u32" where
  "NPF_IFMAP_ID2SLOT npf nid = nid - ifmap_off npf - 1"

definition npf_ifmap_init :: "('s, 'i) npf_ifops \<Rightarrow> 's \<Rightarrow> 's npf_ifmap" where
  "npf_ifmap_init ops host =
     \<lparr> ifmap = replicate NPF_MAX_IFMAP [], ifmap_cnt = 0, ifmap_off = 0, if_host = if_flush ops host 0 \<rparr>"

text \<open>The loop of the lookup, from slot \<open>i\<close> on.\<close>

function ifmap_scan :: "'s npf_ifmap \<Rightarrow> string \<Rightarrow> nat \<Rightarrow> u32" where
  "ifmap_scan npf ifname i =
    (if i < ifmap_cnt npf then
       if ifmap npf ! i = ifname then NPF_IFMAP_SLOT2ID npf i else ifmap_scan npf ifname (i + 1)
     else NPF_IFMAP_NOID)"
  by pat_completeness auto

termination
  by (relation "measure (\<lambda>(npf, ifname, i). ifmap_cnt npf - i)") auto

declare ifmap_scan.simps [simp del]

definition npf_ifmap_lookup :: "'s npf_ifmap \<Rightarrow> string \<Rightarrow> u32" where
  "npf_ifmap_lookup npf ifname = ifmap_scan npf ifname 0"

text \<open>\<open>strlcpy\<close> keeps at most \<open>IFNAMSIZ - 1\<close> characters.\<close>

definition npf_ifmap_register :: "('s, 'i) npf_ifops \<Rightarrow> 's npf_ifmap \<Rightarrow> string \<Rightarrow> u32 \<times> 's npf_ifmap" where
  "npf_ifmap_register ops npf ifname =
    (let nid = npf_ifmap_lookup npf ifname in
     if nid \<noteq> NPF_IFMAP_NOID then (nid, npf)
     else if ifmap_cnt npf = NPF_MAX_IFMAP then (NPF_IFMAP_NOID, npf)
     else
       let i = ifmap_cnt npf;
           npf1 = npf\<lparr> ifmap_cnt := i + 1, ifmap := (ifmap npf)[i := take (IFNAMSIZ - 1) ifname] \<rparr>;
           nid = NPF_IFMAP_SLOT2ID npf1 i in
       case if_lookup ops (if_host npf1) ifname of
         None \<Rightarrow> (nid, npf1)
       | Some ifp \<Rightarrow> (nid, npf1\<lparr> if_host := if_setmeta ops (if_host npf1) ifp nid \<rparr>))"

definition npf_ifmap_flush :: "('s, 'i) npf_ifops \<Rightarrow> 's npf_ifmap \<Rightarrow> 's npf_ifmap" where
  "npf_ifmap_flush ops npf =
     npf\<lparr> if_host := if_flush ops (if_host npf) NPF_IFMAP_NOID,
          ifmap := map (\<lambda>i. if i < ifmap_cnt npf then [] else ifmap npf ! i) [0..<length (ifmap npf)],
          ifmap_cnt := 0,
          ifmap_off := (if ifmap_off npf < UINT_MAX - of_nat NPF_MAX_IFMAP
                        then ifmap_off npf + of_nat NPF_MAX_IFMAP else 0) \<rparr>"

definition npf_ifmap_getid :: "('s, 'i) npf_ifops \<Rightarrow> 's npf_ifmap \<Rightarrow> 'i \<Rightarrow> u32" where
  "npf_ifmap_getid ops npf ifp = if_getmeta ops (if_host npf) ifp"

definition npf_ifmap_copylogname :: "'s npf_ifmap \<Rightarrow> u32 \<Rightarrow> nat \<Rightarrow> string" where
  "npf_ifmap_copylogname npf nid len =
    (let i = NPF_IFMAP_ID2SLOT npf nid in
     if nid \<noteq> NPF_IFMAP_NOID \<and> unat i < NPF_MAX_IFMAP then take (min len IFNAMSIZ - 1) (ifmap npf ! unat i)
     else take (len - 1) ''???'')"

definition npf_ifmap_copyname :: "'s npf_ifmap \<Rightarrow> u32 \<Rightarrow> nat \<Rightarrow> string" where
  "npf_ifmap_copyname npf nid len = npf_ifmap_copylogname npf nid len"

definition npfk_ifmap_attach :: "('s, 'i) npf_ifops \<Rightarrow> 's npf_ifmap \<Rightarrow> 'i \<Rightarrow> 's npf_ifmap" where
  "npfk_ifmap_attach ops npf ifp =
    (let nid = npf_ifmap_lookup npf (if_getname ops (if_host npf) ifp) in
     npf\<lparr> if_host := if_setmeta ops (if_host npf) ifp nid \<rparr>)"

definition npfk_ifmap_detach :: "('s, 'i) npf_ifops \<Rightarrow> 's npf_ifmap \<Rightarrow> 'i \<Rightarrow> 's npf_ifmap" where
  "npfk_ifmap_detach ops npf ifp = npf\<lparr> if_host := if_setmeta ops (if_host npf) ifp NPF_IFMAP_NOID \<rparr>"

section \<open>Identifiers\<close>

lemma slot2id_inj: "i < NPF_MAX_IFMAP \<Longrightarrow> j < NPF_MAX_IFMAP \<Longrightarrow>
    NPF_IFMAP_SLOT2ID npf i = NPF_IFMAP_SLOT2ID npf j \<longleftrightarrow> i = j"
  by (simp add: NPF_IFMAP_SLOT2ID_def word_of_nat_eq_iff take_bit_nat_eq_self)

lemma id2slot_slot2id: "i < NPF_MAX_IFMAP \<Longrightarrow> unat (NPF_IFMAP_ID2SLOT npf (NPF_IFMAP_SLOT2ID npf i)) = i"
  by (simp add: NPF_IFMAP_SLOT2ID_def NPF_IFMAP_ID2SLOT_def unat_of_nat)

lemma slot2id_cong: "ifmap_off npf = ifmap_off npf' \<Longrightarrow> NPF_IFMAP_SLOT2ID npf i = NPF_IFMAP_SLOT2ID npf' i"
  by (simp add: NPF_IFMAP_SLOT2ID_def)

lemma ifmap_scan_found:
  assumes "i \<le> k" "k < ifmap_cnt npf" "ifmap npf ! k = n" "\<And>j. j < k \<Longrightarrow> ifmap npf ! j \<noteq> n"
  shows "ifmap_scan npf n i = NPF_IFMAP_SLOT2ID npf k"
  using assms(1)
proof (induction i rule: inc_induct)
  case base
  then show ?case using assms(2,3) by (simp add: ifmap_scan.simps)
next
  case (step i)
  then show ?case using assms(2,4) by (simp add: ifmap_scan.simps [of npf n i])
qed

lemma ifmap_scan_missing:
  "(\<And>j. j < ifmap_cnt npf \<Longrightarrow> ifmap npf ! j \<noteq> n) \<Longrightarrow> ifmap_scan npf n i = NPF_IFMAP_NOID"
  by (induction npf n i rule: ifmap_scan.induct) (subst ifmap_scan.simps, simp)

text \<open>
  The slots in use hold different names, short enough to be stored in full, and the offset is a
  multiple of the number of slots.
\<close>

definition ifmap_ok :: "'s npf_ifmap \<Rightarrow> bool" where
  "ifmap_ok npf \<longleftrightarrow> length (ifmap npf) = NPF_MAX_IFMAP \<and> ifmap_cnt npf \<le> NPF_MAX_IFMAP \<and>
     distinct (take (ifmap_cnt npf) (ifmap npf)) \<and> (\<forall>i < ifmap_cnt npf. length (ifmap npf ! i) < IFNAMSIZ) \<and>
     NPF_MAX_IFMAP dvd unat (ifmap_off npf)"

lemma lookup_slot:
  assumes "ifmap_ok npf" "k < ifmap_cnt npf"
  shows "npf_ifmap_lookup npf (ifmap npf ! k) = NPF_IFMAP_SLOT2ID npf k"
proof -
  have "ifmap npf ! j \<noteq> ifmap npf ! k" if "j < k" for j
    using assms that nth_eq_iff_index_eq [of "take (ifmap_cnt npf) (ifmap npf)" j k]
    by (auto simp: ifmap_ok_def)
  then show ?thesis
    unfolding npf_ifmap_lookup_def using assms(2) by (intro ifmap_scan_found) auto
qed

definition ifmap_has :: "'s npf_ifmap \<Rightarrow> string \<Rightarrow> bool" where
  "ifmap_has npf n \<longleftrightarrow> n \<in> set (take (ifmap_cnt npf) (ifmap npf))"

lemma ifmap_has_slot:
  assumes "ifmap_ok npf" "ifmap_has npf n"
  obtains k where "k < ifmap_cnt npf" "ifmap npf ! k = n" "npf_ifmap_lookup npf n = NPF_IFMAP_SLOT2ID npf k"
proof -
  obtain k where "k < ifmap_cnt npf" "ifmap npf ! k = n"
    using assms by (auto simp: ifmap_has_def ifmap_ok_def in_set_conv_nth)
  then show thesis using that lookup_slot [OF assms(1)] by blast
qed

lemma lookup_missing:
  assumes "ifmap_ok npf" "\<not> ifmap_has npf n"
  shows "npf_ifmap_lookup npf n = NPF_IFMAP_NOID"
  unfolding npf_ifmap_lookup_def
  by (rule ifmap_scan_missing) (use assms in \<open>auto simp: ifmap_has_def ifmap_ok_def in_set_conv_nth\<close>)

text \<open>Different registered names have different identifiers.\<close>

lemma lookup_inj:
  assumes "ifmap_ok npf" "npf_ifmap_lookup npf n = npf_ifmap_lookup npf m" "npf_ifmap_lookup npf n \<noteq> NPF_IFMAP_NOID"
  shows "n = m"
proof -
  have h: "ifmap_has npf n" "ifmap_has npf m" using assms lookup_missing by metis+
  obtain i where i: "i < ifmap_cnt npf" "ifmap npf ! i = n" "npf_ifmap_lookup npf n = NPF_IFMAP_SLOT2ID npf i"
    using ifmap_has_slot [OF assms(1) h(1)] by blast
  obtain j where j: "j < ifmap_cnt npf" "ifmap npf ! j = m" "npf_ifmap_lookup npf m = NPF_IFMAP_SLOT2ID npf j"
    using ifmap_has_slot [OF assms(1) h(2)] by blast
  have "ifmap_cnt npf \<le> NPF_MAX_IFMAP" using assms(1) by (simp add: ifmap_ok_def)
  then have "i = j" using slot2id_inj [of i j npf] i j assms(2) by simp
  then show ?thesis using i j by simp
qed

section \<open>The metadata of the interfaces\<close>

text \<open>
  The invariant: every interface of the host carries the identifier of its name, or none when
  no rule refers to it.
\<close>

definition ifmap_inv :: "('s, 'i) npf_ifops \<Rightarrow> 's npf_ifmap \<Rightarrow> bool" where
  "ifmap_inv ops npf \<longleftrightarrow> ifmap_ok npf \<and>
     (\<forall>ifp. if_lookup ops (if_host npf) (if_getname ops (if_host npf) ifp) = Some ifp \<longrightarrow>
        npf_ifmap_getid ops npf ifp = npf_ifmap_lookup npf (if_getname ops (if_host npf) ifp))"

lemma lookup_empty: "ifmap_cnt npf = 0 \<Longrightarrow> npf_ifmap_lookup npf n = NPF_IFMAP_NOID"
  unfolding npf_ifmap_lookup_def by (rule ifmap_scan_missing) simp

lemma ifmap_inv_init:
  assumes "ifops_laws ops"
  shows "ifmap_inv ops (npf_ifmap_init ops host)"
  by (simp add: ifmap_inv_def ifmap_ok_def npf_ifmap_init_def npf_ifmap_getid_def lookup_empty
      ifops_simps [OF assms])

lemma unat_off_flush:
  assumes "off < UINT_MAX - of_nat NPF_MAX_IFMAP"
  shows "unat (off + of_nat NPF_MAX_IFMAP) = unat off + NPF_MAX_IFMAP"
proof -
  have "unat off < unat (UINT_MAX - of_nat NPF_MAX_IFMAP)" using assms by (simp add: word_less_nat_alt)
  then have "unat off + unat (of_nat NPF_MAX_IFMAP :: u32) < 2 ^ LENGTH(32)" by simp
  then show ?thesis by (subst unat_add_lem [THEN iffD1]) simp_all
qed

lemma ifmap_inv_flush:
  assumes "ifops_laws ops" "ifmap_inv ops npf"
  shows "ifmap_inv ops (npf_ifmap_flush ops npf)"
  using assms(2) unat_off_flush [of "ifmap_off npf"]
  by (simp add: ifmap_inv_def ifmap_ok_def npf_ifmap_flush_def npf_ifmap_getid_def lookup_empty
      ifops_simps [OF assms(1)])

text \<open>The lookup reads the slots in use and the offset only.\<close>

lemma ifmap_scan_cong:
  "ifmap a = ifmap b \<Longrightarrow> ifmap_cnt a = ifmap_cnt b \<Longrightarrow> ifmap_off a = ifmap_off b \<Longrightarrow>
   ifmap_scan a n i = ifmap_scan b n i"
proof (induction a n i rule: ifmap_scan.induct)
  case (1 a n i)
  show ?case
    using 1 slot2id_cong [of a b i] by (simp add: ifmap_scan.simps [of a n i] ifmap_scan.simps [of b n i])
qed

lemma lookup_cong:
  "ifmap a = ifmap b \<Longrightarrow> ifmap_cnt a = ifmap_cnt b \<Longrightarrow> ifmap_off a = ifmap_off b \<Longrightarrow>
   npf_ifmap_lookup a n = npf_ifmap_lookup b n"
  unfolding npf_ifmap_lookup_def by (rule ifmap_scan_cong)

lemma lookup_host [simp]: "npf_ifmap_lookup (npf\<lparr> if_host := h \<rparr>) n = npf_ifmap_lookup npf n"
  by (rule lookup_cong) simp_all

lemma ifmap_ok_host [simp]: "ifmap_ok (npf\<lparr> if_host := h \<rparr>) = ifmap_ok npf"
  by (simp add: ifmap_ok_def)

lemma ifmap_inv_attach:
  assumes "ifops_laws ops" "ifmap_inv ops npf"
  shows "ifmap_inv ops (npfk_ifmap_attach ops npf ifp)"
  using assms(2)
  by (simp add: ifmap_inv_def npfk_ifmap_attach_def npf_ifmap_getid_def ifops_simps [OF assms(1)])

text \<open>A name in a new slot.\<close>

definition ifmap_add :: "'s npf_ifmap \<Rightarrow> string \<Rightarrow> 's npf_ifmap" where
  "ifmap_add npf n = npf\<lparr> ifmap_cnt := ifmap_cnt npf + 1, ifmap := (ifmap npf)[ifmap_cnt npf := n] \<rparr>"

lemma ifmap_add_ok:
  assumes "ifmap_ok npf" "\<not> ifmap_has npf n" "ifmap_cnt npf < NPF_MAX_IFMAP" "length n < IFNAMSIZ"
  shows "ifmap_ok (ifmap_add npf n)" "ifmap_has (ifmap_add npf n) m \<longleftrightarrow> m = n \<or> ifmap_has npf m"
  using assms
  by (auto simp: ifmap_ok_def ifmap_has_def ifmap_add_def take_Suc_conv_app_nth nth_list_update less_Suc_eq)

lemma ifmap_add_lookup:
  assumes "ifmap_ok npf" "\<not> ifmap_has npf n" "ifmap_cnt npf < NPF_MAX_IFMAP" "length n < IFNAMSIZ"
  shows "npf_ifmap_lookup (ifmap_add npf n) m =
    (if m = n then NPF_IFMAP_SLOT2ID npf (ifmap_cnt npf) else npf_ifmap_lookup npf m)"
proof -
  note ok = ifmap_add_ok [OF assms]
  have s: "NPF_IFMAP_SLOT2ID (ifmap_add npf n) = NPF_IFMAP_SLOT2ID npf"
    by (simp add: fun_eq_iff NPF_IFMAP_SLOT2ID_def ifmap_add_def)
  have at: "npf_ifmap_lookup (ifmap_add npf n) (ifmap (ifmap_add npf n) ! k) = NPF_IFMAP_SLOT2ID npf k"
    if "k \<le> ifmap_cnt npf" for k
    using lookup_slot [OF ok(1), of k] that s by (simp add: ifmap_add_def)
  consider "m = n" | "m \<noteq> n" "ifmap_has npf m" | "m \<noteq> n" "\<not> ifmap_has npf m" by blast
  then show ?thesis
  proof cases
    case 1
    then show ?thesis using at [of "ifmap_cnt npf"] assms(1,3) by (simp add: ifmap_add_def ifmap_ok_def)
  next
    case 2
    then obtain k where "k < ifmap_cnt npf" "ifmap npf ! k = m" "npf_ifmap_lookup npf m = NPF_IFMAP_SLOT2ID npf k"
      using ifmap_has_slot [OF assms(1)] by blast
    then show ?thesis using 2 at [of k] by (simp add: ifmap_add_def)
  next
    case 3
    then show ?thesis using lookup_missing ok assms(1) by metis
  qed
qed

text \<open>Registering a name that is not in the map yet.\<close>

lemma register_new:
  assumes "npf_ifmap_lookup npf n = NPF_IFMAP_NOID" "ifmap_cnt npf \<noteq> NPF_MAX_IFMAP" "length n < IFNAMSIZ"
  shows "npf_ifmap_register ops npf n =
    (let nid = NPF_IFMAP_SLOT2ID npf (ifmap_cnt npf) in
     (nid, (ifmap_add npf n)\<lparr> if_host :=
        (case if_lookup ops (if_host npf) n of None \<Rightarrow> if_host npf | Some i \<Rightarrow> if_setmeta ops (if_host npf) i nid) \<rparr>))"
  using assms
  by (simp add: npf_ifmap_register_def ifmap_add_def NPF_IFMAP_SLOT2ID_def Let_def split: option.split)

lemma slot2id_noid:
  assumes "ifmap_ok npf" "k < NPF_MAX_IFMAP" "NPF_IFMAP_SLOT2ID npf k = NPF_IFMAP_NOID"
  shows "k + 1 = NPF_MAX_IFMAP"
proof -
  have "of_nat (unat (ifmap_off npf) + k + 1) = (0 :: u32)"
    using assms(3) by (simp add: NPF_IFMAP_SLOT2ID_def ac_simps)
  then have "2 ^ 32 dvd unat (ifmap_off npf) + k + 1"
    unfolding word_of_nat_eq_0_iff by simp
  then have "NPF_MAX_IFMAP dvd unat (ifmap_off npf) + k + 1" by (rule dvd_trans [rotated]) simp
  moreover have "NPF_MAX_IFMAP dvd unat (ifmap_off npf)" using assms(1) by (simp add: ifmap_ok_def)
  ultimately have "NPF_MAX_IFMAP dvd k + 1" unfolding add.assoc by (simp only: dvd_add_right_iff)
  then show ?thesis using assms(2) by (auto dest: dvd_imp_le)
qed

lemma lookup_noid:
  assumes "ifmap_ok npf" "npf_ifmap_lookup npf n = NPF_IFMAP_NOID" "ifmap_cnt npf \<noteq> NPF_MAX_IFMAP"
  shows "\<not> ifmap_has npf n"
proof
  assume "ifmap_has npf n"
  then obtain k where k: "k < ifmap_cnt npf" "npf_ifmap_lookup npf n = NPF_IFMAP_SLOT2ID npf k"
    using ifmap_has_slot [OF assms(1)] by blast
  moreover have "ifmap_cnt npf \<le> NPF_MAX_IFMAP" using assms(1) by (simp add: ifmap_ok_def)
  ultimately show False using slot2id_noid [OF assms(1), of k] assms(2,3) by simp
qed

lemma ifmap_inv_register:
  assumes L: "ifops_laws ops" and I: "ifmap_inv ops npf" and n: "length n < IFNAMSIZ"
  shows "ifmap_inv ops (snd (npf_ifmap_register ops npf n))"
proof (cases "npf_ifmap_lookup npf n = NPF_IFMAP_NOID \<and> ifmap_cnt npf \<noteq> NPF_MAX_IFMAP")
  case True
  have ok: "ifmap_ok npf" and c: "ifmap_cnt npf < NPF_MAX_IFMAP" using I True by (auto simp: ifmap_inv_def ifmap_ok_def)
  have h: "\<not> ifmap_has npf n" using lookup_noid [OF ok] True by blast
  note add = ifmap_add_ok(1) [OF ok h c n] ifmap_add_lookup [OF ok h c n]
  have host [simp]: "if_host (ifmap_add npf n) = if_host npf" by (simp add: ifmap_add_def)
  show ?thesis
    using I add unfolding register_new [OF conjunct1 [OF True] conjunct2 [OF True] n]
    by (auto simp: ifmap_inv_def npf_ifmap_getid_def ifops_simps [OF L] Let_def split: option.split
        dest: if_lookup_name [OF L])
next
  case False
  then have "snd (npf_ifmap_register ops npf n) = npf" by (auto simp: npf_ifmap_register_def Let_def)
  then show ?thesis using I by simp
qed

text \<open>The steps of the map: rules are loaded, the configuration is flushed, interfaces are attached.\<close>

inductive ifmap_step :: "('s, 'i) npf_ifops \<Rightarrow> 's npf_ifmap \<Rightarrow> 's npf_ifmap \<Rightarrow> bool" for ops where
  step_register: "length n < IFNAMSIZ \<Longrightarrow> ifmap_step ops npf (snd (npf_ifmap_register ops npf n))"
| step_flush: "ifmap_step ops npf (npf_ifmap_flush ops npf)"
| step_attach: "ifmap_step ops npf (npfk_ifmap_attach ops npf ifp)"

lemma ifmap_reachable_inv:
  assumes "ifops_laws ops" "(ifmap_step ops)\<^sup>*\<^sup>* (npf_ifmap_init ops host) npf"
  shows "ifmap_inv ops npf"
  using assms(2)
proof (induction rule: rtranclp_induct)
  case base
  show ?case by (rule ifmap_inv_init [OF assms(1)])
next
  case (step a b)
  from step(2,3) show ?case
    by cases (auto intro: ifmap_inv_register ifmap_inv_flush ifmap_inv_attach assms(1))
qed

lemma register_lookup:
  assumes "ifmap_ok npf" "length n < IFNAMSIZ" "npf_ifmap_register ops npf n = (nid, npf')"
    "nid \<noteq> NPF_IFMAP_NOID"
  shows "npf_ifmap_lookup npf' n = nid"
proof (cases "npf_ifmap_lookup npf n = NPF_IFMAP_NOID")
  case True
  then have "ifmap_cnt npf \<noteq> NPF_MAX_IFMAP" using assms(3,4) by (auto simp: npf_ifmap_register_def)
  moreover from this have "ifmap_cnt npf < NPF_MAX_IFMAP" using assms(1) by (auto simp: ifmap_ok_def)
  ultimately have c: "ifmap_cnt npf \<noteq> NPF_MAX_IFMAP" "ifmap_cnt npf < NPF_MAX_IFMAP" .
  show ?thesis
    using assms(3) ifmap_add_lookup [OF assms(1) lookup_noid [OF assms(1) True c(1)] c(2) assms(2)]
    unfolding register_new [OF True c(1) assms(2)] by (auto simp: Let_def)
next
  case False
  then show ?thesis using assms by (auto simp: npf_ifmap_register_def)
qed

lemma lookup_copyname:
  assumes "ifmap_ok npf" "npf_ifmap_lookup npf n \<noteq> NPF_IFMAP_NOID"
  shows "npf_ifmap_copyname npf (npf_ifmap_lookup npf n) IFNAMSIZ = n"
proof -
  obtain k where k: "k < ifmap_cnt npf" "ifmap npf ! k = n" "npf_ifmap_lookup npf n = NPF_IFMAP_SLOT2ID npf k"
    using ifmap_has_slot [OF assms(1)] lookup_missing assms by metis
  then have "k < NPF_MAX_IFMAP" "length n < IFNAMSIZ" using assms(1) by (auto simp: ifmap_ok_def)
  then show ?thesis
    using k assms(2) id2slot_slot2id [of k npf] by (simp add: npf_ifmap_copyname_def npf_ifmap_copylogname_def)
qed

section \<open>Properties\<close>


text \<open>A host with the interfaces \<open>''lan''\<close> and \<open>''wan''\<close>, whose state is their metadata.\<close>

definition ex_ifops :: "(bool \<Rightarrow> u32, bool) npf_ifops" where
  "ex_ifops = \<lparr>
     if_getname = (\<lambda>s i. if i then ''wan'' else ''lan''),
     if_lookup = (\<lambda>s n. if n = ''wan'' then Some True else if n = ''lan'' then Some False else None),
     if_flush = (\<lambda>s v i. v), if_getmeta = (\<lambda>s i. s i), if_setmeta = (\<lambda>s i v. s(i := v)) \<rparr>"

lemma ex_ifops_laws: "ifops_laws ex_ifops"
  by (auto simp: ifops_laws_def ex_ifops_def)


lemma ifmap_off_flush:
  "unat (ifmap_off npf) + NPF_MAX_IFMAP < 2 ^ 32 - 1 \<Longrightarrow>
   unat (ifmap_off (npf_ifmap_flush ops npf)) = unat (ifmap_off npf) + NPF_MAX_IFMAP"
  using unat_off_flush [of "ifmap_off npf"] by (auto simp: npf_ifmap_flush_def word_less_nat_alt)

lemma flush_off:
  "n < 2 ^ 26 \<Longrightarrow> unat (ifmap_off ((npf_ifmap_flush ops ^^ n) (npf_ifmap_init ops host))) = NPF_MAX_IFMAP * n"
proof (induction n)
  case 0
  show ?case by (simp add: npf_ifmap_init_def)
next
  case (Suc n)
  then show ?case using ifmap_off_flush [of "(npf_ifmap_flush ops ^^ n) (npf_ifmap_init ops host)" ops] by simp
qed

text \<open>
  The reset of the identifier counter comes one flush too late.  After \<open>2^26 - 1\<close> flushes
  the offset is \<open>2^32 - 64\<close>, and the identifier of the last slot wraps to \<open>NPF_IFMAP_NOID\<close>,
  the value that stands for a failure.
\<close>

theorem npf_ifmap_id_wraps:
  "NPF_IFMAP_SLOT2ID ((npf_ifmap_flush ops ^^ (2 ^ 26 - 1)) (npf_ifmap_init ops host)) (NPF_MAX_IFMAP - 1) =
   NPF_IFMAP_NOID"
proof -
  let ?off = "ifmap_off ((npf_ifmap_flush ops ^^ (2 ^ 26 - 1)) (npf_ifmap_init ops host))"
  have "unat ?off = NPF_MAX_IFMAP * (2 ^ 26 - 1)" by (rule flush_off) simp
  then have "?off = of_nat (NPF_MAX_IFMAP * (2 ^ 26 - 1))" by (simp add: word_unat_eq_iff)
  then show ?thesis by (simp add: NPF_IFMAP_SLOT2ID_def)
qed

end
