(* ===== verification/NPF_Nvlist.thy ===== *)
theory NPF_Nvlist
  imports NPF_Prelude
begin

text \<open>
  Name-value lists.  Configurations and connections are exchanged as \<open>nvlist_t\<close> objects of the
  \<open>libnv\<close> library, which is outside the sources.  The operations that NPF calls are the
  parameter \<open>N\<close>; \<open>nv_laws\<close> states their documented behaviour: a value added under a name that
  is not in use can be read back, adding it leaves other names alone, and a missing name gives
  the default.
\<close>

record 'nv nv_ops =
  nvlist_create :: 'nv
  nvlist_exists :: "'nv \<Rightarrow> string \<Rightarrow> bool"
  nvlist_add_number :: "'nv \<Rightarrow> string \<Rightarrow> u64 \<Rightarrow> 'nv"
  nvlist_add_string :: "'nv \<Rightarrow> string \<Rightarrow> string \<Rightarrow> 'nv"
  nvlist_add_binary :: "'nv \<Rightarrow> string \<Rightarrow> u8 list \<Rightarrow> 'nv"
  nvlist_move_nvlist :: "'nv \<Rightarrow> string \<Rightarrow> 'nv \<Rightarrow> 'nv"
  nvlist_append_nvlist_array :: "'nv \<Rightarrow> string \<Rightarrow> 'nv \<Rightarrow> 'nv"
  nv_bool :: "'nv \<Rightarrow> string \<Rightarrow> bool option"
  nv_number :: "'nv \<Rightarrow> string \<Rightarrow> u64 option"
  nv_string :: "'nv \<Rightarrow> string \<Rightarrow> string option"
  nv_binary :: "'nv \<Rightarrow> string \<Rightarrow> u8 list option"
  nv_nvlist :: "'nv \<Rightarrow> string \<Rightarrow> 'nv option"
  nv_nvlist_array :: "'nv \<Rightarrow> string \<Rightarrow> 'nv list option"

text \<open>The lookups with a default; a NULL result is None.\<close>

definition dnvlist_get_number :: "'nv nv_ops \<Rightarrow> 'nv \<Rightarrow> string \<Rightarrow> u64 \<Rightarrow> u64" where
  "dnvlist_get_number N nv name d = (case nv_number N nv name of None \<Rightarrow> d | Some v \<Rightarrow> v)"

definition dnvlist_get_bool :: "'nv nv_ops \<Rightarrow> 'nv \<Rightarrow> string \<Rightarrow> bool \<Rightarrow> bool" where
  "dnvlist_get_bool N nv name d = (case nv_bool N nv name of None \<Rightarrow> d | Some v \<Rightarrow> v)"

definition dnvlist_get_string :: "'nv nv_ops \<Rightarrow> 'nv \<Rightarrow> string \<Rightarrow> string option" where
  "dnvlist_get_string N nv name = nv_string N nv name"

definition dnvlist_get_binary :: "'nv nv_ops \<Rightarrow> 'nv \<Rightarrow> string \<Rightarrow> u8 list option" where
  "dnvlist_get_binary N nv name = nv_binary N nv name"

definition dnvlist_get_nvlist :: "'nv nv_ops \<Rightarrow> 'nv \<Rightarrow> string \<Rightarrow> 'nv option" where
  "dnvlist_get_nvlist N nv name = nv_nvlist N nv name"

text \<open>All lookups of a name.\<close>

definition nv_get ::
  "'nv nv_ops \<Rightarrow> 'nv \<Rightarrow> string \<Rightarrow> bool \<times> u64 option \<times> string option \<times> u8 list option \<times> 'nv option \<times> 'nv list option" where
  "nv_get N nv name =
     (nvlist_exists N nv name, nv_number N nv name, nv_string N nv name, nv_binary N nv name, nv_nvlist N nv name,
      nv_nvlist_array N nv name)"

definition nv_laws :: "'nv nv_ops \<Rightarrow> bool" where
  "nv_laws N \<longleftrightarrow>
     (\<forall>k. nv_get N (nvlist_create N) k = (False, None, None, None, None, None)) \<and>
     (\<forall>nv k v l. \<not> nvlist_exists N nv k \<longrightarrow> nv_get N (nvlist_add_number N nv k v) l =
        (if l = k then (True, Some v, None, None, None, None) else nv_get N nv l)) \<and>
     (\<forall>nv k v l. \<not> nvlist_exists N nv k \<longrightarrow> nv_get N (nvlist_add_string N nv k v) l =
        (if l = k then (True, None, Some v, None, None, None) else nv_get N nv l)) \<and>
     (\<forall>nv k v l. \<not> nvlist_exists N nv k \<longrightarrow> nv_get N (nvlist_add_binary N nv k v) l =
        (if l = k then (True, None, None, Some v, None, None) else nv_get N nv l)) \<and>
     (\<forall>nv k v l. \<not> nvlist_exists N nv k \<longrightarrow> nv_get N (nvlist_move_nvlist N nv k v) l =
        (if l = k then (True, None, None, None, Some v, None) else nv_get N nv l))"

text \<open>The laws as rewrite rules on the single lookups.\<close>

lemma nv_create:
  assumes "nv_laws N"
  shows "\<not> nvlist_exists N (nvlist_create N) k" "nv_number N (nvlist_create N) k = None"
    "nv_string N (nvlist_create N) k = None" "nv_binary N (nvlist_create N) k = None"
    "nv_nvlist N (nvlist_create N) k = None"
  using assms by (simp_all add: nv_laws_def nv_get_def)

lemma nv_add_number:
  assumes "nv_laws N" "\<not> nvlist_exists N nv k"
  shows "nvlist_exists N (nvlist_add_number N nv k v) l \<longleftrightarrow> l = k \<or> nvlist_exists N nv l"
    "nv_number N (nvlist_add_number N nv k v) l = (if l = k then Some v else nv_number N nv l)"
    "nv_string N (nvlist_add_number N nv k v) l = (if l = k then None else nv_string N nv l)"
    "nv_binary N (nvlist_add_number N nv k v) l = (if l = k then None else nv_binary N nv l)"
    "nv_nvlist N (nvlist_add_number N nv k v) l = (if l = k then None else nv_nvlist N nv l)"
proof -
  have "nv_get N (nvlist_add_number N nv k v) l = (if l = k then (True, Some v, None, None, None, None) else nv_get N nv l)"
    using assms unfolding nv_laws_def by blast
  then show "nvlist_exists N (nvlist_add_number N nv k v) l \<longleftrightarrow> l = k \<or> nvlist_exists N nv l"
    "nv_number N (nvlist_add_number N nv k v) l = (if l = k then Some v else nv_number N nv l)"
    "nv_string N (nvlist_add_number N nv k v) l = (if l = k then None else nv_string N nv l)"
    "nv_binary N (nvlist_add_number N nv k v) l = (if l = k then None else nv_binary N nv l)"
    "nv_nvlist N (nvlist_add_number N nv k v) l = (if l = k then None else nv_nvlist N nv l)"
    by (auto simp: nv_get_def split: if_splits)
qed

lemma nv_add_string:
  assumes "nv_laws N" "\<not> nvlist_exists N nv k"
  shows "nvlist_exists N (nvlist_add_string N nv k v) l \<longleftrightarrow> l = k \<or> nvlist_exists N nv l"
    "nv_number N (nvlist_add_string N nv k v) l = (if l = k then None else nv_number N nv l)"
    "nv_string N (nvlist_add_string N nv k v) l = (if l = k then Some v else nv_string N nv l)"
    "nv_binary N (nvlist_add_string N nv k v) l = (if l = k then None else nv_binary N nv l)"
    "nv_nvlist N (nvlist_add_string N nv k v) l = (if l = k then None else nv_nvlist N nv l)"
proof -
  have "nv_get N (nvlist_add_string N nv k v) l = (if l = k then (True, None, Some v, None, None, None) else nv_get N nv l)"
    using assms unfolding nv_laws_def by blast
  then show "nvlist_exists N (nvlist_add_string N nv k v) l \<longleftrightarrow> l = k \<or> nvlist_exists N nv l"
    "nv_number N (nvlist_add_string N nv k v) l = (if l = k then None else nv_number N nv l)"
    "nv_string N (nvlist_add_string N nv k v) l = (if l = k then Some v else nv_string N nv l)"
    "nv_binary N (nvlist_add_string N nv k v) l = (if l = k then None else nv_binary N nv l)"
    "nv_nvlist N (nvlist_add_string N nv k v) l = (if l = k then None else nv_nvlist N nv l)"
    by (auto simp: nv_get_def split: if_splits)
qed

lemma nv_add_binary:
  assumes "nv_laws N" "\<not> nvlist_exists N nv k"
  shows "nvlist_exists N (nvlist_add_binary N nv k v) l \<longleftrightarrow> l = k \<or> nvlist_exists N nv l"
    "nv_number N (nvlist_add_binary N nv k v) l = (if l = k then None else nv_number N nv l)"
    "nv_string N (nvlist_add_binary N nv k v) l = (if l = k then None else nv_string N nv l)"
    "nv_binary N (nvlist_add_binary N nv k v) l = (if l = k then Some v else nv_binary N nv l)"
    "nv_nvlist N (nvlist_add_binary N nv k v) l = (if l = k then None else nv_nvlist N nv l)"
proof -
  have "nv_get N (nvlist_add_binary N nv k v) l = (if l = k then (True, None, None, Some v, None, None) else nv_get N nv l)"
    using assms unfolding nv_laws_def by blast
  then show "nvlist_exists N (nvlist_add_binary N nv k v) l \<longleftrightarrow> l = k \<or> nvlist_exists N nv l"
    "nv_number N (nvlist_add_binary N nv k v) l = (if l = k then None else nv_number N nv l)"
    "nv_string N (nvlist_add_binary N nv k v) l = (if l = k then None else nv_string N nv l)"
    "nv_binary N (nvlist_add_binary N nv k v) l = (if l = k then Some v else nv_binary N nv l)"
    "nv_nvlist N (nvlist_add_binary N nv k v) l = (if l = k then None else nv_nvlist N nv l)"
    by (auto simp: nv_get_def split: if_splits)
qed

lemma nv_move_nvlist:
  assumes "nv_laws N" "\<not> nvlist_exists N nv k"
  shows "nvlist_exists N (nvlist_move_nvlist N nv k v) l \<longleftrightarrow> l = k \<or> nvlist_exists N nv l"
    "nv_number N (nvlist_move_nvlist N nv k v) l = (if l = k then None else nv_number N nv l)"
    "nv_string N (nvlist_move_nvlist N nv k v) l = (if l = k then None else nv_string N nv l)"
    "nv_binary N (nvlist_move_nvlist N nv k v) l = (if l = k then None else nv_binary N nv l)"
    "nv_nvlist N (nvlist_move_nvlist N nv k v) l = (if l = k then Some v else nv_nvlist N nv l)"
proof -
  have "nv_get N (nvlist_move_nvlist N nv k v) l = (if l = k then (True, None, None, None, Some v, None) else nv_get N nv l)"
    using assms unfolding nv_laws_def by blast
  then show "nvlist_exists N (nvlist_move_nvlist N nv k v) l \<longleftrightarrow> l = k \<or> nvlist_exists N nv l"
    "nv_number N (nvlist_move_nvlist N nv k v) l = (if l = k then None else nv_number N nv l)"
    "nv_string N (nvlist_move_nvlist N nv k v) l = (if l = k then None else nv_string N nv l)"
    "nv_binary N (nvlist_move_nvlist N nv k v) l = (if l = k then None else nv_binary N nv l)"
    "nv_nvlist N (nvlist_move_nvlist N nv k v) l = (if l = k then Some v else nv_nvlist N nv l)"
    by (auto simp: nv_get_def split: if_splits)
qed

lemmas nv_simps =
  nv_create nv_add_number nv_add_string nv_add_binary nv_move_nvlist
  dnvlist_get_number_def dnvlist_get_string_def dnvlist_get_binary_def dnvlist_get_nvlist_def

text \<open>A concrete implementation by association lists, used where a witness needs one.\<close>

datatype nvl = NVL "(string \<times> nvval) list"
  and nvval = NVBool bool | NVNumber u64 | NVString string | NVBinary "u8 list" | NVNvlist nvl | NVArray "nvl list"

primrec nvl_pairs :: "nvl \<Rightarrow> (string \<times> nvval) list" where
  "nvl_pairs (NVL ps) = ps"

definition nvl_add :: "nvl \<Rightarrow> string \<Rightarrow> nvval \<Rightarrow> nvl" where
  "nvl_add nv k v = NVL ((k, v) # nvl_pairs nv)"

abbreviation nvl_get :: "nvl \<Rightarrow> string \<Rightarrow> nvval option" where
  "nvl_get nv \<equiv> map_of (nvl_pairs nv)"

definition nvl_ops :: "nvl nv_ops" where
  "nvl_ops = \<lparr>
     nvlist_create = NVL [],
     nvlist_exists = (\<lambda>nv k. nvl_get nv k \<noteq> None),
     nvlist_add_number = (\<lambda>nv k v. nvl_add nv k (NVNumber v)),
     nvlist_add_string = (\<lambda>nv k v. nvl_add nv k (NVString v)),
     nvlist_add_binary = (\<lambda>nv k v. nvl_add nv k (NVBinary v)),
     nvlist_move_nvlist = (\<lambda>nv k v. nvl_add nv k (NVNvlist v)),
     nvlist_append_nvlist_array = (\<lambda>nv k v.
       nvl_add nv k (NVArray ((case nvl_get nv k of Some (NVArray vs) \<Rightarrow> vs | _ \<Rightarrow> []) @ [v]))),
     nv_bool = (\<lambda>nv k. case nvl_get nv k of Some (NVBool v) \<Rightarrow> Some v | _ \<Rightarrow> None),
     nv_number = (\<lambda>nv k. case nvl_get nv k of Some (NVNumber v) \<Rightarrow> Some v | _ \<Rightarrow> None),
     nv_string = (\<lambda>nv k. case nvl_get nv k of Some (NVString v) \<Rightarrow> Some v | _ \<Rightarrow> None),
     nv_binary = (\<lambda>nv k. case nvl_get nv k of Some (NVBinary v) \<Rightarrow> Some v | _ \<Rightarrow> None),
     nv_nvlist = (\<lambda>nv k. case nvl_get nv k of Some (NVNvlist v) \<Rightarrow> Some v | _ \<Rightarrow> None),
     nv_nvlist_array = (\<lambda>nv k. case nvl_get nv k of Some (NVArray v) \<Rightarrow> Some v | _ \<Rightarrow> None) \<rparr>"

lemma nvl_ops_laws: "nv_laws nvl_ops"
  by (simp add: nv_laws_def nv_get_def nvl_ops_def nvl_add_def)

end
