(* ===== verification/NPF_Connkey.thy ===== *)
theory NPF_Connkey
  imports NPF_State NPF_Ifmap NPF_Nvlist
begin

text \<open>
  Connection keys (\<open>src/kern/npf_connkey.c\<close>): the tuple under which a connection is found in
  the database.  A key is an array of 32-bit words; the model keeps its bytes, so that words
  are read and written with \<open>rd32\<close> and \<open>wr32\<close> and addresses are copied with \<open>memcpy\<close>.
\<close>

section \<open>Layout\<close>

type_synonym npf_connkey = "u8 list"

abbreviation PFIL_IN :: nat where "PFIL_IN \<equiv> 1"
abbreviation PFIL_OUT :: nat where "PFIL_OUT \<equiv> 2"
abbreviation PFIL_ALL :: nat where "PFIL_ALL \<equiv> 3"
abbreviation NPF_CONNKEY_MAXWORDS :: nat where "NPF_CONNKEY_MAXWORDS \<equiv> 10"
abbreviation IPPROTO_MAX :: nat where "IPPROTO_MAX \<equiv> 256"

definition key_word :: "npf_connkey \<Rightarrow> nat \<Rightarrow> u32" where
  "key_word k i = rd32 k (4 * i)"

definition set_key_word :: "npf_connkey \<Rightarrow> nat \<Rightarrow> u32 \<Rightarrow> npf_connkey" where
  "set_key_word k i v = wr32 k (4 * i) v"

definition NPF_CONNKEY_ALEN :: "npf_connkey \<Rightarrow> nat" where
  "NPF_CONNKEY_ALEN key = unat (push_bit 2 (drop_bit 28 (key_word key 0)))"

definition NPF_CONNKEY_LEN :: "npf_connkey \<Rightarrow> nat" where
  "NPF_CONNKEY_LEN key = 8 + NPF_CONNKEY_ALEN key * 2"

section \<open>Construction\<close>

definition npf_connkey_setkey ::
  "npf_connkey \<Rightarrow> nat \<Rightarrow> nat \<Rightarrow> npf_addr list \<Rightarrow> u16 list \<Rightarrow> npf_flow \<Rightarrow> nat \<times> npf_connkey" where
  "npf_connkey_setkey key alen proto ips ids flow =
    (let (isrc, idst) = (if flow = NPF_FLOW_FORW then (NPF_SRC, NPF_DST) else (NPF_DST, NPF_SRC));
         k0 = set_key_word key 0 (push_bit 28 (of_nat (alen div 4)) OR push_bit 20 (of_nat proto));
         k1 = set_key_word k0 1 (push_bit 16 (ucast (ids ! isrc)) OR ucast (ids ! idst)) in
     if alen = 4 then
       (4 * 4, set_key_word (set_key_word k1 2 (rd32 (ips ! isrc) 0)) 3 (rd32 (ips ! idst) 0))
     else
       let nwords = alen div 4 in
       ((2 + nwords * 2) * 4,
        memcpy_at (memcpy_at k1 (4 * 2) (take alen (ips ! isrc))) (4 * (2 + nwords)) (take alen (ips ! idst))))"

text \<open>
  The addresses are returned in the given array, which the default case leaves alone.
\<close>

definition npf_connkey_getkey ::
  "npf_connkey \<Rightarrow> npf_addr list \<Rightarrow> nat \<times> nat \<times> npf_addr list \<times> u16 list" where
  "npf_connkey_getkey key ips =
    (let alen = unat (push_bit 2 (drop_bit 28 (key_word key 0)));
         proto = unat (drop_bit 16 (key_word key 0) AND 0xff);
         ids = [ucast (drop_bit 16 (key_word key 1)), ucast (key_word key 1 AND 0xffff)] in
     (alen, proto,
      if alen = 16 \<or> alen = 4 then [take alen (drop (4 * 2) key), take alen (drop (4 * (2 + alen div 4)) key)] else ips,
      ids))"

definition npf_connkey_setckey :: "npf_connkey \<Rightarrow> u32 \<Rightarrow> nat \<Rightarrow> npf_connkey" where
  "npf_connkey_setckey key ifid di =
    (let k1 = (if ifid \<noteq> 0 then set_key_word key 0 (key_word key 0 OR ifid) else key) in
     if di \<noteq> 0 then set_key_word k1 0 (key_word k1 0 OR push_bit 18 (of_nat di)) else k1)"

definition npf_connkey_getckey :: "npf_connkey \<Rightarrow> u32 \<times> nat" where
  "npf_connkey_getckey key =
     (key_word key 0 AND (push_bit 20 1 - 1), unat (drop_bit 18 (key_word key 0) AND of_nat PFIL_ALL))"

definition npf_conn_adjkey :: "npf_connkey \<Rightarrow> npf_addr \<Rightarrow> u16 \<Rightarrow> nat \<Rightarrow> npf_connkey" where
  "npf_conn_adjkey key naddr nid which =
    (let alen = NPF_CONNKEY_ALEN key;
         k = memcpy_at key (4 * (2 + alen div 4 * which)) (take alen naddr) in
     if nid \<noteq> 0 then
       let oid = key_word k 1; shift = 16 * (if which = 0 then 1 else 0);
           mask = drop_bit shift (0xffff0000 :: u32) in
       set_key_word k 1 (push_bit shift (ucast nid) OR (oid AND mask))
     else k)"

definition npf_connkey_copy :: "npf_connkey \<Rightarrow> npf_connkey \<Rightarrow> bool \<Rightarrow> nat \<times> npf_connkey" where
  "npf_connkey_copy skey dkey invert =
    (let klen = NPF_CONNKEY_LEN skey in
     if invert then
       let alen = NPF_CONNKEY_ALEN skey; nwords = alen div 4;
           d0 = set_key_word dkey 0 (key_word skey 1);
           d1 = set_key_word d0 1 (drop_bit 16 (key_word skey 1) OR push_bit 16 (key_word skey 1));
           d2 = memcpy_at d1 (4 * 2) (take alen (drop (4 * (2 + nwords)) skey)) in
       (klen, memcpy_at d2 (4 * (2 + nwords)) (take alen (drop (4 * 2) skey)))
     else (klen, memcpy_at dkey 0 (take klen skey)))"

text \<open>The identifiers of a packet: ports, or the ICMP identifier on both sides.\<close>

definition packet_ids :: "npf_cache \<Rightarrow> u16 list option" where
  "packet_ids npc =
    (let proto = npc_proto npc; d = npc_data npc; l4 = the (npc_l4 npc) in
     if proto = IPPROTO_TCP \<or> proto = IPPROTO_UDP then Some [rd16 d l4, rd16 d (l4 + 2)]
     else if proto = IPPROTO_ICMP \<or> proto = IPPROTO_ICMPV6 then
       if npf_iscached npc NPC_ICMP_ID then Some [rd16 d (l4 + 4), rd16 d (l4 + 4)] else None
     else None)"

definition npf_conn_conkey :: "npf_cache \<Rightarrow> npf_connkey \<Rightarrow> nat \<Rightarrow> npf_flow \<Rightarrow> nat \<times> npf_connkey" where
  "npf_conn_conkey npc key di flow =
    (case npc_ckey npc of
       Some ckey \<Rightarrow> npf_connkey_copy ckey key (flow \<noteq> NPF_FLOW_FORW)
     | None \<Rightarrow>
       (case packet_ids npc of
          None \<Rightarrow> (0, key)
        | Some ids \<Rightarrow>
            let (ret, k) = npf_connkey_setkey key (npc_alen npc) (npc_proto npc)
                  [npc_addr npc NPF_SRC, npc_addr npc NPF_DST] ids flow in
            (ret, npf_connkey_setckey k
               (if npc_ctx npc VP_connkey_interface \<noteq> 0 then nb_ifid (npc_nbuf npc) else 0)
               (if npc_ctx npc VP_connkey_direction \<noteq> 0 then di mod 4 else 0))))"

section \<open>Export and import\<close>

definition npf_connkey_export :: "'nv nv_ops \<Rightarrow> 's npf_ifmap \<Rightarrow> npf_connkey \<Rightarrow> 'nv" where
  "npf_connkey_export N npf key =
    (let (alen, proto, ips, ids) = npf_connkey_getkey key [replicate 16 0, replicate 16 0];
         nv = nvlist_add_number N (nvlist_create N) ''proto'' (of_nat proto);
         nv = nvlist_add_number N nv ''sport'' (ucast (ids ! NPF_SRC));
         nv = nvlist_add_number N nv ''dport'' (ucast (ids ! NPF_DST));
         nv = nvlist_add_binary N nv ''saddr'' (take alen (ips ! NPF_SRC));
         nv = nvlist_add_binary N nv ''daddr'' (take alen (ips ! NPF_DST));
         (ifid, di) = npf_connkey_getckey key;
         nv = (if ifid \<noteq> 0 then nvlist_add_string N nv ''ifname'' (npf_ifmap_copyname npf ifid IFNAMSIZ) else nv) in
     if di \<noteq> 0 then nvlist_add_number N nv ''di'' (of_nat di) else nv)"

definition npf_connkey_import ::
  "'nv nv_ops \<Rightarrow> ('s, 'i) npf_ifops \<Rightarrow> 's npf_ifmap \<Rightarrow> 'nv \<Rightarrow> npf_connkey \<Rightarrow> nat \<times> npf_connkey \<times> 's npf_ifmap" where
  "npf_connkey_import N ops npf nv key =
    (let proto = unat (dnvlist_get_number N nv ''proto'' 0) in
     if proto \<ge> IPPROTO_MAX then (0, key, npf)
     else
       let ids = [ucast (dnvlist_get_number N nv ''sport'' 0), ucast (dnvlist_get_number N nv ''dport'' 0)];
           ips = [case dnvlist_get_binary N nv ''saddr'' of None \<Rightarrow> [] | Some a \<Rightarrow> a,
                  case dnvlist_get_binary N nv ''daddr'' of None \<Rightarrow> [] | Some a \<Rightarrow> a];
           alen1 = length (ips ! NPF_SRC); alen2 = length (ips ! NPF_DST) in
       if alen1 = 0 \<or> alen1 > 16 \<or> alen1 \<noteq> alen2 then (0, key, npf)
       else
         let (ret, key) = npf_connkey_setkey key alen1 proto ips ids NPF_FLOW_FORW in
         if ret = 0 then (0, key, npf)
         else
           let di = unat (dnvlist_get_number N nv ''di'' 0) mod 4 in
           case dnvlist_get_string N nv ''ifname'' of
             None \<Rightarrow> (ret, npf_connkey_setckey key 0 di, npf)
           | Some ifname \<Rightarrow>
               let (ifid, npf) = npf_ifmap_register ops npf ifname in
               if ifid = 0 then (0, key, npf) else (ret, npf_connkey_setckey key ifid di, npf))"

section \<open>The bytes of a key\<close>

definition le32 :: "u32 \<Rightarrow> u8 list" where
  "le32 v = [ucast v, ucast (drop_bit 8 v), ucast (drop_bit 16 v), ucast (drop_bit 24 v)]"

lemma length_le32 [simp]: "length (le32 v) = 4"
  by (simp add: le32_def)

lemma wr32_memcpy:
  assumes "i + 4 \<le> length d"
  shows "wr32 d i v = memcpy_at d i (le32 v)"
proof (rule nth_equalityI)
  show "length (wr32 d i v) = length (memcpy_at d i (le32 v))" using assms by simp
  fix j assume "j < length (wr32 d i v)"
  moreover have "le32 v ! n = ucast (drop_bit (8 * n) v)" if "n < 4" for n
    using that by (auto simp: le32_def numeral_eq_Suc less_Suc_eq)
  ultimately show "wr32 d i v ! j = memcpy_at d i (le32 v) ! j"
    using assms by (auto simp: nth_wr32 nth_memcpy_at)
qed

lemma rd32_le32 [simp]: "rd32 (le32 v @ xs) 0 = v"
proof -
  have "rd32 (wr32 [0, 0, 0, 0] 0 v) 0 = v" by (rule rd32_wr32_same) simp
  then show ?thesis by (simp add: rd32_def wr32_def le32_def)
qed

lemma rd32_append: "length p \<le> i \<Longrightarrow> rd32 (p @ xs) i = rd32 xs (i - length p)"
  by (simp add: rd32_def nth_append Suc_diff_le)

lemma rd32_take: "i + 4 \<le> n \<Longrightarrow> rd32 (take n xs) i = rd32 xs i"
  by (simp add: rd32_def)

lemma le32_inj [simp]: "le32 v = le32 w \<longleftrightarrow> v = w"
  by (metis rd32_le32)

lemma le32_rd32:
  assumes "4 \<le> length a"
  shows "le32 (rd32 a 0) = take 4 a"
proof (rule nth_equalityI)
  show "length (le32 (rd32 a 0)) = length (take 4 a)" using assms by simp
  fix j assume "j < length (le32 (rd32 a 0))"
  then have j: "j < 4" by simp
  then have "le32 (rd32 a 0) ! j = ucast (drop_bit (8 * j) (rd32 a 0))"
    by (auto simp: le32_def numeral_eq_Suc less_Suc_eq)
  also have "\<dots> = a ! j"
    by (rule bit_word_eqI) (use j in \<open>auto simp: bit_simps bit_rd32\<close>)
  finally show "le32 (rd32 a 0) ! j = take 4 a ! j" using j by simp
qed

lemma memcpy_at_append: "length a = i \<Longrightarrow> length b = length s \<Longrightarrow> memcpy_at (a @ b @ c) i s = a @ s @ c"
  by (simp add: memcpy_at_def)

text \<open>
  \<open>key_is key w0 w1 src dst\<close>: the key starts with two given words and two given addresses.
\<close>

definition key_is :: "npf_connkey \<Rightarrow> u32 \<Rightarrow> u32 \<Rightarrow> npf_addr \<Rightarrow> npf_addr \<Rightarrow> bool" where
  "key_is key w0 w1 src dst \<longleftrightarrow> (\<exists>rest. key = le32 w0 @ le32 w1 @ src @ dst @ rest)"

definition key_hdr :: "nat \<Rightarrow> nat \<Rightarrow> u32 \<Rightarrow> u32" where
  "key_hdr alen proto ckey = push_bit 28 (of_nat (alen div 4)) OR push_bit 20 (of_nat proto) OR ckey"

definition key_ids :: "u16 \<Rightarrow> u16 \<Rightarrow> u32" where
  "key_ids s d = push_bit 16 (ucast s) OR ucast d"

lemma key_is_words:
  assumes "key_is key w0 w1 src dst"
  shows "key_word key 0 = w0" "key_word key 1 = w1"
  using assms by (auto simp: key_is_def key_word_def rd32_append)

lemma key_is_addrs:
  assumes "key_is key w0 w1 src dst"
  shows "take (length src) (drop 8 key) = src" "take (length dst) (drop (8 + length src) key) = dst"
  using assms by (auto simp: key_is_def)

lemma key_is_set0: "key_is key w0 w1 src dst \<Longrightarrow> key_is (set_key_word key 0 v) v w1 src dst"
  using memcpy_at_append [of "[]" 0 "le32 w0" "le32 v"]
  by (auto simp: key_is_def set_key_word_def wr32_memcpy)

lemma key_is_set1: "key_is key w0 w1 src dst \<Longrightarrow> key_is (set_key_word key 1 v) w0 v src dst"
  using memcpy_at_append [of "le32 w0" 4 "le32 w1" "le32 v"]
  by (auto simp: key_is_def set_key_word_def wr32_memcpy)

lemma key_is_src:
  assumes "key_is key w0 w1 src dst" "length src' = length src"
  shows "key_is (memcpy_at key 8 src') w0 w1 src' dst"
  using assms memcpy_at_append [of "le32 w0 @ le32 w1" 8 src src'] by (auto simp: key_is_def)

lemma key_is_dst:
  assumes "key_is key w0 w1 src dst" "length dst' = length dst" "i = 8 + length src"
  shows "key_is (memcpy_at key i dst') w0 w1 src dst'"
  using assms memcpy_at_append [of "le32 w0 @ le32 w1 @ src" i dst dst'] by (auto simp: key_is_def)

lemma key_is_exists:
  assumes "8 + 2 * alen \<le> length key"
  obtains w0 w1 src dst where "key_is key w0 w1 src dst" "length src = alen" "length dst = alen"
proof -
  let ?s = "take alen (drop (4 + 4) key)" and ?d = "take alen (drop (4 + 4 + alen) key)"
  have "key = take 4 key @ take 4 (drop 4 key) @ ?s @ ?d @ drop (4 + 4 + alen + alen) key"
    by (simp only: append_assoc [symmetric] take_add [symmetric] append_take_drop_id)
  moreover have "le32 (rd32 key 0) = take 4 key" "le32 (rd32 (drop 4 key) 0) = take 4 (drop 4 key)"
    using assms by (intro le32_rd32; simp)+
  ultimately have "key_is key (rd32 key 0) (rd32 (drop 4 key) 0) ?s ?d"
    unfolding key_is_def by metis
  then show thesis using that assms by simp
qed

text \<open>What \<open>npf_connkey_setkey\<close> writes.\<close>

lemma setkey_is:
  assumes "alen = 4 \<or> alen = 16" "8 + 2 * alen \<le> length key" "length a = alen" "length b = alen"
    and ips: "ips ! isrc = a" "ips ! idst = b"
    and flow: "(isrc, idst) = (if flow = NPF_FLOW_FORW then (NPF_SRC, NPF_DST) else (NPF_DST, NPF_SRC))"
  shows "fst (npf_connkey_setkey key alen proto ips ids flow) = 8 + 2 * alen"
    "key_is (snd (npf_connkey_setkey key alen proto ips ids flow))
       (key_hdr alen proto 0) (key_ids (ids ! isrc) (ids ! idst)) a b"
proof -
  obtain w0 w1 s d where k: "key_is key w0 w1 s d" and l: "length s = alen" "length d = alen"
    using key_is_exists [OF assms(2)] by blast
  let ?h = "key_hdr alen proto 0" and ?i = "key_ids (ids ! isrc) (ids ! idst)"
  let ?k1 = "set_key_word (set_key_word key 0 ?h) 1 ?i"
  note k1 = key_is_set1 [OF key_is_set0 [OF k, of ?h], of ?i]
  have s: "key_is (memcpy_at ?k1 8 a) ?h ?i a d" using key_is_src [OF k1] l assms(3) by simp
  have "key_is (memcpy_at (memcpy_at ?k1 8 a) (8 + alen) b) ?h ?i a b"
    using key_is_dst [OF s] l assms(3,4) by simp
  moreover have "npf_connkey_setkey key alen proto ips ids flow =
      (8 + 2 * alen, memcpy_at (memcpy_at ?k1 8 a) (8 + alen) b)"
  proof (cases "alen = 4")
    case True
    have len: "16 \<le> length ?k1" using assms(2) True by (simp add: set_key_word_def)
    have "set_key_word ?k1 2 (rd32 a 0) = memcpy_at ?k1 8 a"
      using len True assms(3) le32_rd32 [of a] by (simp add: set_key_word_def wr32_memcpy)
    moreover have "set_key_word (memcpy_at ?k1 8 a) 3 (rd32 b 0) = memcpy_at (memcpy_at ?k1 8 a) 12 b"
      using len True assms(3,4) le32_rd32 [of b] by (simp add: set_key_word_def wr32_memcpy)
    ultimately show ?thesis
      using True ips flow by (simp add: npf_connkey_setkey_def key_hdr_def key_ids_def flow [symmetric])
  next
    case False
    then show ?thesis
      using assms(1,3,4) ips by (simp add: npf_connkey_setkey_def key_hdr_def key_ids_def flow [symmetric])
  qed
  ultimately show "fst (npf_connkey_setkey key alen proto ips ids flow) = 8 + 2 * alen"
    "key_is (snd (npf_connkey_setkey key alen proto ips ids flow)) ?h ?i a b" by simp_all
qed

lemma setckey_is:
  assumes "key_is key w0 w1 src dst"
  shows "key_is (npf_connkey_setckey key ifid di) (w0 OR ifid OR push_bit 18 (of_nat di)) w1 src dst"
  using assms key_is_set0 [OF assms] key_is_set0 [OF key_is_set0 [OF assms]]
  by (simp add: npf_connkey_setckey_def Let_def or.assoc key_is_words(1) [OF assms]
      key_is_words(1) [OF key_is_set0 [OF assms]])

section \<open>Fields of the header word\<close>

lemma take_bit_small: "n < 2 ^ m \<Longrightarrow> take_bit m (of_nat n) = (of_nat n :: 'a::len word)"
  by (simp add: of_nat_take_bit [symmetric] take_bit_nat_eq_self)

text \<open>The key area: interface identifiers below \<open>2^18\<close> and a direction do not overlap.\<close>

definition key_ckey :: "u32 \<Rightarrow> nat \<Rightarrow> u32" where
  "key_ckey ifid di = ifid OR push_bit 18 (of_nat di)"

lemma ckey_bits:
  fixes i w :: u32
  shows "take_bit 18 (take_bit 18 i OR push_bit 18 (take_bit 2 w)) = take_bit 18 i"
    "drop_bit 18 (take_bit 18 i OR push_bit 18 (take_bit 2 w)) = take_bit 2 w"
    "take_bit 20 (take_bit 18 i OR push_bit 18 (take_bit 2 w)) = take_bit 18 i OR push_bit 18 (take_bit 2 w)"
  by (auto intro!: bit_word_eqI simp: bit_simps)

lemma key_ckey_fields:
  assumes "take_bit 18 ifid = ifid" "di < 4"
  shows "take_bit 18 (key_ckey ifid di) = ifid" "drop_bit 18 (key_ckey ifid di) = of_nat di"
    "take_bit 20 (key_ckey ifid di) = key_ckey ifid di"
  using ckey_bits [of ifid "of_nat di"] assms take_bit_small [of di 2, where ?'a = 32]
  by (simp_all add: key_ckey_def)

lemma hdr_bits:
  fixes a p c :: u32
  shows "drop_bit 28 (push_bit 28 (take_bit 4 a) OR push_bit 20 (take_bit 8 p) OR take_bit 20 c) = take_bit 4 a"
    "take_bit 8 (drop_bit 20 (push_bit 28 (take_bit 4 a) OR push_bit 20 (take_bit 8 p) OR take_bit 20 c)) = take_bit 8 p"
    "take_bit 20 (push_bit 28 (take_bit 4 a) OR push_bit 20 (take_bit 8 p) OR take_bit 20 c) = take_bit 20 c"
  by (auto intro!: bit_word_eqI simp: bit_simps)

lemma key_hdr_fields:
  assumes "alen < 64" "proto < 256" "take_bit 20 c = c"
  shows "drop_bit 28 (key_hdr alen proto c) = of_nat (alen div 4)"
    "take_bit 8 (drop_bit 20 (key_hdr alen proto c)) = of_nat proto"
    "take_bit 20 (key_hdr alen proto c) = c"
proof -
  have "alen div 4 < 2 ^ 4" "proto < 2 ^ 8" using assms by simp_all
  note this [THEN take_bit_small [where ?'a = 32]]
  then show "drop_bit 28 (key_hdr alen proto c) = of_nat (alen div 4)"
    "take_bit 8 (drop_bit 20 (key_hdr alen proto c)) = of_nat proto"
    "take_bit 20 (key_hdr alen proto c) = c"
    using hdr_bits [of "of_nat (alen div 4)" "of_nat proto" c] assms(3) unfolding key_hdr_def by metis+
qed

lemma key_hdr_inj:
  assumes "alen < 64" "proto < 256" "take_bit 20 c = c" "4 dvd alen"
    and "alen' < 64" "proto' < 256" "take_bit 20 c' = c'" "4 dvd alen'"
  shows "key_hdr alen proto c = key_hdr alen' proto' c' \<longleftrightarrow> alen = alen' \<and> proto = proto' \<and> c = c'"
proof
  assume e: "key_hdr alen proto c = key_hdr alen' proto' c'"
  note f = key_hdr_fields [OF assms(1-3)] key_hdr_fields [OF assms(5-7)]
  have "(of_nat (alen div 4) :: u32) = of_nat (alen' div 4)" "(of_nat proto :: u32) = of_nat proto'" "c = c'"
    using f e by metis+
  moreover have "unat (of_nat (alen div 4) :: u32) = alen div 4" "unat (of_nat (alen' div 4) :: u32) = alen' div 4"
    "unat (of_nat proto :: u32) = proto" "unat (of_nat proto' :: u32) = proto'"
    using assms by (simp_all add: unat_of_nat)
  ultimately show "alen = alen' \<and> proto = proto' \<and> c = c'"
    using assms(4,8) by (metis dvd_div_eq_cancel)
qed simp

lemma and_ffff: "w AND 0xffff = take_bit 16 (w :: u32)"
  by (simp add: take_bit_eq_mask mask_eq_exp_minus_1)

lemma key_ids_fields:
  "ucast (drop_bit 16 (key_ids s d)) = s" "ucast (key_ids s d AND 0xffff) = d" "ucast (key_ids s d) = d"
  by (auto intro!: bit_word_eqI simp: key_ids_def bit_simps and_ffff bit_beyond)

lemma key_ids_inj: "key_ids s d = key_ids s' d' \<longleftrightarrow> s = s' \<and> d = d'"
  using key_ids_fields by metis

lemma key_ckey_inj:
  assumes "take_bit 18 i = i" "di < 4" "take_bit 18 i' = i'" "di' < 4"
  shows "key_ckey i di = key_ckey i' di' \<longleftrightarrow> i = i' \<and> di = di'"
proof
  assume e: "key_ckey i di = key_ckey i' di'"
  have "i = i'" "(of_nat di :: u32) = of_nat di'"
    using key_ckey_fields [OF assms(1,2)] key_ckey_fields [OF assms(3,4)] e by metis+
  moreover have "unat (of_nat di :: u32) = di" "unat (of_nat di' :: u32) = di'"
    using assms by (simp_all add: unat_of_nat)
  ultimately show "i = i' \<and> di = di'" by metis
qed simp

section \<open>Keys of packets\<close>

text \<open>
  A packet for which a key can be built: its addresses are in the packet and its protocol has
  identifiers.
\<close>

definition packet_ok :: "npf_cache \<Rightarrow> bool" where
  "packet_ok npc \<longleftrightarrow> npc_ckey npc = None \<and> (npc_alen npc = 4 \<or> npc_alen npc = 16) \<and> npc_proto npc < 256 \<and>
     packet_ids npc \<noteq> None \<and> length (npc_addr npc NPF_SRC) = npc_alen npc \<and>
     length (npc_addr npc NPF_DST) = npc_alen npc"

definition packet_ifid :: "npf_cache \<Rightarrow> u32" where
  "packet_ifid npc = (if npc_ctx npc VP_connkey_interface \<noteq> 0 then nb_ifid (npc_nbuf npc) else 0)"

definition packet_di :: "npf_cache \<Rightarrow> nat \<Rightarrow> nat" where
  "packet_di npc di = (if npc_ctx npc VP_connkey_direction \<noteq> 0 then di mod 4 else 0)"

lemma packet_di_less [simp]: "packet_di npc di < 4"
  by (simp add: packet_di_def)

text \<open>The source and destination of the key: those of the packet, swapped for the backwards stream.\<close>

definition by_flow :: "npf_flow \<Rightarrow> 'x list \<Rightarrow> 'x \<times> 'x" where
  "by_flow flow xs = (if flow = NPF_FLOW_FORW then (xs ! 0, xs ! 1) else (xs ! 1, xs ! 0))"

definition packet_addrs :: "npf_cache \<Rightarrow> npf_addr list" where
  "packet_addrs npc = [npc_addr npc NPF_SRC, npc_addr npc NPF_DST]"

lemma conkey_is:
  assumes p: "packet_ok npc" and l: "8 + 2 * npc_alen npc \<le> length key"
    and a: "by_flow flow (packet_addrs npc) = (src, dst)" and i: "by_flow flow (the (packet_ids npc)) = (sid, did)"
  shows "fst (npf_conn_conkey npc key di flow) = 8 + 2 * npc_alen npc"
    "key_is (snd (npf_conn_conkey npc key di flow))
       (key_hdr (npc_alen npc) (npc_proto npc) (key_ckey (packet_ifid npc) (packet_di npc di))) (key_ids sid did) src dst"
proof -
  obtain ids where ids: "packet_ids npc = Some ids" using p by (auto simp: packet_ok_def)
  define isrc idst where "isrc = (if flow = NPF_FLOW_FORW then NPF_SRC else NPF_DST)"
    and "idst = (if flow = NPF_FLOW_FORW then NPF_DST else NPF_SRC)"
  let ?r = "npf_connkey_setkey key (npc_alen npc) (npc_proto npc) (packet_addrs npc) ids flow"
  have al: "npc_alen npc = 4 \<or> npc_alen npc = 16" "length src = npc_alen npc" "length dst = npc_alen npc"
    using p a by (auto simp: packet_ok_def by_flow_def packet_addrs_def split: if_splits)
  have ix: "packet_addrs npc ! isrc = src" "packet_addrs npc ! idst = dst" "ids ! isrc = sid" "ids ! idst = did"
    "(isrc, idst) = (if flow = NPF_FLOW_FORW then (NPF_SRC, NPF_DST) else (NPF_DST, NPF_SRC))"
    using a i ids by (auto simp: by_flow_def isrc_def idst_def split: if_splits)
  note s = setkey_is [OF al(1) l al(2,3) ix(1,2,5), of "npc_proto npc" ids, unfolded ix(3,4)]
  have c: "npf_conn_conkey npc key di flow = (fst ?r, npf_connkey_setckey (snd ?r) (packet_ifid npc) (packet_di npc di))"
    using p ids
    by (simp add: npf_conn_conkey_def packet_ok_def packet_ifid_def packet_di_def packet_addrs_def split: prod.split)
  show "fst (npf_conn_conkey npc key di flow) = 8 + 2 * npc_alen npc" using c s(1) by simp
  show "key_is (snd (npf_conn_conkey npc key di flow))
      (key_hdr (npc_alen npc) (npc_proto npc) (key_ckey (packet_ifid npc) (packet_di npc di))) (key_ids sid did) src dst"
    using setckey_is [OF s(2), of "packet_ifid npc" "packet_di npc di"] c
    by (simp add: key_hdr_def key_ckey_def or.assoc)
qed

text \<open>The key as the database sees it: the bytes up to its length.\<close>

definition conkey :: "npf_cache \<Rightarrow> nat \<Rightarrow> npf_flow \<Rightarrow> u8 list" where
  "conkey npc di flow =
    (let (len, key) = npf_conn_conkey npc (replicate (4 * NPF_CONNKEY_MAXWORDS) 0) di flow in take len key)"

lemma conkey_eq:
  assumes "packet_ok npc" "by_flow flow (packet_addrs npc) = (src, dst)" "by_flow flow (the (packet_ids npc)) = (sid, did)"
  shows "conkey npc di flow =
    le32 (key_hdr (npc_alen npc) (npc_proto npc) (key_ckey (packet_ifid npc) (packet_di npc di))) @
    le32 (key_ids sid did) @ src @ dst"
proof -
  let ?key = "replicate (4 * NPF_CONNKEY_MAXWORDS) 0"
  have l: "8 + 2 * npc_alen npc \<le> length ?key" using assms(1) by (auto simp: packet_ok_def)
  have "length src = npc_alen npc" "length dst = npc_alen npc"
    using assms by (auto simp: packet_ok_def by_flow_def packet_addrs_def split: if_splits)
  then show ?thesis
    using conkey_is [OF assms(1) l assms(2,3), of di] by (auto simp: conkey_def key_is_def split: prod.split)
qed

section \<open>Adjusting a key\<close>

lemma alen_of_hdr:
  assumes "alen = 4 \<or> alen = 16" "proto < 256" "take_bit 20 c = c" "key_word key 0 = key_hdr alen proto c"
  shows "NPF_CONNKEY_ALEN key = alen" "NPF_CONNKEY_LEN key = 8 + 2 * alen"
proof -
  have "drop_bit 28 (key_word key 0) = of_nat (alen div 4)"
    using key_hdr_fields(1) [of alen proto c] assms by auto
  then show "NPF_CONNKEY_ALEN key = alen" using assms(1) by (auto simp: NPF_CONNKEY_ALEN_def)
  then show "NPF_CONNKEY_LEN key = 8 + 2 * alen" by (simp add: NPF_CONNKEY_LEN_def)
qed

lemma adj_ids:
  "push_bit 16 (ucast n) OR (key_ids s d AND drop_bit 16 0xffff0000) = key_ids n d"
  "ucast n OR (key_ids s d AND drop_bit 0 0xffff0000) = key_ids s n"
proof -
  have m: "drop_bit 16 0xffff0000 = (mask 16 :: u32)" "drop_bit 0 0xffff0000 = (push_bit 16 (mask 16) :: u32)"
    by (simp_all add: mask_eq_exp_minus_1)
  show "push_bit 16 (ucast n) OR (key_ids s d AND drop_bit 16 0xffff0000) = key_ids n d"
    "ucast n OR (key_ids s d AND drop_bit 0 0xffff0000) = key_ids s n"
    unfolding m by (auto intro!: bit_word_eqI simp: key_ids_def bit_simps bit_beyond)
qed

text \<open>The address and, unless it is zero, the identifier on one side of the key are replaced.\<close>

lemma adjkey_is:
  assumes k: "key_is key (key_hdr alen proto c) (key_ids s d) src dst"
    and al: "alen = 4 \<or> alen = 16" "proto < 256" "take_bit 20 c = c"
    and l: "length src = alen" "length dst = alen" "length na = alen"
  shows "key_is (npf_conn_adjkey key na n NPF_SRC) (key_hdr alen proto c) (key_ids (if n \<noteq> 0 then n else s) d) na dst"
    "key_is (npf_conn_adjkey key na n NPF_DST) (key_hdr alen proto c) (key_ids s (if n \<noteq> 0 then n else d)) src na"
proof -
  have a: "NPF_CONNKEY_ALEN key = alen" using alen_of_hdr(1) [OF al key_is_words(1) [OF k]] .
  have ks: "key_is (memcpy_at key 8 na) (key_hdr alen proto c) (key_ids s d) na dst"
    using key_is_src [OF k] l by simp
  have kd: "key_is (memcpy_at key (8 + alen) na) (key_hdr alen proto c) (key_ids s d) src na"
    using key_is_dst [OF k] l by simp
  have four: "4 * (alen div 4) = alen" using al(1) by auto
  show "key_is (npf_conn_adjkey key na n NPF_SRC) (key_hdr alen proto c) (key_ids (if n \<noteq> 0 then n else s) d) na dst"
    using ks key_is_set1 [OF ks] adj_ids(1) [of n s d] key_is_words(2) [OF ks] l
    by (simp add: npf_conn_adjkey_def a Let_def)
  show "key_is (npf_conn_adjkey key na n NPF_DST) (key_hdr alen proto c) (key_ids s (if n \<noteq> 0 then n else d)) src na"
    using kd key_is_set1 [OF kd] adj_ids(2) [of n s d] key_is_words(2) [OF kd] l four
    by (simp add: npf_conn_adjkey_def a Let_def)
qed

section \<open>Properties\<close>

text \<open>
  C28: replies find the connection.  The key of the backwards stream that is stored for a packet
  is the key under which a reply is looked up: a packet of the same protocol on the same
  interface with the addresses and identifiers swapped.
\<close>

theorem npf_conn_conkey_reply:
  assumes "packet_ok npc" "packet_ok rep" "npc_ctx rep = npc_ctx npc" "nb_ifid (npc_nbuf rep) = nb_ifid (npc_nbuf npc)"
    and "npc_alen rep = npc_alen npc" "npc_proto rep = npc_proto npc"
    and "npc_addr rep NPF_SRC = npc_addr npc NPF_DST" "npc_addr rep NPF_DST = npc_addr npc NPF_SRC"
    and "packet_ids npc = Some [s, d]" "packet_ids rep = Some [d, s]"
  shows "conkey rep di NPF_FLOW_FORW = conkey npc di NPF_FLOW_BACK"
  using assms
  by (simp add: conkey_eq [OF assms(2), of NPF_FLOW_FORW _ _ d s] conkey_eq [OF assms(1), of NPF_FLOW_BACK _ _ d s]
      by_flow_def packet_addrs_def packet_ifid_def packet_di_def)

text \<open>A TCP packet from 10.0.0.1:12345 to 192.168.1.2:80 and its reply, as cached.\<close>

definition ex_reply :: "u8 list" where
  "ex_reply =
     [0x45, 0, 0, 40, 0, 1, 0, 0, 64, 6, 0xaf, 0x24, 192, 168, 1, 2, 10, 0, 0, 1,
      0, 80, 0x30, 0x39, 0, 0, 1, 0, 0, 0, 2, 0, 0x50, 0x12, 0x20, 0, 0, 0, 0, 0]"

definition ex_cached :: "u8 list \<Rightarrow> u32 \<Rightarrow> npf_cache" where
  "ex_cached data ifid = (ex_npc data [40])\<lparr>
     npc_ctx := ex_params(VP_connkey_interface := 1, VP_connkey_direction := 1),
     npc_info := NPC_IP4 OR NPC_LAYER4 OR NPC_TCP, npc_alen := 4, npc_hlen := 20, npc_proto := IPPROTO_TCP,
     npc_ips := [12, 16], npc_l4 := Some 20,
     npc_nbuf := nbuf_init pullup_mops data [40] None ifid 0 \<rparr>"

lemma ex_cached_ok:
  "packet_ok (ex_cached (ex_packet 2 0 0) ifid)" "packet_ok (ex_cached ex_reply ifid)"
  "packet_ids (ex_cached (ex_packet 2 0 0) ifid) = Some [0x3930, 0x5000]"
  "packet_ids (ex_cached ex_reply ifid) = Some [0x5000, 0x3930]"
  by (simp_all add: packet_ok_def packet_ids_def ex_cached_def ex_packet_def ex_reply_def ex_npc_def npc_addr_def
      nbuf_init_def nbuf_reset_def rd16_def)

theorem npf_conn_conkey_reply_witness:
  "conkey (ex_cached ex_reply 3) PFIL_IN NPF_FLOW_FORW = conkey (ex_cached (ex_packet 2 0 0) 3) PFIL_IN NPF_FLOW_BACK"
  by (rule npf_conn_conkey_reply [OF ex_cached_ok(1) ex_cached_ok(2) _ _ _ _ _ _ ex_cached_ok(3,4)])
    (simp_all add: ex_cached_def npc_addr_def ex_packet_def ex_reply_def nbuf_init_def nbuf_reset_def)



text \<open>
  Reading a key back.  For a packet on an interface below \<open>2^18\<close> the address length, the
  addresses, the identifiers and the direction are recovered.  The protocol is not: it is read
  four bits below the place where it was stored, together with the direction.  Nor is the
  interface: it is read together with the direction bits.
\<close>

theorem npf_connkey_getkey_conkey:
  assumes "packet_ok npc" "packet_ids npc = Some [s, d]" "nb_ifid (npc_nbuf npc) < 2 ^ 18"
    "npf_conn_conkey npc (replicate 40 0) di NPF_FLOW_FORW = (len, key)"
  shows "npf_connkey_getkey key ips =
      (npc_alen npc,
       unat ((push_bit 4 (of_nat (npc_proto npc)) OR drop_bit 16 (key_ckey (packet_ifid npc) (packet_di npc di)))
         AND 0xff :: u32),
       packet_addrs npc, [s, d]) \<and>
    npf_connkey_getckey key = (key_ckey (packet_ifid npc) (packet_di npc di), packet_di npc di)"
proof -
  let ?c = "key_ckey (packet_ifid npc) (packet_di npc di)"
  let ?h = "key_hdr (npc_alen npc) (npc_proto npc) ?c"
  have f: "take_bit 18 (packet_ifid npc) = packet_ifid npc"
    using assms(3) by (simp add: packet_ifid_def word_less_nat_alt word_unat_eq_iff unsigned_take_bit_eq
        take_bit_nat_eq_self)
  note cf = key_ckey_fields [OF f packet_di_less]
  have p: "npc_alen npc = 4 \<or> npc_alen npc = 16" "npc_proto npc < 256" "8 + 2 * npc_alen npc \<le> length (replicate 40 (0 :: u8))"
    "length (npc_addr npc 0) = npc_alen npc" "length (npc_addr npc 1) = npc_alen npc"
    using assms(1) by (auto simp: packet_ok_def)
  have k: "key_is key ?h (key_ids s d) (npc_addr npc 0) (npc_addr npc 1)"
    using conkey_is(2) [OF assms(1) p(3), of NPF_FLOW_FORW _ _ s d di] assms(2,4)
    by (simp add: by_flow_def packet_addrs_def)
  note w = key_is_words [OF k]
  have a: "unat (push_bit 2 (drop_bit 28 (key_word key 0))) = npc_alen npc"
    using alen_of_hdr(1) [OF p(1,2) cf(3) w(1)] by (simp add: NPF_CONNKEY_ALEN_def)
  have m: "w AND 0xff = take_bit 8 w" "w AND (push_bit 20 1 - 1) = take_bit 20 w" "w AND 3 = take_bit 2 w" for w :: u32
    by (simp_all add: take_bit_eq_mask mask_eq_exp_minus_1 push_bit_of_1)
  have proto: "take_bit 8 (drop_bit 16 ?h) = take_bit 8 (push_bit 4 (of_nat (npc_proto npc)) OR drop_bit 16 ?c)"
    by (rule bit_word_eqI) (auto simp: key_hdr_def bit_simps)
  have "take_bit 2 (drop_bit 18 ?h) = take_bit 2 (drop_bit 18 ?c)"
    by (rule bit_word_eqI) (auto simp: key_hdr_def bit_simps)
  then have di: "take_bit 2 (drop_bit 18 ?h) = of_nat (packet_di npc di)"
    using cf(2) take_bit_small [of "packet_di npc di" 2, where ?'a = 32] by simp
  have ckey: "take_bit 20 ?h = ?c" using key_hdr_fields(3) [OF _ p(2) cf(3)] p(1) by auto
  have "unat (of_nat (packet_di npc di) :: u32) = packet_di npc di"
    using less_trans [OF packet_di_less, of "2 ^ 32" npc di] by (simp add: unat_of_nat)
  then have "npf_connkey_getckey key = (?c, packet_di npc di)"
    unfolding npf_connkey_getckey_def w m of_nat_numeral ckey di by simp
  moreover have "take (npc_alen npc) (drop (4 * 2) key) = npc_addr npc 0"
    "take (npc_alen npc) (drop (4 * (2 + npc_alen npc div 4)) key) = npc_addr npc 1"
    using key_is_addrs [OF k] p(1,4,5) by auto
  then have "npf_connkey_getkey key ips =
      (npc_alen npc, unat (take_bit 8 (push_bit 4 (of_nat (npc_proto npc)) OR drop_bit 16 ?c)), packet_addrs npc, [s, d])"
    using p(1) unfolding npf_connkey_getkey_def Let_def w a [unfolded w] m proto key_ids_fields packet_addrs_def by auto
  ultimately show ?thesis unfolding m by blast
qed

theorem npf_connkey_getkey_conkey_witness:
  "npf_connkey_getkey (snd (npf_conn_conkey (ex_cached (ex_packet 2 0 0) 3) (replicate 40 0) PFIL_IN NPF_FLOW_FORW)) [] =
     (4, 100, [[10, 0, 0, 1], [192, 168, 1, 2]], [0x3930, 0x5000]) \<and>
   npf_connkey_getckey (snd (npf_conn_conkey (ex_cached (ex_packet 2 0 0) 3) (replicate 40 0) PFIL_IN NPF_FLOW_FORW)) =
     (0x40003, PFIL_IN)"
  using npf_connkey_getkey_conkey [OF ex_cached_ok(1) ex_cached_ok(3) _ prod.collapse [symmetric], of 3 PFIL_IN "[]"]
  by (simp add: ex_cached_def ex_packet_def packet_ifid_def packet_di_def packet_addrs_def npc_addr_def key_ckey_def
      nbuf_init_def nbuf_reset_def)

text \<open>
  The interface identifier and the direction overlap.  Every flush of the configuration
  advances the identifiers by 64, so after 4096 flushes the first interface has the identifier
  \<open>2^18 + 1\<close>, and an inbound packet on it has the same key as one on the interface 1.
\<close>

theorem npf_conn_conkey_collision:
  "NPF_IFMAP_SLOT2ID ((npf_ifmap_flush ops ^^ 4096) (npf_ifmap_init ops host)) 0 = 2 ^ 18 + 1 \<and>
   conkey (ex_cached (ex_packet 2 0 0) (2 ^ 18 + 1)) PFIL_IN NPF_FLOW_FORW =
   conkey (ex_cached (ex_packet 2 0 0) 1) PFIL_IN NPF_FLOW_FORW"
proof
  let ?off = "ifmap_off ((npf_ifmap_flush ops ^^ 4096) (npf_ifmap_init ops host))"
  have "unat ?off = 64 * 4096" by (rule flush_off) simp
  then have "?off = 2 ^ 18" by (simp add: word_unat_eq_iff)
  then show "NPF_IFMAP_SLOT2ID ((npf_ifmap_flush ops ^^ 4096) (npf_ifmap_init ops host)) 0 = 2 ^ 18 + 1"
    by (simp add: NPF_IFMAP_SLOT2ID_def)
  show "conkey (ex_cached (ex_packet 2 0 0) (2 ^ 18 + 1)) PFIL_IN NPF_FLOW_FORW =
      conkey (ex_cached (ex_packet 2 0 0) 1) PFIL_IN NPF_FLOW_FORW"
    by code_simp
qed

text \<open>
  Inverting an overriding key.  The copy of a key for the backwards stream stores the
  identifiers in the header word, so the copy of a TCP key over IPv4 is not a key of that
  length: it is not even its own inverse.
\<close>

theorem npf_connkey_copy_invert:
  "let key = snd (npf_conn_conkey (ex_cached (ex_packet 2 0 0) 3) (replicate 40 0) PFIL_IN NPF_FLOW_FORW);
       inv = snd (npf_connkey_copy key (replicate 40 0) True) in
   NPF_CONNKEY_ALEN key = 4 \<and> NPF_CONNKEY_ALEN inv = 12 \<and>
   key_word inv 0 = key_word key 1 \<and> snd (npf_connkey_copy inv (replicate 40 0) True) \<noteq> key"
  by code_simp

end
