(* ===== verification/NPF_Kern.thy ===== *)
theory NPF_Kern
  imports NPF_Connkey NPF_Portmap
begin

text \<open>
  The state of an NPF instance that connection tracking, address translation and the rule
  procedures share (\<open>npf_t\<close> of \<open>src/kern/npf_impl.h\<close> and the structures it leads to).  Objects
  are identified by their pointers, natural numbers; each kind has its heap in the state.  The
  log \<open>kn_freed\<close> records the objects that were given back to the allocator.
\<close>

section \<open>Statistics\<close>

datatype npf_stats =
    NPF_STAT_PASS_DEFAULT | NPF_STAT_PASS_RULESET | NPF_STAT_PASS_CONN
  | NPF_STAT_BLOCK_DEFAULT | NPF_STAT_BLOCK_RULESET
  | NPF_STAT_CONN_CREATE | NPF_STAT_CONN_DESTROY | NPF_STAT_NAT_CREATE | NPF_STAT_NAT_DESTROY
  | NPF_STAT_INVALID_STATE | NPF_STAT_INVALID_STATE_TCP1 | NPF_STAT_INVALID_STATE_TCP2
  | NPF_STAT_INVALID_STATE_TCP3 | NPF_STAT_RACE_CONN | NPF_STAT_RACE_NAT
  | NPF_STAT_FRAGMENTS | NPF_STAT_REASSEMBLY | NPF_STAT_REASSFAIL
  | NPF_STAT_ERROR | NPF_STAT_NBUF_NONCONTIG | NPF_STAT_NBUF_CONTIG_FAIL

section \<open>Rule procedures and extensions\<close>

abbreviation NPF_DECISION_BLOCK :: nat where "NPF_DECISION_BLOCK \<equiv> 0"
abbreviation NPF_DECISION_PASS :: nat where "NPF_DECISION_PASS \<equiv> 1"

record npf_match_info =
  mi_rid :: u64
  mi_retfl :: u32
  mi_di :: nat

record npf_ext =
  ext_callname :: string
  ext_refcnt :: nat

record npf_rproc =
  rp_flags :: u32
  rp_refcnt :: nat
  rp_ext_count :: nat
  rp_ext :: "nat list"
  rp_ext_meta :: "nat list"
  rp_name :: string

section \<open>Connections\<close>

record npf_conn =
  c_proto :: nat
  c_alen :: nat
  c_ifid :: u32
  c_flags :: u32
  c_retfl :: u32
  c_rid :: u64
  c_rproc :: "nat option"
  c_nat :: "nat option"
  c_refcnt :: nat
  c_atime :: u32
  c_state :: npf_state
  c_keys :: "u8 list"

text \<open>
  The values in the map are pointers with a tag in bit 0.  The lists hold pointers; the head of
  a list is its first element.
\<close>

record 'm npf_conndb =
  cd_map :: 'm
  cd_new :: "nat list"
  cd_list :: "nat list"
  cd_gclist :: "nat list"
  cd_marker :: "nat option"

section \<open>Address translation\<close>

text \<open>\<open>n_aux\<close> is the union of \<open>n_rr_idx\<close> and \<open>n_npt66_adj\<close>, its lower half.\<close>

record npf_natpolicy =
  n_nat_list :: "nat list"
  n_refcnt :: nat
  n_id :: u64
  n_type :: nat
  n_flags :: u32
  n_alen :: nat
  n_taddr :: npf_addr
  n_tmask :: nat
  n_tport :: u16
  n_tid :: nat
  n_algo :: nat
  n_aux :: u32

record npf_nat =
  nt_natpolicy :: nat
  nt_ifid :: u16
  nt_alen :: nat
  nt_taddr :: npf_addr
  nt_oaddr :: npf_addr
  nt_oport :: u16
  nt_tport :: u16
  nt_alg :: "nat option"
  nt_alg_arg :: nat
  nt_conn :: nat

section \<open>The instance\<close>

datatype kobj = OConn nat | ONat nat | ONatpolicy nat | ORproc nat | OExt nat

record ('m, 'p, 'x) npf_kern =
  kn_params :: param_store
  conns :: "nat \<Rightarrow> npf_conn"
  conn_db :: "'m npf_conndb"
  conn_tracking :: bool
  worker_wait_time :: int
  nats :: "nat \<Rightarrow> npf_nat"
  natps :: "nat \<Rightarrow> npf_natpolicy"
  portmap :: "'p npf_portmap"
  rprocs :: "nat \<Rightarrow> npf_rproc"
  exts :: "nat \<Rightarrow> npf_ext"
  ext_list :: "nat list"
  ext_state :: 'x
  kn_stats :: "npf_stats \<Rightarrow> nat"
  kn_freed :: "kobj list"

definition npf_stats_inc :: "npf_stats \<Rightarrow> ('m, 'p, 'x) npf_kern \<Rightarrow> ('m, 'p, 'x) npf_kern" where
  "npf_stats_inc st k = k\<lparr> kn_stats := (kn_stats k)(st := kn_stats k st + 1) \<rparr>"

definition kern_free :: "kobj \<Rightarrow> ('m, 'p, 'x) npf_kern \<Rightarrow> ('m, 'p, 'x) npf_kern" where
  "kern_free ob k = k\<lparr> kn_freed := ob # kn_freed k \<rparr>"

text \<open>Updates of one object.\<close>

definition conn_upd :: "nat \<Rightarrow> (npf_conn \<Rightarrow> npf_conn) \<Rightarrow> ('m, 'p, 'x) npf_kern \<Rightarrow> ('m, 'p, 'x) npf_kern" where
  "conn_upd c f k = k\<lparr> conns := (conns k)(c := f (conns k c)) \<rparr>"

definition nat_upd :: "nat \<Rightarrow> (npf_nat \<Rightarrow> npf_nat) \<Rightarrow> ('m, 'p, 'x) npf_kern \<Rightarrow> ('m, 'p, 'x) npf_kern" where
  "nat_upd nt f k = k\<lparr> nats := (nats k)(nt := f (nats k nt)) \<rparr>"

definition natp_upd ::
  "nat \<Rightarrow> (npf_natpolicy \<Rightarrow> npf_natpolicy) \<Rightarrow> ('m, 'p, 'x) npf_kern \<Rightarrow> ('m, 'p, 'x) npf_kern" where
  "natp_upd np f k = k\<lparr> natps := (natps k)(np := f (natps k np)) \<rparr>"

definition rproc_upd :: "nat \<Rightarrow> (npf_rproc \<Rightarrow> npf_rproc) \<Rightarrow> ('m, 'p, 'x) npf_kern \<Rightarrow> ('m, 'p, 'x) npf_kern" where
  "rproc_upd rp f k = k\<lparr> rprocs := (rprocs k)(rp := f (rprocs k rp)) \<rparr>"

definition ext_upd :: "nat \<Rightarrow> (npf_ext \<Rightarrow> npf_ext) \<Rightarrow> ('m, 'p, 'x) npf_kern \<Rightarrow> ('m, 'p, 'x) npf_kern" where
  "ext_upd e f k = k\<lparr> exts := (exts k)(e := f (exts k e)) \<rparr>"

lemmas upd_defs = conn_upd_def nat_upd_def natp_upd_def rproc_upd_def ext_upd_def npf_stats_inc_def kern_free_def

section \<open>Functions called through pointers\<close>

text \<open>The operations of an extension: constructor, destructor and the procedure.\<close>

record ('x, 'nv) npf_ext_ops =
  ext_ctor :: "'nv \<Rightarrow> 'x \<Rightarrow> errno option \<times> nat \<times> 'x"
  ext_dtor :: "nat \<Rightarrow> 'x \<Rightarrow> 'x"
  ext_proc :: "npf_cache \<Rightarrow> nat \<Rightarrow> npf_match_info \<Rightarrow> nat \<Rightarrow> 'x \<Rightarrow> bool \<times> npf_cache \<times> nat \<times> 'x"

text \<open>The functions of an application-level gateway, on an instance of type \<open>'k\<close>.\<close>

record 'k npfa_funcs =
  npfa_match :: "(npf_cache \<Rightarrow> nat \<Rightarrow> nat \<Rightarrow> 'k \<Rightarrow> bool \<times> npf_cache \<times> 'k) option"
  npfa_translate :: "(npf_cache \<Rightarrow> nat \<Rightarrow> npf_flow \<Rightarrow> 'k \<Rightarrow> bool \<times> npf_cache \<times> 'k) option"
  npfa_inspect :: "(npf_cache \<Rightarrow> nat \<Rightarrow> 'k \<Rightarrow> nat option \<times> npf_cache \<times> 'k) option"
  npfa_destroy :: "('k \<Rightarrow> nat \<Rightarrow> nat \<Rightarrow> 'k) option"

text \<open>A gateway is identified by its slot, the position in \<open>alg_list\<close>.\<close>

record 'k npf_algset =
  alg_list :: "string option list"
  alg_count :: nat
  alg_funcs :: "'k npfa_funcs list"

text \<open>
  What the operations on an instance use: the libraries, whether the allocator has memory for
  a bitmap of ports, the extensions and the gateways.
\<close>

record ('m, 'p, 'x, 'nv) kern_env =
  env_map :: "('m, u8 list, nat) thmap_ops"
  env_pm :: "'p portmap_ops"
  env_mem :: bool
  env_ext :: "nat \<Rightarrow> ('x, 'nv) npf_ext_ops"
  env_algs :: "('m, 'p, 'x) npf_kern npf_algset"

text \<open>An empty instance, used where a witness needs one.\<close>

definition ex_conn :: npf_conn where
  "ex_conn = \<lparr> c_proto = 0, c_alen = 0, c_ifid = 0, c_flags = 0, c_retfl = 0, c_rid = 0, c_rproc = None, c_nat = None,
     c_refcnt = 0, c_atime = 0, c_state = npf_state_zero, c_keys = [] \<rparr>"

definition ex_kern :: "(u8 list \<Rightarrow> nat option, u8 list \<Rightarrow> nat option, unit) npf_kern" where
  "ex_kern = \<lparr>
     kn_params = ex_params(VP_connkey_interface := 1, VP_connkey_direction := 1),
     conns = (\<lambda>_. ex_conn),
     conn_db = \<lparr> cd_map = Map.empty, cd_new = [], cd_list = [], cd_gclist = [], cd_marker = None \<rparr>,
     conn_tracking = True, worker_wait_time = 1000,
     nats = (\<lambda>_. \<lparr> nt_natpolicy = 0, nt_ifid = 0, nt_alen = 0, nt_taddr = [], nt_oaddr = [], nt_oport = 0, nt_tport = 0,
               nt_alg = None, nt_alg_arg = 0, nt_conn = 0 \<rparr>),
     natps = (\<lambda>_. \<lparr> n_nat_list = [], n_refcnt = 0, n_id = 0, n_type = 0, n_flags = 0, n_alen = 0, n_taddr = [], n_tmask = 0,
               n_tport = 0, n_tid = 0, n_algo = 0, n_aux = 0 \<rparr>),
     portmap = npf_portmap_create fun_thmap,
     rprocs = (\<lambda>_. \<lparr> rp_flags = 0, rp_refcnt = 0, rp_ext_count = 0, rp_ext = [], rp_ext_meta = [], rp_name = [] \<rparr>),
     exts = (\<lambda>_. \<lparr> ext_callname = [], ext_refcnt = 0 \<rparr>), ext_list = [], ext_state = (),
     kn_stats = (\<lambda>_. 0), kn_freed = [] \<rparr>"

definition ex_env :: "(u8 list \<Rightarrow> nat option, u8 list \<Rightarrow> nat option, unit, nvl) kern_env" where
  "ex_env = \<lparr>
     env_map = fun_thmap, env_pm = fun_thmap, env_mem = True,
     env_ext = (\<lambda>_. \<lparr> ext_ctor = (\<lambda>nv x. (None, 0, x)), ext_dtor = (\<lambda>m x. x),
       ext_proc = (\<lambda>npc m mi decision x. (True, npc, decision, x)) \<rparr>),
     env_algs = \<lparr> alg_list = replicate 4 None, alg_count = 0, alg_funcs = [] \<rparr> \<rparr>"

end
