(* ===== verification/NPF_Alg.thy ===== *)
theory NPF_Alg
  imports NPF_Kern
begin

text \<open>
  Application-level gateways (\<open>src/kern/npf_alg.c\<close>): the table of registered gateways and the
  calls of their functions.  The table is generic in the instance \<open>'k\<close> the functions act on.
\<close>

section \<open>Registration\<close>

abbreviation NPF_MAX_ALGS :: nat where "NPF_MAX_ALGS \<equiv> 4"

definition npfa_none :: "'k npfa_funcs" where
  "npfa_none = \<lparr> npfa_match = None, npfa_translate = None, npfa_inspect = None, npfa_destroy = None \<rparr>"

definition npf_alg_init :: "'k npf_algset" where
  "npf_alg_init =
     \<lparr> alg_list = replicate NPF_MAX_ALGS None, alg_count = 0, alg_funcs = replicate NPF_MAX_ALGS npfa_none \<rparr>"

definition npf_alg_lookup :: "'k npf_algset \<Rightarrow> string \<Rightarrow> nat option" where
  "npf_alg_lookup aset name = List.find (\<lambda>i. alg_list aset ! i = Some name) [0..<alg_count aset]"

definition npf_alg_register :: "'k npf_algset \<Rightarrow> string \<Rightarrow> 'k npfa_funcs \<Rightarrow> nat option \<times> 'k npf_algset" where
  "npf_alg_register aset name funcs =
    (if npf_alg_lookup aset name \<noteq> None then (None, aset)
     else
       case List.find (\<lambda>i. alg_list aset ! i = None) [0..<NPF_MAX_ALGS] of
         None \<Rightarrow> (None, aset)
       | Some i \<Rightarrow>
           (Some i, aset\<lparr> alg_list := (alg_list aset)[i := Some name], alg_funcs := (alg_funcs aset)[i := funcs],
                          alg_count := max (alg_count aset) (i + 1) \<rparr>))"

text \<open>
  Unregistering: the functions but \<open>destroy\<close> are cleared, then the gateway is dissociated from
  the NAT entries (\<open>freealg\<close>, given the table in that state), then \<open>destroy\<close> is cleared.
\<close>

definition npf_alg_unregister ::
  "('k npf_algset \<Rightarrow> nat \<Rightarrow> 'k \<Rightarrow> 'k) \<Rightarrow> 'k npf_algset \<Rightarrow> nat \<Rightarrow> 'k \<Rightarrow> 'k npf_algset \<times> 'k" where
  "npf_alg_unregister freealg aset i k =
    (let f = alg_funcs aset ! i;
         aset1 = aset\<lparr> alg_funcs := (alg_funcs aset)[i := npfa_none\<lparr> npfa_destroy := npfa_destroy f \<rparr>] \<rparr>;
         k = freealg aset1 i k in
     (aset1\<lparr> alg_funcs := (alg_funcs aset1)[i := npfa_none], alg_list := (alg_list aset1)[i := None] \<rparr>, k))"

section \<open>Calls\<close>

fun alg_match_loop ::
  "'k npfa_funcs list \<Rightarrow> npf_cache \<Rightarrow> nat \<Rightarrow> nat \<Rightarrow> 'k \<Rightarrow> bool \<times> npf_cache \<times> 'k" where
  "alg_match_loop [] npc nt di k = (False, npc, k)"
| "alg_match_loop (f # fs) npc nt di k =
    (case npfa_match f of
       None \<Rightarrow> alg_match_loop fs npc nt di k
     | Some m \<Rightarrow>
         let (ok, npc, k) = m npc nt di k in
         if ok then (True, npc, k) else alg_match_loop fs npc nt di k)"

definition npf_alg_match ::
  "'k npf_algset \<Rightarrow> npf_cache \<Rightarrow> nat \<Rightarrow> nat \<Rightarrow> 'k \<Rightarrow> bool \<times> npf_cache \<times> 'k" where
  "npf_alg_match aset npc nt di k = alg_match_loop (take (alg_count aset) (alg_funcs aset)) npc nt di k"

fun alg_exec_loop :: "'k npfa_funcs list \<Rightarrow> npf_cache \<Rightarrow> nat \<Rightarrow> npf_flow \<Rightarrow> 'k \<Rightarrow> npf_cache \<times> 'k" where
  "alg_exec_loop [] npc nt flow k = (npc, k)"
| "alg_exec_loop (f # fs) npc nt flow k =
    (case npfa_translate f of
       None \<Rightarrow> alg_exec_loop fs npc nt flow k
     | Some t \<Rightarrow> let (_, npc, k) = t npc nt flow k in alg_exec_loop fs npc nt flow k)"

definition npf_alg_exec :: "'k npf_algset \<Rightarrow> npf_cache \<Rightarrow> nat \<Rightarrow> npf_flow \<Rightarrow> 'k \<Rightarrow> npf_cache \<times> 'k" where
  "npf_alg_exec aset npc nt flow k = alg_exec_loop (take (alg_count aset) (alg_funcs aset)) npc nt flow k"

fun alg_conn_loop :: "'k npfa_funcs list \<Rightarrow> npf_cache \<Rightarrow> nat \<Rightarrow> 'k \<Rightarrow> nat option \<times> npf_cache \<times> 'k" where
  "alg_conn_loop [] npc di k = (None, npc, k)"
| "alg_conn_loop (f # fs) npc di k =
    (case npfa_inspect f of
       None \<Rightarrow> alg_conn_loop fs npc di k
     | Some i \<Rightarrow>
         let (con, npc, k) = i npc di k in
         if con \<noteq> None then (con, npc, k) else alg_conn_loop fs npc di k)"

definition npf_alg_conn :: "'k npf_algset \<Rightarrow> npf_cache \<Rightarrow> nat \<Rightarrow> 'k \<Rightarrow> nat option \<times> npf_cache \<times> 'k" where
  "npf_alg_conn aset npc di k = alg_conn_loop (take (alg_count aset) (alg_funcs aset)) npc di k"

text \<open>A gateway is always one of the slots.\<close>

definition npf_alg_destroy :: "'k npf_algset \<Rightarrow> nat \<Rightarrow> nat \<Rightarrow> nat \<Rightarrow> 'k \<Rightarrow> 'k" where
  "npf_alg_destroy aset alg nt con k =
    (case (if alg < length (alg_funcs aset) then npfa_destroy (alg_funcs aset ! alg) else None) of
       None \<Rightarrow> k
     | Some d \<Rightarrow> d k nt con)"

definition npf_alg_export :: "'nv nv_ops \<Rightarrow> 'k npf_algset \<Rightarrow> 'nv \<Rightarrow> 'nv" where
  "npf_alg_export N aset nvl =
     fold (\<lambda>i nvl. case alg_list aset ! i of
             None \<Rightarrow> nvl
           | Some name \<Rightarrow>
               nvlist_append_nvlist_array N nvl ''algs'' (nvlist_add_string N (nvlist_create N) ''name'' name))
       [0..<alg_count aset] nvl"

section \<open>The table\<close>

text \<open>
  The invariant: names are unique, every registered gateway is below the count, and a free slot
  has no functions.
\<close>

definition algset_ok :: "'k npf_algset \<Rightarrow> bool" where
  "algset_ok aset \<longleftrightarrow> length (alg_list aset) = NPF_MAX_ALGS \<and> length (alg_funcs aset) = NPF_MAX_ALGS \<and>
     alg_count aset \<le> NPF_MAX_ALGS \<and>
     (\<forall>i < NPF_MAX_ALGS. if alg_list aset ! i = None then alg_funcs aset ! i = npfa_none else i < alg_count aset) \<and>
     (\<forall>i < NPF_MAX_ALGS. \<forall>j < NPF_MAX_ALGS. alg_list aset ! i \<noteq> None \<longrightarrow> alg_list aset ! i = alg_list aset ! j \<longrightarrow> i = j)"

lemma npf_alg_init_ok: "algset_ok npf_alg_init"
  by (simp add: algset_ok_def npf_alg_init_def)

lemma find_upt_SomeD: "List.find P [0..<n] = Some i \<Longrightarrow> i < n \<and> P i"
  by (auto simp: find_Some_iff)

lemma find_upt_None: "List.find P [0..<n] = None \<longleftrightarrow> (\<forall>i<n. \<not> P i)"
  by (auto simp: find_None_iff)

lemma npf_alg_lookup_iff:
  assumes "algset_ok aset"
  shows "npf_alg_lookup aset name = Some i \<longleftrightarrow> i < NPF_MAX_ALGS \<and> alg_list aset ! i = Some name"
proof
  assume "npf_alg_lookup aset name = Some i"
  then show "i < NPF_MAX_ALGS \<and> alg_list aset ! i = Some name"
    using assms unfolding npf_alg_lookup_def algset_ok_def by (auto dest!: find_upt_SomeD)
next
  assume i: "i < NPF_MAX_ALGS \<and> alg_list aset ! i = Some name"
  then have "i < alg_count aset" using assms unfolding algset_ok_def by (metis option.distinct(1))
  then obtain j where j: "npf_alg_lookup aset name = Some j"
    using i find_upt_None [of "\<lambda>i. alg_list aset ! i = Some name" "alg_count aset"]
    by (auto simp: npf_alg_lookup_def)
  then have "j < alg_count aset" "alg_list aset ! j = Some name"
    by (auto simp: npf_alg_lookup_def dest!: find_upt_SomeD)
  then have "i = j" using i assms unfolding algset_ok_def by (metis le_trans less_le_trans option.distinct(1))
  then show "npf_alg_lookup aset name = Some i" using j by simp
qed

lemma npf_alg_register_ok:
  assumes "algset_ok aset" "npf_alg_register aset name funcs = (Some i, aset')"
  shows "algset_ok aset'" "npf_alg_lookup aset' name = Some i" "alg_funcs aset' ! i = funcs" "alg_list aset ! i = None"
proof -
  obtain l: "npf_alg_lookup aset name = None" and i: "i < NPF_MAX_ALGS" "alg_list aset ! i = None"
    and e: "aset' = aset\<lparr> alg_list := (alg_list aset)[i := Some name], alg_funcs := (alg_funcs aset)[i := funcs],
                          alg_count := max (alg_count aset) (i + 1) \<rparr>"
    using assms(2) by (auto simp: npf_alg_register_def split: if_splits option.splits dest!: find_upt_SomeD)
  have n: "alg_list aset ! j \<noteq> Some name" "Some name \<noteq> alg_list aset ! j" if "j < NPF_MAX_ALGS" for j
    using l npf_alg_lookup_iff [OF assms(1), of name j] that by auto
  show ok: "algset_ok aset'"
    using assms(1) i unfolding algset_ok_def e by (auto simp: nth_list_update less_max_iff_disj n)
  show "alg_funcs aset' ! i = funcs" "alg_list aset ! i = None"
    using assms(1) i by (simp_all add: e algset_ok_def)
  show "npf_alg_lookup aset' name = Some i"
    unfolding npf_alg_lookup_iff [OF ok] using assms(1) i by (simp add: e algset_ok_def)
qed

lemma npf_alg_unregister_ok:
  assumes "algset_ok aset" "i < NPF_MAX_ALGS"
  shows "algset_ok (fst (npf_alg_unregister freealg aset i k))"
    "npf_alg_lookup (fst (npf_alg_unregister freealg aset i k)) name =
       (if alg_list aset ! i = Some name then None else npf_alg_lookup aset name)"
proof -
  let ?a = "fst (npf_alg_unregister freealg aset i k)"
  show ok: "algset_ok ?a"
    using assms unfolding algset_ok_def npf_alg_unregister_def by (auto simp: nth_list_update Let_def)
  have l: "alg_list ?a = (alg_list aset)[i := None]" by (simp add: npf_alg_unregister_def Let_def)
  have "npf_alg_lookup ?a name = Some j \<longleftrightarrow>
      (if alg_list aset ! i = Some name then None else npf_alg_lookup aset name) = Some j" for j
    using assms unfolding npf_alg_lookup_iff [OF ok] l
    by (auto simp: npf_alg_lookup_iff [OF assms(1)] nth_list_update algset_ok_def split: if_splits)
  then show "npf_alg_lookup ?a name = (if alg_list aset ! i = Some name then None else npf_alg_lookup aset name)"
    by (metis option.exhaust)
qed

text \<open>
  Registered and unregistered: the slot is free again for the next registration, and calls do
  not reach the functions any more.
\<close>

lemma alg_loops_none:
  assumes "\<forall>f \<in> set fs. f = npfa_none"
  shows "alg_match_loop fs npc nt di k = (False, npc, k)" "alg_exec_loop fs npc nt flow k = (npc, k)"
    "alg_conn_loop fs npc di k = (None, npc, k)"
  using assms by (induction fs) (simp_all add: npfa_none_def)

end
