(* ===== verification/NPF_Rproc.thy ===== *)
theory NPF_Rproc
  imports NPF_Kern
begin

text \<open>
  Rule procedures and the extensions they call (\<open>src/kern/npf_rproc.c\<close>).  An extension is
  referenced by the rule procedures that call it, a rule procedure by the set it belongs to, by
  rules, by connections and by packets in processing.
\<close>

section \<open>Extensions\<close>

abbreviation EXT_NAME_LEN :: nat where "EXT_NAME_LEN \<equiv> 32"
abbreviation RPROC_NAME_LEN :: nat where "RPROC_NAME_LEN \<equiv> 32"
abbreviation RPROC_EXT_COUNT :: nat where "RPROC_EXT_COUNT \<equiv> 16"

definition ext_find :: "('m, 'p, 'x) npf_kern \<Rightarrow> string \<Rightarrow> nat option" where
  "ext_find k name = List.find (\<lambda>e. ext_callname (exts k e) = name) (ext_list k)"

text \<open>
  \<open>autoload\<close> is \<open>module_autoload\<close> of the host on the module's name: whether it failed, and the
  instance after the module, if loaded, has registered its extension.
\<close>

definition npf_ext_lookup ::
  "(string \<Rightarrow> ('m, 'p, 'x) npf_kern \<Rightarrow> bool \<times> ('m, 'p, 'x) npf_kern) option \<Rightarrow> string \<Rightarrow> ('m, 'p, 'x) npf_kern
   \<Rightarrow> nat option \<times> ('m, 'p, 'x) npf_kern" where
  "npf_ext_lookup autoload name k =
    (case ext_find k name of
       Some e \<Rightarrow> (Some e, k)
     | None \<Rightarrow>
         (case autoload of
            None \<Rightarrow> (None, k)
          | Some load \<Rightarrow>
              let (err, k) = load (take (RPROC_NAME_LEN + 7) (''npf_ext_'' @ name)) k in
              if err then (None, k) else (ext_find k name, k)))"

text \<open>\<open>e\<close> is the object that the allocator returns.\<close>

definition npf_ext_register ::
  "nat \<Rightarrow> string \<Rightarrow> ('m, 'p, 'x) npf_kern \<Rightarrow> nat option \<times> ('m, 'p, 'x) npf_kern" where
  "npf_ext_register e name k =
    (let k1 = k\<lparr> exts := (exts k)(e := \<lparr> ext_callname = take (EXT_NAME_LEN - 1) name, ext_refcnt = 0 \<rparr>) \<rparr> in
     if fst (npf_ext_lookup None name k1) \<noteq> None then (None, kern_free (OExt e) k1)
     else (Some e, k1\<lparr> ext_list := e # ext_list k1 \<rparr>))"

definition npf_ext_unregister ::
  "nat \<Rightarrow> ('m, 'p, 'x) npf_kern \<Rightarrow> errno option \<times> ('m, 'p, 'x) npf_kern" where
  "npf_ext_unregister e k =
    (if ext_refcnt (exts k e) \<noteq> 0 then (Some EBUSY, k)
     else (None, kern_free (OExt e) (k\<lparr> ext_list := remove1 e (ext_list k) \<rparr>)))"

section \<open>Rule procedures\<close>

text \<open>\<open>npf_rproc_assign\<close> is called by the constructor of the extension.\<close>

definition npf_rproc_assign :: "nat \<Rightarrow> nat \<Rightarrow> ('m, 'p, 'x) npf_kern \<Rightarrow> ('m, 'p, 'x) npf_kern" where
  "npf_rproc_assign rp params k =
     rproc_upd rp (\<lambda>r. r\<lparr> rp_ext_meta := (rp_ext_meta r)[rp_ext_count r := params] \<rparr>) k"

definition npf_ext_construct ::
  "('m, 'p, 'x, 'nv) kern_env \<Rightarrow> (string \<Rightarrow> ('m, 'p, 'x) npf_kern \<Rightarrow> bool \<times> ('m, 'p, 'x) npf_kern) \<Rightarrow> string \<Rightarrow> nat \<Rightarrow> 'nv
   \<Rightarrow> ('m, 'p, 'x) npf_kern \<Rightarrow> errno option \<times> ('m, 'p, 'x) npf_kern" where
  "npf_ext_construct E load name rp params k =
    (if rp_ext_count (rprocs k rp) \<ge> RPROC_EXT_COUNT then (Some ENOSPC, k)
     else
       case npf_ext_lookup (Some load) name k of
         (None, k) \<Rightarrow> (Some ENOENT, k)
       | (Some e, k) \<Rightarrow>
           let k1 = ext_upd e (\<lambda>x. x\<lparr> ext_refcnt := ext_refcnt x + 1 \<rparr>) k;
               (err, meta, xs) = ext_ctor (env_ext E e) params (ext_state k1);
               k2 = k1\<lparr> ext_state := xs \<rparr> in
           (case err of
              Some er \<Rightarrow> (Some er, ext_upd e (\<lambda>x. x\<lparr> ext_refcnt := ext_refcnt x - 1 \<rparr>) k2)
            | None \<Rightarrow>
                (None, rproc_upd rp (\<lambda>r. r\<lparr> rp_ext_count := rp_ext_count r + 1,
                                          rp_ext := (rp_ext r)[rp_ext_count r := e] \<rparr>)
                         (npf_rproc_assign rp meta k2))))"

definition npf_rproc_create ::
  "'nv nv_ops \<Rightarrow> nat \<Rightarrow> 'nv \<Rightarrow> ('m, 'p, 'x) npf_kern \<Rightarrow> nat option \<times> ('m, 'p, 'x) npf_kern" where
  "npf_rproc_create N rp nv k =
    (case dnvlist_get_string N nv ''name'' of
       None \<Rightarrow> (None, k)
     | Some name \<Rightarrow>
         (Some rp, k\<lparr> rprocs := (rprocs k)(rp :=
            \<lparr> rp_flags = ucast (dnvlist_get_number N nv ''flags'' 0), rp_refcnt = 1, rp_ext_count = 0,
              rp_ext = replicate RPROC_EXT_COUNT 0, rp_ext_meta = replicate RPROC_EXT_COUNT 0,
              rp_name = take (RPROC_NAME_LEN - 1) name \<rparr>) \<rparr>))"

definition npf_rproc_acquire :: "nat \<Rightarrow> ('m, 'p, 'x) npf_kern \<Rightarrow> ('m, 'p, 'x) npf_kern" where
  "npf_rproc_acquire rp k = rproc_upd rp (\<lambda>r. r\<lparr> rp_refcnt := rp_refcnt r + 1 \<rparr>) k"

definition npf_rproc_getname :: "('m, 'p, 'x) npf_kern \<Rightarrow> nat \<Rightarrow> string" where
  "npf_rproc_getname k rp = rp_name (rprocs k rp)"

text \<open>The extensions of a procedure that goes away, in the order of its calls.\<close>

definition ext_release ::
  "('m, 'p, 'x, 'nv) kern_env \<Rightarrow> nat \<times> nat \<Rightarrow> ('m, 'p, 'x) npf_kern \<Rightarrow> ('m, 'p, 'x) npf_kern" where
  "ext_release E em k =
     ext_upd (fst em) (\<lambda>x. x\<lparr> ext_refcnt := ext_refcnt x - 1 \<rparr>)
       (k\<lparr> ext_state := ext_dtor (env_ext E (fst em)) (snd em) (ext_state k) \<rparr>)"

definition rproc_calls :: "npf_rproc \<Rightarrow> (nat \<times> nat) list" where
  "rproc_calls r = zip (take (rp_ext_count r) (rp_ext r)) (take (rp_ext_count r) (rp_ext_meta r))"

definition npf_rproc_release ::
  "('m, 'p, 'x, 'nv) kern_env \<Rightarrow> nat \<Rightarrow> ('m, 'p, 'x) npf_kern \<Rightarrow> ('m, 'p, 'x) npf_kern" where
  "npf_rproc_release E rp k =
    (let k1 = rproc_upd rp (\<lambda>r. r\<lparr> rp_refcnt := rp_refcnt r - 1 \<rparr>) k in
     if rp_refcnt (rprocs k1 rp) \<noteq> 0 then k1
     else kern_free (ORproc rp) (fold (ext_release E) (rproc_calls (rprocs k1 rp)) k1))"

text \<open>The loop over the calls; a call that fails has freed the packet.\<close>

fun rproc_run_loop ::
  "('m, 'p, 'x, 'nv) kern_env \<Rightarrow> (nat \<times> nat) list \<Rightarrow> npf_match_info \<Rightarrow> npf_cache \<Rightarrow> nat \<Rightarrow> 'x
   \<Rightarrow> bool \<times> npf_cache \<times> nat \<times> 'x" where
  "rproc_run_loop E [] mi npc decision xs = (True, npc, decision, xs)"
| "rproc_run_loop E (em # ems) mi npc decision xs =
    (let (ok, npc, decision, xs) = ext_proc (env_ext E (fst em)) npc (snd em) mi decision xs in
     if \<not> ok then (False, npc, decision, xs)
     else
       let npc = (if nbuf_flag_p (npc_nbuf npc) NBUF_DATAREF_RESET then npf_recache npc else npc) in
       rproc_run_loop E ems mi npc decision xs)"

definition npf_rproc_run ::
  "('m, 'p, 'x, 'nv) kern_env \<Rightarrow> npf_cache \<Rightarrow> nat \<Rightarrow> npf_match_info \<Rightarrow> nat \<Rightarrow> ('m, 'p, 'x) npf_kern
   \<Rightarrow> bool \<times> npf_cache \<times> nat \<times> ('m, 'p, 'x) npf_kern" where
  "npf_rproc_run E npc rp mi decision k =
    (let (ok, npc, decision, xs) = rproc_run_loop E (rproc_calls (rprocs k rp)) mi npc decision (ext_state k) in
     (ok, npc, decision, k\<lparr> ext_state := xs \<rparr>))"

section \<open>Sets of rule procedures\<close>

type_synonym npf_rprocset = "nat list"

definition npf_rprocset_create :: npf_rprocset where
  "npf_rprocset_create = []"

definition npf_rprocset_destroy ::
  "('m, 'p, 'x, 'nv) kern_env \<Rightarrow> npf_rprocset \<Rightarrow> ('m, 'p, 'x) npf_kern \<Rightarrow> ('m, 'p, 'x) npf_kern" where
  "npf_rprocset_destroy E rpset k = fold (npf_rproc_release E) rpset k"

text \<open>\<open>strncmp\<close> on strings without NUL compares prefixes.\<close>

definition npf_rprocset_lookup :: "('m, 'p, 'x) npf_kern \<Rightarrow> npf_rprocset \<Rightarrow> string \<Rightarrow> nat option" where
  "npf_rprocset_lookup k rpset name =
     List.find (\<lambda>rp. take RPROC_NAME_LEN (rp_name (rprocs k rp)) = take RPROC_NAME_LEN name) rpset"

definition npf_rprocset_insert :: "npf_rprocset \<Rightarrow> nat \<Rightarrow> npf_rprocset" where
  "npf_rprocset_insert rpset rp = rp # rpset"

definition npf_rprocset_export :: "'nv nv_ops \<Rightarrow> ('m, 'p, 'x) npf_kern \<Rightarrow> npf_rprocset \<Rightarrow> 'nv \<Rightarrow> 'nv" where
  "npf_rprocset_export N k rpset nvl =
     fold (\<lambda>rp nvl. nvlist_append_nvlist_array N nvl ''rprocs''
             (nvlist_add_number N (nvlist_add_string N (nvlist_create N) ''name'' (rp_name (rprocs k rp)))
                ''flags'' (ucast (rp_flags (rprocs k rp)))))
       rpset nvl"

section \<open>Reference counts\<close>

text \<open>
  The live procedures are those with references.  An extension is used once for every call of a
  live procedure.
\<close>

definition rproc_live :: "('m, 'p, 'x) npf_kern \<Rightarrow> nat set" where
  "rproc_live k = {rp. rp_refcnt (rprocs k rp) \<noteq> 0}"

definition rproc_exts :: "npf_rproc \<Rightarrow> nat list" where
  "rproc_exts r = take (rp_ext_count r) (rp_ext r)"

definition ext_uses :: "('m, 'p, 'x) npf_kern \<Rightarrow> nat \<Rightarrow> nat" where
  "ext_uses k e = (\<Sum>rp \<in> rproc_live k. count_list (rproc_exts (rprocs k rp)) e)"

definition rproc_inv :: "('m, 'p, 'x) npf_kern \<Rightarrow> bool" where
  "rproc_inv k \<longleftrightarrow> finite (rproc_live k) \<and> distinct (ext_list k) \<and>
     (\<forall>rp \<in> rproc_live k. length (rp_ext (rprocs k rp)) = RPROC_EXT_COUNT \<and>
        length (rp_ext_meta (rprocs k rp)) = RPROC_EXT_COUNT \<and> rp_ext_count (rprocs k rp) \<le> RPROC_EXT_COUNT \<and>
        set (rproc_exts (rprocs k rp)) \<subseteq> set (ext_list k)) \<and>
     (\<forall>e \<in> set (ext_list k). ext_refcnt (exts k e) = ext_uses k e)"

lemma rproc_calls_exts: "length (rp_ext_meta r) = length (rp_ext r) \<Longrightarrow> map fst (rproc_calls r) = rproc_exts r"
  by (simp add: rproc_calls_def rproc_exts_def)

lemma ext_uses_zero:
  assumes "rproc_inv k" "ext_uses k e = 0" "rp \<in> rproc_live k"
  shows "e \<notin> set (rproc_exts (rprocs k rp))"
  using assms by (auto simp: ext_uses_def rproc_inv_def count_list_0_iff)

text \<open>The uses split into those of one procedure and those of the others.\<close>

lemma ext_uses_split:
  assumes "finite (rproc_live k)" "rp \<in> rproc_live k"
  shows "ext_uses k e = count_list (rproc_exts (rprocs k rp)) e +
    (\<Sum>r \<in> rproc_live k - {rp}. count_list (rproc_exts (rprocs k r)) e)"
  unfolding ext_uses_def by (rule sum.remove [OF assms])

lemma sum_live_cong:
  assumes "\<And>r. r \<noteq> rp \<Longrightarrow> rprocs k' r = rprocs k r"
  shows "(\<Sum>r \<in> rproc_live k' - {rp}. count_list (rproc_exts (rprocs k' r)) e) =
    (\<Sum>r \<in> rproc_live k - {rp}. count_list (rproc_exts (rprocs k r)) e)"
  by (rule sum.cong) (use assms in \<open>auto simp: rproc_live_def\<close>)

lemma rproc_live_upd:
  "rproc_live (k\<lparr> rprocs := (rprocs k)(rp := r) \<rparr>) = (if rp_refcnt r \<noteq> 0 then insert rp (rproc_live k) else rproc_live k - {rp})"
  by (auto simp: rproc_live_def)

lemma refcnt_inv:
  assumes "rproc_inv k" "rp \<in> rproc_live k" "g (rprocs k rp) \<noteq> 0"
  shows "rproc_inv (rproc_upd rp (\<lambda>r. r\<lparr> rp_refcnt := g r \<rparr>) k)"
proof -
  let ?k = "rproc_upd rp (\<lambda>r. r\<lparr> rp_refcnt := g r \<rparr>) k"
  have live: "rproc_live ?k = rproc_live k" using assms(2,3) by (auto simp: rproc_live_def upd_defs)
  have same: "rproc_exts (rprocs ?k r) = rproc_exts (rprocs k r)" "rp_ext (rprocs ?k r) = rp_ext (rprocs k r)"
    "rp_ext_meta (rprocs ?k r) = rp_ext_meta (rprocs k r)" "rp_ext_count (rprocs ?k r) = rp_ext_count (rprocs k r)" for r
    by (simp_all add: upd_defs rproc_exts_def)
  have "ext_uses ?k = ext_uses k" by (simp add: fun_eq_iff ext_uses_def live same)
  moreover have "ext_list ?k = ext_list k" "exts ?k = exts k" by (simp_all add: upd_defs)
  ultimately show ?thesis using assms(1) unfolding rproc_inv_def live same by simp
qed

lemma acquire_inv: "rproc_inv k \<Longrightarrow> rp \<in> rproc_live k \<Longrightarrow> rproc_inv (npf_rproc_acquire rp k)"
  unfolding npf_rproc_acquire_def by (rule refcnt_inv) simp_all

lemma ext_release_fold:
  "ext_refcnt (exts (fold (ext_release E) ems k) e) = ext_refcnt (exts k e) - count_list (map fst ems) e"
  "rprocs (fold (ext_release E) ems k) = rprocs k" "ext_list (fold (ext_release E) ems k) = ext_list k"
  by (induction ems arbitrary: k) (auto simp: ext_release_def upd_defs)

lemma release_inv:
  assumes I: "rproc_inv k" and l: "rp \<in> rproc_live k"
  shows "rproc_inv (npf_rproc_release E rp k)"
proof (cases "rp_refcnt (rprocs k rp) = 1")
  case False
  then have n: "rp_refcnt (rprocs k rp) - 1 \<noteq> 0" using l by (auto simp: rproc_live_def)
  then have "rproc_inv (rproc_upd rp (\<lambda>r. r\<lparr> rp_refcnt := rp_refcnt r - 1 \<rparr>) k)" by (rule refcnt_inv [OF I l])
  then show ?thesis using n by (simp add: npf_rproc_release_def upd_defs)
next
  case True
  define k1 where "k1 = rproc_upd rp (\<lambda>r. r\<lparr> rp_refcnt := rp_refcnt r - 1 \<rparr>) k"
  define k2 where "k2 = fold (ext_release E) (rproc_calls (rprocs k1 rp)) k1"
  have r: "npf_rproc_release E rp k = kern_free (ORproc rp) k2"
    using True by (simp add: npf_rproc_release_def Let_def k1_def k2_def upd_defs)
  have rest: "rprocs k2 r = rprocs k r" if "r \<noteq> rp" for r
    using that by (simp add: k2_def ext_release_fold k1_def upd_defs)
  have live: "rproc_live k2 = rproc_live k - {rp}"
    using True by (auto simp: rproc_live_def k2_def ext_release_fold k1_def upd_defs)
  have len: "length (rp_ext_meta (rprocs k rp)) = length (rp_ext (rprocs k rp))"
    using I l by (auto simp: rproc_inv_def)
  then have calls: "map fst (rproc_calls (rprocs k1 rp)) = rproc_exts (rprocs k rp)"
    using rproc_calls_exts [of "rprocs k1 rp"] by (simp add: k1_def upd_defs rproc_exts_def)
  have ext: "ext_refcnt (exts k2 e) = ext_refcnt (exts k e) - count_list (rproc_exts (rprocs k rp)) e"
    "ext_list k2 = ext_list k" for e
    unfolding k2_def ext_release_fold calls by (simp_all add: k1_def upd_defs)
  have "ext_uses k2 e = ext_uses k e - count_list (rproc_exts (rprocs k rp)) e" for e
  proof -
    have "ext_uses k2 e = (\<Sum>r \<in> rproc_live k - {rp}. count_list (rproc_exts (rprocs k r)) e)"
      unfolding ext_uses_def live by (rule sum.cong) (simp_all add: rest)
    then show ?thesis using ext_uses_split [OF _ l, of e] I by (simp add: rproc_inv_def)
  qed
  then have "rproc_inv k2" using I rest live ext unfolding rproc_inv_def by auto
  moreover have "rproc_inv (kern_free (ORproc rp) k2) = rproc_inv k2"
    by (simp add: rproc_inv_def rproc_live_def ext_uses_def kern_free_def)
  ultimately show ?thesis using r by simp
qed

lemma ext_find_in: "ext_find k name = Some e \<Longrightarrow> e \<in> set (ext_list k)"
  by (auto simp: ext_find_def find_Some_iff)

text \<open>What the allocator and the loader of modules promise.\<close>

definition load_ok :: "(string \<Rightarrow> ('m, 'p, 'x) npf_kern \<Rightarrow> bool \<times> ('m, 'p, 'x) npf_kern) \<Rightarrow> bool" where
  "load_ok load \<longleftrightarrow> (\<forall>n k. rproc_inv k \<longrightarrow> rproc_inv (snd (load n k)) \<and> rprocs (snd (load n k)) = rprocs k)"

lemma ext_lookup_inv:
  assumes "load_ok load" "rproc_inv k" "npf_ext_lookup (Some load) name k = (r, k')"
  shows "rproc_inv k'" "rprocs k' = rprocs k" "r = Some e \<Longrightarrow> e \<in> set (ext_list k')"
  using assms by (auto simp: npf_ext_lookup_def load_ok_def split: option.splits if_splits prod.splits
      dest: ext_find_in) (metis snd_conv)+

text \<open>One more call of the extension \<open>e\<close> in the procedure \<open>rp\<close>.\<close>

lemma add_call_inv:
  assumes I: "rproc_inv k" and l: "rp \<in> rproc_live k" and n: "rp_ext_count (rprocs k rp) < RPROC_EXT_COUNT"
    and e: "e \<in> set (ext_list k)"
    and k': "rprocs k' = (rprocs k)(rp := (rprocs k rp)\<lparr>
        rp_ext_meta := (rp_ext_meta (rprocs k rp))[rp_ext_count (rprocs k rp) := m],
        rp_ext_count := rp_ext_count (rprocs k rp) + 1,
        rp_ext := (rp_ext (rprocs k rp))[rp_ext_count (rprocs k rp) := e] \<rparr>)"
      "exts k' = (exts k)(e := (exts k e)\<lparr> ext_refcnt := ext_refcnt (exts k e) + 1 \<rparr>)" "ext_list k' = ext_list k"
  shows "rproc_inv k'"
proof -
  have live: "rproc_live k' = rproc_live k" using l by (auto simp: rproc_live_def k')
  have len: "length (rp_ext (rprocs k rp)) = RPROC_EXT_COUNT" using I l by (simp add: rproc_inv_def)
  have ex: "rproc_exts (rprocs k' rp) = rproc_exts (rprocs k rp) @ [e]"
    using n len by (simp add: k' rproc_exts_def take_Suc_conv_app_nth)
  have rest: "rprocs k' r = rprocs k r" if "r \<noteq> rp" for r using that by (simp add: k')
  have uses: "ext_uses k' x = ext_uses k x + (if x = e then 1 else 0)" for x
  proof -
    have f: "finite (rproc_live k)" "finite (rproc_live k')" "rp \<in> rproc_live k'" using I l live by (simp_all add: rproc_inv_def)
    show ?thesis
      using ext_uses_split [OF f(1) l, of x] ext_uses_split [OF f(2,3), of x] sum_live_cong [of rp k' k x, OF rest]
      by (simp add: ex)
  qed
  have "length (rp_ext (rprocs k' r)) = RPROC_EXT_COUNT \<and> length (rp_ext_meta (rprocs k' r)) = RPROC_EXT_COUNT \<and>
      rp_ext_count (rprocs k' r) \<le> RPROC_EXT_COUNT \<and> set (rproc_exts (rprocs k' r)) \<subseteq> set (ext_list k')"
    if "r \<in> rproc_live k" for r
    using I e n ex that k'(3) rest unfolding rproc_inv_def by (cases "r = rp") (auto simp: k'(1))
  then show ?thesis using I uses unfolding rproc_inv_def live by (simp add: k'(2,3))
qed

lemma construct_inv:
  assumes L: "load_ok load" and I: "rproc_inv k" and l: "rp \<in> rproc_live k"
  shows "rproc_inv (snd (npf_ext_construct E load name rp params k))"
proof (cases "rp_ext_count (rprocs k rp) \<ge> RPROC_EXT_COUNT")
  case True
  then show ?thesis using I by (simp add: npf_ext_construct_def)
next
  case False
  obtain r k1 where e: "npf_ext_lookup (Some load) name k = (r, k1)" by fastforce
  note k1 = ext_lookup_inv [OF L I e]
  show ?thesis
  proof (cases r)
    case None
    then show ?thesis using False e k1 by (simp add: npf_ext_construct_def)
  next
    case (Some x)
    obtain err meta xs where c: "ext_ctor (env_ext E x) params (ext_state k1) = (err, meta, xs)"
      using prod_cases3 by blast
    let ?k' = "snd (npf_ext_construct E load name rp params k)"
    show ?thesis
    proof (cases err)
      case None
      have "rproc_inv ?k'"
        by (rule add_call_inv [OF k1(1), of rp x _ meta])
          (use False e Some c None l k1 in \<open>simp_all add: npf_ext_construct_def npf_rproc_assign_def upd_defs rproc_live_def\<close>)
      then show ?thesis .
    next
      case (Some er)
      have "rprocs ?k' = rprocs k1" "ext_list ?k' = ext_list k1" "ext_refcnt (exts ?k' y) = ext_refcnt (exts k1 y)" for y
        using False e \<open>r = Some x\<close> c Some by (auto simp: npf_ext_construct_def upd_defs)
      then show ?thesis using k1(1) unfolding rproc_inv_def rproc_live_def ext_uses_def by simp
    qed
  qed
qed

lemma create_inv:
  assumes I: "rproc_inv k" and "rp \<notin> rproc_live k"
  shows "rproc_inv (snd (npf_rproc_create (N :: 'nv nv_ops) rp nv k))"
proof (cases "dnvlist_get_string N nv ''name''")
  case (Some name)
  let ?k' = "snd (npf_rproc_create N rp nv k)"
  have rest: "rprocs ?k' r = rprocs k r" if "r \<noteq> rp" for r using that Some by (simp add: npf_rproc_create_def)
  have new: "rproc_exts (rprocs ?k' rp) = []" "rp_refcnt (rprocs ?k' rp) = 1" "exts ?k' = exts k" "ext_list ?k' = ext_list k"
    "length (rp_ext (rprocs ?k' rp)) = RPROC_EXT_COUNT" "length (rp_ext_meta (rprocs ?k' rp)) = RPROC_EXT_COUNT"
    "rp_ext_count (rprocs ?k' rp) = 0"
    using Some by (simp_all add: npf_rproc_create_def rproc_exts_def)
  have "x \<in> rproc_live ?k' \<longleftrightarrow> x \<in> insert rp (rproc_live k)" for x
    by (cases "x = rp") (simp_all add: rproc_live_def rest new)
  then have live: "rproc_live ?k' = insert rp (rproc_live k)" by blast
  have f: "finite (rproc_live ?k')" using I live by (simp add: rproc_inv_def)
  have "ext_uses ?k' e = ext_uses k e" for e
    using ext_uses_split [OF f, of rp e] sum_live_cong [of rp ?k' k e, OF rest] assms(2) live new(1)
    by (simp add: ext_uses_def)
  moreover have "rprocs ?k' r = rprocs k r" if "r \<in> rproc_live k" for r using rest that assms(2) by metis
  ultimately show ?thesis using I f new unfolding rproc_inv_def live by simp
qed (use I in \<open>simp add: npf_rproc_create_def\<close>)

lemma register_inv:
  assumes I: "rproc_inv k" and e: "e \<notin> set (ext_list k)"
  shows "rproc_inv (snd (npf_ext_register e name k))"
proof -
  let ?k' = "snd (npf_ext_register e name k)"
  have r: "rprocs ?k' = rprocs k" and x: "x \<noteq> e \<Longrightarrow> exts ?k' x = exts k x" for x
    by (auto simp: npf_ext_register_def kern_free_def Let_def)
  then have u: "rproc_live ?k' = rproc_live k" "ext_uses ?k' = ext_uses k"
    by (simp_all add: rproc_live_def ext_uses_def fun_eq_iff)
  have "e \<notin> set (rproc_exts (rprocs k rp))" if "rp \<in> rproc_live k" for rp
    using I e that by (auto simp: rproc_inv_def)
  then have z: "ext_uses k e = 0" by (auto simp: ext_uses_def)
  have l: "ext_list ?k' = ext_list k \<or> ext_list ?k' = e # ext_list k \<and> ext_refcnt (exts ?k' e) = 0"
    by (auto simp: npf_ext_register_def kern_free_def Let_def)
  have "\<forall>y \<in> set (ext_list k). y \<noteq> e" using e by blast
  then show ?thesis using I e l z x unfolding rproc_inv_def r u by auto blast+
qed

lemma unregister_inv:
  assumes I: "rproc_inv k" and r: "npf_ext_unregister e k = (None, k')" and e: "e \<in> set (ext_list k)"
  shows "rproc_inv k'" "e \<notin> set (ext_list k')" "rp \<in> rproc_live k' \<Longrightarrow> e \<notin> set (rproc_exts (rprocs k' rp))"
proof -
  have z: "ext_uses k e = 0" using I r e by (auto simp: npf_ext_unregister_def rproc_inv_def split: if_splits)
  have k': "rprocs k' = rprocs k" "exts k' = exts k" "ext_list k' = remove1 e (ext_list k)"
    using r by (auto simp: npf_ext_unregister_def kern_free_def split: if_splits)
  then have u: "rproc_live k' = rproc_live k" "ext_uses k' = ext_uses k"
    by (simp_all add: rproc_live_def ext_uses_def fun_eq_iff)
  have d: "distinct (ext_list k)" using I by (simp add: rproc_inv_def)
  show "e \<notin> set (ext_list k')" using d by (simp add: k')
  show "e \<notin> set (rproc_exts (rprocs k' rp))" if "rp \<in> rproc_live k'" for rp
    using ext_uses_zero [OF I z] that by (simp add: u k')
  then show "rproc_inv k'"
    using I unfolding rproc_inv_def u k' by (auto simp: d u k')
qed

text \<open>
  The steps: extensions come and go, procedures are created, extended and referenced.  New
  objects are at addresses that are not in use; only referenced procedures are used.
\<close>

inductive rproc_step ::
  "('m, 'p, 'x, 'nv) kern_env \<Rightarrow> (string \<Rightarrow> ('m, 'p, 'x) npf_kern \<Rightarrow> bool \<times> ('m, 'p, 'x) npf_kern) \<Rightarrow>
   ('m, 'p, 'x) npf_kern \<Rightarrow> ('m, 'p, 'x) npf_kern \<Rightarrow> bool" for E load where
  step_register: "e \<notin> set (ext_list k) \<Longrightarrow> rproc_step E load k (snd (npf_ext_register e name k))"
| step_unregister: "e \<in> set (ext_list k) \<Longrightarrow> rproc_step E load k (snd (npf_ext_unregister e k))"
| step_create: "rp \<notin> rproc_live k \<Longrightarrow> rproc_step E load k (snd (npf_rproc_create (N :: 'nv nv_ops) rp nv k))"
| step_construct: "rp \<in> rproc_live k \<Longrightarrow> rproc_step E load k (snd (npf_ext_construct E load name rp params k))"
| step_acquire: "rp \<in> rproc_live k \<Longrightarrow> rproc_step E load k (npf_rproc_acquire rp k)"
| step_release: "rp \<in> rproc_live k \<Longrightarrow> rproc_step E load k (npf_rproc_release E rp k)"

definition rproc_start :: "('m, 'p, 'x) npf_kern \<Rightarrow> bool" where
  "rproc_start k \<longleftrightarrow> ext_list k = [] \<and> (\<forall>rp. rp_refcnt (rprocs k rp) = 0)"

lemma rproc_step_inv:
  assumes "rproc_step E load k k'" "load_ok load" "rproc_inv k"
  shows "rproc_inv k'"
  using assms(1)
proof cases
  case (step_unregister e)
  then show ?thesis
    using unregister_inv(1) [OF assms(3) _ step_unregister(2)] assms(3) by (auto simp: npf_ext_unregister_def split: if_splits)
qed (use assms in \<open>auto intro: register_inv create_inv construct_inv acquire_inv release_inv\<close>)

lemma rproc_reachable_inv:
  assumes "(rproc_step E load)\<^sup>*\<^sup>* k k'" "rproc_start k" "load_ok load"
  shows "rproc_inv k'"
  using assms(1)
proof (induction rule: rtranclp_induct)
  case base
  show ?case using assms(2) by (simp add: rproc_inv_def rproc_start_def rproc_live_def)
qed (use rproc_step_inv assms(3) in blast)

section \<open>Properties\<close>

text \<open>
  C20: an extension in use stays.  In every reachable state the reference count of an extension
  is the number of calls of it in live rule procedures; an extension that a live procedure
  calls is registered, and \<open>npf_ext_unregister\<close> refuses to remove it.
\<close>

theorem npf_ext_in_use:
  assumes "(rproc_step E load)\<^sup>*\<^sup>* k0 k" "rproc_start k0" "load_ok load"
    and "rp \<in> rproc_live k" "e \<in> set (rproc_exts (rprocs k rp))"
  shows "e \<in> set (ext_list k) \<and> ext_refcnt (exts k e) = ext_uses k e \<and> npf_ext_unregister e k = (Some EBUSY, k)"
proof -
  note I = rproc_reachable_inv [OF assms(1-3)]
  then have "e \<in> set (ext_list k)" "ext_refcnt (exts k e) = ext_uses k e" using assms(4,5) by (auto simp: rproc_inv_def)
  moreover have "ext_uses k e \<noteq> 0" using ext_uses_zero [OF I _ assms(4)] assms(5) by blast
  ultimately show ?thesis by (simp add: npf_ext_unregister_def)
qed

definition ex_rproc_kern where
  "ex_rproc_kern =
    (let k1 = snd (npf_ext_register 1 ''log'' ex_kern);
         k2 = snd (npf_rproc_create nvl_ops 2 (NVL [(''name'', NVString ''p'')]) k1) in
     snd (npf_ext_construct ex_env (\<lambda>n k. (True, k)) ''log'' 2 (NVL []) k2))"

theorem npf_ext_in_use_witness:
  "1 \<in> set (ext_list ex_rproc_kern) \<and> ext_refcnt (exts ex_rproc_kern 1) = ext_uses ex_rproc_kern 1 \<and>
   npf_ext_unregister 1 ex_rproc_kern = (Some EBUSY, ex_rproc_kern)"
proof (rule npf_ext_in_use)
  let ?load = "\<lambda>n k. (True, k)"
  let ?k1 = "snd (npf_ext_register 1 ''log'' ex_kern)"
  let ?k2 = "snd (npf_rproc_create nvl_ops 2 (NVL [(''name'', NVString ''p'')]) ?k1)"
  have "rproc_step ex_env ?load ex_kern ?k1" by (rule step_register) (simp add: ex_kern_def)
  moreover have "rproc_step ex_env ?load ?k1 ?k2"
    by (rule step_create) (simp add: rproc_live_def ex_kern_def npf_ext_register_def npf_ext_lookup_def ext_find_def Let_def)
  moreover have "rproc_step ex_env ?load ?k2 ex_rproc_kern"
    unfolding ex_rproc_kern_def Let_def
    by (rule step_construct) (simp add: rproc_live_def npf_rproc_create_def dnvlist_get_string_def nvl_ops_def)
  ultimately show "(rproc_step ex_env ?load)\<^sup>*\<^sup>* ex_kern ex_rproc_kern" by auto
  show "rproc_start ex_kern" by (simp add: rproc_start_def ex_kern_def)
  show "load_ok ?load" by (simp add: load_ok_def)
  show "2 \<in> rproc_live ex_rproc_kern" "1 \<in> set (rproc_exts (rprocs ex_rproc_kern 2))"
    unfolding rproc_live_def mem_Collect_eq by code_simp+
qed

end
