(* ===== verification/NPF_Natpol.thy ===== *)
theory NPF_Natpol
  imports NPF_Alg
begin

text \<open>
  Translation policies and entries (first part of \<open>src/kern/npf_nat.c\<close>): creation, export,
  comparison and reference counts of the policies, and the release of an entry.  Translation
  itself is in \<open>NPF_Nat\<close>.
\<close>

section \<open>Constants\<close>

abbreviation NPF_NATIN :: nat where "NPF_NATIN \<equiv> 1"
abbreviation NPF_NATOUT :: nat where "NPF_NATOUT \<equiv> 2"
abbreviation NPF_NAT_PORTS :: u32 where "NPF_NAT_PORTS \<equiv> 0x01"
abbreviation NPF_NAT_PORTMAP :: u32 where "NPF_NAT_PORTMAP \<equiv> 0x02"
abbreviation NPF_NAT_STATIC :: u32 where "NPF_NAT_STATIC \<equiv> 0x04"
abbreviation NPF_NAT_PRIVMASK :: u32 where "NPF_NAT_PRIVMASK \<equiv> 0x0f000000"
abbreviation NPF_NAT_USETABLE :: u32 where "NPF_NAT_USETABLE \<equiv> 0x01000000"
abbreviation NPF_ALGO_NETMAP :: nat where "NPF_ALGO_NETMAP \<equiv> 1"
abbreviation NPF_ALGO_IPHASH :: nat where "NPF_ALGO_IPHASH \<equiv> 2"
abbreviation NPF_ALGO_RR :: nat where "NPF_ALGO_RR \<equiv> 3"
abbreviation NPF_ALGO_NPT66 :: nat where "NPF_ALGO_NPT66 \<equiv> 4"

section \<open>Policies\<close>

text \<open>The members that share memory: the index of round robin and the adjustment of NPTv6.\<close>

definition n_npt66_adj :: "npf_natpolicy \<Rightarrow> u16" where
  "n_npt66_adj p = ucast (n_aux p)"

definition set_npt66_adj :: "u16 \<Rightarrow> npf_natpolicy \<Rightarrow> npf_natpolicy" where
  "set_npt66_adj v p = p\<lparr> n_aux := (n_aux p AND 0xffff0000) OR ucast v \<rparr>"

text \<open>A number as the \<open>unsigned\<close> it is assigned to.\<close>

definition get_unsigned :: "'nv nv_ops \<Rightarrow> 'nv \<Rightarrow> string \<Rightarrow> u32" where
  "get_unsigned N nv name = ucast (dnvlist_get_number N nv name 0)"

definition natpolicy_zero :: npf_natpolicy where
  "natpolicy_zero = \<lparr> n_nat_list = [], n_refcnt = 0, n_id = 0, n_type = 0, n_flags = 0, n_alen = 0,
     n_taddr = replicate 16 0, n_tmask = 0, n_tport = 0, n_tid = 0, n_algo = 0, n_aux = 0 \<rparr>"

text \<open>The translation address or table.\<close>

definition natpolicy_target :: "'nv nv_ops \<Rightarrow> 'nv \<Rightarrow> npf_natpolicy \<Rightarrow> npf_natpolicy option" where
  "natpolicy_target N nv p =
    (case nv_number N nv ''nat-table-id'' of
       Some tid \<Rightarrow>
         if n_flags p AND NPF_NAT_STATIC \<noteq> 0 then None
         else Some (p\<lparr> n_tid := unat (ucast tid :: u32), n_tmask := NPF_NO_NETMASK,
                      n_flags := n_flags p OR NPF_NAT_USETABLE \<rparr>)
     | None \<Rightarrow>
         (case dnvlist_get_binary N nv ''nat-addr'' of
            None \<Rightarrow> None
          | Some addr \<Rightarrow>
              if length addr = 0 \<or> length addr > 16 then None
              else
                let p = p\<lparr> n_taddr := memcpy_at (n_taddr p) 0 addr, n_alen := length addr,
                          n_tmask := unat (ucast (dnvlist_get_number N nv ''nat-mask'' (of_nat NPF_NO_NETMASK)) :: u8) \<rparr> in
                if npf_netmask_check (n_alen p) (n_tmask p) \<noteq> None then None else Some p))"

text \<open>The algorithm.\<close>

definition natpolicy_algo :: "'nv nv_ops \<Rightarrow> 'nv \<Rightarrow> npf_natpolicy \<Rightarrow> npf_natpolicy option" where
  "natpolicy_algo N nv p =
    (let p = p\<lparr> n_algo := unat (get_unsigned N nv ''nat-algo'') \<rparr> in
     if n_algo p = NPF_ALGO_NPT66 then Some (set_npt66_adj (ucast (dnvlist_get_number N nv ''npt66-adj'' 0)) p)
     else if n_algo p = NPF_ALGO_NETMAP then Some p
     else if n_tmask p \<noteq> NPF_NO_NETMASK then None
     else Some p)"

definition natpolicy_init :: "'nv nv_ops \<Rightarrow> 'nv \<Rightarrow> npf_natpolicy option" where
  "natpolicy_init N nv =
    (let p = natpolicy_zero\<lparr> n_refcnt := 1, n_type := unat (get_unsigned N nv ''type''),
               n_flags := get_unsigned N nv ''flags'' AND NOT NPF_NAT_PRIVMASK,
               n_id := dnvlist_get_number N nv ''nat-policy'' 0 \<rparr> in
     if (n_type p = NPF_NATIN) = (n_type p = NPF_NATOUT) then None
     else
       case natpolicy_target N nv p of
         None \<Rightarrow> None
       | Some p \<Rightarrow> natpolicy_algo N nv (p\<lparr> n_tport := ucast (dnvlist_get_number N nv ''nat-port'' 0) \<rparr>))"

text \<open>\<open>np\<close> is the object that the allocator returns.\<close>

definition npf_natpolicy_create ::
  "'nv nv_ops \<Rightarrow> nat \<Rightarrow> 'nv \<Rightarrow> ('m, 'p, 'x) npf_kern \<Rightarrow> nat option \<times> ('m, 'p, 'x) npf_kern" where
  "npf_natpolicy_create N np nv k =
    (case natpolicy_init N nv of
       None \<Rightarrow> (None, kern_free (ONatpolicy np) k)
     | Some p \<Rightarrow> (Some np, k\<lparr> natps := (natps k)(np := p) \<rparr>))"

definition npf_natpolicy_export :: "'nv nv_ops \<Rightarrow> npf_natpolicy \<Rightarrow> 'nv \<Rightarrow> 'nv" where
  "npf_natpolicy_export N p nv =
    (let nv = nvlist_add_number N nv ''nat-policy'' (n_id p);
         nv = nvlist_add_number N nv ''type'' (of_nat (n_type p));
         nv = nvlist_add_number N nv ''flags'' (ucast (n_flags p));
         nv = (if n_flags p AND NPF_NAT_USETABLE \<noteq> 0 then nvlist_add_number N nv ''nat-table-id'' (of_nat (n_tid p))
               else nvlist_add_number N (nvlist_add_binary N nv ''nat-addr'' (take (n_alen p) (n_taddr p)))
                      ''nat-mask'' (of_nat (n_tmask p)));
         nv = nvlist_add_number N nv ''nat-port'' (ucast (n_tport p));
         nv = nvlist_add_number N nv ''nat-algo'' (of_nat (n_algo p)) in
     if n_algo p = NPF_ALGO_NPT66 then nvlist_add_number N nv ''npt66-adj'' (ucast (n_npt66_adj p)) else nv)"

definition npf_natpolicy_release :: "nat \<Rightarrow> ('m, 'p, 'x) npf_kern \<Rightarrow> ('m, 'p, 'x) npf_kern" where
  "npf_natpolicy_release np k =
    (let k = natp_upd np (\<lambda>p. p\<lparr> n_refcnt := n_refcnt p - 1 \<rparr>) k in
     if n_refcnt (natps k np) \<noteq> 0 then k else kern_free (ONatpolicy np) k)"

text \<open>The comparison is of the raw memory from \<open>n_type\<close> to the end.\<close>

definition npf_natpolicy_cmp :: "npf_natpolicy \<Rightarrow> npf_natpolicy \<Rightarrow> bool" where
  "npf_natpolicy_cmp p mp \<longleftrightarrow>
     (n_type p, n_flags p, n_alen p, n_taddr p, n_tmask p, n_tport p, n_tid p, n_algo p, n_aux p) =
     (n_type mp, n_flags mp, n_alen mp, n_taddr mp, n_tmask mp, n_tport mp, n_tid mp, n_algo mp, n_aux mp)"

definition npf_nat_setid :: "nat \<Rightarrow> u64 \<Rightarrow> ('m, 'p, 'x) npf_kern \<Rightarrow> ('m, 'p, 'x) npf_kern" where
  "npf_nat_setid np nid k = natp_upd np (\<lambda>p. p\<lparr> n_id := nid \<rparr>) k"

definition npf_nat_getid :: "('m, 'p, 'x) npf_kern \<Rightarrow> nat \<Rightarrow> u64" where
  "npf_nat_getid k np = n_id (natps k np)"

definition npf_nat_which :: "nat \<Rightarrow> npf_flow \<Rightarrow> nat" where
  "npf_nat_which type flow =
    (let f = (if flow = NPF_FLOW_FORW then 0 else 1) in if type = NPF_NATOUT then f else 1 - f)"

section \<open>Entries\<close>

definition npf_nat_gettrans :: "('m, 'p, 'x) npf_kern \<Rightarrow> nat \<Rightarrow> npf_addr \<times> u16" where
  "npf_nat_gettrans k nt = (nt_taddr (nats k nt), nt_tport (nats k nt))"

definition npf_nat_getorig :: "('m, 'p, 'x) npf_kern \<Rightarrow> nat \<Rightarrow> npf_addr \<times> u16" where
  "npf_nat_getorig k nt = (nt_oaddr (nats k nt), nt_oport (nats k nt))"

definition npf_nat_setalg :: "nat \<Rightarrow> nat option \<Rightarrow> nat \<Rightarrow> ('m, 'p, 'x) npf_kern \<Rightarrow> ('m, 'p, 'x) npf_kern" where
  "npf_nat_setalg nt alg arg k = nat_upd nt (\<lambda>n. n\<lparr> nt_alg := alg, nt_alg_arg := arg \<rparr>) k"

definition npf_nat_getalg :: "('m, 'p, 'x) npf_kern \<Rightarrow> nat \<Rightarrow> nat option" where
  "npf_nat_getalg k nt = nt_alg (nats k nt)"

definition npf_nat_getalgarg :: "('m, 'p, 'x) npf_kern \<Rightarrow> nat \<Rightarrow> nat" where
  "npf_nat_getalgarg k nt = nt_alg_arg (nats k nt)"

definition npf_nat_destroy ::
  "('m, 'p, 'x, 'nv) kern_env \<Rightarrow> nat \<Rightarrow> nat \<Rightarrow> ('m, 'p, 'x) npf_kern \<Rightarrow> ('m, 'p, 'x) npf_kern" where
  "npf_nat_destroy E con nt k =
    (let np = nt_natpolicy (nats k nt);
         k = (case npf_nat_getalg k nt of
                None \<Rightarrow> k
              | Some alg \<Rightarrow> nat_upd nt (\<lambda>n. n\<lparr> nt_alg := None \<rparr>) (npf_alg_destroy (env_algs E) alg nt con k));
         n = nats k nt;
         k = (if n_flags (natps k np) AND NPF_NAT_PORTMAP \<noteq> 0 \<and> nt_tport n \<noteq> 0
              then k\<lparr> portmap := npf_portmap_put (env_pm E) (env_mem E) (portmap k) (nt_alen n) (nt_taddr n) (nt_tport n) \<rparr>
              else k);
         k = npf_stats_inc NPF_STAT_NAT_DESTROY k;
         k = natp_upd np (\<lambda>p. p\<lparr> n_nat_list := remove1 nt (n_nat_list p) \<rparr>) k in
     kern_free (ONat nt) (npf_natpolicy_release np k))"

definition nat_freealg1 ::
  "('m, 'p, 'x) npf_kern npf_algset \<Rightarrow> nat \<Rightarrow> nat \<Rightarrow> ('m, 'p, 'x) npf_kern \<Rightarrow> ('m, 'p, 'x) npf_kern" where
  "nat_freealg1 algs alg nt k =
    (if nt_alg (nats k nt) = Some alg
     then nat_upd nt (\<lambda>n. n\<lparr> nt_alg := None \<rparr>) (npf_alg_destroy algs alg nt (nt_conn (nats k nt)) k)
     else k)"

definition npf_nat_freealg ::
  "('m, 'p, 'x) npf_kern npf_algset \<Rightarrow> nat \<Rightarrow> nat \<Rightarrow> ('m, 'p, 'x) npf_kern \<Rightarrow> ('m, 'p, 'x) npf_kern" where
  "npf_nat_freealg algs np alg k = fold (nat_freealg1 algs alg) (n_nat_list (natps k np)) k"

end
