(* ===== verification/NPF_Conn.thy ===== *)
theory NPF_Conn
  imports NPF_Natpol NPF_Rproc
begin

text \<open>
  Connection tracking: the connection database (\<open>src/kern/npf_conndb.c\<close>) and the life of a
  connection (\<open>src/kern/npf_conn.c\<close>).  The database is a map from keys to tagged pointers
  with three lists of connections.  \<open>now\<close> is the uptime in seconds that the clock gives.
  Locks and the passive serialisation of readers are not modelled; each operation runs as a
  whole.
\<close>

section \<open>Parameters\<close>

definition npf_conn_init :: "npf_param list" where
  "npf_conn_init =
    [\<lparr> p_name = ''state.key.interface'', p_valp = VP_connkey_interface, p_default_val = 1, p_min = 0, p_max = 1 \<rparr>,
     \<lparr> p_name = ''state.key.direction'', p_valp = VP_connkey_direction, p_default_val = 1, p_min = 0, p_max = 1 \<rparr>]"

definition npf_conndb_sysinit :: "npf_param list" where
  "npf_conndb_sysinit =
    [\<lparr> p_name = ''gc.step'', p_valp = VP_gc_step, p_default_val = 256, p_min = 1, p_max = INT_MAX \<rparr>,
     \<lparr> p_name = ''gc.interval_min'', p_valp = VP_gc_interval_min, p_default_val = 50, p_min = 10, p_max = 10000 \<rparr>,
     \<lparr> p_name = ''gc.interval_max'', p_valp = VP_gc_interval_max, p_default_val = 5000, p_min = 10, p_max = 10000 \<rparr>]"

section \<open>The database\<close>

abbreviation CONN_ACTIVE :: u32 where "CONN_ACTIVE \<equiv> 0x004"
abbreviation CONN_PASS :: u32 where "CONN_PASS \<equiv> 0x008"
abbreviation CONN_EXPIRE :: u32 where "CONN_EXPIRE \<equiv> 0x010"
abbreviation CONN_REMOVED :: u32 where "CONN_REMOVED \<equiv> 0x020"

definition CONNDB_ISFORW_P :: "nat \<Rightarrow> bool" where
  "CONNDB_ISFORW_P p \<longleftrightarrow> p mod 2 \<noteq> 0"

definition CONNDB_GET_PTR :: "nat \<Rightarrow> nat" where
  "CONNDB_GET_PTR p = p - p mod 2"

text \<open>The bytes of a key that are compared.\<close>

definition ck_bytes :: "npf_connkey \<Rightarrow> u8 list" where
  "ck_bytes key = take (NPF_CONNKEY_LEN key) key"

definition npf_conndb_create :: "('m, u8 list, nat) thmap_ops \<Rightarrow> 'm npf_conndb" where
  "npf_conndb_create T = \<lparr> cd_map = thmap_create T, cd_new = [], cd_list = [], cd_gclist = [], cd_marker = None \<rparr>"

definition npf_conndb_lookup ::
  "('m, 'p, 'x, 'nv) kern_env \<Rightarrow> npf_connkey \<Rightarrow> ('m, 'p, 'x) npf_kern \<Rightarrow> (nat \<times> npf_flow) option \<times> ('m, 'p, 'x) npf_kern" where
  "npf_conndb_lookup E ck k =
    (case thmap_get (env_map E) (cd_map (conn_db k)) (ck_bytes ck) of
       None \<Rightarrow> (None, k)
     | Some val \<Rightarrow>
         let flow = (if CONNDB_ISFORW_P val then NPF_FLOW_FORW else NPF_FLOW_BACK); con = CONNDB_GET_PTR val in
         (Some (con, flow), conn_upd con (\<lambda>c. c\<lparr> c_refcnt := c_refcnt c + 1 \<rparr>) k))"

definition npf_conndb_insert ::
  "('m, u8 list, nat) thmap_ops \<Rightarrow> 'm npf_conndb \<Rightarrow> npf_connkey \<Rightarrow> nat \<Rightarrow> npf_flow \<Rightarrow> bool \<times> 'm npf_conndb" where
  "npf_conndb_insert T cd ck con flow =
    (let val = con OR (if flow = NPF_FLOW_FORW then 1 else 0); (r, m) = thmap_put T (cd_map cd) (ck_bytes ck) val in
     (r = val, cd\<lparr> cd_map := m \<rparr>))"

definition npf_conndb_remove ::
  "('m, u8 list, nat) thmap_ops \<Rightarrow> 'm npf_conndb \<Rightarrow> npf_connkey \<Rightarrow> nat option \<times> 'm npf_conndb" where
  "npf_conndb_remove T cd ck =
    (let (r, m) = thmap_del T (cd_map cd) (ck_bytes ck) in (map_option CONNDB_GET_PTR r, cd\<lparr> cd_map := m \<rparr>))"

definition npf_conndb_enqueue :: "'m npf_conndb \<Rightarrow> nat \<Rightarrow> 'm npf_conndb" where
  "npf_conndb_enqueue cd con = cd\<lparr> cd_new := con # cd_new cd \<rparr>"

definition npf_conndb_update :: "'m npf_conndb \<Rightarrow> 'm npf_conndb" where
  "npf_conndb_update cd = cd\<lparr> cd_new := [], cd_list := fold (#) (cd_new cd) (cd_list cd) \<rparr>"

text \<open>\<open>LIST_FIRST\<close> and \<open>LIST_NEXT\<close>.\<close>

definition list_first :: "'a list \<Rightarrow> 'a option" where
  "list_first xs = (case xs of [] \<Rightarrow> None | x # _ \<Rightarrow> Some x)"

fun list_next :: "'a list \<Rightarrow> 'a \<Rightarrow> 'a option" where
  "list_next [] x = None"
| "list_next (y # ys) x = (if y = x then list_first ys else list_next ys x)"

definition npf_conndb_getlist :: "'m npf_conndb \<Rightarrow> nat option \<times> 'm npf_conndb" where
  "npf_conndb_getlist cd = (let cd = npf_conndb_update cd in (list_first (cd_list cd), cd))"

definition npf_conndb_getnext :: "'m npf_conndb \<Rightarrow> nat option \<Rightarrow> nat option" where
  "npf_conndb_getnext cd con =
    (case (case con of None \<Rightarrow> None | Some c \<Rightarrow> list_next (cd_list cd) c) of
       None \<Rightarrow> list_first (cd_list cd)
     | Some n \<Rightarrow> Some n)"

section \<open>Connections\<close>

text \<open>
  The two keys are adjacent in \<open>c_keys\<close>; a pointer to a key is the rest of the array from
  there.
\<close>

definition npf_conn_getforwkey :: "npf_conn \<Rightarrow> npf_connkey" where
  "npf_conn_getforwkey c = c_keys c"

definition npf_conn_getbackkey :: "npf_conn \<Rightarrow> nat \<Rightarrow> npf_connkey" where
  "npf_conn_getbackkey c alen = drop (8 + alen * 2) (c_keys c)"

definition set_backkey :: "nat \<Rightarrow> npf_connkey \<Rightarrow> npf_conn \<Rightarrow> npf_conn" where
  "set_backkey alen key c = c\<lparr> c_keys := take (8 + alen * 2) (c_keys c) @ key \<rparr>"

definition npf_conn_tracking :: "bool \<Rightarrow> ('m, 'p, 'x) npf_kern \<Rightarrow> ('m, 'p, 'x) npf_kern" where
  "npf_conn_tracking track k = k\<lparr> conn_tracking := track \<rparr>"

definition npf_conn_trackable_p :: "npf_cache \<Rightarrow> ('m, 'p, 'x) npf_kern \<Rightarrow> bool" where
  "npf_conn_trackable_p npc k \<longleftrightarrow> conn_tracking k \<and> npf_iscached npc NPC_IP46 \<and> npf_iscached npc NPC_LAYER4"

definition conn_update_atime :: "int \<Rightarrow> npf_conn \<Rightarrow> npf_conn" where
  "conn_update_atime now c = c\<lparr> c_atime := word_of_int now \<rparr>"

definition conn_active :: "u32 \<Rightarrow> bool" where
  "conn_active flags \<longleftrightarrow> flags AND (CONN_ACTIVE OR CONN_EXPIRE) = CONN_ACTIVE"

text \<open>\<open>nb\<close> is the interface of the packet, if there is one.\<close>

definition npf_conn_check :: "npf_conn \<Rightarrow> u32 option \<Rightarrow> nat \<Rightarrow> npf_flow \<Rightarrow> bool" where
  "npf_conn_check c nb di flow =
    (if \<not> conn_active (c_flags c) then False
     else case nb of
       None \<Rightarrow> True
     | Some ifid \<Rightarrow>
         if c_ifid c \<noteq> 0 then
           let pflow = (if c_flags c AND 3 = of_nat di then NPF_FLOW_FORW else NPF_FLOW_BACK) in
           flow = pflow \<and> c_ifid c = ifid
         else True)"

definition npf_conn_lookup ::
  "('m, 'p, 'x, 'nv) kern_env \<Rightarrow> int \<Rightarrow> npf_cache \<Rightarrow> nat \<Rightarrow> ('m, 'p, 'x) npf_kern
   \<Rightarrow> (nat \<times> npf_flow) option \<times> ('m, 'p, 'x) npf_kern" where
  "npf_conn_lookup E now npc di k =
    (let (len, key) = npf_conn_conkey npc (replicate (4 * NPF_CONNKEY_MAXWORDS) 0) di NPF_FLOW_FORW in
     if len = 0 then (None, k)
     else
       case npf_conndb_lookup E key k of
         (None, k) \<Rightarrow> (None, k)
       | (Some (con, flow), k) \<Rightarrow>
           if \<not> npf_conn_check (conns k con) (Some (nb_ifid (npc_nbuf npc))) di flow
           then (None, conn_upd con (\<lambda>c. c\<lparr> c_refcnt := c_refcnt c - 1 \<rparr>) k)
           else (Some (con, flow), conn_upd con (conn_update_atime now) k))"

definition npf_conn_release :: "nat \<Rightarrow> ('m, 'p, 'x) npf_kern \<Rightarrow> ('m, 'p, 'x) npf_kern" where
  "npf_conn_release con k =
     conn_upd con (\<lambda>c. c\<lparr> c_flags := (if c_flags c AND (CONN_ACTIVE OR CONN_EXPIRE) = 0 then c_flags c OR CONN_ACTIVE
                                    else c_flags c),
                         c_refcnt := c_refcnt c - 1 \<rparr>) k"

text \<open>The result is the connection and the error; the packet is gone when it has no buffers.\<close>

definition npf_conn_inspect ::
  "('m, 'p, 'x, 'nv) kern_env \<Rightarrow> int \<Rightarrow> npf_cache \<Rightarrow> nat \<Rightarrow> ('m, 'p, 'x) npf_kern
   \<Rightarrow> nat option \<times> errno option \<times> npf_cache \<times> ('m, 'p, 'x) npf_kern" where
  "npf_conn_inspect E now npc di k =
    (if \<not> npf_conn_trackable_p npc k then (None, None, npc, k)
     else
       case npf_alg_conn (env_algs E) npc di k of
         (Some con, npc, k) \<Rightarrow> (Some con, None, npc, k)
       | (None, npc, k) \<Rightarrow>
           if nb_segs (npc_nbuf npc) = [] then (None, Some ENOMEM, npc, k)
           else
             case npf_conn_lookup E now npc di k of
               (None, k) \<Rightarrow> (None, None, npc, k)
             | (Some (con, flow), k) \<Rightarrow>
                 let (ok, npc, nst) = npf_state_inspect npc (c_state (conns k con)) flow;
                     k = conn_upd con (\<lambda>c. c\<lparr> c_state := nst \<rparr>) k in
                 if ok then (Some con, None, npc, k)
                 else (None, None, npc, npf_stats_inc NPF_STAT_INVALID_STATE (npf_conn_release con k)))"

definition npf_conn_destroy ::
  "('m, 'p, 'x, 'nv) kern_env \<Rightarrow> nat \<Rightarrow> ('m, 'p, 'x) npf_kern \<Rightarrow> ('m, 'p, 'x) npf_kern" where
  "npf_conn_destroy E con k =
    (let k = (case c_nat (conns k con) of None \<Rightarrow> k | Some nt \<Rightarrow> npf_nat_destroy E con nt k);
         k = (case c_rproc (conns k con) of None \<Rightarrow> k | Some rp \<Rightarrow> npf_rproc_release E rp k);
         k = conn_upd con (\<lambda>c. c\<lparr> c_state := npf_state_destroy (c_state c) \<rparr>) k in
     npf_stats_inc NPF_STAT_CONN_DESTROY (kern_free (OConn con) k))"

text \<open>
  \<open>con\<close> is the object that the pool returns, if it has one; the members that are not set keep
  what the memory held.  The insertion of the two keys comes first.
\<close>

definition conn_insert_keys ::
  "('m, u8 list, nat) thmap_ops \<Rightarrow> 'm npf_conndb \<Rightarrow> npf_connkey \<Rightarrow> npf_connkey \<Rightarrow> nat \<Rightarrow> bool \<times> 'm npf_conndb" where
  "conn_insert_keys T cd fw bk con =
    (case npf_conndb_insert T cd fw con NPF_FLOW_FORW of
       (False, cd) \<Rightarrow> (False, cd)
     | (True, cd) \<Rightarrow>
         (case npf_conndb_insert T cd bk con NPF_FLOW_BACK of
            (True, cd) \<Rightarrow> (True, cd)
          | (False, cd) \<Rightarrow> (False, snd (npf_conndb_remove T cd fw))))"

definition conn_alloc :: "npf_cache \<Rightarrow> nat \<Rightarrow> npf_conn \<Rightarrow> npf_conn" where
  "conn_alloc npc di c = c\<lparr> c_flags := of_nat (di mod 4), c_refcnt := 0, c_rproc := None, c_nat := None,
     c_proto := npc_proto npc, c_alen := npc_alen npc \<rparr>"

definition npf_conn_establish ::
  "('m, 'p, 'x, 'nv) kern_env \<Rightarrow> int \<Rightarrow> nat option \<Rightarrow> npf_cache \<Rightarrow> nat \<Rightarrow> bool \<Rightarrow> ('m, 'p, 'x) npf_kern
   \<Rightarrow> nat option \<times> npf_cache \<times> ('m, 'p, 'x) npf_kern" where
  "npf_conn_establish E now con npc di perif k =
    (if \<not> npf_conn_trackable_p npc k then (None, npc, k)
     else case con of
       None \<Rightarrow> (None, npc, k)
     | Some con \<Rightarrow>
         let alen = npc_alen npc;
             k = conn_upd con (conn_alloc npc di) (npf_stats_inc NPF_STAT_CONN_CREATE k);
             (ok, npc, nst) = npf_state_init npc;
             k = conn_upd con (\<lambda>c. c\<lparr> c_state := nst \<rparr>) k in
         if \<not> ok then (None, npc, npf_conn_destroy E con k)
         else
           let (flen, fw) = npf_conn_conkey npc (npf_conn_getforwkey (conns k con)) di NPF_FLOW_FORW;
               k = conn_upd con (\<lambda>c. c\<lparr> c_keys := fw \<rparr>) k in
           if flen = 0 then (None, npc, npf_conn_destroy E con k)
           else
             let (blen, bk) = npf_conn_conkey npc (npf_conn_getbackkey (conns k con) alen) (di XOR PFIL_ALL) NPF_FLOW_BACK;
                 k = conn_upd con (set_backkey alen bk) k in
             if blen = 0 then (None, npc, npf_conn_destroy E con k)
             else
               let k = conn_upd con (\<lambda>c. conn_update_atime now (c\<lparr> c_ifid := (if perif then nb_ifid (npc_nbuf npc) else 0),
                                                                c_refcnt := 1 \<rparr>)) k;
                   (ok, cd) = conn_insert_keys (env_map E) (conn_db k) (npf_conn_getforwkey (conns k con))
                                (npf_conn_getbackkey (conns k con) alen) con;
                   k = (if ok then k
                        else npf_stats_inc NPF_STAT_RACE_CONN
                               (conn_upd con (\<lambda>c. c\<lparr> c_flags := c_flags c OR (CONN_REMOVED OR CONN_EXPIRE),
                                                    c_refcnt := c_refcnt c - 1 \<rparr>) k)) in
               (if ok then Some con else None, npc, k\<lparr> conn_db := npf_conndb_enqueue cd con \<rparr>))"

text \<open>The address of the key that a translation of the type changes, \<open>nat_type_which\<close>.\<close>

definition nat_type_which :: "nat \<Rightarrow> nat" where
  "nat_type_which ntype = (if ntype = NPF_NATOUT then NPF_DST else NPF_SRC)"

definition npf_conn_setnat ::
  "('m, 'p, 'x, 'nv) kern_env \<Rightarrow> nat \<Rightarrow> nat \<Rightarrow> nat \<Rightarrow> ('m, 'p, 'x) npf_kern \<Rightarrow> errno option \<times> ('m, 'p, 'x) npf_kern" where
  "npf_conn_setnat E con nt ntype k =
    (let (taddr, tport) = npf_nat_gettrans k nt; c = conns k con in
     if c_flags c AND CONN_EXPIRE \<noteq> 0 then (Some EINVAL, k)
     else if c_nat c \<noteq> None then (Some EISCONN, npf_stats_inc NPF_STAT_RACE_NAT k)
     else
       let bk = npf_conn_getbackkey c (c_alen c);
           (_, cd) = npf_conndb_remove (env_map E) (conn_db k) bk;
           bk = npf_conn_adjkey bk taddr tport (nat_type_which ntype);
           k = conn_upd con (set_backkey (c_alen c) bk) k;
           (ok, cd) = npf_conndb_insert (env_map E) cd bk con NPF_FLOW_BACK in
       if ok then (None, conn_upd con (\<lambda>c. c\<lparr> c_nat := Some nt \<rparr>) (k\<lparr> conn_db := cd \<rparr>))
       else
         let (_, cd) = npf_conndb_remove (env_map E) cd (npf_conn_getforwkey (conns k con)) in
         (Some EISCONN,
          npf_stats_inc NPF_STAT_RACE_NAT
            (conn_upd con (\<lambda>c. c\<lparr> c_flags := c_flags c OR (CONN_REMOVED OR CONN_EXPIRE) \<rparr>) (k\<lparr> conn_db := cd \<rparr>))))"

definition npf_conn_expire :: "nat \<Rightarrow> ('m, 'p, 'x) npf_kern \<Rightarrow> ('m, 'p, 'x) npf_kern" where
  "npf_conn_expire con k = conn_upd con (\<lambda>c. c\<lparr> c_flags := c_flags c OR CONN_EXPIRE \<rparr>) k"

definition npf_conn_pass :: "npf_conn \<Rightarrow> npf_match_info \<Rightarrow> (npf_match_info \<times> nat option) option" where
  "npf_conn_pass c mi =
    (if c_flags c AND CONN_PASS \<noteq> 0 then Some (mi\<lparr> mi_retfl := c_retfl c, mi_rid := c_rid c \<rparr>, c_rproc c) else None)"

definition npf_conn_setpass ::
  "nat \<Rightarrow> npf_match_info \<Rightarrow> nat option \<Rightarrow> ('m, 'p, 'x) npf_kern \<Rightarrow> ('m, 'p, 'x) npf_kern" where
  "npf_conn_setpass con mi rp k =
     conn_upd con (\<lambda>c. let c = c\<lparr> c_flags := c_flags c OR CONN_PASS, c_rproc := rp \<rparr> in
                       if rp \<noteq> None then c\<lparr> c_rid := mi_rid mi, c_retfl := mi_retfl mi \<rparr> else c) k"

definition npf_conn_getnat :: "npf_conn \<Rightarrow> nat option" where
  "npf_conn_getnat c = c_nat c"

definition npf_conn_expired :: "param_store \<Rightarrow> npf_conn \<Rightarrow> int \<Rightarrow> bool" where
  "npf_conn_expired params c now =
    (if c_flags c AND CONN_EXPIRE \<noteq> 0 then True
     else c_int (now - uint (c_atime c)) > npf_state_etime params (c_state c) (c_proto c))"

definition npf_conn_remove ::
  "('m, u8 list, nat) thmap_ops \<Rightarrow> 'm npf_conndb \<Rightarrow> nat \<Rightarrow> ('m, 'p, 'x) npf_kern
   \<Rightarrow> 'm npf_conndb \<times> ('m, 'p, 'x) npf_kern" where
  "npf_conn_remove T cd con k =
    (let c = conns k con;
         cd = (if c_flags c AND CONN_REMOVED = 0 then
                 let fw = npf_conn_getforwkey c; (_, cd) = npf_conndb_remove T cd fw;
                     bk = npf_conn_getbackkey c (NPF_CONNKEY_ALEN fw) in
                 snd (npf_conndb_remove T cd bk)
               else cd) in
     (cd, conn_upd con (\<lambda>c. c\<lparr> c_flags := c_flags c OR (CONN_REMOVED OR CONN_EXPIRE) \<rparr>) k))"

section \<open>Garbage collection\<close>

text \<open>The connection is moved to the list of connections to destroy.\<close>

definition gc_move ::
  "('m, u8 list, nat) thmap_ops \<Rightarrow> nat \<Rightarrow> 'm npf_conndb \<times> ('m, 'p, 'x) npf_kern \<Rightarrow> 'm npf_conndb \<times> ('m, 'p, 'x) npf_kern" where
  "gc_move T con s =
     npf_conn_remove T ((fst s)\<lparr> cd_list := remove1 con (cd_list (fst s)), cd_gclist := con # cd_gclist (fst s) \<rparr>)
       con (snd s)"

text \<open>The scan: the number of steps left, the connection to inspect and the number collected.\<close>

fun gc_scan ::
  "('m, u8 list, nat) thmap_ops \<Rightarrow> int \<Rightarrow> nat \<Rightarrow> nat option \<Rightarrow> nat \<Rightarrow> 'm npf_conndb \<times> ('m, 'p, 'x) npf_kern
   \<Rightarrow> nat option \<times> nat \<times> 'm npf_conndb \<times> ('m, 'p, 'x) npf_kern" where
  "gc_scan T now target None n s = (None, n, s)"
| "gc_scan T now 0 (Some con) n s = (Some con, n, s)"
| "gc_scan T now (Suc target) (Some con) n s =
    (let next = npf_conndb_getnext (fst s) (Some con) in
     if npf_conn_expired (kn_params (snd s)) (conns (snd s) con) now then
       let s = gc_move T con s; n = n + 1; next = (if next = Some con then None else next) in
       if cd_marker (fst s) = Some con then gc_scan T now target next n ((fst s)\<lparr> cd_marker := next \<rparr>, snd s)
       else if next = cd_marker (fst s) then (next, n, s)
       else gc_scan T now target next n s
     else if next = cd_marker (fst s) then (next, n, s)
     else gc_scan T now target next n s)"

definition npf_conndb_gc_incr ::
  "('m, u8 list, nat) thmap_ops \<Rightarrow> int \<Rightarrow> 'm npf_conndb \<times> ('m, 'p, 'x) npf_kern
   \<Rightarrow> nat \<times> 'm npf_conndb \<times> ('m, 'p, 'x) npf_kern" where
  "npf_conndb_gc_incr T now s =
    (let s = (if cd_marker (fst s) = None then ((fst s)\<lparr> cd_marker := npf_conndb_getnext (fst s) None \<rparr>, snd s) else s);
         (con, n, s) = gc_scan T now (nat (kn_params (snd s) VP_gc_step)) (cd_marker (fst s)) 0 s in
     (n, (fst s)\<lparr> cd_marker := con \<rparr>, snd s))"

definition gc_freq_tune :: "param_store \<Rightarrow> int \<Rightarrow> nat \<Rightarrow> int" where
  "gc_freq_tune params wait n =
    (let wtime = (if n \<noteq> 0 then wait div 2 else c_int (wait * 2)) in
     max (min wtime (params VP_gc_interval_max)) (params VP_gc_interval_min))"

text \<open>
  The loop over the connections to destroy.  When everything is flushed it waits for the
  references of a connection to be given up: \<open>None\<close>, unless another thread does so.
\<close>

fun gc_destroy ::
  "('m, 'p, 'x, 'nv) kern_env \<Rightarrow> bool \<Rightarrow> nat list \<Rightarrow> ('m, 'p, 'x) npf_kern \<Rightarrow> (nat list \<times> ('m, 'p, 'x) npf_kern) option" where
  "gc_destroy E flush [] k = Some ([], k)"
| "gc_destroy E flush (con # cons) k =
    (if c_refcnt (conns k con) \<noteq> 0 then if flush then None else Some (con # cons, k)
     else gc_destroy E flush cons (npf_conn_destroy E con k))"

definition npf_conndb_gc ::
  "('m, 'p, 'x, 'nv) kern_env \<Rightarrow> int \<Rightarrow> bool \<Rightarrow> 'm npf_conndb \<Rightarrow> ('m, 'p, 'x) npf_kern
   \<Rightarrow> ('m npf_conndb \<times> ('m, 'p, 'x) npf_kern) option" where
  "npf_conndb_gc E now flush cd k =
    (let cd = npf_conndb_update cd;
         (n, cd, k) = (if flush then
                         let s = fold (gc_move (env_map E)) (cd_list cd) (cd, k) in (0, (fst s)\<lparr> cd_marker := None \<rparr>, snd s)
                       else npf_conndb_gc_incr (env_map E) now (cd, k));
         k = k\<lparr> worker_wait_time := gc_freq_tune (kn_params k) (worker_wait_time k) n \<rparr> in
     case gc_destroy E flush (cd_gclist cd) k of
       None \<Rightarrow> None
     | Some (gcl, k) \<Rightarrow> Some (cd\<lparr> cd_gclist := gcl \<rparr>, k))"

definition npf_conn_worker ::
  "('m, 'p, 'x, 'nv) kern_env \<Rightarrow> int \<Rightarrow> ('m, 'p, 'x) npf_kern \<Rightarrow> ('m, 'p, 'x) npf_kern option" where
  "npf_conn_worker E now k =
     map_option (\<lambda>(cd, k). k\<lparr> conn_db := cd \<rparr>) (npf_conndb_gc E now False (conn_db k) k)"

text \<open>\<open>ndb\<close> is the database to install, if any.\<close>

definition npf_conn_load ::
  "('m, 'p, 'x, 'nv) kern_env \<Rightarrow> int \<Rightarrow> 'm npf_conndb option \<Rightarrow> bool \<Rightarrow> ('m, 'p, 'x) npf_kern
   \<Rightarrow> ('m, 'p, 'x) npf_kern option" where
  "npf_conn_load E now ndb track k =
    (let k1 = (case ndb of None \<Rightarrow> k | Some db \<Rightarrow> k\<lparr> conn_db := db \<rparr>);
         k2 = (if track then k1\<lparr> conn_tracking := True \<rparr> else k1) in
     case ndb of
       None \<Rightarrow> Some k2
     | Some _ \<Rightarrow> map_option snd (npf_conndb_gc E now True (conn_db k) k2))"

section \<open>The invariant of the database\<close>

definition conn_removed :: "npf_conn \<Rightarrow> bool" where
  "conn_removed c \<longleftrightarrow> c_flags c AND CONN_REMOVED \<noteq> 0"

definition conn_expiring :: "npf_conn \<Rightarrow> bool" where
  "conn_expiring c \<longleftrightarrow> c_flags c AND CONN_EXPIRE \<noteq> 0"

definition forw_key :: "npf_conn \<Rightarrow> u8 list" where
  "forw_key c = ck_bytes (npf_conn_getforwkey c)"

definition back_key :: "npf_conn \<Rightarrow> u8 list" where
  "back_key c = ck_bytes (npf_conn_getbackkey c (c_alen c))"

text \<open>The connections that a packet can be matched with or that wait in a list.\<close>

definition conndb_conns :: "'m npf_conndb \<Rightarrow> nat set" where
  "conndb_conns cd = set (cd_new cd) \<union> set (cd_list cd)"

definition conn_key :: "npf_conn \<Rightarrow> bool \<Rightarrow> u8 list" where
  "conn_key c forw = (if forw then forw_key c else back_key c)"

definition keys_wf :: "npf_conn \<Rightarrow> bool" where
  "keys_wf c \<longleftrightarrow> (c_alen c = 4 \<or> c_alen c = 16) \<and> length (c_keys c) = 2 * (8 + 2 * c_alen c) \<and>
     NPF_CONNKEY_ALEN (c_keys c) = c_alen c \<and> NPF_CONNKEY_ALEN (npf_conn_getbackkey c (c_alen c)) = c_alen c"

definition conndb_conn_ok :: "(u8 list \<Rightarrow> nat option) \<Rightarrow> nat \<Rightarrow> npf_conn \<Rightarrow> bool" where
  "conndb_conn_ok g con c \<longleftrightarrow>
     keys_wf c \<and> g (forw_key c) = Some (con + 1) \<and> g (back_key c) = Some con"

definition conndb_val_ok :: "'m npf_conndb \<Rightarrow> (nat \<Rightarrow> npf_conn) \<Rightarrow> u8 list \<Rightarrow> nat \<Rightarrow> bool" where
  "conndb_val_ok cd cs key val \<longleftrightarrow> CONNDB_GET_PTR val \<in> conndb_conns cd \<and> \<not> conn_removed (cs (CONNDB_GET_PTR val)) \<and>
     key = conn_key (cs (CONNDB_GET_PTR val)) (odd val)"

definition conndb_inv ::
  "('m, u8 list, nat) thmap_ops \<Rightarrow> 'm npf_conndb \<Rightarrow> (nat \<Rightarrow> npf_conn) \<Rightarrow> bool" where
  "conndb_inv T cd cs \<longleftrightarrow>
     distinct (cd_new cd @ cd_list cd @ cd_gclist cd) \<and>
     (\<forall>c \<in> set (cd_new cd @ cd_list cd @ cd_gclist cd). even c \<and> (conn_removed (cs c) \<longrightarrow> conn_expiring (cs c))) \<and>
     (\<forall>c \<in> set (cd_gclist cd). conn_removed (cs c)) \<and>
     (\<forall>c \<in> conndb_conns cd. \<not> conn_removed (cs c) \<longrightarrow> conndb_conn_ok (thmap_get T (cd_map cd)) c (cs c)) \<and>
     (\<forall>key val. thmap_get T (cd_map cd) key = Some val \<longrightarrow> conndb_val_ok cd cs key val)"

definition marker_ok :: "'m npf_conndb \<Rightarrow> bool" where
  "marker_ok cd \<longleftrightarrow> (\<forall>c. cd_marker cd = Some c \<longrightarrow> c \<in> set (cd_list cd))"

text \<open>What operations that do not change keys keep.\<close>

definition conn_same :: "npf_conn \<Rightarrow> npf_conn \<Rightarrow> bool" where
  "conn_same c c' \<longleftrightarrow> c_keys c' = c_keys c \<and> c_alen c' = c_alen c \<and> conn_removed c' = conn_removed c \<and>
     (conn_expiring c \<longrightarrow> conn_expiring c')"

definition conns_keep :: "('m, 'p, 'x) npf_kern \<Rightarrow> ('m, 'p, 'x) npf_kern \<Rightarrow> bool" where
  "conns_keep k k' \<longleftrightarrow> conn_db k' = conn_db k \<and> (\<forall>c. conn_same (conns k c) (conns k' c))"

lemma conn_same_refl [simp]: "conn_same c c"
  by (simp add: conn_same_def)

lemma conns_keep_refl [simp]: "conns_keep k k"
  by (simp add: conns_keep_def)

lemma conns_keep_trans: "conns_keep k k' \<Longrightarrow> conns_keep k' k'' \<Longrightarrow> conns_keep k k''"
  by (auto simp: conns_keep_def conn_same_def)

lemma conn_same_ok:
  assumes "conn_same c c'"
  shows "conn_key c' = conn_key c" "conndb_conn_ok g con c' = conndb_conn_ok g con c" "conn_removed c' = conn_removed c"
    "conn_expiring c \<Longrightarrow> conn_expiring c'"
  using assms by (auto simp: conn_same_def forw_key_def back_key_def npf_conn_getforwkey_def npf_conn_getbackkey_def
      conndb_conn_ok_def keys_wf_def conn_key_def fun_eq_iff)

lemma conndb_inv_cong:
  assumes i: "conndb_inv T cd cs" and s: "\<And>c. c \<in> set (cd_new cd @ cd_list cd @ cd_gclist cd) \<Longrightarrow> conn_same (cs c) (cs' c)"
  shows "conndb_inv T cd cs'"
proof -
  have l: "c \<in> conndb_conns cd \<Longrightarrow> c \<in> set (cd_new cd @ cd_list cd @ cd_gclist cd)" for c by (auto simp: conndb_conns_def)
  have "conndb_val_ok cd cs key val \<Longrightarrow> conndb_val_ok cd cs' key val" for key val
    using conn_same_ok [OF s [OF l]] by (simp add: conndb_val_ok_def)
  then show ?thesis using i conn_same_ok [OF s] conn_same_ok [OF s [OF l]] unfolding conndb_inv_def by auto
qed

lemma conns_keep_inv: "conndb_inv T (conn_db k) (conns k) \<Longrightarrow> conns_keep k k' \<Longrightarrow> conndb_inv T (conn_db k') (conns k')"
  using conndb_inv_cong by (metis conns_keep_def)

lemma conns_keep_upd:
  "(\<And>c. conn_same c (f c)) \<Longrightarrow> conns_keep k (conn_upd con f k)"
  by (simp add: conns_keep_def conn_upd_def)

lemma conns_keep_stats [simp]: "conns_keep k (npf_stats_inc st k') = conns_keep k k'"
  "conns_keep k (kern_free ob k') = conns_keep k k'"
  by (simp_all add: conns_keep_def npf_stats_inc_def kern_free_def)

lemma or_flags: "(x OR y) AND z = (x AND z) OR (y AND z)" for x :: u32
  by (rule bit_word_eqI) (auto simp: bit_simps)

lemma conns_keep_release: "conns_keep k (npf_conn_release con k)"
  unfolding npf_conn_release_def
  by (rule conns_keep_upd) (simp add: conn_same_def conn_removed_def conn_expiring_def or_flags)

lemma conns_keep_expire: "conns_keep k (npf_conn_expire con k)"
  unfolding npf_conn_expire_def
  by (rule conns_keep_upd) (simp add: conn_same_def conn_removed_def conn_expiring_def or_flags)

lemma conns_keep_setpass: "conns_keep k (npf_conn_setpass con mi rp k)"
  unfolding npf_conn_setpass_def
  by (rule conns_keep_upd) (simp add: conn_same_def conn_removed_def conn_expiring_def or_flags Let_def)

lemma conns_keep_simple:
  "conns_keep k (conn_upd con (\<lambda>c. c\<lparr> c_refcnt := g c \<rparr>) k)" "conns_keep k (conn_upd con (conn_update_atime now) k)"
  "conns_keep k (conn_upd con (\<lambda>c. c\<lparr> c_state := h c \<rparr>) k)"
  by (rule conns_keep_upd, simp add: conn_same_def conn_removed_def conn_expiring_def conn_update_atime_def)+

lemma conns_keep_conndb_lookup: "conns_keep k (snd (npf_conndb_lookup E ck k))"
  by (simp add: npf_conndb_lookup_def Let_def conns_keep_simple split: option.split)

lemma conns_keep_lookup: "conns_keep k (snd (npf_conn_lookup E now npc di k))"
proof -
  obtain len key where key: "npf_conn_conkey npc (replicate 40 0) di NPF_FLOW_FORW = (len, key)"
    by fastforce
  obtain r k1 where r: "npf_conndb_lookup E key k = (r, k1)" by fastforce
  then have k1: "conns_keep k k1" using conns_keep_conndb_lookup [of k E key] by simp
  show ?thesis
  proof (cases r)
    case None
    then show ?thesis using k1 by (simp add: npf_conn_lookup_def key r)
  next
    case (Some cf)
    then show ?thesis
      using conns_keep_trans [OF k1 conns_keep_simple(1)] conns_keep_trans [OF k1 conns_keep_simple(2)]
      by (simp add: npf_conn_lookup_def key r split: prod.split)
  qed
qed

text \<open>
  What connection tracking relies on: gateways leave the keys and the database alone, and give
  back the references that they take when an entry is destroyed.
\<close>

definition algs_keep :: "('m, 'p, 'x, 'nv) kern_env \<Rightarrow> bool" where
  "algs_keep E \<longleftrightarrow>
     (\<forall>f \<in> set (alg_funcs (env_algs E)).
        (\<forall>d k nt con. npfa_destroy f = Some d \<longrightarrow> conns_keep k (d k nt con) \<and>
           (\<forall>c. c_refcnt (conns (d k nt con) c) = c_refcnt (conns k c))) \<and>
        (\<forall>i npc di k. npfa_inspect f = Some i \<longrightarrow> conns_keep k (snd (snd (i npc di k)))))"

lemma algs_keep_inspect:
  "algs_keep E \<Longrightarrow> f \<in> set (alg_funcs (env_algs E)) \<Longrightarrow> npfa_inspect f = Some i \<Longrightarrow> conns_keep k (snd (snd (i npc di k)))"
  unfolding algs_keep_def by blast

lemma algs_keep_destroy:
  "algs_keep E \<Longrightarrow> f \<in> set (alg_funcs (env_algs E)) \<Longrightarrow> npfa_destroy f = Some d \<Longrightarrow> conns_keep k (d k nt con)"
  "algs_keep E \<Longrightarrow> f \<in> set (alg_funcs (env_algs E)) \<Longrightarrow> npfa_destroy f = Some d \<Longrightarrow>
   c_refcnt (conns (d k nt con) c) = c_refcnt (conns k c)"
  unfolding algs_keep_def by blast+

lemma conns_keep_alg_destroy:
  assumes "algs_keep E" shows "conns_keep k (npf_alg_destroy (env_algs E) alg nt con k)"
proof (cases "alg < length (alg_funcs (env_algs E))")
  case True
  then show ?thesis
    by (simp add: npf_alg_destroy_def algs_keep_destroy(1) [OF assms nth_mem] split: option.split)
qed (simp add: npf_alg_destroy_def)

lemma conns_keep_alg_conn_loop:
  assumes "\<And>f i npc di k. f \<in> set fs \<Longrightarrow> npfa_inspect f = Some i \<Longrightarrow> conns_keep k (snd (snd (i npc di k)))"
  shows "conns_keep k (snd (snd (alg_conn_loop fs npc di k)))"
  using assms
proof (induction fs arbitrary: npc k)
  case (Cons f fs)
  have IH: "conns_keep k (snd (snd (alg_conn_loop fs npc di k)))" for k npc
    by (rule Cons.IH, rule Cons.prems) auto
  show ?case
  proof (cases "npfa_inspect f")
    case None
    then show ?thesis using IH by simp
  next
    case (Some i)
    obtain con npc1 k1 where r: "i npc di k = (con, npc1, k1)" by (cases "i npc di k") auto
    then have "conns_keep k k1" using Cons.prems [of f i k npc di] Some by simp
    then show ?thesis
      using conns_keep_trans [OF _ IH, of k k1] by (cases con) (simp_all add: Some r)
  qed
qed simp

lemma conns_keep_alg_conn: "algs_keep E \<Longrightarrow> conns_keep k (snd (snd (npf_alg_conn (env_algs E) npc di k)))"
  unfolding npf_alg_conn_def
  by (rule conns_keep_alg_conn_loop, rule algs_keep_inspect) (auto dest: in_set_takeD)

text \<open>Updates of other parts of the instance.\<close>

lemma conns_keep_other:
  "conns_keep k (natp_upd np f k') = conns_keep k k'" "conns_keep k (nat_upd nt g k') = conns_keep k k'"
  "conns_keep k (rproc_upd rp h k') = conns_keep k k'" "conns_keep k (ext_upd e u k') = conns_keep k k'"
  "conns_keep k (k'\<lparr> portmap := pm \<rparr>) = conns_keep k k'" "conns_keep k (k'\<lparr> ext_state := xs \<rparr>) = conns_keep k k'"
  "conns_keep k (k'\<lparr> worker_wait_time := w \<rparr>) = conns_keep k k'"
  by (simp_all add: conns_keep_def upd_defs)

lemma conns_keep_fold_release: "conns_keep k (fold (ext_release E) ems k') = conns_keep k k'"
  by (induction ems arbitrary: k') (simp_all add: ext_release_def conns_keep_other)

lemma conns_keep_rproc_release: "conns_keep k (npf_rproc_release E rp k)"
  by (simp add: npf_rproc_release_def Let_def conns_keep_other conns_keep_fold_release)

lemma conns_keep_nat_destroy:
  assumes "algs_keep E" shows "conns_keep k (npf_nat_destroy E con nt k)"
proof (cases "npf_nat_getalg k nt")
  case None
  then show ?thesis by (simp add: npf_nat_destroy_def npf_natpolicy_release_def Let_def conns_keep_other)
next
  case (Some alg)
  then show ?thesis
    using conns_keep_alg_destroy [OF assms, of k alg nt con]
    by (simp add: npf_nat_destroy_def npf_natpolicy_release_def Let_def conns_keep_other)
qed

lemma conns_keep_destroy:
  assumes a: "algs_keep E" shows "conns_keep k (npf_conn_destroy E con k)"
proof -
  define k1 where "k1 = (case c_nat (conns k con) of None \<Rightarrow> k | Some nt \<Rightarrow> npf_nat_destroy E con nt k)"
  define k2 where "k2 = (case c_rproc (conns k1 con) of None \<Rightarrow> k1 | Some rp \<Rightarrow> npf_rproc_release E rp k1)"
  have "conns_keep k k1" using conns_keep_nat_destroy [OF a] by (simp add: k1_def split: option.split)
  moreover have "conns_keep k1 k2" by (simp add: k2_def conns_keep_rproc_release split: option.split)
  ultimately have "conns_keep k k2" by (rule conns_keep_trans)
  then show ?thesis
    unfolding npf_conn_destroy_def Let_def k1_def [symmetric] k2_def [symmetric] conns_keep_stats
    by (rule conns_keep_trans [OF _ conns_keep_simple(3)])
qed

lemma refcnt_destroy:
  assumes a: "algs_keep E" shows "c_refcnt (conns (npf_conn_destroy E con k) c) = c_refcnt (conns k c)"
proof -
  have alg: "c_refcnt (conns (npf_alg_destroy (env_algs E) alg nt con k) c) = c_refcnt (conns k c)" for alg nt k
    using algs_keep_destroy(2) [OF a nth_mem]
    by (cases "alg < length (alg_funcs (env_algs E))") (simp_all add: npf_alg_destroy_def split: option.split)
  have "c_refcnt (conns (npf_nat_destroy E con nt k) c) = c_refcnt (conns k c)" for nt
    using alg by (simp add: npf_nat_destroy_def npf_natpolicy_release_def Let_def upd_defs split: option.split)
  moreover have "conns (fold (ext_release E) ems k1) = conns k1" for ems k1
    by (induction ems arbitrary: k1) (simp_all add: ext_release_def ext_upd_def)
  then have "conns (npf_rproc_release E rp k1) = conns k1" for rp k1
    by (simp add: npf_rproc_release_def Let_def rproc_upd_def kern_free_def)
  ultimately show ?thesis
    by (auto simp: npf_conn_destroy_def Let_def upd_defs split: option.split)
qed

lemma conns_keep_inspect:
  assumes a: "algs_keep E" shows "conns_keep k (snd (snd (snd (npf_conn_inspect E now npc di k))))"
proof -
  obtain con npc1 k1 where r: "npf_alg_conn (env_algs E) npc di k = (con, npc1, k1)"
    by (cases "npf_alg_conn (env_algs E) npc di k") auto
  have k1: "conns_keep k k1" using conns_keep_alg_conn [OF a, of k npc di] by (simp add: r)
  obtain cf k2 where l: "npf_conn_lookup E now npc1 di k1 = (cf, k2)" by fastforce
  have k2: "conns_keep k k2" using conns_keep_trans [OF k1] conns_keep_lookup [of k1 E now npc1 di] by (simp add: l)
  show ?thesis
  proof (cases con)
    case None
    have st: "conns_keep k (conn_upd c (\<lambda>c. c\<lparr> c_state := nst \<rparr>) k2)" for c nst
      by (rule conns_keep_trans [OF k2 conns_keep_simple(3)])
    have "conns_keep k (npf_conn_release c (conn_upd c (\<lambda>c. c\<lparr> c_state := nst \<rparr>) k2))" for c nst
      by (rule conns_keep_trans [OF st conns_keep_release])
    then show ?thesis
      using None k1 k2 st by (simp add: npf_conn_inspect_def r l Let_def split: option.split prod.split)
  qed (use k1 in \<open>simp add: npf_conn_inspect_def r\<close>)
qed

section \<open>Insertion and removal\<close>

lemma get_ptr_tag: "even c \<Longrightarrow> CONNDB_GET_PTR c = c" "even c \<Longrightarrow> CONNDB_GET_PTR (Suc c) = c"
  by (auto simp: CONNDB_GET_PTR_def mod_2_eq_odd)

lemma tag_forw: "even (con :: nat) \<Longrightarrow> con OR Suc 0 = Suc con"
  using or_one_eq [of con] by simp

lemma insert_spec:
  assumes T: "thmap_laws T" and e: "even con" and new: "thmap_get T (cd_map cd) (ck_bytes ck) \<noteq> Some (con + of_bool (flow = NPF_FLOW_FORW))"
  shows "fst (npf_conndb_insert T cd ck con flow) \<longleftrightarrow> thmap_get T (cd_map cd) (ck_bytes ck) = None"
    "\<exists>m. snd (npf_conndb_insert T cd ck con flow) = cd\<lparr> cd_map := m \<rparr> \<and>
       thmap_get T m = (if thmap_get T (cd_map cd) (ck_bytes ck) = None
          then (thmap_get T (cd_map cd))(ck_bytes ck \<mapsto> con + of_bool (flow = NPF_FLOW_FORW)) else thmap_get T (cd_map cd))"
proof -
  have v: "con OR (if flow = NPF_FLOW_FORW then 1 else 0) = con + of_bool (flow = NPF_FLOW_FORW)"
    using tag_forw [OF e] by simp
  let ?p = "thmap_put T (cd_map cd) (ck_bytes ck) (con + of_bool (flow = NPF_FLOW_FORW))"
  have i: "npf_conndb_insert T cd ck con flow = (fst ?p = con + of_bool (flow = NPF_FLOW_FORW), cd\<lparr> cd_map := snd ?p \<rparr>)"
    unfolding npf_conndb_insert_def Let_def v by (simp add: split_beta)
  show "fst (npf_conndb_insert T cd ck con flow) \<longleftrightarrow> thmap_get T (cd_map cd) (ck_bytes ck) = None"
    unfolding i using new by (auto simp: thmap_put_ret [OF T] split: option.splits)
  show "\<exists>m. snd (npf_conndb_insert T cd ck con flow) = cd\<lparr> cd_map := m \<rparr> \<and>
       thmap_get T m = (if thmap_get T (cd_map cd) (ck_bytes ck) = None
          then (thmap_get T (cd_map cd))(ck_bytes ck \<mapsto> con + of_bool (flow = NPF_FLOW_FORW)) else thmap_get T (cd_map cd))"
    unfolding i by (auto simp: thmap_get_put [OF T] split: option.splits)
qed

lemma remove_spec:
  assumes T: "thmap_laws T"
  shows "\<exists>m. snd (npf_conndb_remove T cd ck) = cd\<lparr> cd_map := m \<rparr> \<and>
    thmap_get T m = (thmap_get T (cd_map cd))(ck_bytes ck := None)"
  by (auto simp: npf_conndb_remove_def split_beta thmap_get_del [OF T])

text \<open>Both keys are inserted, or none when one of them is in use or they are equal.\<close>

lemma insert_keys_spec:
  assumes T: "thmap_laws T" and e: "even con"
    and new: "\<And>key val. thmap_get T (cd_map cd) key = Some val \<Longrightarrow> CONNDB_GET_PTR val \<noteq> con"
    and r: "conn_insert_keys T cd fw bk con = (ok, cd')"
  shows "\<exists>m. cd' = cd\<lparr> cd_map := m \<rparr> \<and>
    (ok \<longleftrightarrow> thmap_get T (cd_map cd) (ck_bytes fw) = None \<and> thmap_get T (cd_map cd) (ck_bytes bk) = None \<and>
       ck_bytes fw \<noteq> ck_bytes bk) \<and>
    thmap_get T m = (if ok then (thmap_get T (cd_map cd))(ck_bytes fw \<mapsto> con + 1, ck_bytes bk \<mapsto> con)
       else thmap_get T (cd_map cd))"
proof -
  let ?g = "thmap_get T (cd_map cd)"
  have n: "?g key \<noteq> Some (con + of_bool b)" for key b using new [of key] get_ptr_tag [OF e] by (cases b) auto
  note f = insert_spec [OF T e n, of fw NPF_FLOW_FORW]
  show ?thesis
  proof (cases "?g (ck_bytes fw)")
    case (Some v)
    then have "conn_insert_keys T cd fw bk con = (False, snd (npf_conndb_insert T cd fw con NPF_FLOW_FORW))"
      using f(1) by (simp add: conn_insert_keys_def split_beta)
    then show ?thesis using f(2) r Some by auto
  next
    case None
    obtain m1 where m1: "npf_conndb_insert T cd fw con NPF_FLOW_FORW = (True, cd\<lparr> cd_map := m1 \<rparr>)"
      "thmap_get T m1 = ?g(ck_bytes fw \<mapsto> con + 1)"
      using f None by (cases "npf_conndb_insert T cd fw con NPF_FLOW_FORW") auto
    have "thmap_get T (cd_map (cd\<lparr> cd_map := m1 \<rparr>)) (ck_bytes bk) \<noteq> Some (con + of_bool (NPF_FLOW_BACK = NPF_FLOW_FORW))"
      using n [of "ck_bytes bk" False] m1(2) by simp
    note b = insert_spec [OF T e this]
    show ?thesis
    proof (cases "?g (ck_bytes bk) = None \<and> ck_bytes fw \<noteq> ck_bytes bk")
      case True
      then obtain m2 where "npf_conndb_insert T (cd\<lparr> cd_map := m1 \<rparr>) bk con NPF_FLOW_BACK = (True, cd\<lparr> cd_map := m2 \<rparr>)"
        "thmap_get T m2 = ?g(ck_bytes fw \<mapsto> con + 1, ck_bytes bk \<mapsto> con)"
        using b m1(2) by (cases "npf_conndb_insert T (cd\<lparr> cd_map := m1 \<rparr>) bk con NPF_FLOW_BACK") auto
      then show ?thesis using True None r m1 by (auto simp: conn_insert_keys_def)
    next
      case False
      then have d: "thmap_get T m1 (ck_bytes bk) \<noteq> None" using m1(2) by auto
      then obtain m2 where m2: "npf_conndb_insert T (cd\<lparr> cd_map := m1 \<rparr>) bk con NPF_FLOW_BACK = (False, cd\<lparr> cd_map := m2 \<rparr>)"
        "thmap_get T m2 = thmap_get T m1"
        using b by (cases "npf_conndb_insert T (cd\<lparr> cd_map := m1 \<rparr>) bk con NPF_FLOW_BACK") auto
      obtain m3 where m3: "snd (npf_conndb_remove T (cd\<lparr> cd_map := m2 \<rparr>) fw) = cd\<lparr> cd_map := m3 \<rparr>"
        "thmap_get T m3 = (thmap_get T m2)(ck_bytes fw := None)"
        using remove_spec [OF T, of "cd\<lparr> cd_map := m2 \<rparr>" fw] by auto
      have "cd' = cd\<lparr> cd_map := m3 \<rparr>" "\<not> ok" using r m1(1) m2(1) m3(1) by (simp_all add: conn_insert_keys_def)
      then show ?thesis using False None m1(2) m2(2) m3(2) by (intro exI [of _ m3]) (auto simp: fun_upd_idem)
    qed
  qed
qed

section \<open>Establishing a connection\<close>

lemma destroy_plain:
  assumes "c_nat (conns k con) = None" "c_rproc (conns k con) = None"
  shows "conn_db (npf_conn_destroy E con k) = conn_db k"
    "conns (npf_conn_destroy E con k) = (conns k)(con := (conns k con)\<lparr> c_state := npf_state_destroy (c_state (conns k con)) \<rparr>)"
  using assms by (simp_all add: npf_conn_destroy_def upd_defs)

lemma establish_cases:
  assumes e: "npf_conn_establish E now (Some con) npc di perif k = (r, npc', k')" and n: "n = 8 + npc_alen npc * 2"
  obtains (unchanged) "r = None" "conn_db k' = conn_db k" "\<forall>c. c \<noteq> con \<longrightarrow> conns k' c = conns k c"
      "\<not> npf_conn_trackable_p npc k \<or> \<not> fst (npf_state_init npc) \<or>
       (\<exists>flen fw. npf_conn_conkey npc' (c_keys (conns k con)) di NPF_FLOW_FORW = (flen, fw) \<and>
         (flen = 0 \<or> fst (npf_conn_conkey npc' (drop n fw) (di XOR PFIL_ALL) NPF_FLOW_BACK) = 0))"
  | (tried) flen fw blen bk ok cd c' where
      "npf_conn_conkey npc' (c_keys (conns k con)) di NPF_FLOW_FORW = (flen, fw)" "flen \<noteq> 0"
      "npf_conn_conkey npc' (drop n fw) (di XOR PFIL_ALL) NPF_FLOW_BACK = (blen, bk)" "blen \<noteq> 0"
      "conn_insert_keys (env_map E) (conn_db k) (take n fw @ bk) (drop n (take n fw @ bk)) con = (ok, cd)"
      "r = (if ok then Some con else None)" "conn_db k' = npf_conndb_enqueue cd con" "conns k' = (conns k)(con := c')"
      "c_keys c' = take n fw @ bk" "c_alen c' = npc_alen npc"
      "c_flags c' = (if ok then of_nat (di mod 4) else of_nat (di mod 4) OR (CONN_REMOVED OR CONN_EXPIRE))"
      "c_refcnt c' = (if ok then 1 else 0)" "c_ifid c' = (if perif then nb_ifid (npc_nbuf npc') else 0)"
      "c_nat c' = None" "c_rproc c' = None" "c_proto c' = npc_proto npc"
proof -
  obtain ok1 npc1 nst where st: "npf_state_init npc = (ok1, npc1, nst)" by (metis prod_cases3)
  obtain flen fw where fw: "npf_conn_conkey npc1 (c_keys (conns k con)) di NPF_FLOW_FORW = (flen, fw)" by fastforce
  obtain blen bk where bk: "npf_conn_conkey npc1 (drop n fw) (di XOR PFIL_ALL) NPF_FLOW_BACK = (blen, bk)" by fastforce
  obtain ok cd where ins:
    "conn_insert_keys (env_map E) (conn_db k) (take n fw @ bk) (drop n (take n fw @ bk)) con = (ok, cd)" by fastforce
  note simps = npf_conn_establish_def Let_def n [symmetric] st fw bk ins upd_defs conn_alloc_def npf_conn_getforwkey_def
    npf_conn_getbackkey_def set_backkey_def conn_update_atime_def destroy_plain
  consider "\<not> npf_conn_trackable_p npc k" | "npf_conn_trackable_p npc k" "\<not> ok1"
    | "npf_conn_trackable_p npc k" ok1 "flen = 0" | "npf_conn_trackable_p npc k" ok1 "flen \<noteq> 0" "blen = 0"
    | "npf_conn_trackable_p npc k" ok1 "flen \<noteq> 0" "blen \<noteq> 0" by blast
  then show thesis
  proof cases
    case 5
    have "npc' = npc1" using e 5 by (simp add: simps del: drop_append)
    then show thesis
      by (intro tried [OF fw [folded \<open>npc' = npc1\<close>] 5(3) bk [folded \<open>npc' = npc1\<close>] 5(4) ins, of "conns k' con"])
        (use e 5 in \<open>cases ok; auto simp: simps simp del: drop_append\<close>)+
  next
    case 3
    then have "npc' = npc1" using e by (simp add: simps)
    then show thesis using 3 e fw by (intro unchanged) (auto simp: simps)
  next
    case 4
    then have "npc' = npc1" using e by (simp add: simps)
    then show thesis using 4 e fw bk by (intro unchanged) (auto simp: simps)
  qed (rule unchanged; use e in \<open>auto simp: simps simp del: drop_append\<close>)+
qed

text \<open>The keys that a packet gives to a connection.\<close>

definition packet_fits :: "npf_cache \<Rightarrow> bool" where
  "packet_fits npc \<longleftrightarrow> packet_ok npc \<and> nb_ifid (npc_nbuf npc) < 2 ^ 18"

lemma length_setckey [simp]: "length (npf_connkey_setckey key ifid di) = length key"
  by (simp add: npf_connkey_setckey_def Let_def set_key_word_def)

lemma length_setkey:
  assumes "alen = 4 \<or> alen = 16" "8 + 2 * alen \<le> length key" "length a = alen" "length b = alen"
  shows "length (snd (npf_connkey_setkey key alen proto [a, b] ids flow)) = length key"
  using assms by (auto simp: npf_connkey_setkey_def set_key_word_def Let_def)

lemma packet_key:
  assumes p: "packet_fits npc" and l: "8 + 2 * npc_alen npc \<le> length key"
    and r: "npf_conn_conkey npc key di flow = (len, key')"
  shows "len = 8 + 2 * npc_alen npc" "length key' = length key" "take len key' = conkey npc di flow"
    "NPF_CONNKEY_ALEN (take len key' @ rest) = npc_alen npc" "ck_bytes (take len key' @ rest) = conkey npc di flow"
proof -
  have ok: "packet_ok npc" using p by (simp add: packet_fits_def)
  have al: "npc_alen npc = 4 \<or> npc_alen npc = 16" "npc_proto npc < 256" "length (npc_addr npc 0) = npc_alen npc"
    "length (npc_addr npc 1) = npc_alen npc" using ok by (auto simp: packet_ok_def)
  obtain src dst sid did where b: "by_flow flow (packet_addrs npc) = (src, dst)" "by_flow flow (the (packet_ids npc)) = (sid, did)"
    by fastforce
  let ?c = "key_ckey (packet_ifid npc) (packet_di npc di)"
  let ?w0 = "key_hdr (npc_alen npc) (npc_proto npc) ?c"
  have f: "take_bit 18 (packet_ifid npc) = packet_ifid npc"
    using p by (simp add: packet_fits_def packet_ifid_def word_less_nat_alt word_unat_eq_iff unsigned_take_bit_eq
        take_bit_nat_eq_self)
  have sd: "length src = npc_alen npc" "length dst = npc_alen npc"
    using b(1) al by (auto simp: by_flow_def packet_addrs_def split: if_splits)
  note k = conkey_is [OF ok l b, of di, unfolded r prod.sel]
  show len: "len = 8 + 2 * npc_alen npc" by (rule k(1))
  show "length key' = length key"
  proof -
    obtain ids where "packet_ids npc = Some ids" using ok by (auto simp: packet_ok_def)
    then have "length key' = length (snd (npf_connkey_setkey key (npc_alen npc) (npc_proto npc)
        [npc_addr npc 0, npc_addr npc 1] ids flow))"
      using r ok by (auto simp: npf_conn_conkey_def packet_ok_def split_beta)
    then show ?thesis using length_setkey [OF al(1) l al(3,4)] by simp
  qed
  obtain rs where rs: "key' = le32 ?w0 @ le32 (key_ids sid did) @ src @ dst @ rs" using k(2) by (auto simp: key_is_def)
  then show t: "take len key' = conkey npc di flow" by (simp add: conkey_eq [OF ok b] len sd)
  have w: "key_word (conkey npc di flow @ rest) 0 = ?w0" by (simp add: conkey_eq [OF ok b] key_word_def rd32_append)
  note a = alen_of_hdr [OF al(1,2) key_ckey_fields(3) [OF f packet_di_less] w]
  have "length (conkey npc di flow) = 8 + 2 * npc_alen npc" by (simp add: conkey_eq [OF ok b] sd)
  then show "NPF_CONNKEY_ALEN (take len key' @ rest) = npc_alen npc" "ck_bytes (take len key' @ rest) = conkey npc di flow"
    unfolding t using a by (simp_all add: ck_bytes_def)
qed

end
