(* ===== verification/NPF_Conntrack.thy ===== *)
theory NPF_Conntrack
  imports NPF_Conn
begin

text \<open>
  Correctness of connection tracking.  The database invariant says that the map holds exactly
  the two keys of every connection that is not removed; every operation of
  \<open>src/kern/npf_conn.c\<close> and \<open>src/kern/npf_conndb.c\<close> keeps it.  From it follow what lookups
  find, what translation does to the keys and what garbage collection destroys.
\<close>

section \<open>Changes of one connection\<close>

lemma conndb_invD:
  assumes "conndb_inv T cd cs"
  shows "distinct (cd_new cd @ cd_list cd @ cd_gclist cd)"
    "c \<in> set (cd_new cd @ cd_list cd @ cd_gclist cd) \<Longrightarrow> even c"
    "c \<in> set (cd_new cd @ cd_list cd @ cd_gclist cd) \<Longrightarrow> conn_removed (cs c) \<Longrightarrow> conn_expiring (cs c)"
    "c \<in> set (cd_gclist cd) \<Longrightarrow> conn_removed (cs c)"
    "c \<in> conndb_conns cd \<Longrightarrow> \<not> conn_removed (cs c) \<Longrightarrow> conndb_conn_ok (thmap_get T (cd_map cd)) c (cs c)"
    "thmap_get T (cd_map cd) key = Some val \<Longrightarrow> conndb_val_ok cd cs key val"
  using assms unfolding conndb_inv_def by blast+

text \<open>A connection that is not in the database is not in the map.\<close>

lemma inv_not_in_map:
  assumes "conndb_inv T cd cs" "con \<notin> conndb_conns cd" "thmap_get T (cd_map cd) key = Some val"
  shows "CONNDB_GET_PTR val \<noteq> con"
  using conndb_invD(6) [OF assms(1,3)] assms(2) by (auto simp: conndb_val_ok_def)

text \<open>The keys of two connections differ, and those of one connection too.\<close>

lemma conn_ok_key: "conndb_conn_ok g con c \<Longrightarrow> g (conn_key c b) = Some (con + of_bool b)"
  by (simp add: conndb_conn_ok_def conn_key_def)

lemma val_even: "even con \<Longrightarrow> CONNDB_GET_PTR (con + of_bool b) = con" "even con \<Longrightarrow> odd (con + of_bool b) \<longleftrightarrow> b"
  using get_ptr_tag [of con] by (cases b; simp)+

lemma inv_add_conn:
  assumes i: "conndb_inv T cd cs" and con: "even con" "con \<notin> set (cd_new cd @ cd_list cd @ cd_gclist cd)"
    and re: "conn_removed c' \<Longrightarrow> conn_expiring c'"
    and g: "thmap_get T m = (if conn_removed c' then thmap_get T (cd_map cd)
       else (thmap_get T (cd_map cd))(forw_key c' \<mapsto> con + 1, back_key c' \<mapsto> con))"
    and new: "\<not> conn_removed c' \<Longrightarrow> keys_wf c' \<and> forw_key c' \<noteq> back_key c' \<and>
       thmap_get T (cd_map cd) (forw_key c') = None \<and> thmap_get T (cd_map cd) (back_key c') = None"
    and cd': "cd' = cd\<lparr> cd_map := m, cd_new := con # cd_new cd \<rparr>"
  shows "conndb_inv T cd' (cs(con := c'))"
proof -
  let ?g = "thmap_get T (cd_map cd)" and ?cs = "cs(con := c')"
  have l: "set (cd_new cd' @ cd_list cd' @ cd_gclist cd') = insert con (set (cd_new cd @ cd_list cd @ cd_gclist cd))"
    and cc: "conndb_conns cd' = insert con (conndb_conns cd)" and f: "cd_gclist cd' = cd_gclist cd" "cd_map cd' = m"
    by (auto simp: cd' conndb_conns_def)
  have nc: "con \<notin> conndb_conns cd" using con(2) by (auto simp: conndb_conns_def)
  have "conndb_conn_ok (thmap_get T m) c (?cs c)" if "c \<in> conndb_conns cd'" "\<not> conn_removed (?cs c)" for c
  proof (cases "c = con")
    case True
    then show ?thesis using that new by (simp add: g conndb_conn_ok_def)
  next
    case False
    then have "conndb_conn_ok ?g c (cs c)" using that cc conndb_invD(5) [OF i] by auto
    then show ?thesis using False new by (cases "conn_removed c'") (auto simp: g conndb_conn_ok_def)
  qed
  moreover have "conndb_val_ok cd' ?cs key val" if "thmap_get T m key = Some val" for key val
  proof (cases "?g key = Some val")
    case True
    then have "CONNDB_GET_PTR val \<noteq> con" "conndb_val_ok cd cs key val"
      using inv_not_in_map [OF i nc] conndb_invD(6) [OF i] by auto
    then show ?thesis by (auto simp: conndb_val_ok_def cc)
  next
    case False
    then have "\<not> conn_removed c'" "(key, val) = (forw_key c', con + 1) \<or> (key, val) = (back_key c', con)"
      using that by (auto simp: g split: if_splits)
    then show ?thesis using con(1) get_ptr_tag [OF con(1)] by (auto simp: conndb_val_ok_def cc conn_key_def)
  qed
  ultimately show ?thesis
    using i con re unfolding conndb_inv_def l f by (auto simp: cd')
qed

text \<open>A connection in the database changes: what the map and the connection become.\<close>

lemma inv_change_conn:
  assumes i: "conndb_inv T cd cs" and con: "con \<in> conndb_conns cd" "\<not> conn_removed (cs con)"
    and re: "conn_removed c' \<Longrightarrow> conn_expiring c'"
    and g: "thmap_get T m = (if conn_removed c' then (thmap_get T (cd_map cd))(forw_key (cs con) := None, back_key (cs con) := None)
       else (thmap_get T (cd_map cd))(back_key (cs con) := None, back_key c' \<mapsto> con))"
    and new: "\<not> conn_removed c' \<Longrightarrow> keys_wf c' \<and> forw_key c' = forw_key (cs con) \<and>
       (thmap_get T (cd_map cd) (back_key c') = None \<or> back_key c' = back_key (cs con))"
  shows "conndb_inv T (cd\<lparr> cd_map := m \<rparr>) (cs(con := c'))"
proof -
  let ?g = "thmap_get T (cd_map cd)" and ?cs = "cs(con := c')"
  have con': "con \<in> set (cd_new cd @ cd_list cd @ cd_gclist cd)" using con(1) by (auto simp: conndb_conns_def)
  have e: "even con" using conndb_invD(2) [OF i con'] .
  have ok: "conndb_conn_ok ?g con (cs con)" using conndb_invD(5) [OF i con] .
  then have k: "?g (forw_key (cs con)) = Some (con + 1)" "?g (back_key (cs con)) = Some con" by (simp_all add: conndb_conn_ok_def)
  have cc: "conndb_conns (cd\<lparr> cd_map := m \<rparr>) = conndb_conns cd" by (simp add: conndb_conns_def)
  have diff: "conn_key (cs c) b \<noteq> forw_key (cs con) \<and> conn_key (cs c) b \<noteq> back_key (cs con)"
    if "c \<in> conndb_conns cd" "\<not> conn_removed (cs c)" "c \<noteq> con" for c b
  proof -
    have "even c" using conndb_invD(2) [OF i, of c] that(1) by (auto simp: conndb_conns_def)
    then have "CONNDB_GET_PTR (c + of_bool b) \<noteq> con" using that(3) by (simp add: val_even(1))
    then show ?thesis
      using conn_ok_key [OF conndb_invD(5) [OF i that(1,2)], of b] k get_ptr_tag [OF e] by auto
  qed
  have "conndb_conn_ok (thmap_get T m) c (?cs c)" if "c \<in> conndb_conns cd" "\<not> conn_removed (?cs c)" for c
  proof (cases "c = con")
    case True
    then show ?thesis using that new k by (auto simp: g conndb_conn_ok_def)
  next
    case False
    then have "conndb_conn_ok ?g c (cs c)" "conn_key (cs c) b \<noteq> forw_key (cs con) \<and> conn_key (cs c) b \<noteq> back_key (cs con)" for b
      using that conndb_invD(5) [OF i] diff by auto
    from this(1) this(2) [of True] this(2) [of False] show ?thesis
      using False new by (cases "conn_removed c'") (auto simp: g conndb_conn_ok_def conn_key_def)
  qed
  moreover have "conndb_val_ok (cd\<lparr> cd_map := m \<rparr>) ?cs key val" if v: "thmap_get T m key = Some val" for key val
  proof (cases "\<not> conn_removed c' \<and> key = back_key c'")
    case True
    then have "val = con" using v by (simp add: g)
    then show ?thesis using True e con(1) get_ptr_tag [OF e] by (simp add: conndb_val_ok_def conn_key_def cc)
  next
    case False
    then have gk: "?g key = Some val" "key \<noteq> back_key (cs con)" using v by (auto simp: g split: if_splits)
    note vo = conndb_invD(6) [OF i gk(1)]
    show ?thesis
    proof (cases "CONNDB_GET_PTR val = con")
      case True
      then have "key = forw_key (cs con)" "odd val" using vo gk(2) by (auto simp: conndb_val_ok_def conn_key_def split: if_splits)
      moreover from this have "\<not> conn_removed c'" using v by (auto simp: g split: if_splits)
      ultimately show ?thesis using True con(1) new by (simp add: conndb_val_ok_def conn_key_def cc)
    qed (use vo in \<open>auto simp: conndb_val_ok_def cc\<close>)
  qed
  moreover have "con \<notin> set (cd_gclist cd)" using conndb_invD(4) [OF i] con(2) by blast
  ultimately show ?thesis using i re unfolding conndb_inv_def cc by auto
qed

lemma inv_move_gc:
  assumes i: "conndb_inv T cd cs" and con: "con \<in> set (cd_list cd)" "conn_removed (cs con)"
  shows "conndb_inv T (cd\<lparr> cd_list := remove1 con (cd_list cd), cd_gclist := con # cd_gclist cd \<rparr>) cs"
proof -
  let ?cd = "cd\<lparr> cd_list := remove1 con (cd_list cd), cd_gclist := con # cd_gclist cd \<rparr>"
  have d: "distinct (cd_new cd @ cd_list cd @ cd_gclist cd)" by (rule conndb_invD(1) [OF i])
  then have cc: "conndb_conns ?cd = conndb_conns cd - {con}" using con(1) by (auto simp: conndb_conns_def)
  have l: "set (cd_new ?cd @ cd_list ?cd @ cd_gclist ?cd) = set (cd_new cd @ cd_list cd @ cd_gclist cd)"
    using d con(1) by auto
  have "conndb_val_ok ?cd cs key val" if "thmap_get T (cd_map cd) key = Some val" for key val
    using conndb_invD(6) [OF i that] con(2) by (auto simp: conndb_val_ok_def cc)
  then show ?thesis using i d con unfolding conndb_inv_def l cc by auto
qed

section \<open>Operations keep the invariant\<close>

text \<open>An object that the pool hands out: not in use, with room for two keys.\<close>

definition conn_fresh :: "'m npf_conndb \<Rightarrow> (nat \<Rightarrow> npf_conn) \<Rightarrow> nat \<Rightarrow> nat \<Rightarrow> bool" where
  "conn_fresh cd cs con alen \<longleftrightarrow> even con \<and> con \<notin> set (cd_new cd @ cd_list cd @ cd_gclist cd) \<and>
     length (c_keys (cs con)) = 2 * (8 + 2 * alen)"

text \<open>The keys of the new connection and what becomes of the database.\<close>

lemma establish_spec:
  assumes T: "thmap_laws (env_map E)" and i: "conndb_inv (env_map E) (conn_db k) (conns k)"
    and fr: "conn_fresh (conn_db k) (conns k) con (npc_alen npc)"
    and e: "npf_conn_establish E now (Some con) npc di perif k = (r, npc', k')"
    and p: "packet_fits npc'" "npc_alen npc' = npc_alen npc"
  obtains (unchanged) "r = None" "conn_db k' = conn_db k" "\<forall>c. c \<noteq> con \<longrightarrow> conns k' c = conns k c"
      "\<not> npf_conn_trackable_p npc k \<or> \<not> fst (npf_state_init npc)"
  | (tried) ok m c' where "r = (if ok then Some con else None)" "conns k' = (conns k)(con := c')"
      "conn_db k' = (conn_db k)\<lparr> cd_map := m, cd_new := con # cd_new (conn_db k) \<rparr>"
      "forw_key c' = conkey npc' di NPF_FLOW_FORW" "back_key c' = conkey npc' (di XOR PFIL_ALL) NPF_FLOW_BACK"
      "keys_wf c'" "c_alen c' = npc_alen npc"
      "ok \<longleftrightarrow> thmap_get (env_map E) (cd_map (conn_db k)) (forw_key c') = None \<and>
         thmap_get (env_map E) (cd_map (conn_db k)) (back_key c') = None \<and> forw_key c' \<noteq> back_key c'"
      "thmap_get (env_map E) m = (if ok then (thmap_get (env_map E) (cd_map (conn_db k)))(forw_key c' \<mapsto> con + 1, back_key c' \<mapsto> con)
         else thmap_get (env_map E) (cd_map (conn_db k)))"
      "c_flags c' = (if ok then of_nat (di mod 4) else of_nat (di mod 4) OR (CONN_REMOVED OR CONN_EXPIRE))"
      "c_refcnt c' = (if ok then 1 else 0)" "c_ifid c' = (if perif then nb_ifid (npc_nbuf npc') else 0)" "c_nat c' = None"
proof -
  define n where "n = 8 + npc_alen npc * 2"
  from e n_def show thesis
  proof (cases rule: establish_cases)
    case unchanged
    have l: "8 + 2 * npc_alen npc' \<le> length (c_keys (conns k con))" "length (c_keys (conns k con)) = n + n"
      using fr by (simp_all add: conn_fresh_def n_def p(2))
    have "flen \<noteq> 0 \<and> fst (npf_conn_conkey npc' (drop n fw) (di XOR PFIL_ALL) NPF_FLOW_BACK) \<noteq> 0"
      if f: "npf_conn_conkey npc' (c_keys (conns k con)) di NPF_FLOW_FORW = (flen, fw)" for flen fw
    proof -
      have "8 + 2 * npc_alen npc' \<le> length (drop n fw)" using packet_key(2) [OF p(1) l(1) f] l(2) by (simp add: p(2) n_def)
      then show ?thesis
        using packet_key(1) [OF p(1) l(1) f] packet_key(1) [OF p(1) _ prod.collapse [symmetric]] by simp
    qed
    then show thesis using unchanged by (intro that(1)) blast+
  next
    case (tried flen fw blen bk ok cd c')
    have lk: "length (c_keys (conns k con)) = n + n" using fr by (simp add: conn_fresh_def n_def)
    then have "8 + 2 * npc_alen npc' \<le> length (c_keys (conns k con))" by (simp add: p(2) n_def)
    note F = packet_key [OF p(1) this tried(1)]
    have fn: "flen = n" "length fw = n + n" using F(1,2) lk by (simp_all add: n_def p(2))
    then have "8 + 2 * npc_alen npc' \<le> length (drop n fw)" by (simp add: p(2) n_def)
    note B = packet_key [OF p(1) this tried(3)]
    have bn: "blen = n" "length bk = n" using B(1,2) fn by (simp_all add: n_def p(2))
    have keys: "drop n (take n fw @ bk) = bk" "c_keys c' = take n fw @ bk" using fn tried(9) by simp_all
    have fk: "forw_key c' = conkey npc' di NPF_FLOW_FORW" "NPF_CONNKEY_ALEN (c_keys c') = c_alen c'"
      using F(4,5) [of bk] tried(10) by (simp_all add: forw_key_def npf_conn_getforwkey_def keys fn(1) p(2))
    have bb: "ck_bytes bk = conkey npc' (di XOR PFIL_ALL) NPF_FLOW_BACK"
      using B(5) [of "[]"] bn by simp
    have bk: "back_key c' = ck_bytes bk"
      using tried(10) keys by (simp add: back_key_def npf_conn_getbackkey_def n_def [symmetric])
    have "con \<notin> conndb_conns (conn_db k)" "even con" using fr by (auto simp: conn_fresh_def conndb_conns_def)
    then have new: "thmap_get (env_map E) (cd_map (conn_db k)) key = Some val \<Longrightarrow> CONNDB_GET_PTR val \<noteq> con" and e: "even con"
      for key val using inv_not_in_map [OF i] by auto
    let ?g = "thmap_get (env_map E) (cd_map (conn_db k))"
    have fb: "ck_bytes (take n fw @ bk) = forw_key c'" by (simp add: forw_key_def npf_conn_getforwkey_def keys)
    have ins: "\<exists>m. cd = (conn_db k)\<lparr> cd_map := m \<rparr> \<and>
      (ok \<longleftrightarrow> ?g (ck_bytes (take n fw @ bk)) = None \<and> ?g (ck_bytes (drop n (take n fw @ bk))) = None \<and>
        ck_bytes (take n fw @ bk) \<noteq> ck_bytes (drop n (take n fw @ bk))) \<and>
      thmap_get (env_map E) m = (if ok then ?g(ck_bytes (take n fw @ bk) \<mapsto> con + 1, ck_bytes (drop n (take n fw @ bk)) \<mapsto> con)
        else ?g)"
      by (rule insert_keys_spec [OF T e _ tried(5)]) (rule new)
    obtain m where m: "cd = (conn_db k)\<lparr> cd_map := m \<rparr>"
      "ok \<longleftrightarrow> thmap_get (env_map E) (cd_map (conn_db k)) (forw_key c') = None \<and>
         thmap_get (env_map E) (cd_map (conn_db k)) (back_key c') = None \<and> forw_key c' \<noteq> back_key c'"
      "thmap_get (env_map E) m = (if ok then (thmap_get (env_map E) (cd_map (conn_db k)))(forw_key c' \<mapsto> con + 1, back_key c' \<mapsto> con)
         else thmap_get (env_map E) (cd_map (conn_db k)))"
      using ins unfolding keys(1) fb bk by blast
    have "npc_alen npc = 4 \<or> npc_alen npc = 16" using p by (simp add: packet_fits_def packet_ok_def)
    moreover have "length (c_keys c') = 2 * (8 + 2 * npc_alen npc)" using fn bn keys(2) by (simp add: n_def)
    moreover have "npf_conn_getbackkey c' (npc_alen npc) = bk"
      unfolding npf_conn_getbackkey_def keys(2) n_def [symmetric] by (rule keys(1))
    moreover have "NPF_CONNKEY_ALEN bk = npc_alen npc" using B(4) [of "[]"] bn p(2) by simp
    ultimately have wf: "keys_wf c'" using fk(2) tried(10) by (simp add: keys_wf_def)
    show thesis
      by (rule that(2) [of ok c' m]) (use tried m fk bk bb wf in \<open>simp_all add: npf_conndb_enqueue_def\<close>)
  qed
qed

lemma di_flags:
  "(of_nat (di mod 4) :: u32) AND 0x20 = 0" "(of_nat (di mod 4) :: u32) AND 0x10 = 0" "(of_nat (di mod 4) :: u32) AND 0x04 = 0"
  "(of_nat (di mod 4) :: u32) AND 3 = of_nat (di mod 4)"
proof -
  consider "di mod 4 = 0" | "di mod 4 = 1" | "di mod 4 = 2" | "di mod 4 = 3" by linarith
  then show "(of_nat (di mod 4) :: u32) AND 0x20 = 0" "(of_nat (di mod 4) :: u32) AND 0x10 = 0"
    "(of_nat (di mod 4) :: u32) AND 0x04 = 0" "(of_nat (di mod 4) :: u32) AND 3 = of_nat (di mod 4)" by (cases; simp)+
qed

lemma establish_inv:
  assumes T: "thmap_laws (env_map E)" and i: "conndb_inv (env_map E) (conn_db k) (conns k)"
    and fr: "conn_fresh (conn_db k) (conns k) con (npc_alen npc)"
    and e: "npf_conn_establish E now (Some con) npc di perif k = (r, npc', k')"
    and p: "packet_fits npc'" "npc_alen npc' = npc_alen npc"
  shows "conndb_inv (env_map E) (conn_db k') (conns k')"
  using assms
proof (cases rule: establish_spec)
  case unchanged
  have "conndb_inv (env_map E) (conn_db k) (conns k')"
    by (rule conndb_inv_cong [OF i]) (use unchanged fr in \<open>auto simp: conn_fresh_def\<close>)
  then show ?thesis using unchanged by simp
next
  case (tried ok m c')
  have f: "conn_removed c' = (\<not> ok)" "\<not> ok \<Longrightarrow> conn_expiring c'"
    using tried(10) by (auto simp: conn_removed_def conn_expiring_def or_flags di_flags)
  show ?thesis unfolding tried(2,3)
    by (rule inv_add_conn [OF i, of con c' m]) (use tried f fr in \<open>auto simp: conn_fresh_def\<close>)
qed

lemma rd32_take_append: "i + 4 \<le> n \<Longrightarrow> n \<le> length xs \<Longrightarrow> rd32 (take n xs @ ys) i = rd32 xs i"
  by (simp add: rd32_def nth_append)

lemma alen_cong: "key_word key 0 = key_word key' 0 \<Longrightarrow> NPF_CONNKEY_ALEN key = NPF_CONNKEY_ALEN key'"
  by (simp add: NPF_CONNKEY_ALEN_def)

lemma back_key_adj:
  assumes wf: "keys_wf c" and bk: "length bk = 8 + 2 * c_alen c" "NPF_CONNKEY_ALEN bk = c_alen c"
    and c': "c' = set_backkey (c_alen c) bk c"
  shows "back_key c' = ck_bytes bk" "forw_key c' = forw_key c" "keys_wf c'"
proof -
  let ?n = "8 + c_alen c * 2"
  have l: "length (c_keys c) = 2 * (8 + 2 * c_alen c)" "NPF_CONNKEY_ALEN (c_keys c) = c_alen c" using wf by (simp_all add: keys_wf_def)
  have keys: "c_keys c' = take ?n (c_keys c) @ bk" "c_alen c' = c_alen c" "npf_conn_getbackkey c' (c_alen c') = bk"
    using l by (simp_all add: c' set_backkey_def npf_conn_getbackkey_def)
  have "key_word (c_keys c') 0 = key_word (c_keys c) 0"
    using l by (simp add: keys(1) key_word_def rd32_take_append)
  from alen_cong [OF this] have a: "NPF_CONNKEY_ALEN (c_keys c') = c_alen c" using l(2) by simp
  show "back_key c' = ck_bytes bk" using keys(2,3) by (simp add: back_key_def)
  show "forw_key c' = forw_key c"
    using a l by (simp add: forw_key_def npf_conn_getforwkey_def ck_bytes_def NPF_CONNKEY_LEN_def keys(1))
  show "keys_wf c'" using wf a bk keys l by (simp add: keys_wf_def)
qed

lemma adjkey_wf:
  assumes "NPF_CONNKEY_ALEN key = alen" "length key = 8 + 2 * alen" "alen = 4 \<or> alen = 16" "which \<le> 1"
  shows "length (npf_conn_adjkey key na nid which) = length key" "NPF_CONNKEY_ALEN (npf_conn_adjkey key na nid which) = alen"
proof -
  define i where "i = 8 + 4 * (alen div 4 * which)"
  have i: "8 \<le> i" "i + length (take alen na) \<le> length key" "key \<noteq> []" using assms by (auto simp: i_def)
  have "rd32 (memcpy_at key i (take alen na)) 0 = rd32 key 0"
    using i by (simp add: rd32_def nth_memcpy_at)
  moreover have "rd32 (wr32 d 4 v) 0 = rd32 d 0" for d v by (simp add: rd32_def wr32_def)
  ultimately have "key_word (npf_conn_adjkey key na nid which) 0 = key_word key 0"
    by (simp add: npf_conn_adjkey_def Let_def assms(1) key_word_def set_key_word_def i_def)
  from alen_cong [OF this] show "NPF_CONNKEY_ALEN (npf_conn_adjkey key na nid which) = alen" using assms(1) by simp
  show "length (npf_conn_adjkey key na nid which) = length key"
    using i by (simp add: npf_conn_adjkey_def Let_def assms(1) set_key_word_def i_def)
qed

lemma setnat_cases:
  assumes T: "thmap_laws (env_map E)" and i: "conndb_inv (env_map E) (conn_db k) (conns k)"
    and con: "con \<in> conndb_conns (conn_db k)" and s: "npf_conn_setnat E con nt ntype k = (r, k')"
    and tr: "npf_nat_gettrans k nt = (taddr, tport)"
  obtains (early) "r \<noteq> None" "conns_keep k k'" "conn_expiring (conns k con) \<or> c_nat (conns k con) \<noteq> None"
  | (success) m c' bk where "r = None" "conns k' = (conns k)(con := c')" "conn_db k' = (conn_db k)\<lparr> cd_map := m \<rparr>"
      "bk = npf_conn_adjkey (npf_conn_getbackkey (conns k con) (c_alen (conns k con))) taddr tport (nat_type_which ntype)"
      "\<not> conn_removed (conns k con)" "conn_removed c' = conn_removed (conns k con)" "keys_wf c'"
      "forw_key c' = forw_key (conns k con)" "back_key c' = ck_bytes bk" "c_nat c' = Some nt"
      "c_flags c' = c_flags (conns k con)" "c_ifid c' = c_ifid (conns k con)"
      "thmap_get (env_map E) (cd_map (conn_db k)) (back_key c') = None \<or> back_key c' = back_key (conns k con)"
      "thmap_get (env_map E) m = (thmap_get (env_map E) (cd_map (conn_db k)))(back_key (conns k con) := None, back_key c' \<mapsto> con)"
  | (race) m c' where "r \<noteq> None" "conns k' = (conns k)(con := c')" "conn_db k' = (conn_db k)\<lparr> cd_map := m \<rparr>"
      "\<not> conn_removed (conns k con)" "conn_removed c'" "conn_expiring c'"
      "thmap_get (env_map E) m =
         (thmap_get (env_map E) (cd_map (conn_db k)))(forw_key (conns k con) := None, back_key (conns k con) := None)"
      "((thmap_get (env_map E) (cd_map (conn_db k)))(back_key (conns k con) := None)) (ck_bytes (npf_conn_adjkey
         (npf_conn_getbackkey (conns k con) (c_alen (conns k con))) taddr tport (nat_type_which ntype))) \<noteq> None"
proof -
  let ?c = "conns k con" and ?T = "env_map E" and ?g = "thmap_get (env_map E) (cd_map (conn_db k))"
  consider "c_flags ?c AND CONN_EXPIRE \<noteq> 0" | "c_flags ?c AND CONN_EXPIRE = 0" "c_nat ?c \<noteq> None"
    | "c_flags ?c AND CONN_EXPIRE = 0" "c_nat ?c = None" by blast
  then show thesis
  proof cases
    case 3
    have l: "con \<in> set (cd_new (conn_db k) @ cd_list (conn_db k) @ cd_gclist (conn_db k))"
      using con by (auto simp: conndb_conns_def)
    have nr: "\<not> conn_removed ?c" using conndb_invD(3) [OF i l] 3(1) by (auto simp: conn_expiring_def)
    have e: "even con" using conndb_invD(2) [OF i l] .
    have ok: "conndb_conn_ok ?g con ?c" using conndb_invD(5) [OF i con nr] .
    then have wf: "keys_wf ?c" and g: "?g (forw_key ?c) = Some (con + 1)" "?g (back_key ?c) = Some con"
      by (simp_all add: conndb_conn_ok_def)
    let ?bk0 = "npf_conn_getbackkey ?c (c_alen ?c)"
    define bk where "bk = npf_conn_adjkey ?bk0 taddr tport (nat_type_which ntype)"
    have bl: "length bk = 8 + 2 * c_alen ?c" "NPF_CONNKEY_ALEN bk = c_alen ?c"
      using adjkey_wf [of ?bk0 "c_alen ?c" "nat_type_which ntype" taddr tport] wf
      by (simp_all add: bk_def keys_wf_def npf_conn_getbackkey_def nat_type_which_def)
    define c1 where "c1 = set_backkey (c_alen ?c) bk ?c"
    note c1 = back_key_adj [OF wf bl c1_def]
    have fl: "c_flags c1 = c_flags ?c" "c_alen c1 = c_alen ?c" "c_ifid c1 = c_ifid ?c" by (simp_all add: c1_def set_backkey_def)
    obtain m0 where m0: "snd (npf_conndb_remove ?T (conn_db k) ?bk0) = (conn_db k)\<lparr> cd_map := m0 \<rparr>"
      "thmap_get ?T m0 = ?g(back_key ?c := None)"
      using remove_spec [OF T, of "conn_db k" ?bk0] by (auto simp: back_key_def)
    have only: "?g key = Some con \<Longrightarrow> key = back_key ?c" for key
      using conndb_invD(6) [OF i, of key con] e get_ptr_tag [OF e] by (auto simp: conndb_val_ok_def conn_key_def)
    let ?cd0 = "(conn_db k)\<lparr> cd_map := m0 \<rparr>"
    have "thmap_get ?T (cd_map ?cd0) (ck_bytes bk) \<noteq> Some (con + of_bool (NPF_FLOW_BACK = NPF_FLOW_FORW))"
      using only [of "ck_bytes bk"] by (auto simp: m0(2))
    note ins = insert_spec [OF T e this]
    obtain m1 where m1: "snd (npf_conndb_insert ?T ?cd0 bk con NPF_FLOW_BACK) = (conn_db k)\<lparr> cd_map := m1 \<rparr>"
      "thmap_get ?T m1 = (if thmap_get ?T m0 (ck_bytes bk) = None then (thmap_get ?T m0)(ck_bytes bk \<mapsto> con) else thmap_get ?T m0)"
      using ins(2) by auto
    have fst_ins: "fst (npf_conndb_insert ?T ?cd0 bk con NPF_FLOW_BACK) \<longleftrightarrow> thmap_get ?T m0 (ck_bytes bk) = None"
      using ins(1) by simp
    note S = npf_conn_setnat_def Let_def tr split_beta m0(1) bk_def [symmetric] c1_def [symmetric] m1(1) fst_ins
    show thesis
    proof (cases "thmap_get ?T m0 (ck_bytes bk) = None")
      case True
      show thesis
      proof (rule success [of "c1\<lparr> c_nat := Some nt \<rparr>" m1 bk, OF _ _ _ bk_def nr])
        show "r = None" "conns k' = (conns k)(con := c1\<lparr> c_nat := Some nt \<rparr>)" "conn_db k' = (conn_db k)\<lparr> cd_map := m1 \<rparr>"
          using s 3 True by (auto simp: S upd_defs)
        have k: "forw_key (c1\<lparr> c_nat := Some nt \<rparr>) = forw_key c1" "back_key (c1\<lparr> c_nat := Some nt \<rparr>) = back_key c1"
          by (simp_all add: forw_key_def back_key_def npf_conn_getforwkey_def npf_conn_getbackkey_def)
        show "forw_key (c1\<lparr> c_nat := Some nt \<rparr>) = forw_key ?c" "back_key (c1\<lparr> c_nat := Some nt \<rparr>) = ck_bytes bk"
          unfolding k by (rule c1(2), rule c1(1))
        show "keys_wf (c1\<lparr> c_nat := Some nt \<rparr>)" using c1(3) by (simp add: keys_wf_def npf_conn_getbackkey_def)
        show "conn_removed (c1\<lparr> c_nat := Some nt \<rparr>) = conn_removed ?c" using fl by (simp add: conn_removed_def)
        show "?g (back_key (c1\<lparr> c_nat := Some nt \<rparr>)) = None \<or> back_key (c1\<lparr> c_nat := Some nt \<rparr>) = back_key ?c"
          using True unfolding k c1(1) m0(2) by (simp split: if_splits)
        show "thmap_get ?T m1 = ?g(back_key ?c := None, back_key (c1\<lparr> c_nat := Some nt \<rparr>) \<mapsto> con)"
          using True unfolding k c1(1) m1(2) m0(2) by simp
      qed (simp_all add: fl)
    next
      case False
      define c2 where "c2 = c1\<lparr> c_flags := c_flags ?c OR (CONN_REMOVED OR CONN_EXPIRE) \<rparr>"
      obtain m2 where m2: "snd (npf_conndb_remove ?T ((conn_db k)\<lparr> cd_map := m1 \<rparr>) (npf_conn_getforwkey c1)) =
          (conn_db k)\<lparr> cd_map := m2 \<rparr>" "thmap_get ?T m2 = (thmap_get ?T m1)(forw_key c1 := None)"
        using remove_spec [OF T, of "(conn_db k)\<lparr> cd_map := m1 \<rparr>" "npf_conn_getforwkey c1"] unfolding forw_key_def by auto
      have ne: "forw_key ?c \<noteq> back_key ?c" using g by auto
      have m1': "thmap_get ?T m1 = thmap_get ?T m0" using m1(2) by (simp only: False if_False)
      show thesis
      proof (rule race [of c2 m2, OF _ _ _ nr])
        show "r \<noteq> None" "conns k' = (conns k)(con := c2)" "conn_db k' = (conn_db k)\<lparr> cd_map := m2 \<rparr>"
          using s 3 False m2(1) fl by (auto simp: S upd_defs c2_def)
        show "conn_removed c2" "conn_expiring c2" by (simp_all add: c2_def conn_removed_def conn_expiring_def or_flags)
        show "thmap_get ?T m2 = ?g(forw_key ?c := None, back_key ?c := None)"
          unfolding m2(2) m1' c1(2) m0(2) by (rule fun_upd_twist [OF ne [symmetric]])
      qed (use False in \<open>unfold m0(2) bk_def\<close>)
    qed
  qed (rule early; use s in \<open>auto simp: npf_conn_setnat_def tr conn_expiring_def\<close>)+
qed

lemma setnat_inv:
  assumes T: "thmap_laws (env_map E)" and i: "conndb_inv (env_map E) (conn_db k) (conns k)"
    and con: "con \<in> conndb_conns (conn_db k)" and s: "npf_conn_setnat E con nt ntype k = (r, k')"
  shows "conndb_inv (env_map E) (conn_db k') (conns k')"
proof -
  obtain taddr tport where tr: "npf_nat_gettrans k nt = (taddr, tport)" by fastforce
  from T i con s tr show ?thesis
  proof (cases rule: setnat_cases)
    case early
    show ?thesis by (rule conns_keep_inv [OF i early(2)])
  next
    case (success m c' bk)
    show ?thesis unfolding success(2,3)
      by (rule inv_change_conn [OF i con success(5)]) (use success in auto)
  next
    case (race m c')
    show ?thesis unfolding race(2,3)
      by (rule inv_change_conn [OF i con race(4)]) (use race in auto)
  qed
qed

section \<open>Garbage collection\<close>

lemma remove_conn_spec:
  assumes T: "thmap_laws T" and wf: "\<not> conn_removed (conns k con) \<Longrightarrow> keys_wf (conns k con)"
    and c': "c' = (conns k con)\<lparr> c_flags := c_flags (conns k con) OR (CONN_REMOVED OR CONN_EXPIRE) \<rparr>"
  shows "\<exists>m. npf_conn_remove T cd con k = (cd\<lparr> cd_map := m \<rparr>, k\<lparr> conns := (conns k)(con := c') \<rparr>) \<and>
    thmap_get T m = (if conn_removed (conns k con) then thmap_get T (cd_map cd)
      else (thmap_get T (cd_map cd))(forw_key (conns k con) := None, back_key (conns k con) := None))"
proof (cases "conn_removed (conns k con)")
  case True
  then show ?thesis
    by (intro exI [of _ "cd_map cd"]) (simp add: npf_conn_remove_def conn_removed_def conn_upd_def c' Let_def)
next
  case False
  let ?c = "conns k con"
  obtain m where m: "snd (npf_conndb_remove T cd (npf_conn_getforwkey ?c)) = cd\<lparr> cd_map := m \<rparr>"
    "thmap_get T m = (thmap_get T (cd_map cd))(forw_key ?c := None)"
    using remove_spec [OF T, of cd "npf_conn_getforwkey ?c"] unfolding forw_key_def by blast
  have a: "NPF_CONNKEY_ALEN (npf_conn_getforwkey ?c) = c_alen ?c"
    using wf [OF False] by (simp add: keys_wf_def npf_conn_getforwkey_def)
  obtain m' where m': "snd (npf_conndb_remove T (cd\<lparr> cd_map := m \<rparr>) (npf_conn_getbackkey ?c (c_alen ?c))) = cd\<lparr> cd_map := m' \<rparr>"
    "thmap_get T m' = (thmap_get T m)(back_key ?c := None)"
    using remove_spec [OF T, of "cd\<lparr> cd_map := m \<rparr>" "npf_conn_getbackkey ?c (c_alen ?c)"] unfolding back_key_def by auto
  show ?thesis
    using False m m' a
    by (intro exI [of _ m']) (simp add: npf_conn_remove_def conn_removed_def conn_upd_def c' Let_def split_beta)
qed

text \<open>One connection is moved to the list of connections to destroy.\<close>

definition conn_gone :: "npf_conn \<Rightarrow> npf_conn" where
  "conn_gone c = c\<lparr> c_flags := c_flags c OR (CONN_REMOVED OR CONN_EXPIRE) \<rparr>"

lemma conn_gone_flags [simp]: "conn_removed (conn_gone c)" "conn_expiring (conn_gone c)"
  by (simp_all add: conn_gone_def conn_removed_def conn_expiring_def or_flags)

lemma gc_move_spec:
  assumes T: "thmap_laws T" and i: "conndb_inv T cd (conns k)" and con: "con \<in> set (cd_list cd)"
  shows "\<exists>m. gc_move T con (cd, k) =
      (cd\<lparr> cd_list := remove1 con (cd_list cd), cd_gclist := con # cd_gclist cd, cd_map := m \<rparr>,
       k\<lparr> conns := (conns k)(con := conn_gone (conns k con)) \<rparr>) \<and>
    conndb_inv T (cd\<lparr> cd_list := remove1 con (cd_list cd), cd_gclist := con # cd_gclist cd, cd_map := m \<rparr>)
      ((conns k)(con := conn_gone (conns k con)))"
proof -
  let ?c = "conns k con"
  have cc: "con \<in> conndb_conns cd" using con by (simp add: conndb_conns_def)
  have wf: "\<not> conn_removed ?c \<Longrightarrow> keys_wf ?c" using conndb_invD(5) [OF i cc] by (simp add: conndb_conn_ok_def)
  let ?cd = "cd\<lparr> cd_list := remove1 con (cd_list cd), cd_gclist := con # cd_gclist cd \<rparr>"
  obtain m where m: "npf_conn_remove T ?cd con k = (?cd\<lparr> cd_map := m \<rparr>, k\<lparr> conns := (conns k)(con := conn_gone ?c) \<rparr>)"
    "thmap_get T m = (if conn_removed ?c then thmap_get T (cd_map cd)
      else (thmap_get T (cd_map cd))(forw_key ?c := None, back_key ?c := None))"
    using remove_conn_spec [OF T wf conn_gone_def, of ?cd] by auto
  have "conndb_inv T (cd\<lparr> cd_map := m \<rparr>) ((conns k)(con := conn_gone ?c))"
  proof (cases "conn_removed ?c")
    case True
    have "conndb_inv T (cd\<lparr> cd_map := m \<rparr>) (conns k)"
      using i m(2) True by (simp add: conndb_inv_def conndb_conns_def conndb_val_ok_def)
    then show ?thesis
      by (rule conndb_inv_cong) (use True in \<open>auto simp: conn_same_def conn_gone_def conn_removed_def conn_expiring_def or_flags\<close>)
  next
    case False
    show ?thesis by (rule inv_change_conn [OF i cc False]) (use m(2) False in auto)
  qed
  then have "conndb_inv T (cd\<lparr> cd_map := m, cd_list := remove1 con (cd_list cd), cd_gclist := con # cd_gclist cd \<rparr>)
      ((conns k)(con := conn_gone ?c))"
    using inv_move_gc [of T "cd\<lparr> cd_map := m \<rparr>"] con by simp
  moreover have "cd\<lparr> cd_map := m, cd_list := remove1 con (cd_list cd), cd_gclist := con # cd_gclist cd \<rparr> = ?cd\<lparr> cd_map := m \<rparr>"
    by simp
  ultimately show ?thesis using m(1) by (intro exI [of _ m]) (simp only: gc_move_def prod.sel simp_thms)
qed

text \<open>Circular iteration: the list read from some position on.\<close>

definition cyc :: "'a list \<Rightarrow> 'a list \<Rightarrow> bool" where
  "cyc L C \<longleftrightarrow> (\<exists>A B. L = A @ B \<and> C = B @ A)"

lemma list_first_append: "list_first (xs @ ys) = (if xs = [] then list_first ys else Some (hd xs))"
  by (cases xs) (simp_all add: list_first_def)

lemma list_first_hd: "xs \<noteq> [] \<Longrightarrow> list_first xs = Some (hd xs)"
  by (cases xs) (simp_all add: list_first_def)

lemma list_next_split: "x \<notin> set xs \<Longrightarrow> list_next (xs @ x # ys) x = list_first ys"
  by (induction xs) auto

lemma getnext_cyc:
  assumes "distinct (cd_list cd)" "cyc (cd_list cd) (P @ c # Q)"
  shows "npf_conndb_getnext cd (Some c) = list_first (Q @ P @ [c])"
proof -
  obtain A B where L: "cd_list cd = A @ B" and C: "P @ c # Q = B @ A" using assms(2) by (auto simp: cyc_def)
  consider us where "B = P @ us" "us @ A = c # Q" | us where "P = B @ us" "A = us @ c # Q"
    using C unfolding append_eq_append_conv2 by auto
  then have "\<exists>xs ys. cd_list cd = xs @ c # ys \<and>
    list_first (Q @ P @ [c]) = (if ys = [] then list_first (xs @ [c]) else list_first ys)"
  proof cases
    case (1 us)
    show ?thesis
    proof (cases us)
      case Nil
      then show ?thesis using 1 L by - (rule exI [of _ "[]"], rule exI [of _ "Q @ P"], simp add: list_first_append list_first_hd)
    next
      case (Cons u us')
      then show ?thesis
        using 1 L by - (rule exI [of _ "A @ P"], rule exI [of _ us'], auto simp: list_first_append list_first_hd)
    qed
  next
    case (2 us)
    then show ?thesis using L by - (rule exI [of _ us], rule exI [of _ "Q @ B"], auto simp: list_first_append list_first_hd)
  qed
  then obtain xs ys where xs: "cd_list cd = xs @ c # ys"
    "list_first (Q @ P @ [c]) = (if ys = [] then list_first (xs @ [c]) else list_first ys)" by blast
  then have "list_next (cd_list cd) c = list_first ys" using assms(1) by (simp add: list_next_split)
  then show ?thesis
    using xs by (cases ys) (simp_all add: npf_conndb_getnext_def list_first_def)
qed

lemma cyc_remove1:
  assumes "distinct L" "cyc L (P @ c # Q)"
  shows "cyc (remove1 c L) (P @ Q)"
proof -
  obtain A B where L: "L = A @ B" and C: "B @ A = P @ c # Q" using assms(2) by (auto simp: cyc_def)
  have d: "distinct (B @ A)" using assms(1) L by auto
  then have "c \<notin> set P" unfolding C by auto
  then have "remove1 c (B @ A) = P @ Q" unfolding C by (simp add: remove1_append)
  moreover have "remove1 c (A @ B) = remove1 c A @ remove1 c B" "remove1 c (B @ A) = remove1 c B @ remove1 c A"
    using d by (cases "c \<in> set A"; cases "c \<in> set B"; auto simp: remove1_append remove1_idem)+
  ultimately show ?thesis unfolding L cyc_def by metis
qed

text \<open>
  The scan: of the connections \<open>U\<close> from the current one up to the marker, the first \<open>target\<close>
  are inspected and the expired ones collected.
\<close>

abbreviation kept :: "('m, 'p, 'x) npf_kern \<Rightarrow> int \<Rightarrow> nat \<Rightarrow> bool" where
  "kept k now c \<equiv> \<not> npf_conn_expired (kn_params k) (conns k c) now"

definition gc_result ::
  "('m, u8 list, nat) thmap_ops \<Rightarrow> int \<Rightarrow> nat list \<Rightarrow> nat list \<Rightarrow> nat list \<Rightarrow> 'm npf_conndb \<Rightarrow> ('m, 'p, 'x) npf_kern
   \<Rightarrow> nat option \<Rightarrow> 'm npf_conndb \<Rightarrow> ('m, 'p, 'x) npf_kern \<Rightarrow> bool" where
  "gc_result T now S V W cd k con' cd' k' \<longleftrightarrow>
     conndb_inv T cd' (conns k') \<and> cd_new cd' = cd_new cd \<and>
     cyc (cd_list cd') (S @ filter (kept k now) V @ W) \<and>
     set (cd_gclist cd') = set (filter (\<lambda>c. \<not> kept k now c) V) \<union> set (cd_gclist cd) \<and>
     (\<exists>cs. k' = k\<lparr> conns := cs \<rparr>) \<and>
     (\<forall>c. conns k' c = (if c \<in> set V \<and> \<not> kept k now c then conn_gone (conns k c) else conns k c)) \<and>
     con' = list_first (W @ S @ filter (kept k now) V)"

lemma cyc_length: "cyc L C \<Longrightarrow> length C = length L"
  by (auto simp: cyc_def)

lemma cyc_set: "cyc L C \<Longrightarrow> set L = set C \<and> distinct L = distinct C"
  by (auto simp: cyc_def)

text \<open>The marker does not matter for the invariant.\<close>

lemma inv_marker [simp]: "conndb_inv T (cd\<lparr> cd_marker := x \<rparr>) cs = conndb_inv T cd cs"
  by (simp add: conndb_inv_def conndb_conns_def conndb_val_ok_def)

lemma conns_self [simp]: "\<exists>cs. k = k\<lparr> conns := cs \<rparr>" "\<exists>cs. k\<lparr> conns := x \<rparr> = k\<lparr> conns := cs \<rparr>"
  by (rule exI [of _ "conns k"], simp) blast

lemma gc_result_step:
  assumes r: "gc_result T now S V W cd1 k1 con' cd' k'" and c: "c \<notin> set V" "\<not> kept k now c"
    and k1: "k1 = k\<lparr> conns := (conns k)(c := conn_gone (conns k c)) \<rparr>"
    and cd1: "cd_new cd1 = cd_new cd" "cd_gclist cd1 = c # cd_gclist cd"
  shows "gc_result T now S (c # V) W cd k con' cd' k'"
    "filter (\<lambda>c. \<not> kept k now c) V = filter (\<lambda>c. \<not> kept k1 now c) V"
proof -
  have "filter (kept k1 now) V = filter (kept k now) V"
    by (rule filter_cong) (use c(1) in \<open>auto simp: k1\<close>)
  moreover show f: "filter (\<lambda>c. \<not> kept k now c) V = filter (\<lambda>c. \<not> kept k1 now c) V"
    by (rule filter_cong) (use c(1) in \<open>auto simp: k1\<close>)
  moreover have "conns k' x = (if x \<in> set (c # V) \<and> \<not> kept k now x then conn_gone (conns k x) else conns k x)" for x
    using r c unfolding gc_result_def k1 by auto
  moreover have "\<exists>cs. k' = k\<lparr> conns := cs \<rparr>" using r unfolding gc_result_def k1 by auto
  ultimately show "gc_result T now S (c # V) W cd k con' cd' k'"
    using r c(2) cd1 unfolding gc_result_def by auto
qed

lemma gc_scan_spec:
  assumes "thmap_laws T" "conndb_inv T cd (conns k)" "cyc (cd_list cd) (S @ U)" "U \<noteq> []"
    "cd_marker cd = list_first (S @ U)" "gc_scan T now target (Some (hd U)) n (cd, k) = (con', n', cd', k')"
  shows "gc_result T now S (take target U) (drop target U) cd k con' cd' k' \<and>
    n' = n + length (filter (\<lambda>c. \<not> kept k now c) (take target U))"
  using assms(2-6)
proof (induction U arbitrary: S n cd k target)
  case (Cons c U)
  have d: "distinct (cd_list cd)" using conndb_invD(1) [OF Cons.prems(1)] by simp
  then have dc: "distinct (S @ c # U)" and cl: "c \<in> set (cd_list cd)" using cyc_set [OF Cons.prems(2)] by auto
  show ?case
  proof (cases target)
    case 0
    then show ?thesis using Cons.prems by (simp add: gc_result_def list_first_def)
  next
    case (Suc t)
    have nx: "npf_conndb_getnext cd (Some c) = list_first (U @ S @ [c])" by (rule getnext_cyc [OF d Cons.prems(2)])
    show ?thesis
    proof (cases "kept k now c")
      case True
      show ?thesis
      proof (cases U)
        case Nil
        then have "list_first (S @ [c]) = cd_marker cd" using Cons.prems(4) by simp
        then show ?thesis
          using Cons.prems Suc True Nil nx by (auto simp: gc_result_def)
      next
        case (Cons u U')
        then have nm: "Some u \<noteq> cd_marker cd" and nu: "npf_conndb_getnext cd (Some c) = Some u"
          using Cons.prems(4) dc nx by (auto simp: list_first_append list_first_hd split: if_splits)
        have r: "gc_scan T now t (Some (hd U)) n (cd, k) = (con', n', cd', k')"
          using Cons.prems(5) Suc True nm nu Cons by simp
        have "gc_result T now (S @ [c]) (take t U) (drop t U) cd k con' cd' k' \<and>
            n' = n + length (filter (\<lambda>c. \<not> kept k now c) (take t U))"
          by (rule Cons.IH [OF Cons.prems(1) _ _ _ r]) (use Cons.prems Cons in \<open>auto simp: list_first_append list_first_def\<close>)
        then show ?thesis using Suc True by (auto simp: gc_result_def)
      qed
    next
      case False
      obtain m where mv: "gc_move T c (cd, k) =
          (cd\<lparr> cd_list := remove1 c (cd_list cd), cd_gclist := c # cd_gclist cd, cd_map := m \<rparr>,
           k\<lparr> conns := (conns k)(c := conn_gone (conns k c)) \<rparr>)"
        "conndb_inv T (cd\<lparr> cd_list := remove1 c (cd_list cd), cd_gclist := c # cd_gclist cd, cd_map := m \<rparr>)
          ((conns k)(c := conn_gone (conns k c)))"
        using gc_move_spec [OF assms(1) Cons.prems(1) cl] by blast
      define cd1 where "cd1 = cd\<lparr> cd_list := remove1 c (cd_list cd), cd_gclist := c # cd_gclist cd, cd_map := m \<rparr>"
      define k1 where "k1 = k\<lparr> conns := (conns k)(c := conn_gone (conns k c)) \<rparr>"
      have i1: "conndb_inv T cd1 (conns k1)" and mv1: "gc_move T c (cd, k) = (cd1, k1)"
        using mv by (simp_all add: cd1_def k1_def)
      have c1: "cd_new cd1 = cd_new cd" "cd_gclist cd1 = c # cd_gclist cd" "cd_marker cd1 = cd_marker cd"
        "cyc (cd_list cd1) (S @ U)"
        using cyc_remove1 [OF d Cons.prems(2)] by (simp_all add: cd1_def)
      have scan: "gc_scan T now (Suc t) (Some c) n (cd, k) =
        (let next = (if list_first (U @ S @ [c]) = Some c then None else list_first (U @ S @ [c])) in
         if cd_marker cd = Some c then gc_scan T now t next (n + 1) (cd1\<lparr> cd_marker := next \<rparr>, k1)
         else if next = cd_marker cd then (next, n + 1, cd1, k1)
         else gc_scan T now t next (n + 1) (cd1, k1))"
        using False by (simp add: nx mv1 c1(3) Let_def)
      have nc: "list_first (U @ S @ [c]) = Some c \<longleftrightarrow> U = [] \<and> S = []"
        using dc by (cases U; cases S) (auto simp: list_first_def)
      have "\<exists>cdx. gc_result T now S (take t U) (drop t U) cdx k1 con' cd' k' \<and> cd_new cdx = cd_new cd \<and>
        cd_gclist cdx = c # cd_gclist cd \<and> n' = n + 1 + length (filter (\<lambda>c. \<not> kept k1 now c) (take t U))"
      proof (cases "U = []")
        case True
        show ?thesis
        proof (cases "S = []")
          case s: True
          then have "(con', n', cd', k') = (None, n + 1, cd1\<lparr> cd_marker := None \<rparr>, k1)"
            using Cons.prems(4,5) Suc scan True by (simp add: list_first_def)
          then show ?thesis
            using i1 c1 True s by (intro exI [of _ "cd1\<lparr> cd_marker := None \<rparr>"]) (simp add: gc_result_def list_first_def k1_def)
        next
          case s: False
          then have "(con', n', cd', k') = (cd_marker cd, n + 1, cd1, k1)"
            using Cons.prems(4,5) Suc scan True nc dc by (auto simp: list_first_append list_first_hd Let_def split: if_splits)
          then show ?thesis
            using i1 c1 True s Cons.prems(4)
            by (intro exI [of _ cd1]) (auto simp: gc_result_def list_first_append list_first_hd k1_def)
        qed
      next
        case False
        have pr: "gc_scan T now (Suc t) (Some c) n (cd, k) = (con', n', cd', k')" using Cons.prems(5) Suc by simp
        have hdU: "list_first (U @ S @ [c]) = Some (hd U)" using False by (simp add: list_first_append)
        show ?thesis
        proof (cases "S = []")
          case s: True
          define cdx where "cdx = cd1\<lparr> cd_marker := Some (hd U) \<rparr>"
          have r: "gc_scan T now t (Some (hd U)) (n + 1) (cdx, k1) = (con', n', cd', k')"
            using pr [unfolded scan hdU] nc Cons.prems(4) False s by (simp add: list_first_append list_first_hd hdU cdx_def Let_def)
          have "gc_result T now S (take t U) (drop t U) cdx k1 con' cd' k' \<and>
              n' = n + 1 + length (filter (\<lambda>c. \<not> kept k1 now c) (take t U))"
            by (rule Cons.IH [OF _ _ False _ r]) (use i1 c1 False s in \<open>simp_all add: cdx_def list_first_hd\<close>)
          then show ?thesis using c1 by (intro exI [of _ cdx]) (simp add: cdx_def)
        next
          case s: False
          have "hd U \<noteq> hd S" using dc False s by (cases U; cases S) auto
          then have r: "gc_scan T now t (Some (hd U)) (n + 1) (cd1, k1) = (con', n', cd', k')"
            using pr [unfolded scan hdU] nc Cons.prems(4) False s dc by (auto simp: list_first_append hdU Let_def split: if_splits)
          have "gc_result T now S (take t U) (drop t U) cd1 k1 con' cd' k' \<and>
              n' = n + 1 + length (filter (\<lambda>c. \<not> kept k1 now c) (take t U))"
            by (rule Cons.IH [OF i1 c1(4) False _ r]) (use c1(3) Cons.prems(4) s in \<open>simp add: list_first_append\<close>)
          then show ?thesis using c1 by blast
        qed
      qed
      then obtain cdx where x: "gc_result T now S (take t U) (drop t U) cdx k1 con' cd' k'" "cd_new cdx = cd_new cd"
        "cd_gclist cdx = c # cd_gclist cd" "n' = n + 1 + length (filter (\<lambda>c. \<not> kept k1 now c) (take t U))" by blast
      have "c \<notin> set (take t U)" using dc by (auto dest: in_set_takeD)
      note gc_result_step [OF x(1) this False k1_def x(2,3)]
      then show ?thesis using Suc x(4) False by simp
    qed
  qed
qed simp

lemma list_first_mem: "list_first xs = Some x \<Longrightarrow> x \<in> set xs"
  by (cases xs) (auto simp: list_first_def)

lemma gc_incr_spec:
  assumes T: "thmap_laws T" and i: "conndb_inv T cd (conns k)" and m: "marker_ok cd"
    and r: "npf_conndb_gc_incr T now (cd, k) = (n, cd', k')"
  shows "\<exists>V W con' cd0 cd1. gc_result T now [] V W cd0 k con' cd1 k' \<and> cyc (cd_list cd) (V @ W) \<and>
    cd0 = cd\<lparr> cd_marker := cd_marker cd0 \<rparr> \<and> cd' = cd1\<lparr> cd_marker := con' \<rparr> \<and>
    length V = min (nat (kn_params k VP_gc_step)) (length (cd_list cd)) \<and> n = length (filter (\<lambda>c. \<not> kept k now c) V)"
proof -
  define cd0 where "cd0 = (if cd_marker cd = None then cd\<lparr> cd_marker := npf_conndb_getnext cd None \<rparr> else cd)"
  have cd0: "cd0 = cd\<lparr> cd_marker := cd_marker cd0 \<rparr>" "cd_list cd0 = cd_list cd" by (simp_all add: cd0_def)
  let ?t = "nat (kn_params k VP_gc_step)"
  obtain con' cd1 k1 n1 where sc: "gc_scan T now ?t (cd_marker cd0) 0 (cd0, k) = (con', n1, cd1, k1)"
    by (metis prod_cases4)
  then have e: "n = n1" "cd' = cd1\<lparr> cd_marker := con' \<rparr>" "k' = k1"
    using r by (auto simp: npf_conndb_gc_incr_def cd0_def split: if_splits)
  show ?thesis
  proof (cases "cd_list cd = []")
    case True
    then have "cd_marker cd0 = None" using m by (auto simp: cd0_def marker_ok_def npf_conndb_getnext_def list_first_def split: option.splits)
    then have "con' = None" "n1 = 0" "cd1 = cd0" "k1 = k" using sc by simp_all
    moreover have "conndb_inv T cd0 (conns k)" using i cd0(1) inv_marker by metis
    ultimately show ?thesis
      using e True cd0
      by (intro exI [of _ "[]"] exI [of _ None] exI [of _ cd0]) (simp add: gc_result_def cyc_def list_first_def)
  next
    case False
    then obtain c where c: "cd_marker cd0 = Some c" "c \<in> set (cd_list cd)"
      using m by (cases "cd_marker cd") (auto simp: cd0_def marker_ok_def npf_conndb_getnext_def list_first_hd)
    then obtain A B where L: "cd_list cd = A @ c # B" by (meson split_list)
    let ?U = "c # B @ A"
    have cy: "cyc (cd_list cd) ?U" unfolding cyc_def L by (intro exI [of _ A] exI [of _ "c # B"]) simp
    have i0: "conndb_inv T cd0 (conns k)" using i cd0(1) inv_marker by metis
    have "gc_result T now [] (take ?t ?U) (drop ?t ?U) cd0 k con' cd1 k1 \<and>
        n1 = 0 + length (filter (\<lambda>c. \<not> kept k now c) (take ?t ?U))"
      by (rule gc_scan_spec [OF T i0]) (use cy c cd0 sc in \<open>simp_all add: list_first_def\<close>)
    then show ?thesis
      using e cy cd0(1) L
      by (intro exI [of _ "take ?t ?U"] exI [of _ "drop ?t ?U"] exI [of _ con'] exI [of _ cd0] exI [of _ cd1]) auto
  qed
qed

lemma gc_destroy_spec:
  assumes "algs_keep E" "gc_destroy E flush cons k = Some (gcl, k')"
  shows "(\<exists>gone. cons = gone @ gcl \<and> (\<forall>c \<in> set gone. c_refcnt (conns k c) = 0)) \<and> conns_keep k k'"
  using assms(2)
proof (induction cons arbitrary: k)
  case (Cons c cons)
  show ?case
  proof (cases "c_refcnt (conns k c) = 0")
    case True
    define k1 where "k1 = npf_conn_destroy E c k"
    have "gc_destroy E flush cons k1 = Some (gcl, k')" using Cons.prems True by (simp add: k1_def)
    from Cons.IH [OF this] obtain gone where g: "cons = gone @ gcl" "\<forall>c \<in> set gone. c_refcnt (conns k1 c) = 0"
      and k: "conns_keep k1 k'" by blast
    have "cons = gone @ gcl \<and> (\<forall>c \<in> set gone. c_refcnt (conns k c) = 0)"
      using g refcnt_destroy [OF assms(1), of c k] by (simp add: k1_def)
    then have "c # cons = (c # gone) @ gcl \<and> (\<forall>x \<in> set (c # gone). c_refcnt (conns k x) = 0)" using True by simp
    moreover have "conns_keep k k'" using conns_keep_trans [OF conns_keep_destroy [OF assms(1)] k [unfolded k1_def]] .
    ultimately show ?thesis by blast
  next
    case False
    then show ?thesis using Cons.prems by (auto split: if_splits)
  qed
qed simp

lemma inv_drop_gc:
  assumes "conndb_inv T cd cs" "cd_gclist cd = done @ gcl"
  shows "conndb_inv T (cd\<lparr> cd_gclist := gcl \<rparr>) cs"
  using assms by (auto simp: conndb_inv_def conndb_conns_def conndb_val_ok_def)

lemma inv_update: "conndb_inv T cd cs \<Longrightarrow> conndb_inv T (npf_conndb_update cd) cs"
  by (auto simp: npf_conndb_update_def conndb_inv_def conndb_conns_def conndb_val_ok_def foldl_conv_fold [symmetric] fold_Cons_rev)

text \<open>The worker always returns.\<close>

lemma gc_destroy_returns: "\<exists>r. gc_destroy E False cons k = Some r"
  by (induction cons arbitrary: k) auto

text \<open>A run of the worker.\<close>

lemma update_fields:
  "cd_new (npf_conndb_update cd) = []" "conndb_conns (npf_conndb_update cd) = conndb_conns cd"
  "cd_gclist (npf_conndb_update cd) = cd_gclist cd" "cd_map (npf_conndb_update cd) = cd_map cd"
  "length (cd_list (npf_conndb_update cd)) = length (cd_new cd) + length (cd_list cd)"
  "set (cd_list (npf_conndb_update cd)) = conndb_conns cd" "marker_ok cd \<Longrightarrow> marker_ok (npf_conndb_update cd)"
  by (auto simp: npf_conndb_update_def conndb_conns_def marker_ok_def fold_Cons_rev)

lemma worker_spec:
  assumes T: "thmap_laws (env_map E)" and a: "algs_keep E" and i: "conndb_inv (env_map E) (conn_db k) (conns k)"
    and m: "marker_ok (conn_db k)"
  shows "\<exists>V W cs k' gone. npf_conn_worker E now k = Some k' \<and> conndb_inv (env_map E) (conn_db k') (conns k') \<and>
    marker_ok (conn_db k') \<and> set (V @ W) = conndb_conns (conn_db k) \<and>
    length V = min (nat (kn_params k VP_gc_step)) (length (cd_new (conn_db k)) + length (cd_list (conn_db k))) \<and>
    length (V @ W) = length (cd_new (conn_db k)) + length (cd_list (conn_db k)) \<and>
    cd_new (conn_db k') = [] \<and> set (cd_list (conn_db k')) = set (filter (kept k now) V) \<union> set W \<and>
    set gone \<union> set (cd_gclist (conn_db k')) = set (filter (\<lambda>c. \<not> kept k now c) V) \<union> set (cd_gclist (conn_db k)) \<and>
    (\<forall>c \<in> set gone. c_refcnt (conns k c) = 0) \<and> (\<forall>c. conn_same (cs c) (conns k' c)) \<and>
    (\<forall>c. cs c = (if c \<in> set V \<and> \<not> kept k now c then conn_gone (conns k c) else conns k c))"
proof -
  let ?T = "env_map E" and ?cd = "npf_conndb_update (conn_db k)"
  obtain n cd' k1 where inc: "npf_conndb_gc_incr ?T now (?cd, k) = (n, cd', k1)" by (metis prod_cases3)
  obtain V W con' cd0 cd1 where g: "gc_result ?T now [] V W cd0 k con' cd1 k1" "cyc (cd_list ?cd) (V @ W)"
    "cd0 = ?cd\<lparr> cd_marker := cd_marker cd0 \<rparr>" "cd' = cd1\<lparr> cd_marker := con' \<rparr>"
    "length V = min (nat (kn_params k VP_gc_step)) (length (cd_list ?cd))"
    using gc_incr_spec [OF T inv_update [OF i] update_fields(7) [OF m] inc] by blast
  define k2 where "k2 = k1\<lparr> worker_wait_time := gc_freq_tune (kn_params k1) (worker_wait_time k1) n \<rparr>"
  obtain gcl k3 where d: "gc_destroy E False (cd_gclist cd') k2 = Some (gcl, k3)"
    using gc_destroy_returns [of E "cd_gclist cd'" k2] by auto
  obtain gone where go: "cd_gclist cd' = gone @ gcl" "\<forall>c \<in> set gone. c_refcnt (conns k2 c) = 0" and kk: "conns_keep k2 k3"
    using gc_destroy_spec [OF a d] by blast
  define k' where "k' = k3\<lparr> conn_db := cd'\<lparr> cd_gclist := gcl \<rparr> \<rparr>"
  have w: "npf_conn_worker E now k = Some k'"
    using inc d by (simp add: npf_conn_worker_def npf_conndb_gc_def k2_def k'_def)
  note R = g(1) [unfolded gc_result_def]
  have same: "\<forall>c. conn_same (conns k1 c) (conns k' c)" using kk by (simp add: conns_keep_def k2_def k'_def)
  have fields: "cd_new (conn_db k') = cd_new cd1" "cd_list (conn_db k') = cd_list cd1" "cd_gclist (conn_db k') = gcl"
    "cd_marker (conn_db k') = con'" "cd_gclist cd' = cd_gclist cd1" by (simp_all add: k'_def g(4))
  have "conndb_inv ?T (cd'\<lparr> cd_gclist := gcl \<rparr>) (conns k1)"
    by (rule inv_drop_gc [OF _ go(1)]) (use R in \<open>simp add: g(4)\<close>)
  then have "conndb_inv ?T (conn_db k') (conns k1)" by (simp add: k'_def)
  then have inv: "conndb_inv ?T (conn_db k') (conns k')" by (rule conndb_inv_cong) (use same in blast)
  have cd0: "cd_new cd0 = []" "cd_gclist cd0 = cd_gclist (conn_db k)" 
    using arg_cong [OF g(3), of cd_new] arg_cong [OF g(3), of cd_gclist] by (simp_all add: update_fields)
  have lst: "set (cd_list cd1) = set (filter (kept k now) V) \<union> set W" using R cyc_set by fastforce
  have "marker_ok (conn_db k')"
    using R lst unfolding marker_ok_def fields by (auto dest!: list_first_mem)
  moreover have "set (V @ W) = conndb_conns (conn_db k)" using cyc_set [OF g(2)] update_fields(6) by blast
  moreover have "length (V @ W) = length (cd_list ?cd)" by (rule cyc_length [OF g(2)])
  moreover have "c_refcnt (conn_gone c) = c_refcnt c" for c by (simp add: conn_gone_def)
  then have "c_refcnt (conns k1 c) = c_refcnt (conns k c)" for c using R by simp
  then have "\<forall>c \<in> set gone. c_refcnt (conns k c) = 0" using go(2) by (simp add: k2_def)
  moreover have "set gone \<union> set gcl = set (cd_gclist cd1)" using go(1) fields by auto
  ultimately show ?thesis
    using w inv R lst same g(5) cd0 unfolding update_fields(5) fields
    by - (rule exI [of _ V], rule exI [of _ W], rule exI [of _ "conns k1"], rule exI [of _ k'], rule exI [of _ gone],
        simp add: fields)
qed

end
