(* ===== verification/NPF_Connprop.thy ===== *)
theory NPF_Connprop
  imports NPF_Conntrack
begin

text \<open>
  The properties of connection tracking: what a lookup finds in every reachable state, that a
  connection is found by the packets of both directions, also after translation, and what the
  garbage collector destroys.
\<close>

section \<open>Reachable states\<close>

definition conn_listed :: "'m npf_conndb \<Rightarrow> nat set" where
  "conn_listed cd = set (cd_new cd @ cd_list cd @ cd_gclist cd)"

definition conn_inv :: "('m, 'p, 'x, 'nv) kern_env \<Rightarrow> ('m, 'p, 'x) npf_kern \<Rightarrow> bool" where
  "conn_inv E k \<longleftrightarrow> conndb_inv (env_map E) (conn_db k) (conns k) \<and> marker_ok (conn_db k)"

definition conn_start :: "('m, 'p, 'x, 'nv) kern_env \<Rightarrow> ('m, 'p, 'x) npf_kern \<Rightarrow> bool" where
  "conn_start E k \<longleftrightarrow> conn_db k = npf_conndb_create (env_map E)"

inductive conn_step :: "('m, 'p, 'x, 'nv) kern_env \<Rightarrow> ('m, 'p, 'x) npf_kern \<Rightarrow> ('m, 'p, 'x) npf_kern \<Rightarrow> bool" for E where
  step_establish: "conn_fresh (conn_db k) (conns k) con (npc_alen npc) \<Longrightarrow>
    npf_conn_establish E now (Some con) npc di perif k = (r, npc', k') \<Longrightarrow> packet_fits npc' \<Longrightarrow>
    npc_alen npc' = npc_alen npc \<Longrightarrow> conn_step E k k'"
| step_inspect: "npf_conn_inspect E now npc di k = (r, err, npc', k') \<Longrightarrow> conn_step E k k'"
| step_release: "conn_step E k (npf_conn_release con k)"
| step_expire: "conn_step E k (npf_conn_expire con k)"
| step_setpass: "conn_step E k (npf_conn_setpass con mi rp k)"
| step_setnat: "con \<in> conn_listed (conn_db k) \<Longrightarrow> npf_conn_setnat E con nt ntype k = (r, k') \<Longrightarrow> conn_step E k k'"
| step_worker: "npf_conn_worker E now k = Some k' \<Longrightarrow> conn_step E k k'"

lemma conn_inv_keep: "conn_inv E k \<Longrightarrow> conns_keep k k' \<Longrightarrow> conn_inv E k'"
  using conns_keep_inv [of "env_map E" k k'] by (simp add: conn_inv_def conns_keep_def)

lemma insert_keys_lists:
  "cd_marker (snd (conn_insert_keys T cd fw bk con)) = cd_marker cd"
  "cd_list (snd (conn_insert_keys T cd fw bk con)) = cd_list cd"
  by (simp_all add: conn_insert_keys_def npf_conndb_insert_def npf_conndb_remove_def split_beta Let_def split: bool.split)

lemma establish_marker:
  assumes "npf_conn_establish E now (Some con) npc di perif k = (r, npc', k')"
  shows "cd_marker (conn_db k') = cd_marker (conn_db k) \<and> cd_list (conn_db k') = cd_list (conn_db k)"
  using assms refl
proof (cases rule: establish_cases)
  case (tried flen fw blen bk ok cd c')
  then have "cd_marker cd = cd_marker (conn_db k)" "cd_list cd = cd_list (conn_db k)"
    using insert_keys_lists [of "env_map E" "conn_db k"] tried(5) by (metis snd_conv)+
  then show ?thesis using tried(7) by (simp add: npf_conndb_enqueue_def)
qed simp

lemma setnat_gc:
  assumes i: "conndb_inv (env_map E) (conn_db k) (conns k)" and c: "con \<in> set (cd_gclist (conn_db k))"
    and s: "npf_conn_setnat E con nt ntype k = (r, k')"
  shows "conns_keep k k'"
proof -
  have "conn_expiring (conns k con)"
    using conndb_invD(4) [OF i c] conndb_invD(3) [OF i, of con] c by simp
  then show ?thesis using s by (auto simp: npf_conn_setnat_def conn_expiring_def split: prod.splits)
qed

lemma setnat_lists:
  assumes "npf_conn_setnat E con nt ntype k = (r, k')"
  shows "cd_marker (conn_db k') = cd_marker (conn_db k) \<and> cd_list (conn_db k') = cd_list (conn_db k)"
  using assms
  by (auto simp: npf_conn_setnat_def npf_conndb_insert_def npf_conndb_remove_def Let_def upd_defs split: prod.splits if_splits)

lemma conn_step_inv:
  assumes T: "thmap_laws (env_map E)" and a: "algs_keep E" and s: "conn_step E k k'" and i: "conn_inv E k"
  shows "conn_inv E k'"
  using s
proof cases
  case (step_establish con npc now di perif r npc')
  show ?thesis
    using establish_inv [OF T _ step_establish] establish_marker [OF step_establish(2)] i
    by (simp add: conn_inv_def marker_ok_def)
next
  case (step_inspect now npc di r err npc')
  then show ?thesis using conn_inv_keep [OF i] conns_keep_inspect [OF a, of k now npc di] by simp
next
  case (step_setnat con nt ntype r)
  have ci: "conndb_inv (env_map E) (conn_db k) (conns k)" using i by (simp add: conn_inv_def)
  show ?thesis
  proof (cases "con \<in> set (cd_gclist (conn_db k))")
    case True
    show ?thesis by (rule conn_inv_keep [OF i setnat_gc [OF ci True step_setnat(2)]])
  next
    case False
    then have "con \<in> conndb_conns (conn_db k)" using step_setnat(1) by (auto simp: conn_listed_def conndb_conns_def)
    then show ?thesis
      using setnat_inv [OF T ci _ step_setnat(2)] setnat_lists [OF step_setnat(2)] i by (simp add: conn_inv_def marker_ok_def)
  qed
next
  case (step_worker now)
  then show ?thesis using worker_spec [OF T a, of k now] i unfolding conn_inv_def by auto
qed (auto intro: conn_inv_keep [OF i] conns_keep_release conns_keep_expire conns_keep_setpass)

lemma conn_reach_inv:
  assumes "(conn_step E)\<^sup>*\<^sup>* k0 k" "conn_start E k0" "thmap_laws (env_map E)" "algs_keep E"
  shows "conn_inv E k"
  using assms(1)
proof (induction rule: rtranclp_induct)
  case base
  show ?case
    using assms(2,3)
    by (simp add: conn_start_def conn_inv_def conndb_inv_def marker_ok_def npf_conndb_create_def conndb_conns_def thmap_get_create)
qed (use conn_step_inv assms(3,4) in blast)

section \<open>Lookups\<close>

lemma lookup_key:
  assumes "packet_fits npc"
  obtains len key where "npf_conn_conkey npc (replicate 40 0) di flow = (len, key)" "len \<noteq> 0" "ck_bytes key = conkey npc di flow"
proof -
  obtain len key where r: "npf_conn_conkey npc (replicate 40 0) di flow = (len, key)" by fastforce
  have "8 + 2 * npc_alen npc \<le> length (replicate 40 (0 :: u8))" using assms by (auto simp: packet_fits_def packet_ok_def)
  note k = packet_key [OF assms this r]
  show thesis using that [OF r] k(1) k(5) [of "drop len key"] by simp
qed

text \<open>What a lookup does, in terms of the map.\<close>

lemma lookup_eq:
  assumes "packet_fits npc"
  shows "npf_conn_lookup E now npc di k =
    (case thmap_get (env_map E) (cd_map (conn_db k)) (conkey npc di NPF_FLOW_FORW) of
       None \<Rightarrow> (None, k)
     | Some val \<Rightarrow>
         let con = CONNDB_GET_PTR val; flow = (if odd val then NPF_FLOW_FORW else NPF_FLOW_BACK);
             k = conn_upd con (\<lambda>c. c\<lparr> c_refcnt := c_refcnt c + 1 \<rparr>) k in
         if npf_conn_check (conns k con) (Some (nb_ifid (npc_nbuf npc))) di flow
         then (Some (con, flow), conn_upd con (conn_update_atime now) k)
         else (None, conn_upd con (\<lambda>c. c\<lparr> c_refcnt := c_refcnt c - 1 \<rparr>) k))"
proof -
  obtain len key where "npf_conn_conkey npc (replicate 40 0) di NPF_FLOW_FORW = (len, key)" "len \<noteq> 0"
    "ck_bytes key = conkey npc di NPF_FLOW_FORW" using lookup_key [OF assms] .
  then show ?thesis
    by (simp add: npf_conn_lookup_def npf_conndb_lookup_def CONNDB_ISFORW_P_def Let_def odd_iff_mod_2_eq_one split: option.split)
qed

lemma conn_check_cong:
  "c_flags c = c_flags c' \<Longrightarrow> c_ifid c = c_ifid c' \<Longrightarrow> npf_conn_check c nb di flow = npf_conn_check c' nb di flow"
  by (simp add: npf_conn_check_def split: option.split)

lemma lookup_found:
  assumes p: "packet_fits npc" and e: "even con"
    and g: "thmap_get (env_map E) (cd_map (conn_db k)) (conkey npc di NPF_FLOW_FORW) = Some (con + of_bool (flow = NPF_FLOW_FORW))"
    and c: "npf_conn_check (conns k con) (Some (nb_ifid (npc_nbuf npc))) di flow"
  shows "fst (npf_conn_lookup E now npc di k) = Some (con, flow)"
proof -
  have "npf_conn_check ((conns k con)\<lparr> c_refcnt := x \<rparr>) (Some (nb_ifid (npc_nbuf npc))) di flow" for x
    using c conn_check_cong [of "(conns k con)\<lparr> c_refcnt := x \<rparr>" "conns k con"] by simp
  then show ?thesis
    using val_even [OF e, of "flow = NPF_FLOW_FORW"]
    by (cases flow) (simp_all add: lookup_eq [OF p] g Let_def conn_upd_def)
qed

text \<open>Packets of the same stream, and of the reverse stream.\<close>

definition packet_alike :: "npf_cache \<Rightarrow> npf_cache \<Rightarrow> bool" where
  "packet_alike q npc \<longleftrightarrow> packet_fits q \<and> npc_ctx q = npc_ctx npc \<and> nb_ifid (npc_nbuf q) = nb_ifid (npc_nbuf npc) \<and>
     npc_alen q = npc_alen npc \<and> npc_proto q = npc_proto npc"

definition packet_same :: "npf_cache \<Rightarrow> npf_cache \<Rightarrow> bool" where
  "packet_same q npc \<longleftrightarrow> packet_alike q npc \<and> packet_addrs q = packet_addrs npc \<and> packet_ids q = packet_ids npc"

definition packet_reply :: "npf_cache \<Rightarrow> npf_cache \<Rightarrow> bool" where
  "packet_reply q npc \<longleftrightarrow> packet_alike q npc \<and> packet_addrs q = rev (packet_addrs npc) \<and>
     packet_ids q = map_option rev (packet_ids npc)"

lemma packet_ids_two: "packet_ids npc = Some ids \<Longrightarrow> \<exists>s d. ids = [s, d]"
  by (auto simp: packet_ids_def Let_def split: if_splits)

lemma conkey_alike:
  assumes q: "packet_alike q npc" and p: "packet_fits npc"
    and "by_flow flow (packet_addrs q) = by_flow flow' (packet_addrs npc)"
    "by_flow flow (the (packet_ids q)) = by_flow flow' (the (packet_ids npc))"
  shows "conkey q di flow = conkey npc di flow'"
proof -
  obtain src dst sid did where b: "by_flow flow' (packet_addrs npc) = (src, dst)" "by_flow flow' (the (packet_ids npc)) = (sid, did)"
    by fastforce
  have ok: "packet_ok q" "packet_ok npc" using q p by (simp_all add: packet_alike_def packet_fits_def)
  show ?thesis
    using q conkey_eq [OF ok(1) assms(3,4) [unfolded b]] conkey_eq [OF ok(2) b]
    by (simp add: packet_alike_def packet_ifid_def packet_di_def)
qed

lemma conkey_same:
  "packet_same q npc \<Longrightarrow> packet_fits npc \<Longrightarrow> conkey q di flow = conkey npc di flow"
  by (rule conkey_alike) (simp_all add: packet_same_def)

lemma conkey_reply:
  assumes "packet_reply q npc" "packet_fits npc"
  shows "conkey q di NPF_FLOW_FORW = conkey npc di NPF_FLOW_BACK"
proof -
  obtain ids where "packet_ids npc = Some ids" using assms(2) by (auto simp: packet_fits_def packet_ok_def)
  then obtain s d where "packet_ids npc = Some [s, d]" using packet_ids_two by blast
  then show ?thesis
    using assms by (intro conkey_alike) (simp_all add: packet_reply_def by_flow_def packet_addrs_def)
qed

text \<open>A connection established by a packet accepts packets of both streams once it is released.\<close>

lemma check_after_establish:
  assumes "di = PFIL_IN \<or> di = PFIL_OUT" "conn_active (c_flags c)" "c_flags c AND 3 = of_nat di"
    "c_ifid c = 0 \<or> c_ifid c = ifid"
  shows "npf_conn_check c (Some ifid) di NPF_FLOW_FORW" "npf_conn_check c (Some ifid) (di XOR PFIL_ALL) NPF_FLOW_BACK"
  using assms by (auto simp: npf_conn_check_def)

lemma release_established:
  assumes "di = PFIL_IN \<or> di = PFIL_OUT" "c_flags (conns k con) = of_nat (di mod 4)"
  shows "conn_active (c_flags (conns (npf_conn_release con k) con))"
    "c_flags (conns (npf_conn_release con k) con) AND 3 = of_nat di"
    "c_ifid (conns (npf_conn_release con k) con) = c_ifid (conns k con)"
    "conn_db (npf_conn_release con k) = conn_db k"
  using assms by (auto simp: npf_conn_release_def conn_upd_def conn_active_def)

text \<open>The reply to a translated packet.\<close>

definition packet_nat_reply :: "npf_cache \<Rightarrow> npf_cache \<Rightarrow> nat \<Rightarrow> npf_addr \<Rightarrow> u16 \<Rightarrow> bool" where
  "packet_nat_reply q npc ntype taddr tport \<longleftrightarrow> packet_alike q npc \<and>
     (\<exists>s d. packet_ids npc = Some [s, d] \<and>
       (if ntype = NPF_NATOUT then
          packet_addrs q = [npc_addr npc NPF_DST, take (npc_alen npc) taddr] \<and>
          packet_ids q = Some [d, if tport \<noteq> 0 then tport else s]
        else
          packet_addrs q = [take (npc_alen npc) taddr, npc_addr npc NPF_SRC] \<and>
          packet_ids q = Some [if tport \<noteq> 0 then tport else d, s]))"

lemma adjkey_take:
  assumes "NPF_CONNKEY_ALEN key = alen" shows "npf_conn_adjkey key na nid which = npf_conn_adjkey key (take alen na) nid which"
  using assms by (simp add: npf_conn_adjkey_def Let_def)

lemma adjkey_conkey:
  assumes p: "packet_fits npc" and q: "packet_nat_reply q npc ntype taddr tport" and l: "npc_alen npc \<le> length taddr"
  shows "npf_conn_adjkey (conkey npc di NPF_FLOW_BACK) taddr tport (nat_type_which ntype) = conkey q di NPF_FLOW_FORW"
proof -
  let ?a = "npc_alen npc" and ?ta = "take (npc_alen npc) taddr"
  obtain s d where ids: "packet_ids npc = Some [s, d]" using q by (auto simp: packet_nat_reply_def)
  have ok: "packet_ok npc" "packet_ok q" and al: "?a = 4 \<or> ?a = 16" "npc_proto npc < 256"
    and la: "length (npc_addr npc 0) = ?a" "length (npc_addr npc 1) = ?a"
    using p q by (auto simp: packet_fits_def packet_ok_def packet_nat_reply_def packet_alike_def)
  define c where "c = key_ckey (packet_ifid npc) (packet_di npc di)"
  have f: "take_bit 18 (packet_ifid npc) = packet_ifid npc"
    using p by (simp add: packet_fits_def packet_ifid_def word_less_nat_alt word_unat_eq_iff unsigned_take_bit_eq
        take_bit_nat_eq_self)
  have c20: "take_bit 20 c = c" unfolding c_def by (rule key_ckey_fields(3) [OF f packet_di_less])
  have key: "conkey npc di NPF_FLOW_BACK = le32 (key_hdr ?a (npc_proto npc) c) @ le32 (key_ids d s) @ npc_addr npc 1 @ npc_addr npc 0"
    using conkey_eq [OF ok(1), of NPF_FLOW_BACK] ids by (simp add: by_flow_def packet_addrs_def c_def)
  have ki: "key_is (conkey npc di NPF_FLOW_BACK) (key_hdr ?a (npc_proto npc) c) (key_ids d s) (npc_addr npc 1) (npc_addr npc 0)"
    unfolding key_is_def key by auto
  have a: "NPF_CONNKEY_ALEN (conkey npc di NPF_FLOW_BACK) = ?a" by (rule alen_of_hdr(1) [OF al c20 key_is_words(1) [OF ki]])
  have lk: "length (conkey npc di NPF_FLOW_BACK) = 8 + 2 * ?a" using la by (simp add: key)
  let ?bk = "npf_conn_adjkey (conkey npc di NPF_FLOW_BACK) taddr tport (nat_type_which ntype)"
  have lb: "length ?bk = 8 + 2 * ?a" using adjkey_wf(1) [OF a lk al(1)] lk by (simp add: nat_type_which_def)
  have lt: "length ?ta = ?a" using l by simp
  note adj = adjkey_is [OF ki al c20 la(2) la(1) lt, of tport]
  have qk: "npc_alen q = ?a" "npc_proto q = npc_proto npc" "key_ckey (packet_ifid q) (packet_di q di) = c"
    using q by (simp_all add: packet_nat_reply_def packet_alike_def packet_ifid_def packet_di_def c_def)
  show ?thesis
  proof (cases "ntype = NPF_NATOUT")
    case True
    then have "key_is ?bk (key_hdr ?a (npc_proto npc) c) (key_ids d (if tport \<noteq> 0 then tport else s)) (npc_addr npc 1) ?ta"
      using adj(2) adjkey_take [OF a] by (simp add: nat_type_which_def)
    moreover have "conkey q di NPF_FLOW_FORW = le32 (key_hdr ?a (npc_proto npc) c) @
        le32 (key_ids d (if tport \<noteq> 0 then tport else s)) @ npc_addr npc 1 @ ?ta"
      using conkey_eq [OF ok(2), of NPF_FLOW_FORW] q ids True qk by (simp add: by_flow_def packet_nat_reply_def)
    ultimately show ?thesis using lb la lt by (auto simp: key_is_def)
  next
    case False
    then have "key_is ?bk (key_hdr ?a (npc_proto npc) c) (key_ids (if tport \<noteq> 0 then tport else d) s) ?ta (npc_addr npc 0)"
      using adj(1) adjkey_take [OF a] by (simp add: nat_type_which_def)
    moreover have "conkey q di NPF_FLOW_FORW = le32 (key_hdr ?a (npc_proto npc) c) @
        le32 (key_ids (if tport \<noteq> 0 then tport else d) s) @ ?ta @ npc_addr npc 0"
      using conkey_eq [OF ok(2), of NPF_FLOW_FORW] q ids False qk by (simp add: by_flow_def packet_nat_reply_def)
    ultimately show ?thesis using lb la lt by (auto simp: key_is_def)
  qed
qed

section \<open>Properties\<close>

lemma xor_dirs: "PFIL_OUT XOR PFIL_ALL = PFIL_IN" "PFIL_IN XOR PFIL_ALL = PFIL_OUT"
  by simp_all

lemma establish_npc:
  "fst (snd (npf_conn_establish E now (Some con) npc di perif k)) =
     (if npf_conn_trackable_p npc k then fst (snd (npf_state_init npc)) else npc)"
  by (simp add: npf_conn_establish_def Let_def split_beta)

lemma establish_nats:
  "npf_conn_establish E now (Some con) npc di perif k = (Some c, npc', k') \<Longrightarrow> nats k' = nats k"
  by (auto simp: npf_conn_establish_def Let_def upd_defs split: prod.splits if_splits)

text \<open>The packets that a connection established by a packet is found by, \<open>found_by_both\<close>.\<close>

definition found_by_both ::
  "('m, 'p, 'x, 'nv) kern_env \<Rightarrow> ('m, 'p, 'x) npf_kern \<Rightarrow> nat \<Rightarrow> nat \<Rightarrow> npf_cache \<Rightarrow> npf_cache \<Rightarrow> bool" where
  "found_by_both E k con di q q' \<longleftrightarrow>
     (\<forall>t. fst (npf_conn_lookup E t q di k) = Some (con, NPF_FLOW_FORW) \<and>
          fst (npf_conn_lookup E t q' (di XOR PFIL_ALL) k) = Some (con, NPF_FLOW_BACK))"

lemma establish_found:
  assumes T: "thmap_laws (env_map E)" and i: "conndb_inv (env_map E) (conn_db k) (conns k)"
    and fr: "conn_fresh (conn_db k) (conns k) con (npc_alen npc)"
    and st: "npf_conn_trackable_p npc k" "npf_state_init npc = (True, npc', nst)"
    and p: "packet_fits npc'" "npc_alen npc' = npc_alen npc" and di: "di = PFIL_IN \<or> di = PFIL_OUT"
  obtains r k' where "npf_conn_establish E now (Some con) npc di perif k = (r, npc', k')"
    "r = Some con \<longleftrightarrow> thmap_get (env_map E) (cd_map (conn_db k)) (conkey npc' di NPF_FLOW_FORW) = None \<and>
       thmap_get (env_map E) (cd_map (conn_db k)) (conkey npc' (di XOR PFIL_ALL) NPF_FLOW_BACK) = None \<and>
       conkey npc' di NPF_FLOW_FORW \<noteq> conkey npc' (di XOR PFIL_ALL) NPF_FLOW_BACK"
    "\<And>q q'. r = Some con \<Longrightarrow> packet_same q npc' \<Longrightarrow> packet_reply q' npc' \<Longrightarrow>
       found_by_both E (npf_conn_release con k') con di q q'"
    "conn_db k' = (conn_db k)\<lparr> cd_map := cd_map (conn_db k'), cd_new := con # cd_new (conn_db k) \<rparr>"
proof -
  obtain r n k' where e: "npf_conn_establish E now (Some con) npc di perif k = (r, n, k')" by (metis prod_cases3)
  have n: "n = npc'" using establish_npc [of E now con npc di perif k] st e by simp
  have ev: "even con" using fr by (simp add: conn_fresh_def)
  let ?k = "npf_conn_release con k'"
  from T i fr e [unfolded n] p show thesis
  proof (cases rule: establish_spec)
    case (tried ok m c')
    show thesis
    proof (rule that [OF e [unfolded n]])
      fix q q' assume r: "r = Some con" and q: "packet_same q npc'" "packet_reply q' npc'"
      then have ok: "ok" using tried(1) by (simp split: if_splits)
      have fl: "c_flags (conns k' con) = of_nat (di mod 4)" and ifid: "c_ifid (conns ?k con) = 0 \<or> c_ifid (conns ?k con) = nb_ifid (npc_nbuf npc')"
        and g: "thmap_get (env_map E) (cd_map (conn_db ?k)) (conkey npc' di NPF_FLOW_FORW) = Some (con + 1)"
          "thmap_get (env_map E) (cd_map (conn_db ?k)) (conkey npc' (di XOR PFIL_ALL) NPF_FLOW_BACK) = Some con"
        using tried ok by (simp_all add: npf_conn_release_def conn_upd_def)
      note rel = release_established [OF di fl]
      note ck = check_after_establish [OF di rel(1,2) ifid]
      have "packet_fits q" "packet_fits q'" "nb_ifid (npc_nbuf q) = nb_ifid (npc_nbuf npc')" "nb_ifid (npc_nbuf q') = nb_ifid (npc_nbuf npc')"
        using q by (simp_all add: packet_same_def packet_reply_def packet_alike_def)
      then show "found_by_both E ?k con di q q'"
        using lookup_found [of q con E ?k di NPF_FLOW_FORW] lookup_found [of q' con E ?k "di XOR PFIL_ALL" NPF_FLOW_BACK]
          ev g ck conkey_same [OF q(1) p(1)] conkey_reply [OF q(2) p(1)] by (simp add: found_by_both_def)
    qed (use tried in \<open>auto split: if_splits\<close>)
  qed (use st in simp)
qed

text \<open>
  A UDP packet from 10.0.0.1:12345 to 192.168.1.2:80, its reply and the reply to the packet
  translated to 10.1.1.1:1024, with memory for a connection.
\<close>

definition ex_stream :: "u8 list \<Rightarrow> npf_cache" where
  "ex_stream addrs = (ex_cached ([0x45, 0, 0, 40, 0, 1, 0, 0, 64, 17, 0, 0] @ addrs @ replicate 16 0) 3)\<lparr>
     npc_info := NPC_IP4 OR NPC_LAYER4 OR NPC_UDP, npc_proto := IPPROTO_UDP \<rparr>"

definition ex_flow :: npf_cache where
  "ex_flow = ex_stream [10, 0, 0, 1, 192, 168, 1, 2, 0x30, 0x39, 0, 80]"

definition ex_flow_reply :: npf_cache where
  "ex_flow_reply = ex_stream [192, 168, 1, 2, 10, 0, 0, 1, 0, 80, 0x30, 0x39]"

definition ex_flow_nat_reply :: npf_cache where
  "ex_flow_nat_reply = ex_stream [192, 168, 1, 2, 10, 1, 1, 1, 0, 80, 4, 0]"

definition ex_ckern :: "(u8 list \<Rightarrow> nat option, u8 list \<Rightarrow> nat option, unit) npf_kern" where
  "ex_ckern = ex_kern\<lparr> conns := \<lambda>_. ex_conn\<lparr> c_keys := replicate 32 0 \<rparr>,
     nats := \<lambda>_. (nats ex_kern 0)\<lparr> nt_alen := 4, nt_taddr := [10, 1, 1, 1], nt_tport := 4 \<rparr> \<rparr>"

lemmas ex_flow_defs = ex_flow_def ex_flow_reply_def ex_flow_nat_reply_def ex_stream_def ex_cached_def ex_npc_def
  nbuf_init_def nbuf_reset_def

lemma thmap_create_fun: "thmap_create fun_thmap = Map.empty" "thmap_get fun_thmap = (\<lambda>m. m)"
  by (simp_all add: fun_thmap_def)

lemma ex_flow_ok:
  "packet_fits ex_flow" "packet_same ex_flow ex_flow" "packet_reply ex_flow_reply ex_flow"
  "packet_nat_reply ex_flow_nat_reply ex_flow NPF_NATOUT [10, 1, 1, 1] 4"
  by (simp_all add: ex_flow_defs packet_same_def packet_reply_def packet_nat_reply_def packet_alike_def packet_addrs_def
      packet_fits_def packet_ok_def packet_ids_def npc_addr_def rd16_def)

lemma ex_flow_start:
  "thmap_laws (env_map ex_env)" "algs_keep ex_env" "conn_start ex_env ex_ckern"
  "conn_fresh (conn_db ex_ckern) (conns ex_ckern) 2 (npc_alen ex_flow)" "npf_conn_trackable_p ex_flow ex_ckern"
  "npf_state_init ex_flow = (True, ex_flow, npf_state_zero\<lparr> nst_state := npf_generic_fsm 0 NPF_FLOW_FORW \<rparr>)"
  "cd_map (conn_db ex_ckern) = Map.empty"
  using fun_thmap_laws
  by (simp_all add: ex_env_def ex_ckern_def ex_kern_def algs_keep_def conn_start_def npf_conndb_create_def
      conn_fresh_def thmap_create_fun npf_conn_trackable_p_def npf_iscached_def npf_state_init_def npf_state_zero_def ex_flow_defs)

lemma ex_flow_keys:
  "conkey ex_flow PFIL_OUT NPF_FLOW_FORW \<noteq> conkey ex_flow PFIL_IN NPF_FLOW_BACK"
  "conkey ex_flow_nat_reply PFIL_IN NPF_FLOW_FORW \<noteq> conkey ex_flow PFIL_OUT NPF_FLOW_FORW"
proof -
  have ok: "packet_ok ex_flow" "packet_ok ex_flow_nat_reply"
    using ex_flow_ok(1,4) by (simp_all add: packet_fits_def packet_nat_reply_def packet_alike_def)
  have "by_flow NPF_FLOW_FORW (packet_addrs ex_flow) = ([10, 0, 0, 1], [192, 168, 1, 2])"
    "by_flow NPF_FLOW_BACK (packet_addrs ex_flow) = ([192, 168, 1, 2], [10, 0, 0, 1])"
    "by_flow NPF_FLOW_FORW (packet_addrs ex_flow_nat_reply) = ([192, 168, 1, 2], [10, 1, 1, 1])"
    by (simp_all add: by_flow_def packet_addrs_def npc_addr_def ex_flow_defs)
  note k = conkey_eq [OF ok(1) this(1) prod.collapse [symmetric]] conkey_eq [OF ok(1) this(2) prod.collapse [symmetric]]
    conkey_eq [OF ok(2) this(3) prod.collapse [symmetric]]
  show "conkey ex_flow PFIL_OUT NPF_FLOW_FORW \<noteq> conkey ex_flow PFIL_IN NPF_FLOW_BACK"
    "conkey ex_flow_nat_reply PFIL_IN NPF_FLOW_FORW \<noteq> conkey ex_flow PFIL_OUT NPF_FLOW_FORW"
    unfolding k by simp_all
qed

text \<open>
  C6: a connection is found by both streams.  In every reachable state a trackable packet whose
  protocol state can be set up establishes a connection exactly when its forwards and its
  backwards key are distinct and not in use.  Once the reference is released, later packets of
  the stream find the connection as forwards, and replies, seen in the opposite direction, find
  it as backwards.
\<close>

theorem npf_conn_establish_lookup:
  assumes "(conn_step E)\<^sup>*\<^sup>* k0 k" "conn_start E k0" "thmap_laws (env_map E)" "algs_keep E"
    and "conn_fresh (conn_db k) (conns k) con (npc_alen npc)"
    and "npf_conn_trackable_p npc k" "npf_state_init npc = (True, npc', nst)"
    and "packet_fits npc'" "npc_alen npc' = npc_alen npc" "di = PFIL_IN \<or> di = PFIL_OUT"
  shows "\<exists>r k'. npf_conn_establish E now (Some con) npc di perif k = (r, npc', k') \<and>
    (r = Some con \<longleftrightarrow> thmap_get (env_map E) (cd_map (conn_db k)) (conkey npc' di NPF_FLOW_FORW) = None \<and>
       thmap_get (env_map E) (cd_map (conn_db k)) (conkey npc' (di XOR PFIL_ALL) NPF_FLOW_BACK) = None \<and>
       conkey npc' di NPF_FLOW_FORW \<noteq> conkey npc' (di XOR PFIL_ALL) NPF_FLOW_BACK) \<and>
    (\<forall>q q'. r = Some con \<longrightarrow> packet_same q npc' \<longrightarrow> packet_reply q' npc' \<longrightarrow>
       found_by_both E (npf_conn_release con k') con di q q')"
proof -
  have i: "conndb_inv (env_map E) (conn_db k) (conns k)" using conn_reach_inv [OF assms(1-4)] by (simp add: conn_inv_def)
  show ?thesis by (rule establish_found [OF assms(3) i assms(5-10), of now perif]) blast
qed

theorem npf_conn_establish_lookup_witness:
  "\<exists>k'. npf_conn_establish ex_env 100 (Some 2) ex_flow PFIL_OUT True ex_ckern = (Some 2, ex_flow, k') \<and>
     found_by_both ex_env (npf_conn_release 2 k') 2 PFIL_OUT ex_flow ex_flow_reply"
  using npf_conn_establish_lookup [OF rtranclp.rtrancl_refl ex_flow_start(3,1,2,4,5,6) ex_flow_ok(1), of PFIL_OUT 100 True]
    ex_flow_ok(2,3) ex_flow_keys(1) by (auto simp: ex_flow_start(7) ex_env_def fun_thmap_def)

text \<open>
  C5: a lookup returns live connections only.  In every reachable state a connection that a
  packet is matched with is in the database and not given up for destruction, it is active, one
  of its two keys is the key of the packet, and the flow tells which.  The caller gets a
  reference.
\<close>

theorem npf_conn_lookup_sound:
  assumes "(conn_step E)\<^sup>*\<^sup>* k0 k" "conn_start E k0" "thmap_laws (env_map E)" "algs_keep E" "packet_fits npc"
    and r: "npf_conn_lookup E now npc di k = (Some (con, flow), k')"
  shows "con \<in> conndb_conns (conn_db k) \<and> con \<notin> set (cd_gclist (conn_db k)) \<and> conn_active (c_flags (conns k con)) \<and>
    conn_key (conns k con) (flow = NPF_FLOW_FORW) = conkey npc di NPF_FLOW_FORW \<and>
    c_refcnt (conns k' con) = c_refcnt (conns k con) + 1"
proof -
  note i = conn_reach_inv [OF assms(1-4), unfolded conn_inv_def, THEN conjunct1]
  obtain val where v: "thmap_get (env_map E) (cd_map (conn_db k)) (conkey npc di NPF_FLOW_FORW) = Some val"
    using r by (auto simp: lookup_eq [OF assms(5)] split: option.splits)
  then have c: "con = CONNDB_GET_PTR val" "flow = (if odd val then NPF_FLOW_FORW else NPF_FLOW_BACK)"
    "conn_active (c_flags (conns k con))" "c_refcnt (conns k' con) = c_refcnt (conns k con) + 1"
    using r by (auto simp: lookup_eq [OF assms(5)] Let_def conn_upd_def npf_conn_check_def conn_update_atime_def split: if_splits)
  have "conndb_val_ok (conn_db k) (conns k) (conkey npc di NPF_FLOW_FORW) val" by (rule conndb_invD(6) [OF i v])
  then show ?thesis using c conndb_invD(1) [OF i] by (auto simp: conndb_val_ok_def conndb_conns_def)
qed

text \<open>The state after the packet has established the connection.\<close>

definition ex_flow_kern :: "(u8 list \<Rightarrow> nat option, u8 list \<Rightarrow> nat option, unit) npf_kern" where
  "ex_flow_kern = npf_conn_release 2 (snd (snd (npf_conn_establish ex_env 100 (Some 2) ex_flow PFIL_OUT True ex_ckern)))"

lemma ex_flow_established:
  obtains k' where "npf_conn_establish ex_env 100 (Some 2) ex_flow PFIL_OUT True ex_ckern = (Some 2, ex_flow, k')"
    "(conn_step ex_env)\<^sup>*\<^sup>* ex_ckern k'" "cd_new (conn_db k') = [2]" "cd_list (conn_db k') = []"
    "found_by_both ex_env ex_flow_kern 2 PFIL_OUT ex_flow ex_flow_reply" "ex_flow_kern = npf_conn_release 2 k'"
proof -
  have i: "conndb_inv (env_map ex_env) (conn_db ex_ckern) (conns ex_ckern)"
    using conn_reach_inv [OF rtranclp.rtrancl_refl ex_flow_start(3,1,2)] by (simp add: conn_inv_def)
  show thesis
  proof (rule establish_found [OF ex_flow_start(1) i ex_flow_start(4-6) ex_flow_ok(1), of PFIL_OUT 100 True])
    fix r k'
    assume e: "npf_conn_establish ex_env 100 (Some 2) ex_flow PFIL_OUT True ex_ckern = (r, ex_flow, k')"
      and r: "r = Some 2 \<longleftrightarrow> thmap_get (env_map ex_env) (cd_map (conn_db ex_ckern)) (conkey ex_flow PFIL_OUT NPF_FLOW_FORW) = None \<and>
        thmap_get (env_map ex_env) (cd_map (conn_db ex_ckern)) (conkey ex_flow (PFIL_OUT XOR PFIL_ALL) NPF_FLOW_BACK) = None \<and>
        conkey ex_flow PFIL_OUT NPF_FLOW_FORW \<noteq> conkey ex_flow (PFIL_OUT XOR PFIL_ALL) NPF_FLOW_BACK"
      and f: "\<And>q q'. r = Some 2 \<Longrightarrow> packet_same q ex_flow \<Longrightarrow> packet_reply q' ex_flow \<Longrightarrow>
        found_by_both ex_env (npf_conn_release 2 k') 2 PFIL_OUT q q'"
      and db: "conn_db k' = (conn_db ex_ckern)\<lparr> cd_map := cd_map (conn_db k'), cd_new := 2 # cd_new (conn_db ex_ckern) \<rparr>"
    have r2: "r = Some 2" using r ex_flow_keys(1) by (simp add: ex_flow_start(7)) (simp add: ex_env_def fun_thmap_def)
    have "conn_db ex_ckern = npf_conndb_create (env_map ex_env)" using ex_flow_start(3) by (simp add: conn_start_def)
    then have "cd_new (conn_db ex_ckern) = []" "cd_list (conn_db ex_ckern) = []" by (simp_all add: npf_conndb_create_def)
    then have l: "cd_new (conn_db k') = [2]" "cd_list (conn_db k') = []"
      using arg_cong [OF db, of cd_new] arg_cong [OF db, of cd_list] by simp_all
    have s: "conn_step ex_env ex_ckern k'" by (rule step_establish [OF ex_flow_start(4) e ex_flow_ok(1) refl])
    have kk: "ex_flow_kern = npf_conn_release 2 k'" by (simp only: ex_flow_kern_def e snd_conv)
    show thesis
      by (rule that [OF e [unfolded r2] r_into_rtranclp [of "conn_step ex_env", OF s] l _ kk], unfold kk, rule f [OF r2 ex_flow_ok(2,3)])
  qed simp_all
qed

theorem npf_conn_lookup_sound_witness:
  "2 \<in> conndb_conns (conn_db ex_flow_kern) \<and>
   conn_key (conns ex_flow_kern 2) False = conkey ex_flow_reply PFIL_IN NPF_FLOW_FORW"
proof (rule ex_flow_established)
  fix k' assume a: "(conn_step ex_env)\<^sup>*\<^sup>* ex_ckern k'" "found_by_both ex_env ex_flow_kern 2 PFIL_OUT ex_flow ex_flow_reply"
    "ex_flow_kern = npf_conn_release 2 k'"
  have s: "(conn_step ex_env)\<^sup>*\<^sup>* ex_ckern ex_flow_kern"
    unfolding a(3) by (rule rtranclp.rtrancl_into_rtrancl [OF a(1) step_release])
  obtain k2 where l: "npf_conn_lookup ex_env 100 ex_flow_reply PFIL_IN ex_flow_kern = (Some (2, NPF_FLOW_BACK), k2)"
    using a(2) by (metis (no_types, lifting) found_by_both_def prod.collapse xor_dirs)
  show ?thesis
    using npf_conn_lookup_sound [OF s ex_flow_start(3,1,2) _ l] ex_flow_ok(3) by (simp add: packet_reply_def packet_alike_def)
qed

text \<open>The backwards key after translation is the key of a reply to the translated packet.\<close>

lemma established_backkey:
  assumes c: "keys_wf c" "back_key c = conkey npc di NPF_FLOW_BACK" "c_alen c = npc_alen npc"
    and p: "packet_fits npc" "packet_nat_reply q npc ntype taddr tport" "npc_alen npc \<le> length taddr"
    and b: "b = npf_conn_adjkey (npf_conn_getbackkey c (c_alen c)) taddr tport (nat_type_which ntype)"
  shows "ck_bytes b = conkey q di NPF_FLOW_FORW"
proof -
  have wf: "length (npf_conn_getbackkey c (c_alen c)) = 8 + 2 * c_alen c"
    "NPF_CONNKEY_ALEN (npf_conn_getbackkey c (c_alen c)) = c_alen c"
    using c(1) by (auto simp: keys_wf_def npf_conn_getbackkey_def)
  have "npf_conn_getbackkey c (c_alen c) = conkey npc di NPF_FLOW_BACK"
    using c(2) wf by (simp add: back_key_def ck_bytes_def NPF_CONNKEY_LEN_def)
  then have "b = conkey q di NPF_FLOW_FORW" using adjkey_conkey [OF p, of di] b by simp
  moreover have "ck_bytes b = b"
    using adjkey_wf [of "npf_conn_getbackkey c (c_alen c)" "c_alen c" "nat_type_which ntype" taddr tport] wf c(1) b
    by (simp add: ck_bytes_def NPF_CONNKEY_LEN_def nat_type_which_def keys_wf_def)
  ultimately show ?thesis by simp
qed

lemma setnat_found:
  assumes T: "thmap_laws (env_map E)" and i: "conndb_inv (env_map E) (conn_db k) (conns k)"
    and fr: "conn_fresh (conn_db k) (conns k) con (npc_alen npc)"
    and e: "npf_conn_establish E now (Some con) npc di perif k = (Some con, npc', k1)"
    and p: "packet_fits npc'" "npc_alen npc' = npc_alen npc" and di: "di = PFIL_IN \<or> di = PFIL_OUT"
    and s: "npf_nat_gettrans k1 nt = (taddr, tport)" "npc_alen npc' \<le> length taddr"
    and q: "packet_nat_reply q' npc' ntype taddr tport"
  obtains r k2 where "npf_conn_setnat E con nt ntype k1 = (r, k2)"
    "r = None \<longleftrightarrow> ((thmap_get (env_map E) (cd_map (conn_db k1)))(conkey npc' (di XOR PFIL_ALL) NPF_FLOW_BACK := None))
       (conkey q' (di XOR PFIL_ALL) NPF_FLOW_FORW) = None"
    "\<And>q. r = None \<Longrightarrow> packet_same q npc' \<Longrightarrow> found_by_both E (npf_conn_release con k2) con di q q'"
proof -
  note i1 = establish_inv [OF T i fr e p]
  obtain r k2 where r: "npf_conn_setnat E con nt ntype k1 = (r, k2)" by fastforce
  have ev: "even con" using fr by (simp add: conn_fresh_def)
  let ?k = "npf_conn_release con k2" and ?g = "thmap_get (env_map E) (cd_map (conn_db k1))"
  from T i fr e p show thesis
  proof (cases rule: establish_spec)
    case (tried ok m c')
    then have ok: "ok" by (simp split: if_splits)
    have con: "con \<in> conndb_conns (conn_db k1)" using tried(3) by (simp add: conndb_conns_def)
    have c': "conns k1 con = c'" using tried(2) by simp
    have al: "c_alen c' = npc_alen npc'" using tried(7) p(2) by simp
    note nat = established_backkey [OF tried(6,5) al p(1) q s(2)]
    from T i1 con r s(1) show thesis
    proof (cases rule: setnat_cases)
      case (success m2 c2 b)
      have b2: "back_key c2 = conkey q' (di XOR PFIL_ALL) NPF_FLOW_FORW" using success(4,9) nat by (simp add: c')
      have fl: "c_flags (conns k2 con) = of_nat (di mod 4)"
        and ifid: "c_ifid (conns ?k con) = 0 \<or> c_ifid (conns ?k con) = nb_ifid (npc_nbuf npc')"
        using success tried ok by (simp_all add: npf_conn_release_def conn_upd_def c')
      have ok1: "conndb_conn_ok ?g con c'" using conndb_invD(5) [OF i1 con] success(5) by (simp add: c')
      have "forw_key c' \<noteq> back_key c'" "forw_key c' \<noteq> back_key c2"
        using ok1 success(13) by (auto simp: conndb_conn_ok_def c')
      then have g: "thmap_get (env_map E) (cd_map (conn_db ?k)) (conkey npc' di NPF_FLOW_FORW) = Some (con + 1)"
        "thmap_get (env_map E) (cd_map (conn_db ?k)) (conkey q' (di XOR PFIL_ALL) NPF_FLOW_FORW) = Some con"
        using success(3,14) ok1 tried(4) b2 by (simp_all add: npf_conn_release_def conn_upd_def c' conndb_conn_ok_def)
      note rel = release_established [OF di fl]
      note ck = check_after_establish [OF di rel(1,2) ifid]
      have fits: "packet_fits q'" "nb_ifid (npc_nbuf q') = nb_ifid (npc_nbuf npc')" "\<And>q. packet_same q npc' \<Longrightarrow> packet_fits q"
        "\<And>q. packet_same q npc' \<Longrightarrow> nb_ifid (npc_nbuf q) = nb_ifid (npc_nbuf npc')"
        using q by (simp_all add: packet_same_def packet_nat_reply_def packet_alike_def)
      show thesis
      proof (rule that [OF r])
        fix q assume "packet_same q npc'"
        then show "found_by_both E ?k con di q q'"
          using lookup_found [of q con E ?k di NPF_FLOW_FORW] lookup_found [of q' con E ?k "di XOR PFIL_ALL" NPF_FLOW_BACK]
            ev g ck fits conkey_same [OF _ p(1), of q] by (simp add: found_by_both_def)
      qed (use success(1,13) b2 tried(5) in \<open>auto simp: c'\<close>)
    next
      case early
      then show thesis using tried ok by (simp add: conn_expiring_def c' di_flags)
    next
      case (race m2 c2)
      then show thesis using nat [OF refl] tried(5) by (intro that [OF r]) (auto simp: c' split: if_splits)
    qed
  qed simp
qed

text \<open>
  C7: translation and connection tracking agree.  When the entry of a translation is associated
  with a connection just established, this succeeds exactly when the key of the reply to the
  translated packet (sent to the translation address and port for outbound translation, coming
  from them for inbound translation) is not in use by another connection.  Then packets of the
  stream still find the connection as forwards and the reply finds it as backwards.
\<close>

theorem npf_conn_setnat_lookup:
  assumes "(conn_step E)\<^sup>*\<^sup>* k0 k" "conn_start E k0" "thmap_laws (env_map E)" "algs_keep E"
    and "conn_fresh (conn_db k) (conns k) con (npc_alen npc)"
    and "npf_conn_establish E now (Some con) npc di perif k = (Some con, npc', k1)"
    and "packet_fits npc'" "npc_alen npc' = npc_alen npc" "di = PFIL_IN \<or> di = PFIL_OUT"
    and "npf_nat_gettrans k1 nt = (taddr, tport)" "npc_alen npc' \<le> length taddr"
    and "packet_nat_reply q' npc' ntype taddr tport"
  shows "\<exists>r k2. npf_conn_setnat E con nt ntype k1 = (r, k2) \<and>
    (r = None \<longleftrightarrow> ((thmap_get (env_map E) (cd_map (conn_db k1)))(conkey npc' (di XOR PFIL_ALL) NPF_FLOW_BACK := None))
       (conkey q' (di XOR PFIL_ALL) NPF_FLOW_FORW) = None) \<and>
    (\<forall>q. r = None \<longrightarrow> packet_same q npc' \<longrightarrow> found_by_both E (npf_conn_release con k2) con di q q')"
proof -
  have i: "conndb_inv (env_map E) (conn_db k) (conns k)" using conn_reach_inv [OF assms(1-4)] by (simp add: conn_inv_def)
  show ?thesis by (rule setnat_found [OF assms(3) i assms(5-12)]) (intro exI conjI allI impI)
qed

theorem npf_conn_setnat_lookup_witness:
  "\<exists>k1 k2. npf_conn_establish ex_env 100 (Some 2) ex_flow PFIL_OUT True ex_ckern = (Some 2, ex_flow, k1) \<and>
     npf_conn_setnat ex_env 2 0 NPF_NATOUT k1 = (None, k2) \<and>
     found_by_both ex_env (npf_conn_release 2 k2) 2 PFIL_OUT ex_flow ex_flow_nat_reply"
proof (rule ex_flow_established)
  fix k1 assume e: "npf_conn_establish ex_env 100 (Some 2) ex_flow PFIL_OUT True ex_ckern = (Some 2, ex_flow, k1)"
  have t: "npf_nat_gettrans k1 0 = ([10, 1, 1, 1], 4)" "npc_alen ex_flow \<le> length [10::u8, 1, 1, 1]"
    using establish_nats [OF e] by (simp_all add: npf_nat_gettrans_def ex_ckern_def ex_flow_defs)
  have i: "conndb_inv (env_map ex_env) (conn_db ex_ckern) (conns ex_ckern)"
    using conn_reach_inv [OF rtranclp.rtrancl_refl ex_flow_start(3,1,2)] by (simp add: conn_inv_def)
  have free: "((thmap_get (env_map ex_env) (cd_map (conn_db k1)))(conkey ex_flow PFIL_IN NPF_FLOW_BACK := None))
      (conkey ex_flow_nat_reply PFIL_IN NPF_FLOW_FORW) = None"
    using ex_flow_start(1) i ex_flow_start(4) e ex_flow_ok(1) refl
  proof (cases rule: establish_spec)
    case (tried ok m c')
    then have "ok" "thmap_get (env_map ex_env) Map.empty = Map.empty" by (simp_all add: ex_env_def fun_thmap_def split: if_splits)
    then show ?thesis using tried ex_flow_keys(2) ex_flow_start(7) by (auto simp: xor_dirs)
  qed simp
  show ?thesis
    using npf_conn_setnat_lookup [OF rtranclp.rtrancl_refl ex_flow_start(3,1,2,4) e ex_flow_ok(1) refl _ t ex_flow_ok(4)]
      ex_flow_ok(2) e free by (auto simp: xor_dirs)
qed



end
