(* ===== verification/NPF_Rule.thy ===== *)
theory NPF_Rule
  imports NPF_Bpfcop NPF_Conn
begin

text \<open>
  Rules and rulesets (\<open>src/kern/npf_ruleset.c\<close>).  Rules are objects of the memory \<open>rules\<close>; the
  dynamic rules of a group are linked through \<open>r_next\<close>, and a group is shared between an old and
  a new ruleset during a reload, so these pointers are explicit and the loops that follow them
  may not end.  The three lists of a ruleset, linked through other entries, are lists of
  pointers.
\<close>

section \<open>Rules\<close>

abbreviation NPF_RULE_PASS :: u32 where "NPF_RULE_PASS \<equiv> 0x01"
abbreviation NPF_RULE_GROUP :: u32 where "NPF_RULE_GROUP \<equiv> 0x02"
abbreviation NPF_RULE_FINAL :: u32 where "NPF_RULE_FINAL \<equiv> 0x04"
abbreviation NPF_RULE_STATEFUL :: u32 where "NPF_RULE_STATEFUL \<equiv> 0x08"
abbreviation NPF_RULE_RETRST :: u32 where "NPF_RULE_RETRST \<equiv> 0x10"
abbreviation NPF_RULE_RETICMP :: u32 where "NPF_RULE_RETICMP \<equiv> 0x20"
abbreviation NPF_RULE_DYNAMIC :: u32 where "NPF_RULE_DYNAMIC \<equiv> 0x40"
abbreviation NPF_RULE_GSTATEFUL :: u32 where "NPF_RULE_GSTATEFUL \<equiv> 0x80"
abbreviation NPF_DYNAMIC_GROUP :: u32 where "NPF_DYNAMIC_GROUP \<equiv> 0x42"
abbreviation NPF_RULE_IN :: u32 where "NPF_RULE_IN \<equiv> 0x10000000"
abbreviation NPF_RULE_OUT :: u32 where "NPF_RULE_OUT \<equiv> 0x20000000"
abbreviation NPF_RULE_DIMASK :: u32 where "NPF_RULE_DIMASK \<equiv> 0x30000000"
abbreviation NPF_RULE_PRIVMASK :: u32 where "NPF_RULE_PRIVMASK \<equiv> 0x0f000000"
abbreviation NPF_RULE_KEEPNAT :: u32 where "NPF_RULE_KEEPNAT \<equiv> 0x01000000"
abbreviation NPF_RULE_MAXNAMELEN :: nat where "NPF_RULE_MAXNAMELEN \<equiv> 64"
abbreviation NPF_RULE_MAXKEYLEN :: nat where "NPF_RULE_MAXKEYLEN \<equiv> 32"
abbreviation NPF_PRI_FIRST :: int where "NPF_PRI_FIRST \<equiv> - 2"
abbreviation SKIPTO_ADJ_FLAG :: u32 where "SKIPTO_ADJ_FLAG \<equiv> 0x80000000"
abbreviation SKIPTO_MASK :: u32 where "SKIPTO_MASK \<equiv> 0x7fffffff"

type_synonym 'a bpf_jcode = "'a bpf_args \<Rightarrow> u32 \<times> 'a bpf_args"

text \<open>
  The members of the union, \<open>r_subset\<close> of dynamic groups and \<open>r_priority\<close>, \<open>r_parent\<close> and
  \<open>r_next\<close> of dynamic rules, are separate fields; \<open>rule_prio\<close> is what reading \<open>r_priority\<close>
  gives for a rule of any kind.
\<close>

record 'a npf_rule =
  r_attr :: u32
  r_ifid :: u32
  r_skip_to :: u32
  r_type :: u32
  r_jcode :: "'a bpf_jcode option"
  r_code :: "u8 list option"
  r_natp :: "nat option"
  r_rproc :: "nat option"
  r_subset :: "nat option"
  r_priority :: int
  r_parent :: "nat option"
  r_next :: "nat option"
  r_id :: u64
  r_name :: string
  r_key :: "u8 list"
  r_info :: "u8 list option"

record 'a rule_mem =
  rules :: "nat \<Rightarrow> 'a npf_rule"
  rules_freed :: "nat list"

record npf_ruleset =
  rs_all :: "nat list"
  rs_dynamic :: "nat list"
  rs_gc :: "nat list"
  rs_idcnt :: u64
  rs_slots :: nat
  rs_rules :: "nat list"

definition NPF_DYNAMIC_GROUP_P :: "u32 \<Rightarrow> bool" where
  "NPF_DYNAMIC_GROUP_P attr \<longleftrightarrow> attr AND NPF_DYNAMIC_GROUP = NPF_DYNAMIC_GROUP"

definition NPF_DYNAMIC_RULE_P :: "u32 \<Rightarrow> bool" where
  "NPF_DYNAMIC_RULE_P attr \<longleftrightarrow> attr AND NPF_DYNAMIC_GROUP = NPF_RULE_DYNAMIC"

definition rule_prio :: "'a npf_rule \<Rightarrow> int" where
  "rule_prio rl =
    (if NPF_DYNAMIC_GROUP_P (r_attr rl) then c_int (case r_subset rl of None \<Rightarrow> 0 | Some p \<Rightarrow> int p) else r_priority rl)"

definition rule_upd :: "nat \<Rightarrow> ('a npf_rule \<Rightarrow> 'a npf_rule) \<Rightarrow> 'a rule_mem \<Rightarrow> 'a rule_mem" where
  "rule_upd p f h = h\<lparr> rules := (rules h)(p := f (rules h p)) \<rparr>"

section \<open>Policies of rules\<close>

text \<open>The call that wakes up the worker has no effect on the state.\<close>

definition npf_natpolicy_destroy :: "nat \<Rightarrow> ('m, 'p, 'x) npf_kern \<Rightarrow> ('m, 'p, 'x) npf_kern" where
  "npf_natpolicy_destroy np k =
     npf_natpolicy_release np
       (if n_refcnt (natps k np) > 1
        then fold (\<lambda>nt k. npf_conn_expire (nt_conn (nats k nt)) k) (n_nat_list (natps k np)) k
        else k)"

section \<open>Rule objects\<close>

definition rule_zero :: "'a npf_rule" where
  "rule_zero = \<lparr> r_attr = 0, r_ifid = 0, r_skip_to = 0, r_type = 0, r_jcode = None, r_code = None, r_natp = None,
     r_rproc = None, r_subset = None, r_priority = 0, r_parent = None, r_next = None, r_id = 0, r_name = [],
     r_key = replicate NPF_RULE_MAXKEYLEN 0, r_info = None \<rparr>"

text \<open>\<open>rl\<close> is the object that the allocator returns.\<close>

definition npf_rule_alloc ::
  "('s, 'i) npf_ifops \<Rightarrow> 'nv nv_ops \<Rightarrow> nat \<Rightarrow> 'nv \<Rightarrow> 's npf_ifmap \<Rightarrow> 'a rule_mem \<Rightarrow> nat option \<times> 's npf_ifmap \<times> 'a rule_mem" where
  "npf_rule_alloc ops N rl nv npf h =
    (let attr = ucast (dnvlist_get_number N nv ''attr'' 0) AND NOT NPF_RULE_PRIVMASK;
         r = rule_zero\<lparr>
           r_info := dnvlist_get_binary N nv ''info'',
           r_name := (case dnvlist_get_string N nv ''name'' of None \<Rightarrow> [] | Some s \<Rightarrow> take (NPF_RULE_MAXNAMELEN - 1) s),
           r_attr := attr \<rparr>;
         r = (if NPF_DYNAMIC_RULE_P attr then r\<lparr> r_priority := c_int (uint (dnvlist_get_number N nv ''prio'' 0)) \<rparr>
              else r\<lparr> r_skip_to := ucast (dnvlist_get_number N nv ''skip-to'' 0) \<rparr>);
         (nid, npf) = (case dnvlist_get_string N nv ''ifname'' of
                         None \<Rightarrow> (Some 0, npf)
                       | Some ifname \<Rightarrow>
                           let (nid, npf) = npf_ifmap_register ops npf ifname in
                           (if nid = 0 then None else Some nid, npf)) in
     case nid of
       None \<Rightarrow> (None, npf, h\<lparr> rules_freed := rl # rules_freed h \<rparr>)
     | Some nid \<Rightarrow>
         (case dnvlist_get_binary N nv ''key'' of
            None \<Rightarrow> (Some rl, npf, rule_upd rl (\<lambda>_. r\<lparr> r_ifid := nid \<rparr>) h)
          | Some key \<Rightarrow>
              if length key > NPF_RULE_MAXKEYLEN then (None, npf, h\<lparr> rules_freed := rl # rules_freed h \<rparr>)
              else (Some rl, npf, rule_upd rl (\<lambda>_. r\<lparr> r_ifid := nid, r_key := memcpy_at (r_key r) 0 key \<rparr>) h)))"

definition npf_rule_getrproc :: "'a npf_rule \<Rightarrow> ('m, 'p, 'x) npf_kern \<Rightarrow> nat option \<times> ('m, 'p, 'x) npf_kern" where
  "npf_rule_getrproc rl k =
    (case r_rproc rl of None \<Rightarrow> (None, k) | Some rp \<Rightarrow> (Some rp, npf_rproc_acquire rp k))"

definition npf_rule_export ::
  "('m, 'p, 'x, 'nv) kern_env \<Rightarrow> 'nv nv_ops \<Rightarrow> 's npf_ifmap \<Rightarrow> 'a npf_rule \<Rightarrow> ('m, 'p, 'x) npf_kern
   \<Rightarrow> 'nv \<times> ('m, 'p, 'x) npf_kern" where
  "npf_rule_export E N npf rl k =
    (let skip_to = (if r_skip_to rl AND SKIPTO_ADJ_FLAG = 0 then r_skip_to rl AND SKIPTO_MASK else 0);
         nv = nvlist_add_number N (nvlist_create N) ''attr'' (ucast (r_attr rl));
         nv = nvlist_add_number N nv ''prio'' (word_of_int (rule_prio rl));
         nv = nvlist_add_number N nv ''skip-to'' (ucast skip_to);
         nv = nvlist_add_number N nv ''code-type'' (ucast (r_type rl));
         nv = (case r_code rl of None \<Rightarrow> nv | Some code \<Rightarrow> nvlist_add_binary N nv ''code'' code);
         nv = (if r_ifid rl \<noteq> 0 then nvlist_add_string N nv ''ifname'' (npf_ifmap_copyname npf (r_ifid rl) IFNAMSIZ) else nv);
         nv = nvlist_add_number N nv ''id'' (r_id rl);
         nv = (if r_name rl \<noteq> [] then nvlist_add_string N nv ''name'' (r_name rl) else nv);
         nv = (if NPF_DYNAMIC_RULE_P (r_attr rl) then nvlist_add_binary N nv ''key'' (r_key rl) else nv);
         nv = (case r_info rl of None \<Rightarrow> nv | Some info \<Rightarrow> nvlist_add_binary N nv ''info'' info) in
     case npf_rule_getrproc rl k of
       (None, k) \<Rightarrow> (nv, k)
     | (Some rp, k) \<Rightarrow> (nvlist_add_string N nv ''rproc'' (npf_rproc_getname k rp), npf_rproc_release E rp k))"

text \<open>The compiler \<open>jit\<close> (\<open>bpf_jit_generate\<close>) may give no code.\<close>

definition npf_rule_setcode :: "(u8 list \<Rightarrow> 'a bpf_jcode option) \<Rightarrow> nat \<Rightarrow> u32 \<Rightarrow> u8 list \<Rightarrow> 'a rule_mem \<Rightarrow> 'a rule_mem" where
  "npf_rule_setcode jit rl type code h =
     rule_upd rl (\<lambda>r. r\<lparr> r_type := type, r_code := Some code, r_jcode := jit code \<rparr>) h"

definition npf_rule_setrproc :: "nat \<Rightarrow> nat \<Rightarrow> 'a rule_mem \<Rightarrow> ('m, 'p, 'x) npf_kern \<Rightarrow> 'a rule_mem \<times> ('m, 'p, 'x) npf_kern" where
  "npf_rule_setrproc rl rp h k = (rule_upd rl (\<lambda>r. r\<lparr> r_rproc := Some rp \<rparr>) h, npf_rproc_acquire rp k)"

definition npf_rule_free ::
  "('m, 'p, 'x, 'nv) kern_env \<Rightarrow> nat \<Rightarrow> 'a rule_mem \<Rightarrow> ('m, 'p, 'x) npf_kern \<Rightarrow> 'a rule_mem \<times> ('m, 'p, 'x) npf_kern" where
  "npf_rule_free E rl h k =
    (let r = rules h rl;
         k = (case r_natp r of
                None \<Rightarrow> k
              | Some np \<Rightarrow> if r_attr r AND NPF_RULE_KEEPNAT = 0 then npf_natpolicy_destroy np k else k);
         k = (case r_rproc r of None \<Rightarrow> k | Some rp \<Rightarrow> npf_rproc_release E rp k) in
     (h\<lparr> rules_freed := rl # rules_freed h \<rparr>, k))"

definition npf_rule_getid :: "'a npf_rule \<Rightarrow> u64" where
  "npf_rule_getid rl = r_id rl"

definition npf_rule_getnat :: "'a npf_rule \<Rightarrow> nat option" where
  "npf_rule_getnat rl = r_natp rl"

definition npf_rule_setnat :: "nat \<Rightarrow> nat \<Rightarrow> 'a rule_mem \<Rightarrow> 'a rule_mem" where
  "npf_rule_setnat rl np h = rule_upd rl (\<lambda>r. r\<lparr> r_natp := Some np \<rparr>) h"

section \<open>Rulesets\<close>

definition npf_ruleset_create :: "nat \<Rightarrow> npf_ruleset" where
  "npf_ruleset_create slots =
     \<lparr> rs_all = [], rs_dynamic = [], rs_gc = [], rs_idcnt = 0, rs_slots = slots, rs_rules = [] \<rparr>"

definition npf_ruleset_insert :: "npf_ruleset \<Rightarrow> nat \<Rightarrow> 'a rule_mem \<Rightarrow> npf_ruleset \<times> 'a rule_mem" where
  "npf_ruleset_insert rs rl h =
    (let n = length (rs_rules rs);
         rs = rs\<lparr> rs_all := rl # rs_all rs \<rparr>;
         (rs, h) = (if NPF_DYNAMIC_GROUP_P (r_attr (rules h rl)) then (rs\<lparr> rs_dynamic := rl # rs_dynamic rs \<rparr>, h)
                    else (rs, rule_upd rl (\<lambda>r. r\<lparr> r_attr := r_attr r AND NOT NPF_RULE_DYNAMIC \<rparr>) h));
         rs = rs\<lparr> rs_rules := rs_rules rs @ [rl], rs_idcnt := rs_idcnt rs + 1 \<rparr>;
         n = of_nat (n + 1) in
     (rs, rule_upd rl (\<lambda>r. r\<lparr> r_id := rs_idcnt rs,
            r_skip_to := (if r_skip_to r < n then SKIPTO_ADJ_FLAG OR n else r_skip_to r) \<rparr>) h))"

definition npf_ruleset_lookup :: "npf_ruleset \<Rightarrow> string \<Rightarrow> 'a rule_mem \<Rightarrow> nat option" where
  "npf_ruleset_lookup rs name h =
     find (\<lambda>rl. take NPF_RULE_MAXNAMELEN (r_name (rules h rl)) = take NPF_RULE_MAXNAMELEN name) (rs_dynamic rs)"

subsection \<open>Dynamic rules\<close>

partial_function (option) add_find ::
  "(nat \<Rightarrow> 'a npf_rule) \<Rightarrow> int \<Rightarrow> nat option \<Rightarrow> nat option \<Rightarrow> nat option option" where
  [code]: "add_find h prio it target =
    (case it of
       None \<Rightarrow> Some target
     | Some p \<Rightarrow> if r_priority (h p) \<le> prio then add_find h prio (r_next (h p)) (Some p) else Some target)"

definition add_first :: "nat \<Rightarrow> nat \<Rightarrow> 'a rule_mem \<Rightarrow> 'a rule_mem" where
  "add_first rg rl h =
     rule_upd rg (\<lambda>r. r\<lparr> r_subset := Some rl \<rparr>) (rule_upd rl (\<lambda>r. r\<lparr> r_next := r_subset (rules h rg) \<rparr>) h)"

definition npf_ruleset_add ::
  "npf_ruleset \<Rightarrow> string \<Rightarrow> nat \<Rightarrow> 'a rule_mem \<Rightarrow> (errno option \<times> npf_ruleset \<times> 'a rule_mem) option" where
  "npf_ruleset_add rs rname rl h =
    (if \<not> NPF_DYNAMIC_RULE_P (r_attr (rules h rl)) then Some (Some EINVAL, rs, h)
     else
       case npf_ruleset_lookup rs rname h of
         None \<Rightarrow> Some (Some ESRCH, rs, h)
       | Some rg \<Rightarrow>
           let rs = rs\<lparr> rs_idcnt := rs_idcnt rs + 1 \<rparr>;
               priocmd = r_priority (rules h rl);
               h = rule_upd rl (\<lambda>r. r\<lparr> r_id := rs_idcnt rs, r_parent := Some rg, r_priority := max 0 priocmd \<rparr>) h;
               rs = rs\<lparr> rs_all := rl # rs_all rs \<rparr> in
           if priocmd = NPF_PRI_FIRST then Some (None, rs, add_first rg rl h)
           else
             case add_find (rules h) (r_priority (rules h rl)) (r_subset (rules h rg)) None of
               None \<Rightarrow> None
             | Some None \<Rightarrow> Some (None, rs, add_first rg rl h)
             | Some (Some target) \<Rightarrow>
                 Some (None, rs, rule_upd target (\<lambda>r. r\<lparr> r_next := Some rl \<rparr>)
                   (rule_upd rl (\<lambda>r. r\<lparr> r_next := r_next (rules h target) \<rparr>) h)))"

definition npf_ruleset_unlink ::
  "npf_ruleset \<Rightarrow> nat \<Rightarrow> nat option \<Rightarrow> 'a rule_mem \<Rightarrow> npf_ruleset \<times> 'a rule_mem" where
  "npf_ruleset_unlink rs rl prev h =
    (rs\<lparr> rs_all := remove1 rl (rs_all rs) \<rparr>,
     case prev of
       Some p \<Rightarrow> rule_upd p (\<lambda>r. r\<lparr> r_next := r_next (rules h rl) \<rparr>) h
     | None \<Rightarrow> rule_upd (the (r_parent (rules h rl))) (\<lambda>r. r\<lparr> r_subset := r_next (rules h rl) \<rparr>) h)"

partial_function (option) remove_find ::
  "(nat \<Rightarrow> 'a npf_rule) \<Rightarrow> u64 \<Rightarrow> nat option \<Rightarrow> nat option \<Rightarrow> (nat option \<times> nat) option option" where
  [code]: "remove_find h rid rl prev =
    (case rl of
       None \<Rightarrow> Some None
     | Some p \<Rightarrow> if r_id (h p) = rid then Some (Some (prev, p)) else remove_find h rid (r_next (h p)) (Some p))"

partial_function (option) remkey_find ::
  "(nat \<Rightarrow> 'a npf_rule) \<Rightarrow> u8 list \<Rightarrow> nat option \<Rightarrow> nat option \<Rightarrow> (nat option \<times> nat) option \<Rightarrow> (nat option \<times> nat) option option" where
  [code]: "remkey_find h key rl prev found =
    (case rl of
       None \<Rightarrow> Some found
     | Some p \<Rightarrow> remkey_find h key (r_next (h p)) (Some p)
         (if take (length key) (r_key (h p)) = key then Some (prev, p) else found))"

definition remove_found ::
  "npf_ruleset \<Rightarrow> (nat option \<times> nat) option \<Rightarrow> 'a rule_mem \<Rightarrow> errno option \<times> npf_ruleset \<times> 'a rule_mem" where
  "remove_found rs found h =
    (case found of
       None \<Rightarrow> (Some ENOENT, rs, h)
     | Some (prev, rl) \<Rightarrow>
         let (rs, h) = npf_ruleset_unlink rs rl prev h in (None, rs\<lparr> rs_gc := rl # rs_gc rs \<rparr>, h))"

definition npf_ruleset_remove ::
  "npf_ruleset \<Rightarrow> string \<Rightarrow> u64 \<Rightarrow> 'a rule_mem \<Rightarrow> (errno option \<times> npf_ruleset \<times> 'a rule_mem) option" where
  "npf_ruleset_remove rs rname rid h =
    (case npf_ruleset_lookup rs rname h of
       None \<Rightarrow> Some (Some ESRCH, rs, h)
     | Some rg \<Rightarrow>
         map_option (\<lambda>found. remove_found rs found h) (remove_find (rules h) rid (r_subset (rules h rg)) None))"

definition npf_ruleset_remkey ::
  "npf_ruleset \<Rightarrow> string \<Rightarrow> u8 list \<Rightarrow> 'a rule_mem \<Rightarrow> (errno option \<times> npf_ruleset \<times> 'a rule_mem) option" where
  "npf_ruleset_remkey rs rname key h =
    (case npf_ruleset_lookup rs rname h of
       None \<Rightarrow> Some (Some ESRCH, rs, h)
     | Some rg \<Rightarrow>
         map_option (\<lambda>found. remove_found rs found h) (remkey_find (rules h) key (r_subset (rules h rg)) None None))"

partial_function (option) list_loop ::
  "('m, 'p, 'x, 'nv) kern_env \<Rightarrow> 'nv nv_ops \<Rightarrow> 's npf_ifmap \<Rightarrow> (nat \<Rightarrow> 'a npf_rule) \<Rightarrow> nat option \<Rightarrow> 'nv \<Rightarrow> ('m, 'p, 'x) npf_kern
   \<Rightarrow> ('nv \<times> ('m, 'p, 'x) npf_kern) option" where
  "list_loop E N npf h rl nvl k =
    (case rl of
       None \<Rightarrow> Some (nvl, k)
     | Some p \<Rightarrow>
         let (rule, k) = npf_rule_export E N npf (h p) k in
         list_loop E N npf h (r_next (h p)) (nvlist_append_nvlist_array N nvl ''rules'' rule) k)"

definition npf_ruleset_list ::
  "('m, 'p, 'x, 'nv) kern_env \<Rightarrow> 'nv nv_ops \<Rightarrow> 's npf_ifmap \<Rightarrow> npf_ruleset \<Rightarrow> string \<Rightarrow> 'nv \<Rightarrow> 'a rule_mem \<Rightarrow> ('m, 'p, 'x) npf_kern
   \<Rightarrow> (errno option \<times> 'nv \<times> ('m, 'p, 'x) npf_kern) option" where
  "npf_ruleset_list E N npf rs rname nvl h k =
    (case npf_ruleset_lookup rs rname h of
       None \<Rightarrow> Some (Some ESRCH, nvl, k)
     | Some rg \<Rightarrow> map_option (\<lambda>(nvl, k). (None, nvl, k)) (list_loop E N npf (rules h) (r_subset (rules h rg)) nvl k))"

partial_function (option) flush_loop :: "(nat \<Rightarrow> 'a npf_rule) \<Rightarrow> nat option \<Rightarrow> npf_ruleset \<Rightarrow> npf_ruleset option" where
  [code]: "flush_loop h rl rs =
    (case rl of
       None \<Rightarrow> Some rs
     | Some p \<Rightarrow> flush_loop h (r_next (h p)) (rs\<lparr> rs_all := remove1 p (rs_all rs), rs_gc := p # rs_gc rs \<rparr>))"

definition npf_ruleset_flush ::
  "npf_ruleset \<Rightarrow> string \<Rightarrow> 'a rule_mem \<Rightarrow> (errno option \<times> npf_ruleset \<times> 'a rule_mem) option" where
  "npf_ruleset_flush rs rname h =
    (case npf_ruleset_lookup rs rname h of
       None \<Rightarrow> Some (Some ESRCH, rs, h)
     | Some rg \<Rightarrow>
         map_option (\<lambda>rs. (None, rs\<lparr> rs_idcnt := 0 \<rparr>, rule_upd rg (\<lambda>r. r\<lparr> r_subset := None \<rparr>) h))
           (flush_loop (rules h) (r_subset (rules h rg)) rs))"

subsection \<open>Destruction\<close>

definition rule_free1 ::
  "('m, 'p, 'x, 'nv) kern_env \<Rightarrow> nat \<Rightarrow> 'a rule_mem \<times> ('m, 'p, 'x) npf_kern \<Rightarrow> 'a rule_mem \<times> ('m, 'p, 'x) npf_kern" where
  "rule_free1 E rl hk = npf_rule_free E rl (fst hk) (snd hk)"

definition npf_ruleset_gc ::
  "('m, 'p, 'x, 'nv) kern_env \<Rightarrow> npf_ruleset \<Rightarrow> 'a rule_mem \<Rightarrow> ('m, 'p, 'x) npf_kern
   \<Rightarrow> npf_ruleset \<times> 'a rule_mem \<times> ('m, 'p, 'x) npf_kern" where
  "npf_ruleset_gc E rs h k = (rs\<lparr> rs_gc := [] \<rparr>, fold (rule_free1 E) (rs_gc rs) (h, k))"

definition destroy1 ::
  "('m, 'p, 'x, 'nv) kern_env \<Rightarrow> nat \<Rightarrow> npf_ruleset \<times> 'a rule_mem \<times> ('m, 'p, 'x) npf_kern
   \<Rightarrow> npf_ruleset \<times> 'a rule_mem \<times> ('m, 'p, 'x) npf_kern" where
  "destroy1 E rl s =
    (let (rs, h, k) = s;
         (rs, h) = (if NPF_DYNAMIC_GROUP_P (r_attr (rules h rl))
                    then (rs\<lparr> rs_dynamic := remove1 rl (rs_dynamic rs) \<rparr>, rule_upd rl (\<lambda>r. r\<lparr> r_subset := None \<rparr>) h)
                    else (rs, h)) in
     (rs\<lparr> rs_all := remove1 rl (rs_all rs) \<rparr>, npf_rule_free E rl h k))"

definition npf_ruleset_destroy ::
  "('m, 'p, 'x, 'nv) kern_env \<Rightarrow> npf_ruleset \<Rightarrow> 'a rule_mem \<Rightarrow> ('m, 'p, 'x) npf_kern \<Rightarrow> 'a rule_mem \<times> ('m, 'p, 'x) npf_kern" where
  "npf_ruleset_destroy E rs h k =
    (let (rs, h, k) = fold (destroy1 E) (rs_all rs) (rs, h, k) in snd (npf_ruleset_gc E rs h k))"

subsection \<open>Export and reload\<close>

fun export_loop ::
  "('m, 'p, 'x, 'nv) kern_env \<Rightarrow> 'nv nv_ops \<Rightarrow> 's npf_ifmap \<Rightarrow> (nat \<Rightarrow> 'a npf_rule) \<Rightarrow> string \<Rightarrow> nat list \<Rightarrow> 'nv
   \<Rightarrow> ('m, 'p, 'x) npf_kern \<Rightarrow> 'nv \<times> ('m, 'p, 'x) npf_kern" where
  "export_loop E N npf h key [] npf_nv k = (npf_nv, k)"
| "export_loop E N npf h key (rl # rls) npf_nv k =
    (let (rule, k) = npf_rule_export E N npf (h rl) k;
         rule = (case r_natp (h rl) of None \<Rightarrow> rule | Some np \<Rightarrow> npf_natpolicy_export N (natps k np) rule) in
     export_loop E N npf h key rls (nvlist_append_nvlist_array N npf_nv key rule) k)"

definition npf_ruleset_export ::
  "('m, 'p, 'x, 'nv) kern_env \<Rightarrow> 'nv nv_ops \<Rightarrow> 's npf_ifmap \<Rightarrow> npf_ruleset \<Rightarrow> string \<Rightarrow> 'nv \<Rightarrow> 'a rule_mem \<Rightarrow> ('m, 'p, 'x) npf_kern
   \<Rightarrow> 'nv \<times> ('m, 'p, 'x) npf_kern" where
  "npf_ruleset_export E N npf rs key npf_nv h k = export_loop E N npf (rules h) key (rs_rules rs) npf_nv k"

text \<open>The rule is on the list of all rules of one of the two sets.\<close>

partial_function (option) migrate_loop ::
  "nat \<Rightarrow> nat option \<Rightarrow> npf_ruleset \<Rightarrow> npf_ruleset \<Rightarrow> 'a rule_mem \<Rightarrow> (npf_ruleset \<times> npf_ruleset \<times> 'a rule_mem) option" where
  "migrate_loop rg rl newset oldset h =
    (case rl of
       None \<Rightarrow> Some (newset, oldset, h)
     | Some p \<Rightarrow>
         migrate_loop rg (r_next (rules h p)) (newset\<lparr> rs_all := p # remove1 p (rs_all newset) \<rparr>)
           (oldset\<lparr> rs_all := remove1 p (rs_all oldset) \<rparr>) (rule_upd p (\<lambda>r. r\<lparr> r_parent := Some rg \<rparr>) h))"

fun reload_groups ::
  "nat list \<Rightarrow> npf_ruleset \<Rightarrow> npf_ruleset \<Rightarrow> 'a rule_mem \<Rightarrow> (npf_ruleset \<times> npf_ruleset \<times> 'a rule_mem) option" where
  "reload_groups [] newset oldset h = Some (newset, oldset, h)"
| "reload_groups (rg # rgs) newset oldset h =
    (case npf_ruleset_lookup oldset (r_name (rules h rg)) h of
       None \<Rightarrow> reload_groups rgs newset oldset h
     | Some act \<Rightarrow>
         let h = rule_upd rg (\<lambda>r. r\<lparr> r_subset := r_subset (rules h act) \<rparr>) h in
         case migrate_loop rg (r_subset (rules h rg)) newset oldset h of
           None \<Rightarrow> None
         | Some (newset, oldset, h) \<Rightarrow> reload_groups rgs newset oldset h)"

definition natpolicy_matches :: "'a rule_mem \<Rightarrow> ('m, 'p, 'x) npf_kern \<Rightarrow> nat \<Rightarrow> nat \<Rightarrow> bool" where
  "natpolicy_matches h k np actrl =
    (case r_natp (rules h actrl) of
       None \<Rightarrow> False
     | Some anp \<Rightarrow>
         r_attr (rules h actrl) AND NPF_RULE_KEEPNAT = 0 \<and> npf_natpolicy_cmp (natps k anp) (natps k np))"

fun reload_nats ::
  "nat list \<Rightarrow> nat list \<Rightarrow> u64 \<Rightarrow> 'a rule_mem \<Rightarrow> ('m, 'p, 'x) npf_kern \<Rightarrow> 'a rule_mem \<times> ('m, 'p, 'x) npf_kern" where
  "reload_nats olds [] nid h k = (h, k)"
| "reload_nats olds (rl # rls) nid h k =
    (case r_natp (rules h rl) of
       None \<Rightarrow> reload_nats olds rls nid h k
     | Some np \<Rightarrow>
         (case find (natpolicy_matches h k np) olds of
            None \<Rightarrow> reload_nats olds rls (nid + 1) h (npf_nat_setid np (nid + 1) k)
          | Some actrl \<Rightarrow>
              let anp = the (r_natp (rules h actrl));
                  h = rule_upd actrl (\<lambda>r. r\<lparr> r_attr := r_attr r OR NPF_RULE_KEEPNAT \<rparr>)
                        (rule_upd rl (\<lambda>r. r\<lparr> r_natp := Some anp \<rparr>) h) in
              reload_nats olds rls (nid + 1) h (npf_natpolicy_destroy np (npf_nat_setid anp (nid + 1) k))))"

definition npf_ruleset_reload ::
  "npf_ruleset \<Rightarrow> npf_ruleset \<Rightarrow> bool \<Rightarrow> 'a rule_mem \<Rightarrow> ('m, 'p, 'x) npf_kern
   \<Rightarrow> (npf_ruleset \<times> npf_ruleset \<times> 'a rule_mem \<times> ('m, 'p, 'x) npf_kern) option" where
  "npf_ruleset_reload newset oldset load h k =
    (case reload_groups (rs_dynamic newset) newset oldset h of
       None \<Rightarrow> None
     | Some (newset, oldset, h) \<Rightarrow>
         if load then Some (newset, oldset, h, k)
         else
           let (h, k) = reload_nats (rs_all oldset) (rs_all newset) 0 h k in
           Some (newset\<lparr> rs_idcnt := rs_idcnt oldset \<rparr>, oldset, h, k))"

definition npf_ruleset_findnat :: "npf_ruleset \<Rightarrow> u64 \<Rightarrow> 'a rule_mem \<Rightarrow> ('m, 'p, 'x) npf_kern \<Rightarrow> nat option" where
  "npf_ruleset_findnat rs nid h k =
     find (\<lambda>np. npf_nat_getid k np = nid) (List.map_filter (\<lambda>rl. r_natp (rules h rl)) (rs_all rs))"

definition npf_ruleset_freealg ::
  "('m, 'p, 'x) npf_kern npf_algset \<Rightarrow> npf_ruleset \<Rightarrow> nat \<Rightarrow> 'a rule_mem \<Rightarrow> ('m, 'p, 'x) npf_kern \<Rightarrow> ('m, 'p, 'x) npf_kern" where
  "npf_ruleset_freealg algs rs alg h k =
     fold (\<lambda>np. npf_nat_freealg algs np alg) (List.map_filter (\<lambda>rl. r_natp (rules h rl)) (rs_all rs)) k"

section \<open>Inspection\<close>

text \<open>The instructions in the bytes of a program.\<close>

fun bpf_insns :: "u8 list \<Rightarrow> bpf_insn list" where
  "bpf_insns (a # b # jt # jf # c # d # e # f # bs) =
     \<lparr> i_code = rd16 [a, b] 0, i_jt = jt, i_jf = jf, i_k = rd32 [c, d, e, f] 0 \<rparr> # bpf_insns bs"
| "bpf_insns _ = []"

definition npf_rule_inspect ::
  "('m, 'l, 'c) cop_arg npf_rule \<Rightarrow> ('m, 'l, 'c) cop_arg bpf_args \<Rightarrow> u32 \<Rightarrow> u32
   \<Rightarrow> bpf_fault + bool \<times> ('m, 'l, 'c) cop_arg bpf_args" where
  "npf_rule_inspect rl ar di_mask ifid =
    (if r_ifid rl \<noteq> 0 \<and> r_ifid rl \<noteq> ifid then Inr (False, ar)
     else if r_attr rl AND NPF_RULE_DIMASK \<noteq> NPF_RULE_DIMASK \<and> r_attr rl AND di_mask = 0 then Inr (False, ar)
     else
       case r_code rl of
         None \<Rightarrow> Inr (True, ar)
       | Some code \<Rightarrow> map_sum id (apfst (\<lambda>v. v \<noteq> 0)) (npf_bpf_filter ar (bpf_insns code) (r_jcode rl)))"

partial_function (option) reinspect_loop ::
  "(nat \<Rightarrow> ('m, 'l, 'c) cop_arg npf_rule) \<Rightarrow> u32 \<Rightarrow> u32 \<Rightarrow> nat option \<Rightarrow> nat option \<Rightarrow> ('m, 'l, 'c) cop_arg bpf_args
   \<Rightarrow> (bpf_fault + nat option \<times> ('m, 'l, 'c) cop_arg bpf_args) option" where
  "reinspect_loop h di_mask ifid rl final ar =
    (case rl of
       None \<Rightarrow> Some (Inr (final, ar))
     | Some p \<Rightarrow>
         (case npf_rule_inspect (h p) ar di_mask ifid of
            Inl f \<Rightarrow> Some (Inl f)
          | Inr (m, ar) \<Rightarrow>
              if \<not> m then reinspect_loop h di_mask ifid (r_next (h p)) final ar
              else if r_attr (h p) AND NPF_RULE_FINAL \<noteq> 0 then Some (Inr (Some p, ar))
              else reinspect_loop h di_mask ifid (r_next (h p)) (Some p) ar))"

definition npf_rule_reinspect ::
  "(nat \<Rightarrow> ('m, 'l, 'c) cop_arg npf_rule) \<Rightarrow> u32 \<Rightarrow> u32 \<Rightarrow> nat \<Rightarrow> ('m, 'l, 'c) cop_arg bpf_args
   \<Rightarrow> (bpf_fault + nat option \<times> ('m, 'l, 'c) cop_arg bpf_args) option" where
  "npf_rule_reinspect h di_mask ifid rg ar = reinspect_loop h di_mask ifid (r_subset (h rg)) None ar"

partial_function (option) inspect_loop ::
  "(nat \<Rightarrow> ('m, 'l, 'c) cop_arg npf_rule) \<Rightarrow> nat list \<Rightarrow> u32 \<Rightarrow> u32 \<Rightarrow> nat \<Rightarrow> nat option \<Rightarrow> ('m, 'l, 'c) cop_arg bpf_args
   \<Rightarrow> (bpf_fault + nat option) option" where
  "inspect_loop h rs di_mask ifid n final ar =
    (if n \<ge> length rs then Some (Inr final)
     else
       let rl = rs ! n; skip_to = unat (r_skip_to (h rl) AND SKIPTO_MASK); attr = r_attr (h rl) in
       if attr AND NPF_RULE_GROUP \<noteq> 0 \<and> final \<noteq> None then Some (Inr final)
       else
         case npf_rule_inspect (h rl) ar di_mask ifid of
           Inl f \<Rightarrow> Some (Inl f)
         | Inr (m, ar) \<Rightarrow>
             if \<not> m then inspect_loop h rs di_mask ifid skip_to final ar
             else if NPF_DYNAMIC_GROUP_P attr then
               (case npf_rule_reinspect h di_mask ifid rl ar of
                  None \<Rightarrow> None
                | Some (Inl f) \<Rightarrow> Some (Inl f)
                | Some (Inr (Some r, ar)) \<Rightarrow> Some (Inr (Some r))
                | Some (Inr (None, ar)) \<Rightarrow>
                    if attr AND NPF_RULE_FINAL \<noteq> 0 then Some (Inr final)
                    else inspect_loop h rs di_mask ifid (n + 1) final ar)
             else
               let final = (if attr AND NPF_RULE_GROUP = 0 then Some rl else final) in
               if attr AND NPF_RULE_FINAL \<noteq> 0 then Some (Inr final)
               else inspect_loop h rs di_mask ifid (n + 1) final ar)"

definition npf_ruleset_inspect ::
  "('m, 'l, 'c) cop_arg \<Rightarrow> ('m, 'l, 'c) cop_arg rule_mem \<Rightarrow> npf_ruleset \<Rightarrow> nat \<Rightarrow> (bpf_fault + nat option) option \<times> npf_cache" where
  "npf_ruleset_inspect arg h rs di =
    (let npc = ca_npc arg;
         di_mask = (if odd di then NPF_RULE_IN else NPF_RULE_OUT);
         npc = npc\<lparr> npc_nbuf := nbuf_reset (npc_nbuf npc) \<rparr> in
     (inspect_loop (rules h) (rs_rules rs) di_mask (nb_ifid (npc_nbuf npc)) 0 None
        (npf_bpf_prepare (arg\<lparr> ca_npc := npc \<rparr>) (replicate NPF_BPF_NWORDS None)), npc))"

definition npf_rule_conclude :: "'a npf_rule \<Rightarrow> npf_match_info \<Rightarrow> errno option \<times> npf_match_info" where
  "npf_rule_conclude rl mi =
    (if r_attr rl AND NPF_RULE_PASS \<noteq> 0 then None else Some ENETUNREACH,
     mi\<lparr> mi_retfl := r_attr rl, mi_rid := r_id rl \<rparr>)"

end
