(* ===== verification/NPF_Ruleset.thy ===== *)
theory NPF_Ruleset
  imports NPF_Rule
begin

text \<open>
  Properties of rulesets: the linked lists of dynamic rules implement lists ordered by priority,
  under every sequence of additions, removals and flushes.
\<close>

section \<open>Linked lists of rules\<close>

text \<open>\<open>rseg h p xs q\<close>: following \<open>r_next\<close> from \<open>p\<close> visits the rules \<open>xs\<close> and leads to \<open>q\<close>.\<close>

primrec rseg :: "(nat \<Rightarrow> 'a npf_rule) \<Rightarrow> nat option \<Rightarrow> nat list \<Rightarrow> nat option \<Rightarrow> bool" where
  "rseg h p [] q \<longleftrightarrow> p = q"
| "rseg h p (x # xs) q \<longleftrightarrow> p = Some x \<and> rseg h (r_next (h x)) xs q"

abbreviation rlist :: "(nat \<Rightarrow> 'a npf_rule) \<Rightarrow> nat option \<Rightarrow> nat list \<Rightarrow> bool" where
  "rlist h p xs \<equiv> rseg h p xs None"

lemma rseg_append: "rseg h p (xs @ ys) q \<longleftrightarrow> (\<exists>r. rseg h p xs r \<and> rseg h r ys q)"
  by (induction xs arbitrary: p) auto

lemma rseg_cong: "(\<And>x. x \<in> set xs \<Longrightarrow> r_next (h x) = r_next (h' x)) \<Longrightarrow> rseg h p xs q = rseg h' p xs q"
  by (induction xs arbitrary: p) auto

lemma rlist_None [simp]: "rlist h None xs \<longleftrightarrow> xs = []"
  by (cases xs) auto

lemma rlist_fun: "rlist h p xs \<Longrightarrow> rlist h p ys \<Longrightarrow> xs = ys"
  by (induction xs arbitrary: p ys) (auto split: option.splits, case_tac ys, auto)

lemma rlist_distinct: "rlist h p xs \<Longrightarrow> distinct xs"
proof (induction xs arbitrary: p)
  case (Cons x xs)
  have "x \<notin> set xs"
  proof
    assume "x \<in> set xs"
    then obtain as bs where xs: "xs = as @ x # bs" by (auto simp: in_set_conv_decomp)
    then have "rlist h (Some x) (x # bs)" "rlist h (Some x) (x # as @ x # bs)"
      using Cons.prems by (auto simp: rseg_append)
    from rlist_fun [OF this] show False by (metis append_Cons append_is_Nil_conv length_append lessI less_add_same_cancel2 list.size(4) add_Suc_right length_Cons not_add_less2 neq_Nil_conv)
  qed
  with Cons show ?case by auto
qed simp

lemma rseg_last: "rseg h p (xs @ [a]) q \<Longrightarrow> r_next (h a) = q"
  by (auto simp: rseg_append)

text \<open>Insertion after \<open>a\<close> and removal of the rule after \<open>a\<close>.\<close>

lemma rlist_insert:
  assumes l: "rlist h p (as @ a # bs)" and n: "rl \<notin> set (as @ a # bs)"
    and h': "\<And>x. r_next (h' x) = (if x = a then Some rl else if x = rl then r_next (h a) else r_next (h x))"
  shows "rlist h' p (as @ a # rl # bs)"
proof -
  have d: "distinct (as @ a # bs)" by (rule rlist_distinct [OF l])
  obtain r where r: "rseg h p as r" "r = Some a" "rlist h (r_next (h a)) bs" using l by (auto simp: rseg_append)
  have "rseg h p as r = rseg h' p as r" "rlist h (r_next (h a)) bs = rlist h' (r_next (h a)) bs"
    by (rule rseg_cong; use d n in \<open>auto simp: h'\<close>)+
  then show ?thesis using r h' n by (auto simp: rseg_append)
qed

lemma rlist_remove:
  assumes l: "rlist h p (as @ a # rl # bs)"
    and h': "\<And>x. r_next (h' x) = (if x = a then r_next (h rl) else r_next (h x))"
  shows "rlist h' p (as @ a # bs)"
proof -
  have d: "distinct (as @ a # rl # bs)" by (rule rlist_distinct [OF l])
  obtain r where r: "rseg h p as r" "r = Some a" "rlist h (r_next (h rl)) bs" using l by (auto simp: rseg_append)
  have "rseg h p as r = rseg h' p as r" "rlist h (r_next (h rl)) bs = rlist h' (r_next (h rl)) bs"
    by (rule rseg_cong; use d in \<open>auto simp: h'\<close>)+
  then show ?thesis using r h' by (auto simp: rseg_append)
qed

section \<open>The loops over linked lists\<close>

lemma add_find_list:
  "rlist h it xs \<Longrightarrow> add_find h prio it t =
     (let ys = takeWhile (\<lambda>x. r_priority (h x) \<le> prio) xs in Some (if ys = [] then t else Some (last ys)))"
  by (induction xs arbitrary: it t) (subst add_find.simps, simp add: Let_def)+

text \<open>The rule before the first one in \<open>xs\<close>, where \<open>p\<close> is before the list.\<close>

definition last_opt :: "nat option \<Rightarrow> nat list \<Rightarrow> nat option" where
  "last_opt p xs = (if xs = [] then p else Some (last xs))"

lemma last_opt_simps [simp]: "last_opt p [] = p" "last_opt p (x # xs) = last_opt (Some x) xs"
  by (simp_all add: last_opt_def)

lemma remove_find_list:
  "rlist h rl xs \<Longrightarrow> remove_find h rid rl prev =
     Some (case dropWhile (\<lambda>x. r_id (h x) \<noteq> rid) xs of
             [] \<Rightarrow> None
           | x # _ \<Rightarrow> Some (last_opt prev (takeWhile (\<lambda>x. r_id (h x) \<noteq> rid) xs), x))"
proof (induction xs arbitrary: rl prev)
  case (Cons a xs)
  then show ?case by (cases "r_id (h a) = rid"; subst remove_find.simps) (simp_all split: list.split del: dropWhile_eq_Nil_conv)
qed (subst remove_find.simps, simp)

lemma remkey_find_list:
  "rlist h rl xs \<Longrightarrow> \<exists>r. remkey_find h key rl prev found = Some r \<and>
     ((\<forall>x \<in> set xs. take (length key) (r_key (h x)) \<noteq> key) \<and> r = found \<or>
      (\<exists>as x bs. xs = as @ x # bs \<and> take (length key) (r_key (h x)) = key \<and>
         (\<forall>x \<in> set bs. take (length key) (r_key (h x)) \<noteq> key) \<and> r = Some (last_opt prev as, x)))"
proof (induction xs arbitrary: rl prev found)
  case Nil
  then show ?case by (subst remkey_find.simps) simp
next
  case (Cons y xs)
  let ?m = "\<lambda>x. take (length key) (r_key (h x)) = key"
  have rl: "rl = Some y" "rlist h (r_next (h y)) xs" using Cons.prems by auto
  let ?f = "if ?m y then Some (prev, y) else found"
  obtain r where r: "remkey_find h key (r_next (h y)) (Some y) ?f = Some r"
    "(\<forall>x \<in> set xs. \<not> ?m x) \<and> r = ?f \<or>
      (\<exists>as x bs. xs = as @ x # bs \<and> ?m x \<and> (\<forall>x \<in> set bs. \<not> ?m x) \<and> r = Some (last_opt (Some y) as, x))"
    using Cons.IH [OF rl(2)] by blast
  have "remkey_find h key rl prev found = Some r" using r(1) by (subst remkey_find.simps) (simp add: rl(1))
  moreover consider "\<forall>x \<in> set xs. \<not> ?m x" "r = ?f"
    | as x bs where "xs = as @ x # bs" "?m x" "\<forall>x \<in> set bs. \<not> ?m x" "r = Some (last_opt (Some y) as, x)"
    using r(2) by blast
  then have "(\<forall>x \<in> set (y # xs). \<not> ?m x) \<and> r = found \<or>
      (\<exists>as x bs. y # xs = as @ x # bs \<and> ?m x \<and> (\<forall>x \<in> set bs. \<not> ?m x) \<and> r = Some (last_opt prev as, x))"
  proof cases
    case 1
    show ?thesis
    proof (cases "?m y")
      case True
      then have "y # xs = [] @ y # xs \<and> ?m y \<and> (\<forall>x \<in> set xs. \<not> ?m x) \<and> r = Some (last_opt prev [], y)" using 1 by simp
      then show ?thesis by blast
    qed (use 1 in simp)
  next
    case 2
    then have "y # xs = (y # as) @ x # bs \<and> ?m x \<and> (\<forall>x \<in> set bs. \<not> ?m x) \<and> r = Some (last_opt prev (y # as), x)" by simp
    then show ?thesis by blast
  qed
  ultimately show ?case by blast
qed

lemma flush_loop_list:
  "rlist h rl xs \<Longrightarrow> flush_loop h rl rs = Some (rs\<lparr> rs_all := fold remove1 xs (rs_all rs), rs_gc := rev xs @ rs_gc rs \<rparr>)"
  by (induction xs arbitrary: rl rs) (subst flush_loop.simps, simp)+

section \<open>Dynamic rules as ordered lists\<close>

text \<open>
  The specification: each group has a list of rules, and the counter gives the identifiers.
  Operations return an error or none.
\<close>

record dynrule =
  d_rule :: nat
  d_id :: u64
  d_prio :: int
  d_key :: "u8 list"

datatype 'a dynop = Add string nat "'a npf_rule" | Remove string u64 | Remkey string "u8 list" | Flush string

definition spec_add :: "bool \<Rightarrow> dynrule \<Rightarrow> dynrule list \<Rightarrow> dynrule list" where
  "spec_add first d ds =
    (if first then d # ds
     else takeWhile (\<lambda>x. d_prio x \<le> d_prio d) ds @ d # dropWhile (\<lambda>x. d_prio x \<le> d_prio d) ds)"

definition remove_first :: "('b \<Rightarrow> bool) \<Rightarrow> 'b list \<Rightarrow> 'b list" where
  "remove_first P xs = takeWhile (\<lambda>x. \<not> P x) xs @ tl (dropWhile (\<lambda>x. \<not> P x) xs)"

fun spec_op ::
  "(string \<Rightarrow> nat option) \<Rightarrow> 'a dynop \<Rightarrow> u64 \<times> (nat \<Rightarrow> dynrule list) \<Rightarrow> errno option \<times> u64 \<times> (nat \<Rightarrow> dynrule list)" where
  "spec_op look (Add name rl r) (c, G) =
    (if \<not> NPF_DYNAMIC_RULE_P (r_attr r) then (Some EINVAL, c, G)
     else case look name of
       None \<Rightarrow> (Some ESRCH, c, G)
     | Some g \<Rightarrow>
         (None, c + 1, G(g := spec_add (r_priority r = NPF_PRI_FIRST)
            \<lparr> d_rule = rl, d_id = c + 1, d_prio = max 0 (r_priority r), d_key = r_key r \<rparr> (G g))))"
| "spec_op look (Remove name rid) (c, G) =
    (case look name of
       None \<Rightarrow> (Some ESRCH, c, G)
     | Some g \<Rightarrow>
         if \<exists>d \<in> set (G g). d_id d = rid then (None, c, G(g := remove_first (\<lambda>d. d_id d = rid) (G g))) else (Some ENOENT, c, G))"
| "spec_op look (Remkey name key) (c, G) =
    (case look name of
       None \<Rightarrow> (Some ESRCH, c, G)
     | Some g \<Rightarrow>
         if \<exists>d \<in> set (G g). take (length key) (d_key d) = key
         then (None, c, G(g := rev (remove_first (\<lambda>d. take (length key) (d_key d) = key) (rev (G g))))) else (Some ENOENT, c, G))"
| "spec_op look (Flush name) (c, G) =
    (case look name of None \<Rightarrow> (Some ESRCH, c, G) | Some g \<Rightarrow> (None, 0, G(g := [])))"

text \<open>The operations of the implementation; a rule to be added has just been allocated.\<close>

fun run_op :: "'a dynop \<Rightarrow> npf_ruleset \<Rightarrow> 'a rule_mem \<Rightarrow> (errno option \<times> npf_ruleset \<times> 'a rule_mem) option" where
  "run_op (Add name rl r) rs h = npf_ruleset_add rs name rl (rule_upd rl (\<lambda>_. r) h)"
| "run_op (Remove name rid) rs h = npf_ruleset_remove rs name rid h"
| "run_op (Remkey name key) rs h = npf_ruleset_remkey rs name key h"
| "run_op (Flush name) rs h = npf_ruleset_flush rs name h"

fun op_rules :: "'a dynop \<Rightarrow> nat list" where
  "op_rules (Add name rl r) = [rl]"
| "op_rules _ = []"

definition rule_view :: "(nat \<Rightarrow> 'a npf_rule) \<Rightarrow> nat \<Rightarrow> dynrule" where
  "rule_view h p = \<lparr> d_rule = p, d_id = r_id (h p), d_prio = r_priority (h p), d_key = r_key (h p) \<rparr>"

definition grp_ok :: "(nat \<Rightarrow> 'a npf_rule) \<Rightarrow> nat \<Rightarrow> dynrule list \<Rightarrow> bool" where
  "grp_ok h g ds \<longleftrightarrow> NPF_DYNAMIC_GROUP_P (r_attr (h g)) \<and> rlist h (r_subset (h g)) (map d_rule ds) \<and>
     (\<forall>d \<in> set ds. rule_view h (d_rule d) = d \<and> r_parent (h (d_rule d)) = Some g \<and> NPF_DYNAMIC_RULE_P (r_attr (h (d_rule d))))"

definition dyn_inv ::
  "(string \<Rightarrow> nat option) \<Rightarrow> npf_ruleset \<Rightarrow> 'a rule_mem \<Rightarrow> u64 \<Rightarrow> (nat \<Rightarrow> dynrule list) \<Rightarrow> bool" where
  "dyn_inv look rs h c G \<longleftrightarrow>
     rs_idcnt rs = c \<and> (\<forall>name. npf_ruleset_lookup rs name h = look name) \<and> distinct (rs_all rs @ rs_gc rs) \<and>
     set (rs_dynamic rs) \<subseteq> set (rs_all rs) \<and>
     (\<forall>g \<in> set (rs_dynamic rs). grp_ok (rules h) g (G g) \<and> d_rule ` set (G g) \<subseteq> set (rs_all rs))"

lemma dyn_group_rule: "NPF_DYNAMIC_GROUP_P a \<Longrightarrow> \<not> NPF_DYNAMIC_RULE_P a"
  by (simp add: NPF_DYNAMIC_GROUP_P_def NPF_DYNAMIC_RULE_P_def)

lemma grp_ok_cong:
  assumes "\<And>x. x = g \<or> x \<in> d_rule ` set ds \<Longrightarrow> h' x = h x"
  shows "grp_ok h' g ds = grp_ok h g ds"
proof -
  have "rseg h' p (map d_rule ds) q = rseg h p (map d_rule ds) q" for p q
    by (rule rseg_cong) (use assms in auto)
  then show ?thesis using assms by (auto simp: grp_ok_def rule_view_def)
qed

lemma grp_member_not_group:
  assumes "grp_ok h g ds" "d \<in> set ds" "grp_ok h g' ds'"
  shows "d_rule d \<noteq> g'" "g \<noteq> g' \<Longrightarrow> d_rule d \<notin> d_rule ` set ds'"
proof -
  have d: "NPF_DYNAMIC_RULE_P (r_attr (h (d_rule d)))" "r_parent (h (d_rule d)) = Some g" using assms(1,2) by (auto simp: grp_ok_def)
  have "NPF_DYNAMIC_GROUP_P (r_attr (h g'))" using assms(3) by (simp add: grp_ok_def)
  then show "d_rule d \<noteq> g'" using d(1) dyn_group_rule by blast
  assume "g \<noteq> g'"
  have "r_parent (h (d_rule d')) = Some g'" if "d' \<in> set ds'" for d' using assms(3) that by (auto simp: grp_ok_def)
  then show "d_rule d \<notin> d_rule ` set ds'" using d(2) \<open>g \<noteq> g'\<close> by auto
qed

lemma ruleset_lookup_cong:
  assumes "rs_dynamic rs' = rs_dynamic rs" "\<And>g. g \<in> set (rs_dynamic rs) \<Longrightarrow> r_name (rules h' g) = r_name (rules h g)"
  shows "npf_ruleset_lookup rs' name h' = npf_ruleset_lookup rs name h"
  unfolding npf_ruleset_lookup_def assms(1) by (rule find_cong) (use assms(2) in auto)

lemma lookup_in: "npf_ruleset_lookup rs name h = Some g \<Longrightarrow> g \<in> set (rs_dynamic rs)"
  by (auto simp: npf_ruleset_lookup_def find_Some_iff)

text \<open>A change of one group.\<close>

lemma dyn_inv_step:
  assumes i: "dyn_inv look rs h c G" and g: "g \<in> set (rs_dynamic rs)"
    and ch: "\<And>x. x \<noteq> g \<Longrightarrow> x \<notin> d_rule ` set (G g) \<Longrightarrow> x \<in> set (rs_all rs) \<Longrightarrow> rules h' x = rules h x"
    and nm: "r_name (rules h' g) = r_name (rules h g)" and new: "grp_ok (rules h') g ds"
    and rs': "rs_dynamic rs' = rs_dynamic rs" "rs_idcnt rs' = c'" "distinct (rs_all rs' @ rs_gc rs')"
      "d_rule ` set ds \<subseteq> set (rs_all rs')" "set (rs_all rs) - d_rule ` set (G g) \<subseteq> set (rs_all rs')"
  shows "dyn_inv look rs' h' c' (G(g := ds))"
proof -
  have ok: "grp_ok (rules h) g' (G g')" "d_rule ` set (G g') \<subseteq> set (rs_all rs)" "g' \<in> set (rs_all rs)"
    if "g' \<in> set (rs_dynamic rs)" for g' using i that by (auto simp: dyn_inv_def)
  have grp: "g' \<notin> d_rule ` set (G g)" if "g' \<in> set (rs_dynamic rs)" for g'
    using grp_member_not_group(1) [OF ok(1) [OF g] _ ok(1) [OF that]] by blast
  have mem: "d_rule ` set (G g') \<inter> d_rule ` set (G g) = {}" if "g' \<in> set (rs_dynamic rs)" "g' \<noteq> g" for g'
    using grp_member_not_group(2) [OF ok(1) [OF that(1)] _ ok(1) [OF g] that(2)] by blast
  have gm: "g \<notin> d_rule ` set (G g')" if "g' \<in> set (rs_dynamic rs)" for g'
    using grp_member_not_group(1) [OF ok(1) [OF that] _ ok(1) [OF g]] by blast
  have other: "grp_ok (rules h') g' (G g')" "d_rule ` set (G g') \<subseteq> set (rs_all rs')" if "g' \<in> set (rs_dynamic rs)" "g' \<noteq> g" for g'
  proof -
    have "rules h' x = rules h x" if "x = g' \<or> x \<in> d_rule ` set (G g')" for x
      by (rule ch) (use that ok(2,3) [OF \<open>g' \<in> _\<close>] grp [OF \<open>g' \<in> _\<close>] mem [OF \<open>g' \<in> _\<close> \<open>g' \<noteq> g\<close>] gm [OF \<open>g' \<in> _\<close>] \<open>g' \<noteq> g\<close> in blast)+
    then show "grp_ok (rules h') g' (G g')" using ok(1) [OF \<open>g' \<in> _\<close>] grp_ok_cong by metis
    show "d_rule ` set (G g') \<subseteq> set (rs_all rs')" using ok(2) [OF \<open>g' \<in> _\<close>] mem [OF that] rs'(5) by blast
  qed
  have names: "r_name (rules h' g') = r_name (rules h g')" if "g' \<in> set (rs_dynamic rs)" for g'
    using nm ch [OF _ grp [OF that] ok(3) [OF that]] by (cases "g' = g") auto
  have look: "npf_ruleset_lookup rs' name h' = look name" for name
    using i ruleset_lookup_cong [OF rs'(1) names] by (simp add: dyn_inv_def)
  have dyn: "set (rs_dynamic rs) \<subseteq> set (rs_all rs')" using grp ok(3) rs'(5) by blast
  show ?thesis
    unfolding dyn_inv_def using look dyn other new rs' by auto
qed

text \<open>Operations on a group change its links only.\<close>

definition links_only :: "(nat \<Rightarrow> 'a npf_rule) \<Rightarrow> (nat \<Rightarrow> 'a npf_rule) \<Rightarrow> bool" where
  "links_only h h' \<longleftrightarrow> (\<forall>x. (r_attr (h' x), r_id (h' x), r_priority (h' x), r_key (h' x), r_parent (h' x), r_name (h' x)) =
     (r_attr (h x), r_id (h x), r_priority (h x), r_key (h x), r_parent (h x), r_name (h x)))"

lemma grp_ok_relink:
  assumes "NPF_DYNAMIC_GROUP_P (r_attr (h g))" "links_only h h'" "rlist h' (r_subset (h' g)) (map d_rule ds)"
    and "\<And>d. d \<in> set ds \<Longrightarrow> rule_view h (d_rule d) = d \<and> r_parent (h (d_rule d)) = Some g \<and> NPF_DYNAMIC_RULE_P (r_attr (h (d_rule d)))"
  shows "grp_ok h' g ds"
  using assms by (auto simp: grp_ok_def links_only_def rule_view_def)

lemma takeWhile_view:
  assumes "\<And>d. d \<in> set ds \<Longrightarrow> P (d_rule d) = Q d"
  shows "takeWhile P (map d_rule ds) = map d_rule (takeWhile Q ds)" "dropWhile P (map d_rule ds) = map d_rule (dropWhile Q ds)"
  using assms by (induction ds) auto

lemma add_first_ok:
  assumes g: "grp_ok (rules h) g ds" and n: "rl \<notin> d_rule ` set ds" "rl \<noteq> g"
    and r: "r_parent (rules h rl) = Some g" "NPF_DYNAMIC_RULE_P (r_attr (rules h rl))"
  shows "grp_ok (rules (add_first g rl h)) g (rule_view (rules h) rl # ds)"
proof (rule grp_ok_relink [of "rules h"])
  have "rseg (rules h) p (map d_rule ds) None = rseg (rules (add_first g rl h)) p (map d_rule ds) None" for p
    by (rule rseg_cong) (use n in \<open>auto simp: add_first_def rule_upd_def\<close>)
  then show "rlist (rules (add_first g rl h)) (r_subset (rules (add_first g rl h) g)) (map d_rule (rule_view (rules h) rl # ds))"
    using g n by (auto simp: grp_ok_def rule_view_def add_first_def rule_upd_def)
qed (use g r in \<open>auto simp: grp_ok_def links_only_def add_first_def rule_upd_def rule_view_def\<close>)

definition add_after :: "nat \<Rightarrow> nat \<Rightarrow> 'a rule_mem \<Rightarrow> 'a rule_mem" where
  "add_after t rl h = rule_upd t (\<lambda>r. r\<lparr> r_next := Some rl \<rparr>) (rule_upd rl (\<lambda>r. r\<lparr> r_next := r_next (rules h t) \<rparr>) h)"

lemma add_after_ok:
  assumes g: "grp_ok (rules h) g (as @ a # bs)" and n: "rl \<notin> d_rule ` set (as @ a # bs)" "rl \<noteq> g"
    and r: "r_parent (rules h rl) = Some g" "NPF_DYNAMIC_RULE_P (r_attr (rules h rl))"
  shows "grp_ok (rules (add_after (d_rule a) rl h)) g (as @ a # rule_view (rules h) rl # bs)"
proof (rule grp_ok_relink [of "rules h"])
  have l: "rlist (rules h) (r_subset (rules h g)) (map d_rule as @ d_rule a # map d_rule bs)" using g by (simp add: grp_ok_def)
  have "rlist (rules (add_after (d_rule a) rl h)) (r_subset (rules h g)) (map d_rule as @ d_rule a # rl # map d_rule bs)"
    by (rule rlist_insert [OF l]) (use n in \<open>auto simp: add_after_def rule_upd_def\<close>)
  moreover have "r_subset (rules (add_after (d_rule a) rl h) g) = r_subset (rules h g)" by (simp add: add_after_def rule_upd_def)
  ultimately show "rlist (rules (add_after (d_rule a) rl h)) (r_subset (rules (add_after (d_rule a) rl h) g))
      (map d_rule (as @ a # rule_view (rules h) rl # bs))"
    by (simp add: rule_view_def)
qed (use g r in \<open>auto simp: grp_ok_def links_only_def add_after_def rule_upd_def rule_view_def\<close>)

text \<open>A rule that is not in the ruleset can be written to.\<close>

lemma dyn_inv_alloc:
  assumes i: "dyn_inv look rs h c G" and n: "rl \<notin> set (rs_all rs)"
  shows "dyn_inv look rs (rule_upd rl (\<lambda>_. r) h) c G"
proof -
  let ?h = "rule_upd rl (\<lambda>_. r) h"
  have same: "rules ?h x = rules h x" if "x \<in> set (rs_all rs)" for x using that n by (auto simp: rule_upd_def)
  have dyn: "set (rs_dynamic rs) \<subseteq> set (rs_all rs)" using i by (simp add: dyn_inv_def)
  have names: "r_name (rules ?h g) = r_name (rules h g)" if "g \<in> set (rs_dynamic rs)" for g using that dyn same by (metis subsetD)
  have "grp_ok (rules ?h) g (G g) \<and> d_rule ` set (G g) \<subseteq> set (rs_all rs)" if g: "g \<in> set (rs_dynamic rs)" for g
  proof -
    have m: "d_rule ` set (G g) \<subseteq> set (rs_all rs)" "grp_ok (rules h) g (G g)" "g \<in> set (rs_all rs)" using i g dyn by (auto simp: dyn_inv_def)
    have "rules ?h x = rules h x" if "x = g \<or> x \<in> d_rule ` set (G g)" for x by (rule same) (use that m in blast)
    from grp_ok_cong [OF this] show ?thesis using m by simp
  qed
  then show ?thesis using i dyn ruleset_lookup_cong [OF refl names] unfolding dyn_inv_def by simp
qed

text \<open>What the insertion does to the group.\<close>

definition add_target :: "bool \<Rightarrow> int \<Rightarrow> dynrule list \<Rightarrow> nat option" where
  "add_target first prio ds =
    (let ys = takeWhile (\<lambda>x. d_prio x \<le> prio) ds in if first \<or> ys = [] then None else Some (d_rule (last ys)))"

definition add_link :: "nat \<Rightarrow> nat \<Rightarrow> nat option \<Rightarrow> 'a rule_mem \<Rightarrow> 'a rule_mem" where
  "add_link g rl t h = (case t of None \<Rightarrow> add_first g rl h | Some t \<Rightarrow> add_after t rl h)"

lemma add_find_group:
  assumes g: "grp_ok h g ds"
  shows "add_find h prio (r_subset (h g)) None = Some (add_target False prio ds)"
proof -
  have "r_priority (h (d_rule x)) = d_prio x" if "x \<in> set ds" for x
  proof -
    have "rule_view h (d_rule x) = x" using g that by (simp add: grp_ok_def)
    then have "d_prio (rule_view h (d_rule x)) = d_prio x" by simp
    then show ?thesis by (simp add: rule_view_def)
  qed
  then have "takeWhile (\<lambda>x. r_priority (h x) \<le> prio) (map d_rule ds) = map d_rule (takeWhile (\<lambda>x. d_prio x \<le> prio) ds)"
    by (intro takeWhile_view) auto
  then show ?thesis
    using g add_find_list [of h "r_subset (h g)" "map d_rule ds"] by (simp add: grp_ok_def Let_def last_map add_target_def)
qed

lemma add_link_ok:
  assumes g: "grp_ok (rules h) g ds" and n: "rl \<notin> d_rule ` set ds" "rl \<noteq> g"
    and r: "r_parent (rules h rl) = Some g" "NPF_DYNAMIC_RULE_P (r_attr (rules h rl))"
    and d: "d = rule_view (rules h) rl" and t: "t = add_target first (d_prio d) ds"
  shows "grp_ok (rules (add_link g rl t h)) g (spec_add first d ds)"
    "x \<noteq> g \<Longrightarrow> x \<notin> d_rule ` set ds \<Longrightarrow> x \<noteq> rl \<Longrightarrow> rules (add_link g rl t h) x = rules h x"
    "r_name (rules (add_link g rl t h) g) = r_name (rules h g)"
proof -
  define ys where "ys = takeWhile (\<lambda>x. d_prio x \<le> d_prio d) ds"
  define zs where "zs = dropWhile (\<lambda>x. d_prio x \<le> d_prio d) ds"
  have yz: "ds = ys @ zs" by (simp add: ys_def zs_def)
  have sp: "spec_add first d ds = (if first \<or> ys = [] then d # ds else ys @ d # zs)"
    unfolding spec_add_def ys_def [symmetric] zs_def [symmetric] using yz by simp
  have t': "t = (if first \<or> ys = [] then None else Some (d_rule (last ys)))" by (simp add: t add_target_def ys_def Let_def)
  show "grp_ok (rules (add_link g rl t h)) g (spec_add first d ds)"
  proof (cases "first \<or> ys = []")
    case True
    then show ?thesis using add_first_ok [OF g n r, folded d] by (simp add: add_link_def t' sp)
  next
    case False
    then have gg: "ds = butlast ys @ last ys # zs" using yz by simp
    have e: "spec_add first d ds = butlast ys @ last ys # d # zs"
      unfolding sp using False append_butlast_last_id [of ys] by (metis append.assoc append_Cons append_Nil)
    show ?thesis unfolding e
      using False add_after_ok [OF g [unfolded gg] n [unfolded gg] r, folded d] by (simp add: add_link_def t')
  qed
  have "d_rule (last ys) \<in> d_rule ` set ds" if "ys \<noteq> []" using that by (auto simp: yz)
  then show "x \<noteq> g \<Longrightarrow> x \<notin> d_rule ` set ds \<Longrightarrow> x \<noteq> rl \<Longrightarrow> rules (add_link g rl t h) x = rules h x"
    "r_name (rules (add_link g rl t h) g) = r_name (rules h g)"
    by (auto simp: add_link_def t' add_first_def add_after_def rule_upd_def)
qed

lemma set_spec_add [simp]: "set (spec_add first d ds) = insert d (set ds)"
proof -
  have "set ds = set (takeWhile P ds) \<union> set (dropWhile P ds)" for P by (metis set_append takeWhile_dropWhile_id)
  then show ?thesis by (auto simp: spec_add_def)
qed

lemma add_refines:
  assumes i: "dyn_inv look rs h c G" and n: "rl \<notin> set (rs_all rs @ rs_gc rs)"
  shows "\<exists>e rs' h' c' G'. run_op (Add name rl r) rs h = Some (e, rs', h') \<and> spec_op look (Add name rl r) (c, G) = (e, c', G') \<and>
    dyn_inv look rs' h' c' G' \<and> set (rs_all rs' @ rs_gc rs') \<subseteq> insert rl (set (rs_all rs @ rs_gc rs))"
proof -
  define h1 where "h1 = rule_upd rl (\<lambda>_. r) h"
  have i1: "dyn_inv look rs h1 c G" unfolding h1_def by (rule dyn_inv_alloc [OF i]) (use n in simp)
  then have look: "npf_ruleset_lookup rs name h1 = look name" and dyn: "set (rs_dynamic rs) \<subseteq> set (rs_all rs)"
    and c: "rs_idcnt rs = c" by (simp_all add: dyn_inv_def)
  have rl: "rules h1 rl = r" by (simp add: h1_def rule_upd_def)
  consider "\<not> NPF_DYNAMIC_RULE_P (r_attr r)" | "NPF_DYNAMIC_RULE_P (r_attr r)" "look name = None"
    | g where "NPF_DYNAMIC_RULE_P (r_attr r)" "look name = Some g" by blast
  then show ?thesis
  proof cases
    case 3
    have gd: "g \<in> set (rs_dynamic rs)" using lookup_in look 3(2) by metis
    define h2 where "h2 = rule_upd rl (\<lambda>x. x\<lparr> r_id := c + 1, r_parent := Some g, r_priority := max 0 (r_priority r) \<rparr>) h1"
    define rs' where "rs' = rs\<lparr> rs_idcnt := c + 1, rs_all := rl # rs_all rs \<rparr>"
    define d where "d = \<lparr> d_rule = rl, d_id = c + 1, d_prio = max 0 (r_priority r), d_key = r_key r \<rparr>"
    let ?t = "add_target (r_priority r = NPF_PRI_FIRST) (d_prio d) (G g)"
    have mem: "d_rule ` set (G g) \<subseteq> set (rs_all rs)" "grp_ok (rules h1) g (G g)" using i1 gd by (auto simp: dyn_inv_def)
    have n2: "rl \<notin> d_rule ` set (G g)" "rl \<noteq> g" using mem n gd dyn by auto
    have v: "d = rule_view (rules h2) rl" "r_priority (rules h2 rl) = d_prio d"
      by (simp_all add: rule_view_def h2_def rule_upd_def d_def rl)
    have p2: "r_parent (rules h2 rl) = Some g" "NPF_DYNAMIC_RULE_P (r_attr (rules h2 rl))"
      using 3(1) by (simp_all add: h2_def rule_upd_def rl)
    have g2: "grp_ok (rules h2) g (G g)"
      by (rule iffD2 [OF grp_ok_cong mem(2)]) (use n2 in \<open>auto simp: h2_def rule_upd_def\<close>)
    note S = npf_ruleset_add_def rl h1_def [symmetric] look Let_def rs'_def c 3
    have run: "run_op (Add name rl r) rs h = Some (None, rs', add_link g rl ?t h2)"
    proof (cases "r_priority r = NPF_PRI_FIRST")
      case False
      then show ?thesis
        using add_find_group [OF g2] v(2) by (simp add: S h2_def [symmetric] add_link_def add_after_def split: option.split)
    qed (simp add: S h2_def add_link_def add_target_def)
    note L = add_link_ok [OF g2 n2 p2 v(1) refl, where first = "r_priority r = NPF_PRI_FIRST"]
    have "dyn_inv look rs' (add_link g rl ?t h2) (c + 1) (G(g := spec_add (r_priority r = NPF_PRI_FIRST) d (G g)))"
    proof (rule dyn_inv_step [OF i1 gd _ _ L(1)])
      fix x assume "x \<noteq> g" "x \<notin> d_rule ` set (G g)" "x \<in> set (rs_all rs)"
      then show "rules (add_link g rl ?t h2) x = rules h1 x" using L(2) [of x] n by (auto simp: h2_def rule_upd_def)
    qed (use L(3) i n n2 mem in \<open>auto simp: rs'_def dyn_inv_def h2_def rule_upd_def d_def\<close>)
    moreover have "set (rs_all rs' @ rs_gc rs') \<subseteq> insert rl (set (rs_all rs @ rs_gc rs))" by (auto simp: rs'_def)
    ultimately show ?thesis using run 3 by (auto simp: d_def)
  qed (use i1 in \<open>auto simp: npf_ruleset_add_def rl h1_def [symmetric] look\<close>)
qed

text \<open>Removal of a rule.\<close>

lemma unlink_ok:
  assumes g: "grp_ok (rules h) g (as @ d # bs)" and u: "npf_ruleset_unlink rs (d_rule d) (last_opt None (map d_rule as)) h = (rs', h')"
  shows "grp_ok (rules h') g (as @ bs)"
    "\<And>x. x \<noteq> g \<Longrightarrow> x \<notin> d_rule ` set (as @ d # bs) \<Longrightarrow> rules h' x = rules h x" "r_name (rules h' g) = r_name (rules h g)"
proof -
  have p: "r_parent (rules h (d_rule d)) = Some g" using g by (simp add: grp_ok_def)
  have l: "rlist (rules h) (r_subset (rules h g)) (map d_rule as @ d_rule d # map d_rule bs)" using g by (simp add: grp_ok_def)
  have "links_only (rules h) (rules h')"
    using u by (auto simp: npf_ruleset_unlink_def links_only_def rule_upd_def split: option.splits)
  moreover have "rlist (rules h') (r_subset (rules h' g)) (map d_rule (as @ bs))"
  proof (cases as rule: rev_cases)
    case Nil
    then have h': "h' = rule_upd g (\<lambda>r. r\<lparr> r_subset := r_next (rules h (d_rule d)) \<rparr>) h"
      using u p by (auto simp: npf_ruleset_unlink_def)
    have "rseg (rules h) q (map d_rule bs) None = rseg (rules h') q (map d_rule bs) None" for q
      by (rule rseg_cong) (auto simp: h' rule_upd_def)
    then show ?thesis using l Nil by (simp add: h' rule_upd_def)
  next
    case (snoc as' a)
    then have h': "h' = rule_upd (d_rule a) (\<lambda>r. r\<lparr> r_next := r_next (rules h (d_rule d)) \<rparr>) h"
      using u by (auto simp: npf_ruleset_unlink_def last_opt_def)
    have "rlist (rules h') (r_subset (rules h g)) (map d_rule as' @ d_rule a # map d_rule bs)"
      by (rule rlist_remove [of "rules h" _ _ _ "d_rule d"]) (use l snoc in \<open>auto simp: h' rule_upd_def\<close>)
    moreover have "r_subset (rules h' g) = r_subset (rules h g)" by (simp add: h' rule_upd_def)
    ultimately show ?thesis by (simp add: snoc)
  qed
  ultimately show "grp_ok (rules h') g (as @ bs)"
    by (rule grp_ok_relink [rotated]) (use g in \<open>auto simp: grp_ok_def\<close>)
  have "last_opt None (map d_rule as) = Some x \<Longrightarrow> x \<in> d_rule ` set as" for x by (auto simp: last_opt_def last_map split: if_splits)
  then show "\<And>x. x \<noteq> g \<Longrightarrow> x \<notin> d_rule ` set (as @ d # bs) \<Longrightarrow> rules h' x = rules h x" "r_name (rules h' g) = r_name (rules h g)"
    using u p by (auto simp: npf_ruleset_unlink_def rule_upd_def split: option.splits)
qed

lemma remove_found_refines:
  assumes i: "dyn_inv look rs h c G" and g: "g \<in> set (rs_dynamic rs)" and ds: "G g = as @ d # bs"
  shows "\<exists>rs' h'. remove_found rs (Some (last_opt None (map d_rule as), d_rule d)) h = (None, rs', h') \<and>
    dyn_inv look rs' h' c (G(g := as @ bs)) \<and> set (rs_all rs' @ rs_gc rs') \<subseteq> set (rs_all rs @ rs_gc rs)"
proof -
  obtain rs1 h' where u: "npf_ruleset_unlink rs (d_rule d) (last_opt None (map d_rule as)) h = (rs1, h')" by fastforce
  then have rs1: "rs1 = rs\<lparr> rs_all := remove1 (d_rule d) (rs_all rs) \<rparr>" by (simp add: npf_ruleset_unlink_def)
  have "grp_ok (rules h) g (G g)" "d_rule ` set (G g) \<subseteq> set (rs_all rs)" using i g by (simp_all add: dyn_inv_def)
  then have ok: "grp_ok (rules h) g (as @ d # bs)" "d_rule ` set (G g) \<subseteq> set (rs_all rs)" by (simp_all only: ds)
  have "rlist (rules h) (r_subset (rules h g)) (map d_rule (as @ d # bs))" using ok(1) unfolding grp_ok_def by blast
  then have dist: "distinct (map d_rule (as @ d # bs))" by (rule rlist_distinct)
  have rd: "distinct (rs_all rs @ rs_gc rs)" using i by (simp add: dyn_inv_def)
  let ?rs = "rs1\<lparr> rs_gc := d_rule d # rs_gc rs1 \<rparr>"
  have d: "d_rule d \<in> set (rs_all rs)" "d_rule d \<notin> d_rule ` set (as @ bs)" using ok(2) dist by (auto simp: ds)
  note U = unlink_ok [OF ok(1) u]
  have sub: "d_rule ` set (as @ bs) \<subseteq> set (rs_all ?rs)"
  proof
    fix x assume x: "x \<in> d_rule ` set (as @ bs)"
    then have "x \<noteq> d_rule d" "x \<in> set (rs_all rs)" using d(2) ok(2) by (blast, auto simp: ds)
    then show "x \<in> set (rs_all ?rs)" by (simp add: rs1)
  qed
  have "dyn_inv look ?rs h' c (G(g := as @ bs))"
    by (rule dyn_inv_step [OF i g _ U(3,1) _ _ _ sub]) (use U(2) i rd d in \<open>auto simp: ds rs1 dyn_inv_def\<close>)
  moreover have "set (rs_all ?rs @ rs_gc ?rs) \<subseteq> set (rs_all rs @ rs_gc rs)" using d rd by (auto simp: rs1)
  ultimately show ?thesis by (auto simp: remove_found_def u)
qed

lemma remove_first_split:
  "\<forall>x \<in> set as. \<not> P x \<Longrightarrow> P d \<Longrightarrow> remove_first P (as @ d # bs) = as @ bs"
  by (induction as) (auto simp: remove_first_def)

lemma grp_views:
  assumes "grp_ok h g ds" "d \<in> set ds"
  shows "r_id (h (d_rule d)) = d_id d" "r_key (h (d_rule d)) = d_key d"
proof -
  have "rule_view h (d_rule d) = d" using assms by (simp add: grp_ok_def)
  then have "d_id (rule_view h (d_rule d)) = d_id d" "d_key (rule_view h (d_rule d)) = d_key d" by simp_all
  then show "r_id (h (d_rule d)) = d_id d" "r_key (h (d_rule d)) = d_key d" by (simp_all add: rule_view_def)
qed

lemma remove_refines:
  assumes i: "dyn_inv look rs h c G"
  shows "\<exists>e rs' h' c' G'. run_op (Remove name rid) rs h = Some (e, rs', h') \<and> spec_op look (Remove name rid) (c, G) = (e, c', G') \<and>
    dyn_inv look rs' h' c' G' \<and> set (rs_all rs' @ rs_gc rs') \<subseteq> set (rs_all rs @ rs_gc rs)"
proof (cases "look name")
  case None
  then show ?thesis using i by (auto simp: npf_ruleset_remove_def dyn_inv_def)
next
  case (Some g)
  have look: "npf_ruleset_lookup rs name h = Some g" using i Some by (simp add: dyn_inv_def)
  then have g: "g \<in> set (rs_dynamic rs)" by (rule lookup_in)
  then have ok: "grp_ok (rules h) g (G g)" using i by (simp add: dyn_inv_def)
  have tw: "takeWhile (\<lambda>x. r_id (rules h x) \<noteq> rid) (map d_rule (G g)) = map d_rule (takeWhile (\<lambda>d. d_id d \<noteq> rid) (G g))"
    "dropWhile (\<lambda>x. r_id (rules h x) \<noteq> rid) (map d_rule (G g)) = map d_rule (dropWhile (\<lambda>d. d_id d \<noteq> rid) (G g))"
    by (rule takeWhile_view; use grp_views(1) [OF ok] in simp)+
  have "rlist (rules h) (r_subset (rules h g)) (map d_rule (G g))" using ok by (simp add: grp_ok_def)
  note find = remove_find_list [OF this, of rid None, unfolded tw]
  show ?thesis
  proof (cases "dropWhile (\<lambda>d. d_id d \<noteq> rid) (G g)")
    case Nil
    then have "\<not> (\<exists>d \<in> set (G g). d_id d = rid)" by auto
    then show ?thesis using i find Nil look Some by (auto simp: npf_ruleset_remove_def remove_found_def)
  next
    case (Cons d bs)
    let ?as = "takeWhile (\<lambda>d. d_id d \<noteq> rid) (G g)"
    have ds: "G g = ?as @ d # bs" by (metis Cons takeWhile_dropWhile_id)
    have d: "d_id d = rid" using hd_dropWhile [of "\<lambda>d. d_id d \<noteq> rid" "G g"] Cons by auto
    have rf: "remove_first (\<lambda>d. d_id d = rid) (G g) = ?as @ bs"
      by (simp add: remove_first_def Cons)
    have "d \<in> set (G g)" using Cons by (metis list.set_intros(1) set_dropWhileD)
    then show ?thesis
      using remove_found_refines [OF i g ds] find Cons look Some d rf by (auto simp: npf_ruleset_remove_def)
  qed
qed

lemma remkey_refines:
  assumes i: "dyn_inv look rs h c G"
  shows "\<exists>e rs' h' c' G'. run_op (Remkey name key) rs h = Some (e, rs', h') \<and> spec_op look (Remkey name key) (c, G) = (e, c', G') \<and>
    dyn_inv look rs' h' c' G' \<and> set (rs_all rs' @ rs_gc rs') \<subseteq> set (rs_all rs @ rs_gc rs)"
proof (cases "look name")
  case None
  then show ?thesis using i by (auto simp: npf_ruleset_remkey_def dyn_inv_def)
next
  case (Some g)
  have look: "npf_ruleset_lookup rs name h = Some g" using i Some by (simp add: dyn_inv_def)
  then have g: "g \<in> set (rs_dynamic rs)" by (rule lookup_in)
  then have ok: "grp_ok (rules h) g (G g)" using i by (simp add: dyn_inv_def)
  let ?m = "\<lambda>d. take (length key) (d_key d) = key"
  have "rlist (rules h) (r_subset (rules h g)) (map d_rule (G g))" using ok by (simp add: grp_ok_def)
  from remkey_find_list [OF this, of key None None] obtain r where
    r: "remkey_find (rules h) key (r_subset (rules h g)) None None = Some r"
    and "(\<forall>x \<in> set (map d_rule (G g)). take (length key) (r_key (rules h x)) \<noteq> key) \<and> r = None \<or>
      (\<exists>as x bs. map d_rule (G g) = as @ x # bs \<and> take (length key) (r_key (rules h x)) = key \<and>
        (\<forall>x \<in> set bs. take (length key) (r_key (rules h x)) \<noteq> key) \<and> r = Some (last_opt None as, x))" by blast
  then consider "\<forall>d \<in> set (G g). \<not> ?m d" "r = None"
    | as d bs where "G g = as @ d # bs" "?m d" "\<forall>d \<in> set bs. \<not> ?m d" "r = Some (last_opt None (map d_rule as), d_rule d)"
    using grp_views(2) [OF ok] by (fastforce simp: map_eq_append_conv map_eq_Cons_conv Cons_eq_map_conv)
  then show ?thesis
  proof cases
    case 1
    then show ?thesis using i r look Some by (auto simp: npf_ruleset_remkey_def remove_found_def)
  next
    case 2
    have "rev (remove_first ?m (rev (G g))) = as @ bs"
      using remove_first_split [of "rev bs" ?m d "rev as"] 2 by simp
    moreover have "\<exists>d \<in> set (G g). ?m d" using 2 by auto
    ultimately show ?thesis
      using remove_found_refines [OF i g 2(1)] r 2(4) look Some by (auto simp: npf_ruleset_remkey_def)
  qed
qed

lemma fold_remove1: "distinct ys \<Longrightarrow> distinct (fold remove1 xs ys) \<and> set (fold remove1 xs ys) = set ys - set xs"
  by (induction xs arbitrary: ys) auto

lemma flush_refines:
  assumes i: "dyn_inv look rs h c G"
  shows "\<exists>e rs' h' c' G'. run_op (Flush name) rs h = Some (e, rs', h') \<and> spec_op look (Flush name) (c, G) = (e, c', G') \<and>
    dyn_inv look rs' h' c' G' \<and> set (rs_all rs' @ rs_gc rs') \<subseteq> set (rs_all rs @ rs_gc rs)"
proof (cases "look name")
  case None
  then show ?thesis using i by (auto simp: npf_ruleset_flush_def dyn_inv_def)
next
  case (Some g)
  have look: "npf_ruleset_lookup rs name h = Some g" using i Some by (simp add: dyn_inv_def)
  then have g: "g \<in> set (rs_dynamic rs)" by (rule lookup_in)
  then have ok: "grp_ok (rules h) g (G g)" "d_rule ` set (G g) \<subseteq> set (rs_all rs)" using i by (simp_all add: dyn_inv_def)
  let ?xs = "map d_rule (G g)" and ?h = "rule_upd g (\<lambda>r. r\<lparr> r_subset := None \<rparr>) h"
  let ?rs = "rs\<lparr> rs_all := fold remove1 (map d_rule (G g)) (rs_all rs), rs_gc := rev (map d_rule (G g)) @ rs_gc rs, rs_idcnt := 0 \<rparr>"
  have l: "rlist (rules h) (r_subset (rules h g)) ?xs" using ok by (simp add: grp_ok_def)
  have dist: "distinct (rs_all rs @ rs_gc rs)" "distinct ?xs" using i rlist_distinct [OF l] by (simp_all add: dyn_inv_def)
  then have f: "distinct (fold remove1 ?xs (rs_all rs))" "set (fold remove1 ?xs (rs_all rs)) = set (rs_all rs) - set ?xs"
    using fold_remove1 by auto
  have d: "distinct (rs_all ?rs @ rs_gc ?rs)" "set (rs_all ?rs @ rs_gc ?rs) \<subseteq> set (rs_all rs @ rs_gc rs)"
    using f dist ok(2) by auto
  have "dyn_inv look ?rs ?h 0 (G(g := []))"
    by (rule dyn_inv_step [OF i g _ _ _ _ _ d(1)]) (use ok f in \<open>auto simp: grp_ok_def rule_upd_def\<close>)
  then show ?thesis using look Some d(2) flush_loop_list [OF l] by (auto simp: npf_ruleset_flush_def)
qed

section \<open>Sequences of operations\<close>

lemma flush_dynamic: "flush_loop h rl rs = Some rs' \<Longrightarrow> rs_dynamic rs' = rs_dynamic rs"
proof (induction rule: flush_loop.raw_induct [rotated, consumes 1])
  case (1 f h rl rs r)
  then show ?case by (cases rl) fastforce+
qed

lemma remove_found_dynamic: "remove_found rs found h = (e, rs', h') \<Longrightarrow> rs_dynamic rs' = rs_dynamic rs"
  by (cases found) (auto simp: remove_found_def npf_ruleset_unlink_def)

lemma op_dynamic: "run_op op rs h = Some (e, rs', h') \<Longrightarrow> rs_dynamic rs' = rs_dynamic rs"
  by (cases op) (auto simp: npf_ruleset_add_def npf_ruleset_remove_def npf_ruleset_remkey_def npf_ruleset_flush_def Let_def
    flush_dynamic dest: remove_found_dynamic split: if_splits option.splits)

fun run_ops :: "'a dynop list \<Rightarrow> npf_ruleset \<Rightarrow> 'a rule_mem \<Rightarrow> (errno option list \<times> npf_ruleset \<times> 'a rule_mem) option" where
  "run_ops [] rs h = Some ([], rs, h)"
| "run_ops (op # ops) rs h =
    (case run_op op rs h of
       None \<Rightarrow> None
     | Some (e, rs, h) \<Rightarrow> (case run_ops ops rs h of None \<Rightarrow> None | Some (es, s) \<Rightarrow> Some (e # es, s)))"

fun spec_ops ::
  "(string \<Rightarrow> nat option) \<Rightarrow> 'a dynop list \<Rightarrow> u64 \<times> (nat \<Rightarrow> dynrule list) \<Rightarrow> errno option list \<times> u64 \<times> (nat \<Rightarrow> dynrule list)" where
  "spec_ops look [] s = ([], s)"
| "spec_ops look (op # ops) s = (let (e, s) = spec_op look op s; (es, s) = spec_ops look ops s in (e # es, s))"

lemma op_refines:
  assumes "dyn_inv look rs h c G" "set (op_rules op) \<inter> set (rs_all rs @ rs_gc rs) = {}"
  shows "\<exists>e rs' h' c' G'. run_op op rs h = Some (e, rs', h') \<and> spec_op look op (c, G) = (e, c', G') \<and>
    dyn_inv look rs' h' c' G' \<and> set (rs_all rs' @ rs_gc rs') \<subseteq> set (op_rules op) \<union> set (rs_all rs @ rs_gc rs)"
proof (cases op)
  case (Add name rl r)
  then show ?thesis using add_refines [OF assms(1), of rl name r] assms(2) by auto
next
  case (Remove name rid)
  then show ?thesis using remove_refines [OF assms(1), of name rid] by simp
next
  case (Remkey name key)
  then show ?thesis using remkey_refines [OF assms(1), of name key] by simp
next
  case (Flush name)
  then show ?thesis using flush_refines [OF assms(1), of name] by simp
qed

lemma ops_refine:
  assumes "dyn_inv look rs h c G" "distinct (concat (map op_rules ops))"
    "set (concat (map op_rules ops)) \<inter> set (rs_all rs @ rs_gc rs) = {}"
  shows "\<exists>es rs' h' c' G'. run_ops ops rs h = Some (es, rs', h') \<and> spec_ops look ops (c, G) = (es, c', G') \<and>
    dyn_inv look rs' h' c' G' \<and> rs_dynamic rs' = rs_dynamic rs \<and>
    set (rs_all rs' @ rs_gc rs') \<subseteq> set (concat (map op_rules ops)) \<union> set (rs_all rs @ rs_gc rs)"
  using assms
proof (induction ops arbitrary: rs h c G)
  case (Cons op ops)
  have "set (op_rules op) \<inter> set (rs_all rs @ rs_gc rs) = {}" using Cons.prems(3) by auto
  from op_refines [OF Cons.prems(1) this]
  obtain e rs' h' c' G' where s: "run_op op rs h = Some (e, rs', h')" "spec_op look op (c, G) = (e, c', G')"
    "dyn_inv look rs' h' c' G'" "set (rs_all rs' @ rs_gc rs') \<subseteq> set (op_rules op) \<union> set (rs_all rs @ rs_gc rs)"
    by blast
  note dy = op_dynamic [OF s(1)]
  have "distinct (concat (map op_rules ops))" "set (concat (map op_rules ops)) \<inter> set (rs_all rs' @ rs_gc rs') = {}"
    using Cons.prems(2,3) s(4) by (simp, fastforce)
  from Cons.IH [OF s(3) this] obtain es rs2 h2 c2 G2 where "run_ops ops rs' h' = Some (es, rs2, h2)"
    "spec_ops look ops (c', G') = (es, c2, G2)" "dyn_inv look rs2 h2 c2 G2" "rs_dynamic rs2 = rs_dynamic rs'"
    "set (rs_all rs2 @ rs_gc rs2) \<subseteq> set (concat (map op_rules ops)) \<union> set (rs_all rs' @ rs_gc rs')"
    by blast
  then show ?case using s dy by fastforce
qed simp

section \<open>The order of the lists\<close>

definition prio_sorted :: "dynrule list \<Rightarrow> bool" where
  "prio_sorted ds \<longleftrightarrow> sorted (map d_prio ds) \<and> (\<forall>d \<in> set ds. 0 \<le> d_prio d)"

lemma remove_first_Cons: "remove_first P (x # xs) = (if P x then xs else x # remove_first P xs)"
  by (simp add: remove_first_def)

lemma set_remove_first: "set (remove_first P xs) \<subseteq> set xs"
  by (induction xs) (auto simp: remove_first_Cons, simp add: remove_first_def)

lemma remove_first_sorted: "sorted_wrt R (map f xs) \<Longrightarrow> sorted_wrt R (map f (remove_first P xs))"
proof (induction xs)
  case (Cons x xs)
  then show ?case using set_remove_first [of P xs] by (auto simp: remove_first_Cons)
qed (simp add: remove_first_def)

lemma spec_add_sorted:
  assumes "prio_sorted ds" "0 \<le> d_prio d" "first \<Longrightarrow> d_prio d = 0"
  shows "prio_sorted (spec_add first d ds)"
proof (cases first)
  case True
  then show ?thesis using assms by (auto simp: prio_sorted_def spec_add_def)
next
  case False
  define ys where "ys = takeWhile (\<lambda>x. d_prio x \<le> d_prio d) ds"
  define zs where "zs = dropWhile (\<lambda>x. d_prio x \<le> d_prio d) ds"
  have yz: "ds = ys @ zs" by (simp add: ys_def zs_def)
  have y: "d_prio x \<le> d_prio d" if "x \<in> set ys" for x using that by (auto simp: ys_def dest: set_takeWhileD)
  have "sorted (map d_prio zs)" using assms(1) by (simp add: yz prio_sorted_def sorted_append)
  moreover have "d_prio d < d_prio (hd zs)" if "zs \<noteq> []" using hd_dropWhile [of "\<lambda>x. d_prio x \<le> d_prio d" ds] that by (simp add: zs_def)
  ultimately have z: "d_prio d \<le> d_prio x" if "x \<in> set zs" for x using that by (cases zs) auto
  have sp: "spec_add first d ds = ys @ d # zs" using False by (simp add: spec_add_def ys_def zs_def)
  have "sorted (map d_prio ys)" "sorted (map d_prio zs)" "\<forall>x \<in> set ys. \<forall>x' \<in> set zs. d_prio x \<le> d_prio x'"
    "\<forall>x \<in> set ys. 0 \<le> d_prio x" "\<forall>x \<in> set zs. 0 \<le> d_prio x"
    using assms(1) by (auto simp: yz prio_sorted_def sorted_append)
  then show ?thesis unfolding sp prio_sorted_def using y z assms(2) by (auto simp: sorted_append)
qed

lemma spec_op_sorted:
  assumes "\<forall>g. prio_sorted (G g)" "spec_op look op (c, G) = (e, c', G')"
  shows "\<forall>g. prio_sorted (G' g)"
proof -
  have r: "prio_sorted (remove_first P ds)" "prio_sorted (rev (remove_first P (rev ds)))" if "prio_sorted ds" for P ds
    using that remove_first_sorted [of "(\<le>)" d_prio ds P] remove_first_sorted [of "(\<ge>)" d_prio "rev ds" P] set_remove_first [of P]
    by (auto simp: prio_sorted_def sorted_wrt_rev rev_map [symmetric], fastforce+)
  show ?thesis
  proof (cases op)
    case (Add name rl r)
    then show ?thesis using assms spec_add_sorted by (auto split: if_splits option.splits simp del: not_None_eq)
  qed (use assms r in \<open>auto simp: prio_sorted_def [of "[]"] split: if_splits option.splits\<close>)
qed

lemma spec_ops_sorted:
  "\<forall>g. prio_sorted (G g) \<Longrightarrow> spec_ops look ops (c, G) = (es, c', G') \<Longrightarrow> prio_sorted (G' g)"
proof (induction ops arbitrary: c G es)
  case (Cons op ops)
  obtain e c1 G1 where s: "spec_op look op (c, G) = (e, c1, G1)" by (metis prod_cases3)
  then obtain es1 where "spec_ops look ops (c1, G1) = (es1, c', G')" using Cons.prems(2) by (auto simp: Let_def split: prod.splits)
  then show ?case using Cons.IH spec_op_sorted [OF Cons.prems(1) s] by blast
qed simp

section \<open>Loading\<close>

definition insert_all :: "nat list \<Rightarrow> npf_ruleset \<times> 'a rule_mem \<Rightarrow> npf_ruleset \<times> 'a rule_mem" where
  "insert_all rls s = fold (\<lambda>rl (rs, h). npf_ruleset_insert rs rl h) rls s"

lemma insert_all_simps [simp]:
  "insert_all [] s = s" "insert_all (rl # rls) (rs, h) = insert_all rls (npf_ruleset_insert rs rl h)"
  by (simp_all add: insert_all_def)

lemma insert_inv:
  assumes "dyn_inv look rs h c (\<lambda>_. [])" "rl \<notin> set (rs_all rs @ rs_gc rs)" "r_subset (rules h rl) = None"
    and "npf_ruleset_insert rs rl h = (rs', h')"
  shows "dyn_inv (\<lambda>name. npf_ruleset_lookup rs' name h') rs' h' (c + 1) (\<lambda>_. [])" "rs_all rs' = rl # rs_all rs" "rs_gc rs' = rs_gc rs"
    "\<And>x. x \<noteq> rl \<Longrightarrow> rules h' x = rules h x"
proof -
  show 1: "rs_all rs' = rl # rs_all rs" "rs_gc rs' = rs_gc rs" "\<And>x. x \<noteq> rl \<Longrightarrow> rules h' x = rules h x"
    using assms(4) by (auto simp: npf_ruleset_insert_def Let_def rule_upd_def split: if_splits)
  have 2: "rs_idcnt rs' = c + 1" "set (rs_dynamic rs') \<subseteq> insert rl (set (rs_dynamic rs))"
    "rl \<in> set (rs_dynamic rs') \<Longrightarrow> rl \<notin> set (rs_dynamic rs) \<Longrightarrow> NPF_DYNAMIC_GROUP_P (r_attr (rules h' rl)) \<and> r_subset (rules h' rl) = None"
    using assms(1,3,4) by (auto simp: npf_ruleset_insert_def Let_def rule_upd_def dyn_inv_def split: if_splits)
  have n: "rl \<notin> set (rs_dynamic rs)" using assms(1,2) by (auto simp: dyn_inv_def)
  have "NPF_DYNAMIC_GROUP_P (r_attr (rules h' g)) \<and> r_subset (rules h' g) = None" if g: "g \<in> set (rs_dynamic rs')" for g
  proof (cases "g = rl")
    case False
    then have "g \<in> set (rs_dynamic rs)" using g 2(2) by auto
    then show ?thesis using assms(1) 1(3) [OF False] by (auto simp: dyn_inv_def grp_ok_def)
  qed (use 2(3) n g in simp)
  then show "dyn_inv (\<lambda>name. npf_ruleset_lookup rs' name h') rs' h' (c + 1) (\<lambda>_. [])"
    using assms(1,2) 1(1,2) 2(1,2) unfolding dyn_inv_def grp_ok_def by auto
qed

lemma insert_all_inv:
  assumes "dyn_inv look rs h c (\<lambda>_. [])" "distinct rls" "set rls \<inter> set (rs_all rs @ rs_gc rs) = {}"
    "\<forall>rl \<in> set rls. r_subset (rules h rl) = None" "insert_all rls (rs, h) = (rs', h')"
  shows "\<exists>c. dyn_inv (\<lambda>name. npf_ruleset_lookup rs' name h') rs' h' c (\<lambda>_. []) \<and>
    set (rs_all rs' @ rs_gc rs') = set rls \<union> set (rs_all rs @ rs_gc rs)"
  using assms
proof (induction rls arbitrary: look rs h c)
  case Nil
  then show ?case by (auto simp: dyn_inv_def)
next
  case (Cons rl rls)
  obtain rs1 h1 where s: "npf_ruleset_insert rs rl h = (rs1, h1)" by fastforce
  have n: "rl \<notin> set (rs_all rs @ rs_gc rs)" "r_subset (rules h rl) = None" using Cons.prems by auto
  note I = insert_inv [OF Cons.prems(1) n s]
  have "\<exists>c. dyn_inv (\<lambda>name. npf_ruleset_lookup rs' name h') rs' h' c (\<lambda>_. []) \<and>
      set (rs_all rs' @ rs_gc rs') = set rls \<union> set (rs_all rs1 @ rs_gc rs1)"
  proof (rule Cons.IH [OF I(1)])
    show "\<forall>x \<in> set rls. r_subset (rules h1 x) = None" using Cons.prems(2,4) I(4) by (metis distinct.simps(2) list.set_intros(2))
  qed (use Cons.prems s I(2,3) in auto)
  then show ?case using I(2,3) by auto
qed

lemma loaded_inv:
  assumes "insert_all rls (npf_ruleset_create n, h0) = (rs, h)" "distinct rls" "\<forall>rl \<in> set rls. r_subset (rules h0 rl) = None"
  obtains c where "dyn_inv (\<lambda>name. npf_ruleset_lookup rs name h) rs h c (\<lambda>_. [])" "set (rs_all rs @ rs_gc rs) = set rls"
proof -
  have i0: "dyn_inv (\<lambda>_. None) (npf_ruleset_create n) h0 0 (\<lambda>_. [])"
    by (simp add: dyn_inv_def npf_ruleset_create_def npf_ruleset_lookup_def)
  show thesis using insert_all_inv [OF i0 assms(2) _ assms(3,1)] that by (auto simp: npf_ruleset_create_def)
qed

section \<open>Properties\<close>


text \<open>A ruleset with two dynamic groups, and rules to add.\<close>

definition ex_group :: "string \<Rightarrow> unit npf_rule" where
  "ex_group name = rule_zero\<lparr> r_attr := NPF_RULE_DIMASK OR NPF_DYNAMIC_GROUP, r_name := name \<rparr>"

definition ex_dynamic :: "int \<Rightarrow> unit npf_rule" where
  "ex_dynamic prio = rule_zero\<lparr> r_attr := NPF_RULE_DIMASK OR NPF_RULE_DYNAMIC, r_priority := prio \<rparr>"

definition ex_groups :: "npf_ruleset \<times> unit rule_mem" where
  "ex_groups = insert_all [0, 1] (npf_ruleset_create 2,
     \<lparr> rules = (\<lambda>p. if p = 0 then ex_group ''a'' else ex_group ''b''), rules_freed = [] \<rparr>)"

definition ex_ops :: "unit dynop list" where
  "ex_ops = [Add ''a'' 2 (ex_dynamic 5), Add ''a'' 3 (ex_dynamic 1), Add ''a'' 4 (ex_dynamic NPF_PRI_FIRST), Remove ''a'' 3, Remove ''b'' 3]"



end
