(* ===== verification/NPF_Inspect.thy ===== *)
theory NPF_Inspect
  imports NPF_Ruleset
begin

text \<open>
  Inspection of a packet against a ruleset.  The array of rules with its skip offsets is a tree
  of groups; the loop with its jumps evaluates this tree, and it ends.
\<close>

section \<open>Trees of rules\<close>

text \<open>A rule with the rules inside it; only groups have any.\<close>

datatype rtree = RTree nat "rtree list"

fun flatten :: "rtree list \<Rightarrow> nat list" where
  "flatten [] = []"
| "flatten (RTree p us # ts) = p # flatten us @ flatten ts"

text \<open>The skip offsets of the rules: behind the tree of the rule.\<close>

fun laid_out :: "(nat \<Rightarrow> 'a npf_rule) \<Rightarrow> nat \<Rightarrow> rtree list \<Rightarrow> bool" where
  "laid_out h n [] \<longleftrightarrow> True"
| "laid_out h n (RTree p us # ts) \<longleftrightarrow>
     unat (r_skip_to (h p) AND SKIPTO_MASK) = n + 1 + length (flatten us) \<and> laid_out h (n + 1) us \<and>
     laid_out h (n + 1 + length (flatten us)) ts"

text \<open>
  Evaluation of a tree.  A group is a barrier: it ends the evaluation when a rule has matched
  before.  Rules inside a rule that does not match are not looked at.  The last match counts,
  unless a rule is final.  A dynamic group in which a rule matches ends the evaluation.
\<close>

datatype 'a outcome = Stop "nat option" | Next "nat option" 'a

type_synonym ('m, 'l, 'c) evaluation = "(bpf_fault + (('m, 'l, 'c) cop_arg bpf_args) outcome) option"

definition and_then ::
  "('m, 'l, 'c) evaluation \<Rightarrow> (nat option \<Rightarrow> ('m, 'l, 'c) cop_arg bpf_args \<Rightarrow> ('m, 'l, 'c) evaluation) \<Rightarrow> ('m, 'l, 'c) evaluation" where
  "and_then x f = (case x of Some (Inr (Next final ar)) \<Rightarrow> f final ar | _ \<Rightarrow> x)"

fun evaluate ::
  "(nat \<Rightarrow> ('m, 'l, 'c) cop_arg npf_rule) \<Rightarrow> u32 \<Rightarrow> u32 \<Rightarrow> rtree list \<Rightarrow> nat option \<Rightarrow> ('m, 'l, 'c) cop_arg bpf_args
   \<Rightarrow> ('m, 'l, 'c) evaluation" where
  "evaluate h di_mask ifid [] final ar = Some (Inr (Next final ar))"
| "evaluate h di_mask ifid (RTree p us # ts) final ar =
    (if r_attr (h p) AND NPF_RULE_GROUP \<noteq> 0 \<and> final \<noteq> None then Some (Inr (Stop final))
     else
       case npf_rule_inspect (h p) ar di_mask ifid of
         Inl f \<Rightarrow> Some (Inl f)
       | Inr (m, ar) \<Rightarrow>
           if \<not> m then evaluate h di_mask ifid ts final ar
           else if NPF_DYNAMIC_GROUP_P (r_attr (h p)) then
             (case npf_rule_reinspect h di_mask ifid p ar of
                None \<Rightarrow> None
              | Some (Inl f) \<Rightarrow> Some (Inl f)
              | Some (Inr (Some r, ar)) \<Rightarrow> Some (Inr (Stop (Some r)))
              | Some (Inr (None, ar)) \<Rightarrow>
                  if r_attr (h p) AND NPF_RULE_FINAL \<noteq> 0 then Some (Inr (Stop final))
                  else and_then (evaluate h di_mask ifid us final ar) (evaluate h di_mask ifid ts))
           else
             let final = (if r_attr (h p) AND NPF_RULE_GROUP = 0 then Some p else final) in
             if r_attr (h p) AND NPF_RULE_FINAL \<noteq> 0 then Some (Inr (Stop final))
             else and_then (evaluate h di_mask ifid us final ar) (evaluate h di_mask ifid ts))"

definition result :: "('m, 'l, 'c) evaluation \<Rightarrow> (bpf_fault + nat option) option" where
  "result x = map_option (map_sum id (\<lambda>oc. case oc of Stop final \<Rightarrow> final | Next final _ \<Rightarrow> final)) x"

section \<open>The loop evaluates the tree\<close>

definition continue_at ::
  "(nat \<Rightarrow> ('m, 'l, 'c) cop_arg npf_rule) \<Rightarrow> nat list \<Rightarrow> u32 \<Rightarrow> u32 \<Rightarrow> nat \<Rightarrow> ('m, 'l, 'c) evaluation \<Rightarrow> (bpf_fault + nat option) option" where
  "continue_at h rs di_mask ifid n x =
    (case x of
       Some (Inr (Next final ar)) \<Rightarrow> inspect_loop h rs di_mask ifid n final ar
     | _ \<Rightarrow> result x)"

lemma continue_at_simps [simp]:
  "continue_at h rs di_mask ifid n None = None"
  "continue_at h rs di_mask ifid n (Some (Inl f)) = Some (Inl f)"
  "continue_at h rs di_mask ifid n (Some (Inr (Stop final))) = Some (Inr final)"
  "continue_at h rs di_mask ifid n (Some (Inr (Next final ar))) = inspect_loop h rs di_mask ifid n final ar"
  by (simp_all add: continue_at_def result_def)

lemma continue_at_then:
  assumes "\<And>final ar. inspect_loop h rs di_mask ifid n final ar = continue_at h rs di_mask ifid n' (f final ar)"
  shows "continue_at h rs di_mask ifid n x = continue_at h rs di_mask ifid n' (and_then x f)"
  using assms by (auto simp: continue_at_def and_then_def result_def split: option.split sum.split outcome.split)

lemma inspect_loop_tree:
  assumes "laid_out h (length pre) ts" "rs = pre @ flatten ts @ post"
  shows "inspect_loop h rs di_mask ifid (length pre) final ar =
    continue_at h rs di_mask ifid (length pre + length (flatten ts)) (evaluate h di_mask ifid ts final ar)"
  using assms
proof (induction ts arbitrary: pre post final ar rule: flatten.induct)
  case (2 p us ts)
  let ?n = "length pre" and ?k = "length pre + 1 + length (flatten us)"
  have sk: "unat (r_skip_to (h p) AND SKIPTO_MASK) = ?k" using 2(3) by simp
  have inner: "inspect_loop h rs di_mask ifid (?n + 1) final ar = continue_at h rs di_mask ifid ?k (evaluate h di_mask ifid us final ar)" for final ar
    using 2(1) [of "pre @ [p]" "flatten ts @ post" final ar] 2(3,4) by simp
  have rest: "inspect_loop h rs di_mask ifid ?k final ar =
      continue_at h rs di_mask ifid (?k + length (flatten ts)) (evaluate h di_mask ifid ts final ar)" for final ar
    using 2(2) [of "pre @ [p] @ flatten us" post final ar] 2(3,4) by simp
  note seq = trans [OF inner continue_at_then [OF rest]]
  have len: "?n < length rs" "rs ! ?n = p" "?n + length (flatten (RTree p us # ts)) = ?k + length (flatten ts)" using 2(4) by simp_all
  show ?case
    unfolding len(3) evaluate.simps
    by (subst inspect_loop.simps)
      (use len seq rest sk in \<open>auto simp: Let_def split: sum.split option.split prod.split\<close>)
qed (simp add: continue_at_def)

lemma inspect_loop_result:
  assumes "laid_out h 0 ts"
  shows "inspect_loop h (flatten ts) di_mask ifid 0 None ar = result (evaluate h di_mask ifid ts None ar)"
proof -
  have "inspect_loop h (flatten ts) di_mask ifid (length (flatten ts)) final ar = Some (Inr final)" for final ar
    by (subst inspect_loop.simps) simp
  then show ?thesis
    using inspect_loop_tree [of h "[]" ts "flatten ts" "[]" di_mask ifid None ar] assms
    by (simp add: continue_at_def result_def split: option.split sum.split outcome.split)
qed

section \<open>Programs of rules\<close>

text \<open>Running a program keeps the packet and the memory words that are written.\<close>

lemma exec_args_ok:
  assumes "ctx_ok bc" "args_ok w (args s) ivm" "bpf_exec bc op i s = bpf_result.Go s'"
  shows "args_ok w (args s') ivm"
proof -
  have cop: "args_ok w (args s') ivm" if call: "call_cop bc s n = bpf_result.Go s'" for n
  proof -
    obtain c fns where c: "bc = Some c" "copfuncs c = Some fns" "unat n < nfuncs c"
      "args s' = snd ((fns ! unat n) (args s) (regA s))"
      using call by (auto simp: call_cop_def Let_def split: option.splits if_splits prod.splits)
    then have "cop_ok (fns ! unat n)" using assms(1) by (auto simp: ctx_ok_def)
    then show ?thesis unfolding c(4) by (rule cop_args_ok [OF _ assms(2)])
  qed
  have mem: "args_ok w (args s') ivm" if "store_mem s k v = bpf_result.Go s'" for k v
    using that assms(2) by (auto simp: store_mem_def args_ok_def nth_list_update split: if_splits)
  show ?thesis
    using assms cop mem
    by (cases op) (auto simp: Let_def load_pkt_def load_mem_def jump_def split: if_splits option.splits sum.splits)
qed

lemma run_args_ok:
  "bpf_run bc f s = Inr (v, ar) \<Longrightarrow> ctx_ok bc \<Longrightarrow> args_ok w (args s) ivm \<Longrightarrow> args_ok w ar ivm"
proof (induction bc f s rule: bpf_run.induct)
  case (1 bc f s)
  show ?case
  proof (cases "bpf_step bc (f ! pc s) s")
    case (Go s')
    then obtain op where "bpf_exec bc op (f ! pc s) (s\<lparr> pc := pc s + 1 \<rparr>) = bpf_result.Go s'"
      by (auto simp: bpf_step_def split: option.splits)
    from exec_args_ok [OF 1(3) _ this] have "args_ok w (args s') ivm" using 1(4) by simp
    then show ?thesis using 1 Go by (simp add: bpf_run.simps [of bc f s] split: if_splits)
  qed (use 1 in \<open>simp_all add: bpf_run.simps [of bc f s] split: if_splits\<close>)
qed

text \<open>
  A rule whose program was validated, and whose compiled code, if any, does what the program
  does.
\<close>

abbreviation bpf_args_ok :: "('m, 'l, 'c) cop_arg bpf_args \<Rightarrow> bool" where
  "bpf_args_ok ar \<equiv> args_ok 3 ar (NOT 7)"

definition rule_safe :: "('m, 'l, 'c) cop_arg npf_rule \<Rightarrow> bool" where
  "rule_safe r \<longleftrightarrow>
     (\<forall>code. r_code r = Some code \<longrightarrow> npf_bpf_validate (bpf_insns code) \<and> (\<forall>i \<in> set (bpf_insns code). insn_defined i) \<and>
        (\<forall>f ar. r_jcode r = Some f \<longrightarrow> bpf_args_ok ar \<longrightarrow>
           bpf_filter_ext (Some npf_bpf_sysinit) (Some (bpf_insns code)) ar = Inr (f ar)))"

lemma rule_inspect_safe:
  fixes ar :: "('m, 'l, 'c) cop_arg bpf_args"
  assumes r: "rule_safe r" and a: "bpf_args_ok ar"
  shows "\<exists>m ar'. npf_rule_inspect r ar di_mask ifid = Inr (m, ar') \<and> bpf_args_ok ar'"
proof (cases "r_code r")
  case (Some code)
  let ?run = "bpf_filter_ext (Some (npf_bpf_sysinit :: ('m, 'l, 'c) cop_arg bpf_ctx)) (Some (bpf_insns code)) ar"
  have v: "npf_bpf_validate (bpf_insns code)" "\<forall>i \<in> set (bpf_insns code). insn_defined i" using r Some by (auto simp: rule_safe_def)
  have "run_good ?run"
    by (rule bpf_validate_run [OF npf_bpf_validate_ctx [OF v(1)] npf_ctx_ok]) (use a in \<open>simp add: bpf_memwords_def bpf_preinited_def\<close>)
  moreover have "?run \<noteq> Inl ShiftRange" "?run \<noteq> Inl AbortCall" by (simp_all add: bpf_filter_ext_def bpf_run_defined [OF v(2)])
  ultimately obtain w ar' where w: "?run = Inr (w, ar')" by (auto simp: run_good_def)
  then have a': "bpf_args_ok ar'"
    using run_args_ok [OF _ npf_ctx_ok] a by (fastforce simp: bpf_filter_ext_def)
  have f: "npf_bpf_filter ar (bpf_insns code) (r_jcode r) = Inr (w, ar')"
  proof (cases "r_jcode r")
    case (Some f)
    then have "?run = Inr (f ar)" using r a \<open>r_code r = Some code\<close> by (auto simp: rule_safe_def)
    then show ?thesis using Some w by (simp add: npf_bpf_filter_def)
  qed (use w in \<open>simp add: npf_bpf_filter_def\<close>)
  show ?thesis using a a' Some by (auto simp: npf_rule_inspect_def f)
qed (use a in \<open>auto simp: npf_rule_inspect_def\<close>)

lemma reinspect_loop_safe:
  assumes "rlist h rl xs" "\<forall>x \<in> set xs. rule_safe (h x)" "bpf_args_ok ar"
  shows "\<exists>r ar'. reinspect_loop h di_mask ifid rl final ar = Some (Inr (r, ar')) \<and> bpf_args_ok ar'"
  using assms
proof (induction xs arbitrary: rl final ar)
  case Nil
  then show ?case by (subst reinspect_loop.simps) simp
next
  case (Cons x xs)
  obtain m ar1 where m: "npf_rule_inspect (h x) ar di_mask ifid = Inr (m, ar1)" "bpf_args_ok ar1"
    using rule_inspect_safe [of "h x" ar di_mask ifid] Cons.prems by auto
  have "\<exists>r ar'. reinspect_loop h di_mask ifid (r_next (h x)) f ar1 = Some (Inr (r, ar')) \<and> bpf_args_ok ar'" for f
    using Cons.IH [of "r_next (h x)" ar1 f] Cons.prems m(2) by auto
  then show ?case using m Cons.prems by (subst reinspect_loop.simps) auto
qed

definition tree_safe :: "(nat \<Rightarrow> ('m, 'l, 'c) cop_arg npf_rule) \<Rightarrow> nat \<Rightarrow> bool" where
  "tree_safe h p \<longleftrightarrow> rule_safe (h p) \<and>
     (NPF_DYNAMIC_GROUP_P (r_attr (h p)) \<longrightarrow> (\<exists>xs. rlist h (r_subset (h p)) xs \<and> (\<forall>x \<in> set xs. rule_safe (h x))))"

lemma evaluate_safe:
  assumes "\<forall>p \<in> set (flatten ts). tree_safe h p" "bpf_args_ok ar"
  shows "\<exists>oc. evaluate h di_mask ifid ts final ar = Some (Inr oc) \<and> (\<forall>f ar'. oc = Next f ar' \<longrightarrow> bpf_args_ok ar')"
  using assms
proof (induction ts arbitrary: final ar rule: flatten.induct)
  case (2 p us ts)
  have p: "tree_safe h p" using 2(3) by simp
  have us: "\<exists>oc. evaluate h di_mask ifid us f ar = Some (Inr oc) \<and> (\<forall>f ar'. oc = Next f ar' \<longrightarrow> bpf_args_ok ar')"
    and ts: "\<exists>oc. evaluate h di_mask ifid ts f ar = Some (Inr oc) \<and> (\<forall>f ar'. oc = Next f ar' \<longrightarrow> bpf_args_ok ar')"
    if "bpf_args_ok ar" for f ar using 2(1,2) [of ar f] 2(3) that by auto
  have seq: "\<exists>oc. and_then (evaluate h di_mask ifid us f ar) (evaluate h di_mask ifid ts) = Some (Inr oc) \<and>
      (\<forall>f ar'. oc = Next f ar' \<longrightarrow> bpf_args_ok ar')" if a: "bpf_args_ok ar" for f ar
  proof -
    obtain oc where "evaluate h di_mask ifid us f ar = Some (Inr oc)" "\<And>f ar'. oc = Next f ar' \<Longrightarrow> bpf_args_ok ar'" using us [OF a] by blast
    then show ?thesis using ts by (cases oc) (auto simp: and_then_def)
  qed
  obtain m ar1 where m: "npf_rule_inspect (h p) ar di_mask ifid = Inr (m, ar1)" "bpf_args_ok ar1"
    using rule_inspect_safe [of "h p" ar di_mask ifid] p 2(4) by (auto simp: tree_safe_def)
  show ?case
  proof (cases "NPF_DYNAMIC_GROUP_P (r_attr (h p))")
    case True
    obtain r ar2 where "npf_rule_reinspect h di_mask ifid p ar1 = Some (Inr (r, ar2))" "bpf_args_ok ar2"
      using p True reinspect_loop_safe [OF _ _ m(2)] by (fastforce simp: tree_safe_def npf_rule_reinspect_def)
    then show ?thesis using m ts [OF m(2)] seq True by (auto split: option.split)
  qed (use m ts [OF m(2)] seq [OF m(2)] in \<open>auto simp: Let_def\<close>)
qed simp

section \<open>Loading a tree\<close>

text \<open>
  The skip offsets that a rule is given: for a rule with rules inside, the position behind
  them; for other rules nothing.
\<close>

fun skips :: "(nat \<Rightarrow> 'a npf_rule) \<Rightarrow> nat \<Rightarrow> rtree list \<Rightarrow> bool" where
  "skips h n [] \<longleftrightarrow> True"
| "skips h n (RTree p us # ts) \<longleftrightarrow>
     (r_skip_to (h p) = of_nat (n + 1 + length (flatten us)) \<or> us = [] \<and> r_skip_to (h p) < of_nat (n + 1)) \<and>
     skips h (n + 1) us \<and> skips h (n + 1 + length (flatten us)) ts"

definition skip_adjust :: "nat \<Rightarrow> u32 \<Rightarrow> u32" where
  "skip_adjust n s = (if s < of_nat (n + 1) then SKIPTO_ADJ_FLAG OR of_nat (n + 1) else s)"

fun adjusted :: "(nat \<Rightarrow> 'a npf_rule) \<Rightarrow> (nat \<Rightarrow> 'a npf_rule) \<Rightarrow> nat \<Rightarrow> nat list \<Rightarrow> bool" where
  "adjusted h0 h n [] \<longleftrightarrow> True"
| "adjusted h0 h n (p # ps) \<longleftrightarrow> r_skip_to (h p) = skip_adjust n (r_skip_to (h0 p)) \<and> adjusted h0 h (n + 1) ps"

lemma adjusted_append: "adjusted h0 h n (xs @ ys) \<longleftrightarrow> adjusted h0 h n xs \<and> adjusted h0 h (n + length xs) ys"
  by (induction xs arbitrary: n) auto

lemma adjusted_cong:
  "(\<And>p. p \<in> set ps \<Longrightarrow> r_skip_to (h0 p) = r_skip_to (h0' p)) \<Longrightarrow> (\<And>p. p \<in> set ps \<Longrightarrow> r_skip_to (h p) = r_skip_to (h' p)) \<Longrightarrow>
   adjusted h0 h n ps = adjusted h0' h' n ps"
  by (induction ps arbitrary: n) auto

lemma skip_unat:
  assumes "m < 2 ^ 31"
  shows "unat ((of_nat m :: u32) AND SKIPTO_MASK) = m" "unat ((SKIPTO_ADJ_FLAG OR of_nat m :: u32) AND SKIPTO_MASK) = m"
proof -
  have mask: "w AND SKIPTO_MASK = take_bit 31 w" for w :: u32 by (simp add: take_bit_eq_mask mask_eq_exp_minus_1)
  have "take_bit 31 (SKIPTO_ADJ_FLAG :: u32) = 0" by simp
  moreover have "unat (take_bit 31 (of_nat m :: u32)) = m"
    using assms by (simp add: unsigned_take_bit_eq unsigned_of_nat take_bit_nat_eq_self)
  ultimately show "unat ((of_nat m :: u32) AND SKIPTO_MASK) = m" "unat ((SKIPTO_ADJ_FLAG OR of_nat m :: u32) AND SKIPTO_MASK) = m"
    unfolding mask by (simp_all add: take_bit_or)
qed

lemma skips_laid_out:
  "skips h0 n ts \<Longrightarrow> adjusted h0 h n (flatten ts) \<Longrightarrow> n + length (flatten ts) < 2 ^ 31 \<Longrightarrow> laid_out h n ts"
proof (induction ts arbitrary: n rule: flatten.induct)
  case (2 p us ts)
  let ?k = "n + 1 + length (flatten us)"
  have a: "adjusted h0 h (n + 1) (flatten us)" "adjusted h0 h ?k (flatten ts)" "r_skip_to (h p) = skip_adjust n (r_skip_to (h0 p))"
    using 2(4) by (simp_all add: adjusted_append)
  have k: "?k < 2 ^ 31" using 2(5) by simp
  have u: "unat (of_nat m :: u32) = m" if "m < 2 ^ 31" for m using that by (simp add: unsigned_of_nat take_bit_nat_eq_self)
  have "unat (of_nat ?k :: u32) = ?k" "unat (of_nat (n + 1) :: u32) = n + 1" by (rule u; use k in simp)+
  then have "\<not> (of_nat ?k :: u32) < of_nat (n + 1)" unfolding word_less_nat_alt by linarith
  then have "unat (r_skip_to (h p) AND SKIPTO_MASK) = ?k"
    using 2(3) a(3) skip_unat [OF k] by (auto simp: skip_adjust_def)
  then show ?case using 2(1,2) a 2(3,5) by simp
qed simp

lemma dyn_clear: "\<not> NPF_DYNAMIC_GROUP_P (a AND NOT NPF_RULE_DYNAMIC)"
proof -
  have "\<not> bit ((a AND NOT NPF_RULE_DYNAMIC) AND NPF_DYNAMIC_GROUP) 6" "bit (NPF_DYNAMIC_GROUP :: u32) 6" by (simp_all add: bit_simps)
  then show ?thesis unfolding NPF_DYNAMIC_GROUP_P_def by metis
qed

lemma insert_all_rules:
  assumes "insert_all rls (rs0, h0) = (rs, h)" "distinct rls"
  shows "rs_rules rs = rs_rules rs0 @ rls" "adjusted (rules h0) (rules h) (length (rs_rules rs0)) rls"
    "\<And>x. x \<notin> set rls \<Longrightarrow> rules h x = rules h0 x" "\<And>x. r_code (rules h x) = r_code (rules h0 x) \<and> r_jcode (rules h x) = r_jcode (rules h0 x)"
    "set (rs_dynamic rs0) \<subseteq> set (rs_dynamic rs)"
    "\<And>p. p \<in> set rls \<Longrightarrow> NPF_DYNAMIC_GROUP_P (r_attr (rules h p)) \<Longrightarrow> p \<in> set (rs_dynamic rs)"
proof -
  have "rs_rules rs = rs_rules rs0 @ rls \<and> adjusted (rules h0) (rules h) (length (rs_rules rs0)) rls \<and>
    (\<forall>x. x \<notin> set rls \<longrightarrow> rules h x = rules h0 x) \<and> (\<forall>x. r_code (rules h x) = r_code (rules h0 x) \<and> r_jcode (rules h x) = r_jcode (rules h0 x)) \<and>
    set (rs_dynamic rs0) \<subseteq> set (rs_dynamic rs) \<and>
    (\<forall>p \<in> set rls. NPF_DYNAMIC_GROUP_P (r_attr (rules h p)) \<longrightarrow> p \<in> set (rs_dynamic rs))"
    using assms
  proof (induction rls arbitrary: rs0 h0)
    case (Cons rl rls)
    obtain rs1 h1 where s: "npf_ruleset_insert rs0 rl h0 = (rs1, h1)" by fastforce
    have I: "rs_rules rs1 = rs_rules rs0 @ [rl]" "\<And>x. x \<noteq> rl \<Longrightarrow> rules h1 x = rules h0 x"
      "r_skip_to (rules h1 rl) = skip_adjust (length (rs_rules rs0)) (r_skip_to (rules h0 rl))"
      "\<And>x. r_code (rules h1 x) = r_code (rules h0 x) \<and> r_jcode (rules h1 x) = r_jcode (rules h0 x)"
      "set (rs_dynamic rs0) \<subseteq> set (rs_dynamic rs1)" "NPF_DYNAMIC_GROUP_P (r_attr (rules h1 rl)) \<Longrightarrow> rl \<in> set (rs_dynamic rs1)"
      using s by (auto simp: npf_ruleset_insert_def Let_def rule_upd_def skip_adjust_def dyn_clear [simplified] split: if_splits)
    have n: "rl \<notin> set rls" "distinct rls" using Cons.prems(2) by simp_all
    note R = Cons.IH [OF Cons.prems(1) [unfolded insert_all_simps s] n(2)]
    have pn: "p \<noteq> rl" if "p \<in> set rls" for p using that n(1) by blast
    have "adjusted (rules h1) (rules h) (length (rs_rules rs0) + 1) rls = adjusted (rules h0) (rules h) (length (rs_rules rs0) + 1) rls"
      by (rule adjusted_cong) (use I(2) pn in auto)
    then show ?case using R I n(1) by auto
  qed simp
  then show "rs_rules rs = rs_rules rs0 @ rls" "adjusted (rules h0) (rules h) (length (rs_rules rs0)) rls"
    "\<And>x. x \<notin> set rls \<Longrightarrow> rules h x = rules h0 x" "\<And>x. r_code (rules h x) = r_code (rules h0 x) \<and> r_jcode (rules h x) = r_jcode (rules h0 x)"
    "set (rs_dynamic rs0) \<subseteq> set (rs_dynamic rs)"
    "\<And>p. p \<in> set rls \<Longrightarrow> NPF_DYNAMIC_GROUP_P (r_attr (rules h p)) \<Longrightarrow> p \<in> set (rs_dynamic rs)" by blast+
qed

section \<open>Dynamic rules\<close>

text \<open>Operations on dynamic rules leave the array and what inspection reads of its rules alone.\<close>

lemma remove_found_keeps:
  "remove_found rs found h = (e, rs', h') \<Longrightarrow> rs_rules rs' = rs_rules rs \<and> r_skip_to (rules h' x) = r_skip_to (rules h x) \<and>
     r_attr (rules h' x) = r_attr (rules h x) \<and> r_code (rules h' x) = r_code (rules h x) \<and> r_jcode (rules h' x) = r_jcode (rules h x)"
  by (cases found) (auto simp: remove_found_def npf_ruleset_unlink_def rule_upd_def split: option.splits)

lemma flush_rules: "flush_loop h rl rs = Some rs' \<Longrightarrow> rs_rules rs' = rs_rules rs"
proof (induction rule: flush_loop.raw_induct [rotated, consumes 1])
  case (1 f h rl rs r)
  then show ?case by (cases rl) fastforce+
qed

lemma op_keeps:
  assumes "run_op op rs h = Some (e, rs', h')"
  shows "rs_rules rs' = rs_rules rs"
    "x \<notin> set (op_rules op) \<Longrightarrow> r_skip_to (rules h' x) = r_skip_to (rules h x) \<and> r_attr (rules h' x) = r_attr (rules h x) \<and>
       r_code (rules h' x) = r_code (rules h x) \<and> r_jcode (rules h' x) = r_jcode (rules h x)"
    "op = Add name rl r \<Longrightarrow> r_code (rules h' rl) = r_code r \<and> r_jcode (rules h' rl) = r_jcode r"
  using assms
  by (cases op; auto simp: npf_ruleset_add_def npf_ruleset_remove_def npf_ruleset_remkey_def npf_ruleset_flush_def Let_def
      rule_upd_def add_first_def dest: remove_found_keeps flush_rules split: if_splits option.splits; fail)+

lemma ops_keep:
  assumes "run_ops ops rs h = Some (es, rs', h')" "distinct (concat (map op_rules ops))"
  shows "rs_rules rs' = rs_rules rs"
    "x \<notin> set (concat (map op_rules ops)) \<Longrightarrow> r_skip_to (rules h' x) = r_skip_to (rules h x) \<and> r_attr (rules h' x) = r_attr (rules h x) \<and>
       r_code (rules h' x) = r_code (rules h x) \<and> r_jcode (rules h' x) = r_jcode (rules h x)"
    "Add name rl r \<in> set ops \<Longrightarrow> r_code (rules h' rl) = r_code r \<and> r_jcode (rules h' rl) = r_jcode r"
proof -
  have "rs_rules rs' = rs_rules rs \<and>
    (\<forall>x. x \<notin> set (concat (map op_rules ops)) \<longrightarrow> r_skip_to (rules h' x) = r_skip_to (rules h x) \<and> r_attr (rules h' x) = r_attr (rules h x) \<and>
       r_code (rules h' x) = r_code (rules h x) \<and> r_jcode (rules h' x) = r_jcode (rules h x)) \<and>
    (\<forall>name rl r. Add name rl r \<in> set ops \<longrightarrow> r_code (rules h' rl) = r_code r \<and> r_jcode (rules h' rl) = r_jcode r)"
    using assms
  proof (induction ops arbitrary: rs h es)
    case (Cons op ops)
    obtain e rs1 h1 es1 where o: "run_op op rs h = Some (e, rs1, h1)" "run_ops ops rs1 h1 = Some (es1, rs', h')"
      using Cons.prems(1) by (auto split: option.splits prod.splits)
    have "rl \<notin> set (concat (map op_rules ops))" if "op = Add name rl r" for name rl r using Cons.prems(2) that by auto
    then show ?case
      using Cons.IH [OF o(2)] Cons.prems(2) op_keeps [OF o(1)] by auto
  qed simp
  then show "rs_rules rs' = rs_rules rs"
    "x \<notin> set (concat (map op_rules ops)) \<Longrightarrow> r_skip_to (rules h' x) = r_skip_to (rules h x) \<and> r_attr (rules h' x) = r_attr (rules h x) \<and>
       r_code (rules h' x) = r_code (rules h x) \<and> r_jcode (rules h' x) = r_jcode (rules h x)"
    "Add name rl r \<in> set ops \<Longrightarrow> r_code (rules h' rl) = r_code r \<and> r_jcode (rules h' rl) = r_jcode r" by blast+
qed

section \<open>Properties\<close>

text \<open>The arguments that the programs of the rules get first.\<close>

definition inspect_args :: "('m, 'l, 'c) cop_arg \<Rightarrow> ('m, 'l, 'c) cop_arg bpf_args" where
  "inspect_args arg =
    (let npc = ca_npc arg in
     npf_bpf_prepare (arg\<lparr> ca_npc := npc\<lparr> npc_nbuf := nbuf_reset (npc_nbuf npc) \<rparr> \<rparr>) (replicate NPF_BPF_NWORDS None))"

text \<open>
  C3: inspection.  A tree of rules, flattened with its skip offsets, is loaded and the rules of
  its dynamic groups are changed by any sequence of operations.  If the programs of all rules
  were validated, inspecting a packet in one buffer returns, and the rule it returns is the
  result of evaluating the tree: rules of groups that do not match are skipped, the last match
  counts unless a rule is final, and groups and dynamic groups end the search once there is a
  match.
\<close>

theorem npf_ruleset_inspect_tree:
  fixes arg :: "('m, 'l, 'c) cop_arg"
  assumes load: "insert_all (flatten ts) (npf_ruleset_create n, h0) = (rs, h)" "distinct (flatten ts)"
      "skips (rules h0) 0 ts" "length (flatten ts) < 2 ^ 31"
    and init: "\<forall>p \<in> set (flatten ts). r_subset (rules h0 p) = None \<and> rule_safe (rules h0 p)"
    and ops: "distinct (concat (map op_rules ops))" "set (concat (map op_rules ops)) \<inter> set (flatten ts) = {}"
      "\<forall>name rl r. Add name rl r \<in> set ops \<longrightarrow> rule_safe r"
    and pkt: "nb_segs (npc_nbuf (ca_npc arg)) = [length (nb_data (npc_nbuf (ca_npc arg)))]"
  shows "\<exists>es rs' h' r. run_ops ops rs h = Some (es, rs', h') \<and> fst (npf_ruleset_inspect arg h' rs' di) = Some (Inr r) \<and>
    result (evaluate (rules h') (if odd di then NPF_RULE_IN else NPF_RULE_OUT) (nb_ifid (npc_nbuf (ca_npc arg))) ts None
      (inspect_args arg)) = Some (Inr r)"
proof -
  have init': "\<forall>p \<in> set (flatten ts). r_subset (rules h0 p) = None" using init by blast
  obtain c where i: "dyn_inv (\<lambda>name. npf_ruleset_lookup rs name h) rs h c (\<lambda>_. [])"
    and al: "set (rs_all rs @ rs_gc rs) = set (flatten ts)" by (rule loaded_inv [OF load(1,2) init'])
  obtain es rs' h' c' G where r: "run_ops ops rs h = Some (es, rs', h')" "rs_dynamic rs' = rs_dynamic rs"
    "dyn_inv (\<lambda>name. npf_ruleset_lookup rs name h) rs' h' c' G"
    "set (rs_all rs' @ rs_gc rs') \<subseteq> set (concat (map op_rules ops)) \<union> set (flatten ts)"
    using ops_refine [OF i ops(1) ops(2) [folded al]] al by blast
  note L = insert_all_rules [OF load(1,2)] and K = ops_keep [OF r(1) ops(1)]
  have st: "p \<notin> set (concat (map op_rules ops))" if "p \<in> set (flatten ts)" for p using that ops(2) by blast
  have rules: "rs_rules rs' = flatten ts" using K(1) L(1) by (simp add: npf_ruleset_create_def)
  have "adjusted (rules h0) (rules h) 0 (flatten ts) = adjusted (rules h0) (rules h') 0 (flatten ts)"
    by (rule adjusted_cong) (use K(2) st in auto)
  then have laid: "laid_out (rules h') 0 ts" using L(2) load(3,4) skips_laid_out [of "rules h0" 0 ts "rules h'"] by (simp add: npf_ruleset_create_def)
  have safe: "rule_safe (rules h' x)" if x: "x \<in> set (concat (map op_rules ops)) \<union> set (flatten ts)" for x
  proof (cases "x \<in> set (flatten ts)")
    case True
    then show ?thesis using init L(4) [of x] K(2) [OF st [OF True]] by (simp add: rule_safe_def)
  next
    case False
    then obtain op where "op \<in> set ops" "x \<in> set (op_rules op)" using x by auto
    then obtain name r where "Add name x r \<in> set ops" by (cases op rule: dynop.exhaust) auto
    then show ?thesis using ops(3) K(3) by (fastforce simp: rule_safe_def)
  qed
  have tree: "tree_safe (rules h') p" if p: "p \<in> set (flatten ts)" for p
  proof -
    have "\<exists>xs. rlist (rules h') (r_subset (rules h' p)) xs \<and> (\<forall>x \<in> set xs. rule_safe (rules h' x))" if "NPF_DYNAMIC_GROUP_P (r_attr (rules h' p))"
    proof -
      have "p \<in> set (rs_dynamic rs')" using L(6) [OF p] K(2) [OF st [OF p]] that r(2) by simp
      then have "rlist (rules h') (r_subset (rules h' p)) (map d_rule (G p))" "d_rule ` set (G p) \<subseteq> set (rs_all rs')"
        using r(3) by (auto simp: dyn_inv_def grp_ok_def)
      moreover from this(2) r(4) have "rule_safe (rules h' x)" if "x \<in> set (map d_rule (G p))" for x
        by (intro safe) (use that in \<open>unfold set_map set_append, blast\<close>)
      ultimately show ?thesis by blast
    qed
    then show ?thesis using safe p by (simp add: tree_safe_def)
  qed
  have "bpf_args_ok (inspect_args arg)"
    using prepare_args_ok [of "arg\<lparr> ca_npc := (ca_npc arg)\<lparr> npc_nbuf := nbuf_reset (npc_nbuf (ca_npc arg)) \<rparr> \<rparr>" "replicate 3 None" "NOT 7"] pkt
    by (simp add: inspect_args_def nbuf_reset_def bpf_memwords_def Let_def)
  from evaluate_safe [OF _ this, of ts "rules h'"] tree
  obtain oc where "evaluate (rules h') (if odd di then NPF_RULE_IN else NPF_RULE_OUT) (nb_ifid (npc_nbuf (ca_npc arg))) ts None
      (inspect_args arg) = Some (Inr oc)" by blast
  then show ?thesis
    using r(1) inspect_loop_result [OF laid]
    by (auto simp: npf_ruleset_inspect_def inspect_args_def Let_def rules result_def nbuf_reset_def)
qed

text \<open>
  A group with a rule for incoming packets, followed by a dynamic group to which a rule is
  added.
\<close>

type_synonym ex_arg = "(u8 list \<Rightarrow> nat option, nat \<times> bool list \<Rightarrow> nat option, unit) cop_arg"

definition ex_tree :: "rtree list" where
  "ex_tree = [RTree 0 [RTree 1 []], RTree 2 []]"

definition ex_tree_mem :: "ex_arg rule_mem" where
  "ex_tree_mem = \<lparr> rules = (\<lambda>p.
       if p = 0 then rule_zero\<lparr> r_attr := NPF_RULE_DIMASK OR NPF_RULE_GROUP, r_skip_to := 2 \<rparr>
       else if p = 1 then rule_zero\<lparr> r_attr := NPF_RULE_IN OR NPF_RULE_PASS \<rparr>
       else rule_zero\<lparr> r_attr := NPF_RULE_DIMASK OR NPF_DYNAMIC_GROUP, r_name := ''a'' \<rparr>),
     rules_freed = [] \<rparr>"

definition ex_tree_loaded :: "npf_ruleset \<times> ex_arg rule_mem" where
  "ex_tree_loaded = insert_all (flatten ex_tree) (npf_ruleset_create 3, ex_tree_mem)"

definition ex_tree_ops :: "ex_arg dynop list" where
  "ex_tree_ops = [Add ''a'' 3 (rule_zero\<lparr> r_attr := NPF_RULE_DIMASK OR NPF_RULE_DYNAMIC OR NPF_RULE_PASS \<rparr>)]"

declare reinspect_loop.simps [code]

theorem npf_ruleset_inspect_tree_witness:
  "\<exists>es rs' h'. run_ops ex_tree_ops (fst ex_tree_loaded) (snd ex_tree_loaded) = Some (es, rs', h') \<and>
     fst (npf_ruleset_inspect (ex_cop_arg [40]) h' rs' PFIL_OUT) = Some (Inr (Some 3))"
proof -
  have pkt: "nb_segs (npc_nbuf (ca_npc (ex_cop_arg [40]))) = [length (nb_data (npc_nbuf (ca_npc (ex_cop_arg [40]))))]"
    by (simp add: ex_cop_arg_def ex_npc_def nbuf_init_def nbuf_reset_def ex_packet_def)
  have load: "insert_all (flatten ex_tree) (npf_ruleset_create 3, ex_tree_mem) = (fst ex_tree_loaded, snd ex_tree_loaded)"
    by (simp add: ex_tree_loaded_def)
  have tree: "distinct (flatten ex_tree)" "skips (rules ex_tree_mem) 0 ex_tree" "length (flatten ex_tree) < 2 ^ 31"
    "\<forall>p \<in> set (flatten ex_tree). r_subset (rules ex_tree_mem p) = None \<and> rule_safe (rules ex_tree_mem p)"
    by (simp_all add: ex_tree_def ex_tree_mem_def rule_zero_def rule_safe_def)
  have ops: "distinct (concat (map op_rules ex_tree_ops))" "set (concat (map op_rules ex_tree_ops)) \<inter> set (flatten ex_tree) = {}"
    "\<forall>name rl r. Add name rl r \<in> set ex_tree_ops \<longrightarrow> rule_safe r"
    by (simp_all add: ex_tree_def ex_tree_ops_def rule_zero_def rule_safe_def)
  note npf_ruleset_inspect_tree [OF load tree ops pkt, of PFIL_OUT]
  moreover have "case run_ops ex_tree_ops (fst ex_tree_loaded) (snd ex_tree_loaded) of
      None \<Rightarrow> False
    | Some (es, rs, h) \<Rightarrow> result (evaluate (rules h) NPF_RULE_OUT (nb_ifid (npc_nbuf (ca_npc (ex_cop_arg [40])))) ex_tree None
        (inspect_args (ex_cop_arg [40]))) = Some (Inr (Some 3))"
    by code_simp
  ultimately show ?thesis by (auto split: option.splits)
qed

text \<open>A rule for incoming packets with a skip offset of \<open>2^31\<close>.\<close>

definition ex_loop_mem :: "('m, 'l, 'c) cop_arg rule_mem" where
  "ex_loop_mem = \<lparr> rules = (\<lambda>_. rule_zero\<lparr> r_attr := NPF_RULE_IN OR NPF_RULE_PASS, r_skip_to := 2 ^ 31 \<rparr>), rules_freed = [] \<rparr>"

definition ex_loop :: "npf_ruleset \<times> ('m, 'l, 'c) cop_arg rule_mem" where
  "ex_loop = insert_all [0] (npf_ruleset_create 1, ex_loop_mem)"

lemma inspect_loop_stuck:
  assumes "0 < length rs" "r_attr (h (rs ! 0)) AND NPF_RULE_GROUP = 0" "r_skip_to (h (rs ! 0)) AND SKIPTO_MASK = 0"
    and "\<And>ar. npf_rule_inspect (h (rs ! 0)) ar di_mask ifid = Inr (False, ar)"
  shows "inspect_loop h rs di_mask ifid 0 None ar = None"
proof -
  have "inspect_loop h' rs' d i n final ar = Some y \<Longrightarrow> (h', rs', d, i, n, final) \<noteq> (h, rs, di_mask, ifid, 0, None)" for h' rs' d i n final ar y
  proof (induction rule: inspect_loop.raw_induct [rotated, consumes 1])
    case (1 f h' rs' d i n final ar y)
    show ?case
    proof
      assume "(h', rs', d, i, n, final) = (h, rs, di_mask, ifid, 0, None)"
      then have "f h rs di_mask ifid 0 None ar = Some y" using 1(2) assms by (auto simp: Let_def)
      from 1(1) [OF this] show False by simp
    qed
  qed
  from this [of h rs di_mask ifid 0 None ar] show ?thesis by (cases "inspect_loop h rs di_mask ifid 0 None ar") simp_all
qed

text \<open>
  C36: a skip offset with the top bit set.  The offset of a rule is not validated when the rule is
  created, and \<open>npf_ruleset_insert\<close> keeps one that is not below the position of the rule, but
  inspection reads it without its top bit.  With one rule for incoming packets whose offset is
  \<open>2^31\<close> the inspection of every outgoing packet runs forever.
\<close>

theorem npf_ruleset_inspect_skipto_loops:
  fixes arg :: "('m, 'l, 'c) cop_arg"
  shows "fst (npf_ruleset_inspect arg (snd ex_loop) (fst (ex_loop :: npf_ruleset \<times> ('m, 'l, 'c) cop_arg rule_mem)) PFIL_OUT) = None"
proof -
  define s :: "npf_ruleset \<times> ('m, 'l, 'c) cop_arg rule_mem" where "s = ex_loop"
  have "rs_rules (fst s) = [0]" "rules (snd s) 0 = rule_zero\<lparr> r_attr := NPF_RULE_IN OR NPF_RULE_PASS, r_id := 1, r_skip_to := 2 ^ 31 \<rparr>"
    by (simp_all add: s_def ex_loop_def ex_loop_mem_def npf_ruleset_insert_def npf_ruleset_create_def NPF_DYNAMIC_GROUP_P_def rule_upd_def Let_def)
  then show ?thesis
    unfolding npf_ruleset_inspect_def Let_def fst_conv s_def [symmetric]
    by (intro inspect_loop_stuck) (simp_all add: npf_rule_inspect_def rule_zero_def)
qed

end
