(* ===== verification/NPF_Config.thy ===== *)
theory NPF_Config
  imports NPF_Rule NPF_Ifmap
begin

text \<open>
  The configuration of an instance (\<open>src/kern/npf_conf.c\<close>): the rulesets, tables and rule
  procedures that are active together, and the load of a new configuration in place of the
  active one.  The locks and the grace period in which readers leave the old configuration are
  not modelled; a load runs as a whole.
\<close>

section \<open>Configurations\<close>

record npf_config =
  cfg_ruleset :: "npf_ruleset option"
  cfg_nat_ruleset :: "npf_ruleset option"
  cfg_rule_procs :: "npf_rprocset option"
  cfg_tableset :: "npf_tableset option"
  cfg_default_pass :: bool

text \<open>The active configuration with the memory of its rules and tables, and the table libraries.\<close>

record ('tm, 'tl, 'tc) npf_conf =
  cf_config :: "npf_config option"
  cf_rules :: "('tm, 'tl, 'tc) cop_arg rule_mem"
  cf_tables :: "('tm, 'tl, 'tc) tables"
  cf_libs :: "('tm, 'tl, 'tc) table_libs"

definition npf_config_create :: npf_config where
  "npf_config_create = \<lparr> cfg_ruleset = None, cfg_nat_ruleset = None, cfg_rule_procs = None, cfg_tableset = None,
     cfg_default_pass = False \<rparr>"

definition npf_config_ruleset :: "('tm, 'tl, 'tc) npf_conf \<Rightarrow> npf_ruleset" where
  "npf_config_ruleset cf = the (cfg_ruleset (the (cf_config cf)))"

definition npf_config_natset :: "('tm, 'tl, 'tc) npf_conf \<Rightarrow> npf_ruleset" where
  "npf_config_natset cf = the (cfg_nat_ruleset (the (cf_config cf)))"

definition npf_config_tableset :: "('tm, 'tl, 'tc) npf_conf \<Rightarrow> npf_tableset" where
  "npf_config_tableset cf = the (cfg_tableset (the (cf_config cf)))"

definition npf_default_pass :: "('tm, 'tl, 'tc) npf_conf \<Rightarrow> bool" where
  "npf_default_pass cf = cfg_default_pass (the (cf_config cf))"

text \<open>A configuration that can be active.\<close>

definition config_full :: "npf_config \<Rightarrow> bool" where
  "config_full nc \<longleftrightarrow> cfg_ruleset nc \<noteq> None \<and> cfg_nat_ruleset nc \<noteq> None \<and> cfg_rule_procs nc \<noteq> None \<and> cfg_tableset nc \<noteq> None"

section \<open>Destruction\<close>

definition npf_config_destroy ::
  "('m, 'p, 'x, 'nv) kern_env \<Rightarrow> npf_config \<Rightarrow> ('tm, 'tl, 'tc) npf_conf \<Rightarrow> ('m, 'p, 'x) npf_kern
   \<Rightarrow> ('tm, 'tl, 'tc) npf_conf \<times> ('m, 'p, 'x) npf_kern" where
  "npf_config_destroy E nc cf k =
    (let (h, k) = (case cfg_ruleset nc of None \<Rightarrow> (cf_rules cf, k) | Some rs \<Rightarrow> npf_ruleset_destroy E rs (cf_rules cf) k);
         (h, k) = (case cfg_nat_ruleset nc of None \<Rightarrow> (h, k) | Some rs \<Rightarrow> npf_ruleset_destroy E rs h k);
         k = (case cfg_rule_procs nc of None \<Rightarrow> k | Some rps \<Rightarrow> npf_rprocset_destroy E rps k);
         H = (case cfg_tableset nc of None \<Rightarrow> cf_tables cf | Some ts \<Rightarrow> npf_tableset_destroy ts (cf_tables cf)) in
     (cf\<lparr> cf_rules := h, cf_tables := H \<rparr>, k))"

section \<open>Loading\<close>

text \<open>
  The first phase: what the new configuration takes over from the active one.  The result is
  the new and the old configuration with the memory.
\<close>

definition config_reload ::
  "npf_config \<Rightarrow> npf_config \<Rightarrow> bool \<Rightarrow> ('tm, 'tl, 'tc) npf_conf \<Rightarrow> ('m, 'p, 'x) npf_kern
   \<Rightarrow> (npf_config \<times> npf_config \<times> ('tm, 'tl, 'tc) npf_conf \<times> ('m, 'p, 'x) npf_kern) option" where
  "config_reload nc onc load cf k =
    (case npf_ruleset_reload (the (cfg_ruleset nc)) (the (cfg_ruleset onc)) load (cf_rules cf) k of
       None \<Rightarrow> None
     | Some (nrs, ors, h, k) \<Rightarrow>
         let (nts, H) = npf_tableset_reload (the (cfg_tableset nc)) (the (cfg_tableset onc)) (cf_tables cf) in
         (case npf_ruleset_reload (the (cfg_nat_ruleset nc)) (the (cfg_nat_ruleset onc)) load h k of
            None \<Rightarrow> None
          | Some (nns, ons, h, k) \<Rightarrow>
              Some (nc\<lparr> cfg_ruleset := Some nrs, cfg_tableset := Some nts, cfg_nat_ruleset := Some nns \<rparr>,
                    onc\<lparr> cfg_ruleset := Some ors, cfg_nat_ruleset := Some ons \<rparr>,
                    cf\<lparr> cf_rules := h, cf_tables := H \<rparr>, k)))"

text \<open>\<open>None\<close> stands for a load that does not return.\<close>

definition npf_config_load ::
  "('m, 'p, 'x, 'nv) kern_env \<Rightarrow> ('s, 'i) npf_ifops \<Rightarrow> int \<Rightarrow> npf_config \<Rightarrow> 'm npf_conndb option \<Rightarrow> bool
   \<Rightarrow> ('tm, 'tl, 'tc) npf_conf \<Rightarrow> 's npf_ifmap \<Rightarrow> ('m, 'p, 'x) npf_kern
   \<Rightarrow> (('tm, 'tl, 'tc) npf_conf \<times> 's npf_ifmap \<times> ('m, 'p, 'x) npf_kern) option" where
  "npf_config_load E ops now nc ndb flush cf ifm k =
    (let load = ndb \<noteq> None; nc = nc\<lparr> cfg_default_pass := flush \<rparr> in
     case cf_config cf of
       None \<Rightarrow>
         map_option (\<lambda>k. (cf\<lparr> cf_config := Some nc \<rparr>, npf_ifmap_flush ops ifm, k)) (npf_conn_load E now ndb (\<not> flush) k)
     | Some onc \<Rightarrow>
         (case config_reload nc onc load cf k of
            None \<Rightarrow> None
          | Some (nc, onc, cf, k) \<Rightarrow>
              let cf = cf\<lparr> cf_config := Some nc \<rparr>;
                  k = (if flush \<or> load then npf_conn_tracking False k else k);
                  k = (if flush then k\<lparr> portmap := npf_portmap_flush (env_pm E) (portmap k) \<rparr> else k);
                  ifm = (if flush then npf_ifmap_flush ops ifm else ifm) in
              map_option (\<lambda>k. let (cf, k) = npf_config_destroy E onc cf k in (cf, ifm, k))
                (npf_conn_load E now ndb (\<not> flush) k)))"

definition npf_config_init ::
  "('m, 'p, 'x, 'nv) kern_env \<Rightarrow> ('s, 'i) npf_ifops \<Rightarrow> int \<Rightarrow> ('tm, 'tl, 'tc) npf_conf \<Rightarrow> 's npf_ifmap \<Rightarrow> ('m, 'p, 'x) npf_kern
   \<Rightarrow> (('tm, 'tl, 'tc) npf_conf \<times> 's npf_ifmap \<times> ('m, 'p, 'x) npf_kern) option" where
  "npf_config_init E ops now cf ifm k =
     npf_config_load E ops now
       (npf_config_create\<lparr> cfg_ruleset := Some (npf_ruleset_create 0), cfg_nat_ruleset := Some (npf_ruleset_create 0),
          cfg_rule_procs := Some npf_rprocset_create, cfg_tableset := Some (npf_tableset_create 0), cfg_default_pass := True \<rparr>)
       None True cf ifm k"

definition npf_config_fini ::
  "('m, 'p, 'x, 'nv) kern_env \<Rightarrow> ('s, 'i) npf_ifops \<Rightarrow> int \<Rightarrow> ('tm, 'tl, 'tc) npf_conf \<Rightarrow> 's npf_ifmap \<Rightarrow> ('m, 'p, 'x) npf_kern
   \<Rightarrow> (('tm, 'tl, 'tc) npf_conf \<times> 's npf_ifmap \<times> ('m, 'p, 'x) npf_kern) option" where
  "npf_config_fini E ops now cf ifm k =
    (let cd = npf_conndb_create (env_map E); k = npf_conn_tracking False k in
     map_option (\<lambda>k. let (cf, k) = npf_config_destroy E (the (cf_config cf)) cf k in (cf, npf_ifmap_flush ops ifm, k))
       (npf_conn_load E now (Some cd) False k))"

end
