(* ===== verification/NPF_Nat.thy ===== *)
theory NPF_Nat
  imports NPF_Config NPF_Rewrite
begin

text \<open>
  Address translation (second part of \<open>src/kern/npf_nat.c\<close>): the choice of a policy, the
  creation of translation entries, the translation of packets in both directions, and the
  exchange of entries with user space.
\<close>

section \<open>Outcomes\<close>

text \<open>
  \<open>None\<close> is a computation that does not return, \<open>Some (Inl f)\<close> a fault: the filter code of a
  rule faults, a rule of the translation ruleset has no policy, or a policy names a table that
  does not exist or has no list of addresses.
\<close>

datatype npf_fault = FilterFault bpf_fault | NullPolicy | BadTable

type_synonym 'a outcome = "(npf_fault + 'a) option"

abbreviation ret :: "'a \<Rightarrow> 'a outcome" where "ret x \<equiv> Some (Inr x)"

definition obind :: "'a outcome \<Rightarrow> ('a \<Rightarrow> 'b outcome) \<Rightarrow> 'b outcome" where
  "obind r f = (case r of None \<Rightarrow> None | Some (Inl e) \<Rightarrow> Some (Inl e) | Some (Inr x) \<Rightarrow> f x)"

lemma obind_simps [simp]: "obind None f = None" "obind (Some (Inl e)) f = Some (Inl e)" "obind (ret x) f = f x"
  by (simp_all add: obind_def)

lemma obind_ret: "obind r f = ret y \<longleftrightarrow> (\<exists>x. r = ret x \<and> f x = ret y)"
  by (auto simp: obind_def split: option.splits sum.splits)

text \<open>
  What the environment supplies to the handling of a packet: the uptime, the objects that the
  pools return for a connection (of the handler, and of the translation) and for a translation
  entry, and a random number.
\<close>

record pkt_env =
  pe_now :: int
  pe_conn :: "nat option"
  pe_nconn :: "nat option"
  pe_nat :: "nat option"
  pe_rnd :: u32

text \<open>The argument of the coprocessor functions for the active configuration.\<close>

definition conf_arg :: "('tm, 'tl, 'tc) npf_conf \<Rightarrow> npf_cache \<Rightarrow> ('tm, 'tl, 'tc) cop_arg" where
  "conf_arg cf npc = \<lparr> ca_npc = npc, ca_libs = cf_libs cf, ca_tables = cf_tables cf, ca_tblset = npf_config_tableset cf \<rparr>"

text \<open>Inspection of a ruleset of the active configuration: the rule and the reset packet.\<close>

definition conf_inspect ::
  "('tm, 'tl, 'tc) npf_conf \<Rightarrow> npf_ruleset \<Rightarrow> npf_cache \<Rightarrow> nat \<Rightarrow> (nat option \<times> npf_cache) outcome" where
  "conf_inspect cf rs npc di =
    (case npf_ruleset_inspect (conf_arg cf npc) (cf_rules cf) rs di of
       (None, npc) \<Rightarrow> None
     | (Some (Inl f), npc) \<Rightarrow> Some (Inl (FilterFault f))
     | (Some (Inr rl), npc) \<Rightarrow> ret (rl, npc))"

section \<open>Choice of a policy and an address\<close>

definition npf_nat_inspect ::
  "('tm, 'tl, 'tc) npf_conf \<Rightarrow> npf_cache \<Rightarrow> nat \<Rightarrow> ('m, 'p, 'x) npf_kern
   \<Rightarrow> (nat option \<times> npf_cache \<times> ('m, 'p, 'x) npf_kern) outcome" where
  "npf_nat_inspect cf npc di k =
     obind (conf_inspect cf (npf_config_natset cf) npc di) (\<lambda>(rl, npc).
       case rl of
         None \<Rightarrow> ret (None, npc, k)
       | Some rl \<Rightarrow>
           (case npf_rule_getnat (rules (cf_rules cf) rl) of
              None \<Rightarrow> Some (Inl NullPolicy)
            | Some np \<Rightarrow> ret (Some np, npc, natp_upd np (\<lambda>p. p\<lparr> n_refcnt := n_refcnt p + 1 \<rparr>) k)))"

text \<open>\<open>out\<close> is what the memory of the result held.\<close>

definition npf_nat_algo_netmap :: "npf_cache \<Rightarrow> npf_natpolicy \<Rightarrow> nat \<Rightarrow> npf_addr \<Rightarrow> npf_addr" where
  "npf_nat_algo_netmap npc p which out =
     npf_addr_bitor (npc_addr npc which) (n_tmask p) (npc_alen npc)
       (npf_addr_mask (n_taddr p) (n_tmask p) (npc_alen npc) out)"

definition npf_nat_getaddr ::
  "('tm, 'tl, 'tc) npf_conf \<Rightarrow> npf_cache \<Rightarrow> nat \<Rightarrow> nat \<Rightarrow> ('m, 'p, 'x) npf_kern
   \<Rightarrow> (npf_addr option \<times> ('m, 'p, 'x) npf_kern) outcome" where
  "npf_nat_getaddr cf npc np alen k =
    (let t = npf_tableset_getbyid (npf_config_tableset cf) (n_tid (natps k np));
         rr = (n_algo (natps k np) = NPF_ALGO_RR);
         k = (if rr then natp_upd np (\<lambda>p. p\<lparr> n_aux := n_aux p + 1 \<rparr>) k else k);
         idx = (if rr then n_aux (natps k np) else npf_addr_mix alen (npc_addr npc NPF_SRC) (npc_addr npc NPF_DST)) in
     case t of
       None \<Rightarrow> Some (Inl BadTable)
     | Some t \<Rightarrow>
         if t_type (table_ref (cf_tables cf) t) \<noteq> NPF_TABLE_IFADDR then Some (Inl BadTable)
         else ret (npf_table_getsome (table_ref (cf_tables cf) t) alen (unat idx), k))"

section \<open>Creation of an entry\<close>

text \<open>The address that the entry translates to; it is also what the port map is asked for.\<close>

definition nat_set_taddr :: "nat \<Rightarrow> nat \<Rightarrow> npf_addr \<Rightarrow> ('m, 'p, 'x) npf_kern \<Rightarrow> ('m, 'p, 'x) npf_kern" where
  "nat_set_taddr nt alen taddr k = nat_upd nt (\<lambda>n. n\<lparr> nt_taddr := memcpy_at (nt_taddr n) 0 (take alen taddr) \<rparr>) k"

definition nat_select ::
  "('tm, 'tl, 'tc) npf_conf \<Rightarrow> npf_cache \<Rightarrow> nat \<Rightarrow> nat \<Rightarrow> ('m, 'p, 'x) npf_kern
   \<Rightarrow> (npf_addr option \<times> ('m, 'p, 'x) npf_kern) outcome" where
  "nat_select cf npc np nt k =
    (let p = natps k np; alen = npc_alen npc in
     if n_flags p AND NPF_NAT_USETABLE \<noteq> 0 then
       obind (npf_nat_getaddr cf npc np alen k) (\<lambda>(taddr, k).
         case taddr of None \<Rightarrow> ret (None, k) | Some a \<Rightarrow> ret (Some a, nat_set_taddr nt alen a k))
     else if n_algo p = NPF_ALGO_NETMAP then
       let taddr = npf_nat_algo_netmap npc p (npf_nat_which (n_type p) NPF_FLOW_FORW) (nt_taddr (nats k nt)) in
       ret (Some taddr, nat_upd nt (\<lambda>n. n\<lparr> nt_taddr := taddr \<rparr>) k)
     else ret (Some (n_taddr p), nat_set_taddr nt alen (n_taddr p) k))"

text \<open>The ports of the entry.\<close>

definition nat_ports ::
  "('m, 'p, 'x, 'nv) kern_env \<Rightarrow> u32 \<Rightarrow> npf_cache \<Rightarrow> npf_natpolicy \<Rightarrow> nat \<Rightarrow> npf_addr \<Rightarrow> ('m, 'p, 'x) npf_kern
   \<Rightarrow> ('m, 'p, 'x) npf_kern option" where
  "nat_ports E rnd npc p nt taddr k =
    (if n_flags p AND NPF_NAT_PORTS = 0 \<or> npc_proto npc \<noteq> IPPROTO_TCP \<and> npc_proto npc \<noteq> IPPROTO_UDP
     then Some (nat_upd nt (\<lambda>n. n\<lparr> nt_oport := 0, nt_tport := 0 \<rparr>) k)
     else
       let oport = rd16 (npc_data npc) (port_off npc (if n_type p = NPF_NATOUT then NPF_SRC else NPF_DST));
           k = nat_upd nt (\<lambda>n. n\<lparr> nt_oport := oport \<rparr>) k in
       if n_flags p AND NPF_NAT_PORTMAP \<noteq> 0 then
         map_option (\<lambda>(tport, pm). nat_upd nt (\<lambda>n. n\<lparr> nt_tport := tport \<rparr>) (k\<lparr> portmap := pm \<rparr>))
           (npf_portmap_get (env_pm E) (kn_params k) (env_mem E) rnd (portmap k) (npc_alen npc) taddr)
       else Some (nat_upd nt (\<lambda>n. n\<lparr> nt_tport := n_tport p \<rparr>) k))"

definition npf_nat_create ::
  "('m, 'p, 'x, 'nv) kern_env \<Rightarrow> ('tm, 'tl, 'tc) npf_conf \<Rightarrow> pkt_env \<Rightarrow> npf_cache \<Rightarrow> nat \<Rightarrow> nat \<Rightarrow> ('m, 'p, 'x) npf_kern
   \<Rightarrow> (nat option \<times> ('m, 'p, 'x) npf_kern) outcome" where
  "npf_nat_create E cf P npc np con k =
    (case pe_nat P of
       None \<Rightarrow> ret (None, k)
     | Some nt \<Rightarrow>
         let k = nat_upd nt (\<lambda>n. n\<lparr> nt_natpolicy := np, nt_conn := con, nt_alg := None,
                                   nt_ifid := ucast (nb_ifid (npc_nbuf npc)) \<rparr>) (npf_stats_inc NPF_STAT_NAT_CREATE k) in
         obind (nat_select cf npc np nt k) (\<lambda>(taddr, k).
           case taddr of
             None \<Rightarrow> ret (None, kern_free (ONat nt) k)
           | Some taddr \<Rightarrow>
               let p = natps k np;
                   oaddr = npc_addr npc (if n_type p = NPF_NATOUT then NPF_SRC else NPF_DST);
                   k = nat_upd nt (\<lambda>n. n\<lparr> nt_alen := npc_alen npc, nt_oaddr := memcpy_at (nt_oaddr n) 0 oaddr \<rparr>) k in
               (case nat_ports E (pe_rnd P) npc p nt taddr k of
                  None \<Rightarrow> None
                | Some k \<Rightarrow> ret (Some nt, natp_upd np (\<lambda>p. p\<lparr> n_nat_list := nt # n_nat_list p \<rparr>) k))))"

section \<open>Translation\<close>

definition npf_dnat_translate ::
  "('m, 'p, 'x, 'nv) kern_env \<Rightarrow> npf_cache \<Rightarrow> nat \<Rightarrow> npf_flow \<Rightarrow> ('m, 'p, 'x) npf_kern
   \<Rightarrow> errno option \<times> npf_cache \<times> ('m, 'p, 'x) npf_kern" where
  "npf_dnat_translate E npc nt flow k =
    (let which = npf_nat_which (n_type (natps k (nt_natpolicy (nats k nt)))) flow;
         port = (if flow = NPF_FLOW_FORW then nt_tport (nats k nt) else nt_oport (nats k nt));
         (npc, k) = (if npc_info npc AND NPC_ALG_EXEC = 0
                     then let (npc, k) = npf_alg_exec (env_algs E) (npc\<lparr> npc_info := npc_info npc OR NPC_ALG_EXEC \<rparr>) nt flow k in
                          (npf_recache npc, k)
                     else (npc, k));
         addr = (if flow = NPF_FLOW_FORW then nt_taddr (nats k nt) else nt_oaddr (nats k nt));
         (error, npc) = npf_napt_rwr npc which addr port in
     (error, npc, k))"

definition npf_snat_translate :: "npf_cache \<Rightarrow> npf_natpolicy \<Rightarrow> npf_flow \<Rightarrow> errno option \<times> npf_cache" where
  "npf_snat_translate npc p flow =
    (let which = npf_nat_which (n_type p) flow in
     if n_algo p = NPF_ALGO_NETMAP
     then npf_napt_rwr npc which (npf_nat_algo_netmap npc p which (replicate 16 0)) (n_tport p)
     else if n_algo p = NPF_ALGO_NPT66 then npf_npt66_rwr npc which (n_taddr p) (n_tmask p) (n_npt66_adj p)
     else npf_napt_rwr npc which (n_taddr p) (n_tport p))"

definition npf_nat_share_policy ::
  "('m, 'p, 'x, 'nv) kern_env \<Rightarrow> ('tm, 'tl, 'tc) npf_conf \<Rightarrow> pkt_env \<Rightarrow> npf_cache \<Rightarrow> nat \<Rightarrow> nat \<Rightarrow> ('m, 'p, 'x) npf_kern
   \<Rightarrow> (nat option \<times> ('m, 'p, 'x) npf_kern) outcome" where
  "npf_nat_share_policy E cf P npc con src_nt k =
    (let np = nt_natpolicy (nats k src_nt) in
     obind (npf_nat_create E cf P npc np con k) (\<lambda>(nt, k).
       case nt of
         None \<Rightarrow> ret (None, k)
       | Some nt \<Rightarrow>
           let k = natp_upd np (\<lambda>p. p\<lparr> n_refcnt := n_refcnt p + 1 \<rparr>) k;
               (error, k) = npf_conn_setnat E con nt (n_type (natps k np)) k in
           if error \<noteq> None then ret (None, npf_nat_destroy E con nt k) else ret (Some nt, k)))"

definition npf_nat_lookup ::
  "npf_cache \<Rightarrow> nat \<Rightarrow> nat \<Rightarrow> ('m, 'p, 'x) npf_kern \<Rightarrow> (nat \<times> npf_flow) option" where
  "npf_nat_lookup npc con di k =
    (case npf_conn_getnat (conns k con) of
       None \<Rightarrow> None
     | Some nt \<Rightarrow>
         if ucast (nt_ifid (nats k nt)) \<noteq> nb_ifid (npc_nbuf npc) then None
         else Some (nt, if n_type (natps k (nt_natpolicy (nats k nt))) = di then NPF_FLOW_FORW else NPF_FLOW_BACK))"

text \<open>The part of \<open>npf_do_nat\<close> from the label \<open>translate\<close>.\<close>

definition nat_translate ::
  "('m, 'p, 'x, 'nv) kern_env \<Rightarrow> npf_cache \<Rightarrow> nat \<Rightarrow> nat \<Rightarrow> npf_flow \<Rightarrow> ('m, 'p, 'x) npf_kern
   \<Rightarrow> errno option \<times> npf_cache \<times> ('m, 'p, 'x) npf_kern" where
  "nat_translate E npc di nt flow k =
     npf_dnat_translate E (if nbuf_cksum_barrier (npc_nbuf npc) di then npf_recache npc else npc) nt flow k"

text \<open>The part that creates an entry and associates it with the connection.\<close>

definition nat_associate ::
  "('m, 'p, 'x, 'nv) kern_env \<Rightarrow> ('tm, 'tl, 'tc) npf_conf \<Rightarrow> pkt_env \<Rightarrow> npf_cache \<Rightarrow> nat \<Rightarrow> nat \<Rightarrow> nat \<Rightarrow> ('m, 'p, 'x) npf_kern
   \<Rightarrow> (errno option \<times> npf_cache \<times> ('m, 'p, 'x) npf_kern) outcome" where
  "nat_associate E cf P npc np con di k =
     obind (npf_nat_create E cf P npc np con k) (\<lambda>(nt, k).
       case nt of
         None \<Rightarrow> ret (Some ENOMEM, npc, npf_natpolicy_release np k)
       | Some nt \<Rightarrow>
           let (_, npc, k) = npf_alg_match (env_algs E) npc nt di k;
               (error, k) = npf_conn_setnat E con nt (n_type (natps k np)) k in
           if error \<noteq> None then ret (error, npc, npf_nat_destroy E con nt k)
           else ret (nat_translate E npc di nt NPF_FLOW_FORW k))"

definition npf_do_nat ::
  "('m, 'p, 'x, 'nv) kern_env \<Rightarrow> ('tm, 'tl, 'tc) npf_conf \<Rightarrow> pkt_env \<Rightarrow> npf_cache \<Rightarrow> nat option \<Rightarrow> nat \<Rightarrow> ('m, 'p, 'x) npf_kern
   \<Rightarrow> (errno option \<times> npf_cache \<times> ('m, 'p, 'x) npf_kern) outcome" where
  "npf_do_nat E cf P npc con di k =
    (if \<not> npf_iscached npc NPC_IP46 \<or> \<not> npf_iscached npc NPC_LAYER4 then ret (None, npc, k)
     else
       case (case con of None \<Rightarrow> None | Some c \<Rightarrow> npf_nat_lookup npc c di k) of
         Some (nt, flow) \<Rightarrow> ret (nat_translate E npc di nt flow k)
       | None \<Rightarrow>
           obind (npf_nat_inspect cf npc di k) (\<lambda>(np, npc, k).
             case np of
               None \<Rightarrow> ret (None, npc, k)
             | Some np \<Rightarrow>
                 if n_flags (natps k np) AND NPF_NAT_STATIC \<noteq> 0 then
                   let npc = (if nbuf_cksum_barrier (npc_nbuf npc) di then npf_recache npc else npc);
                       (error, npc) = npf_snat_translate npc (natps k np) NPF_FLOW_FORW in
                   ret (error, npc, npf_natpolicy_release np k)
                 else
                   case (case con of
                           Some c \<Rightarrow> (Some c, npc, k)
                         | None \<Rightarrow> npf_conn_establish E (pe_now P) (pe_nconn P) npc di True k) of
                     (None, npc, k) \<Rightarrow> ret (Some ENOMEM, npc, npf_natpolicy_release np k)
                   | (Some c, npc, k) \<Rightarrow>
                       obind (nat_associate E cf P npc np c di k) (\<lambda>(error, npc, k).
                         ret (error, npc,
                              if con = None then npf_conn_release c (if error \<noteq> None then npf_conn_expire c k else k) else k))))"

section \<open>Export and import\<close>

definition npf_nat_export :: "'nv nv_ops \<Rightarrow> 's npf_ifmap \<Rightarrow> nat \<Rightarrow> 'nv \<Rightarrow> ('m, 'p, 'x) npf_kern \<Rightarrow> 'nv" where
  "npf_nat_export N npf nt con_nv k =
    (let n = nats k nt; nv = nvlist_create N;
         nv = (if nt_ifid n \<noteq> 0 then nvlist_add_string N nv ''ifname'' (npf_ifmap_copyname npf (ucast (nt_ifid n)) IFNAMSIZ) else nv);
         nv = nvlist_add_number N nv ''alen'' (of_nat (nt_alen n));
         nv = nvlist_add_binary N nv ''oaddr'' (take (nt_alen n) (nt_oaddr n));
         nv = nvlist_add_number N nv ''oport'' (ucast (nt_oport n));
         nv = nvlist_add_binary N nv ''taddr'' (take (nt_alen n) (nt_taddr n));
         nv = nvlist_add_number N nv ''tport'' (ucast (nt_tport n));
         nv = nvlist_add_number N nv ''nat-policy'' (n_id (natps k (nt_natpolicy n))) in
     nvlist_move_nvlist N con_nv ''nat'' nv)"

text \<open>
  \<open>nt\<close> is the object of the pool.  The addresses are copied with the full size of
  \<open>npf_addr_t\<close>: \<open>junk\<close> is the memory that follows a shorter one.
\<close>

definition nat_zero :: npf_nat where
  "nat_zero = \<lparr> nt_natpolicy = 0, nt_ifid = 0, nt_alen = 0, nt_taddr = replicate 16 0, nt_oaddr = replicate 16 0,
     nt_oport = 0, nt_tport = 0, nt_alg = None, nt_alg_arg = 0, nt_conn = 0 \<rparr>"

definition import_addr :: "'nv nv_ops \<Rightarrow> 'nv \<Rightarrow> string \<Rightarrow> nat \<Rightarrow> u8 list \<Rightarrow> npf_addr option" where
  "import_addr N nv name alen junk =
    (case dnvlist_get_binary N nv name of
       None \<Rightarrow> None
     | Some a \<Rightarrow> if length a \<noteq> alen then None else Some (take 16 (a @ junk)))"

text \<open>The members that the list gives, and the interface map.\<close>

definition nat_import_fields ::
  "'nv nv_ops \<Rightarrow> ('s, 'i) npf_ifops \<Rightarrow> u8 list \<Rightarrow> 'nv \<Rightarrow> 's npf_ifmap \<Rightarrow> npf_nat option \<times> 's npf_ifmap" where
  "nat_import_fields N ops junk nv ifm =
    (let (ifid, ifm) = (case dnvlist_get_string N nv ''ifname'' of
                          None \<Rightarrow> (Some 0, ifm)
                        | Some ifname \<Rightarrow>
                            let (nid, ifm) = npf_ifmap_register ops ifm ifname; v = ucast nid :: u16 in
                            (if v = 0 then None else Some v, ifm));
         alen = unat (dnvlist_get_number N nv ''alen'' 0) in
     case ifid of
       None \<Rightarrow> (None, ifm)
     | Some ifid \<Rightarrow>
         if alen = 0 \<or> alen > 16 then (None, ifm)
         else
           (case (import_addr N nv ''taddr'' alen junk, import_addr N nv ''oaddr'' alen junk) of
              (Some taddr, Some oaddr) \<Rightarrow>
                (Some (nat_zero\<lparr> nt_ifid := ifid, nt_taddr := taddr, nt_oaddr := oaddr,
                         nt_oport := ucast (dnvlist_get_number N nv ''oport'' 0),
                         nt_tport := ucast (dnvlist_get_number N nv ''tport'' 0) \<rparr>), ifm)
            | _ \<Rightarrow> (None, ifm)))"

definition npf_nat_import ::
  "('m, 'p, 'x, 'nv) kern_env \<Rightarrow> 'nv nv_ops \<Rightarrow> ('s, 'i) npf_ifops \<Rightarrow> u8 list \<Rightarrow> nat \<Rightarrow> 'nv \<Rightarrow> npf_ruleset \<Rightarrow> 'a rule_mem \<Rightarrow> nat
   \<Rightarrow> 's npf_ifmap \<Rightarrow> ('m, 'p, 'x) npf_kern \<Rightarrow> nat option \<times> 's npf_ifmap \<times> ('m, 'p, 'x) npf_kern" where
  "npf_nat_import E N ops junk nt nv natlist h con ifm k =
    (case npf_ruleset_findnat natlist (dnvlist_get_number N nv ''nat-policy'' (- 1)) h k of
       None \<Rightarrow> (None, ifm, k)
     | Some np \<Rightarrow>
         (case nat_import_fields N ops junk nv ifm of
            (None, ifm) \<Rightarrow> (None, ifm, kern_free (ONat nt) k)
          | (Some n, ifm) \<Rightarrow>
              let (ok, pm) = (if n_flags (natps k np) AND NPF_NAT_PORTMAP \<noteq> 0 \<and> nt_tport n \<noteq> 0
                              then npf_portmap_take (env_pm E) (kn_params k) (env_mem E) (portmap k) (nt_alen n) (nt_taddr n) (nt_tport n)
                              else (True, portmap k));
                  k = k\<lparr> portmap := pm \<rparr> in
              if \<not> ok then (None, ifm, kern_free (ONat nt) k)
              else
                let k = npf_stats_inc NPF_STAT_NAT_CREATE k;
                    k = nat_upd nt (\<lambda>_. n\<lparr> nt_natpolicy := np, nt_conn := con \<rparr>) k in
                (Some nt, ifm, natp_upd np (\<lambda>p. p\<lparr> n_refcnt := n_refcnt p + 1, n_nat_list := nt # n_nat_list p \<rparr>) k)))"

end
