(* ===== verification/NPF_Sendpkt.thy ===== *)
theory NPF_Sendpkt
  imports NPF_Tcphdr NPF_Cksum NPF_Rule
begin

text \<open>
  Replies to blocked packets (\<open>src/kern/npf_sendpkt.c\<close>): the TCP reset that is built from the
  headers of the blocked segment, and the ICMP error that the host is asked to send.
\<close>

abbreviation NPF_NTAG_PASS :: u32 where "NPF_NTAG_PASS \<equiv> 0x0001"

section \<open>The host\<close>

text \<open>
  The services of the host.  \<open>in_cksum\<close> is the Internet checksum of a buffer as it is stored
  in a header, \<open>in6_cksum\<close> that of a layer 4 segment with its pseudo header; \<open>setscope\<close> writes the
  zone of the receiving interface into an IPv6 header or fails; \<open>reass4\<close> and \<open>reass6\<close> take a
  fragment and return an error, or the complete packet (data, buffers and tag) once it has all
  fragments.
\<close>

record host_ops =
  h_gethdr :: bool
  in_cksum :: "u8 list \<Rightarrow> u16"
  in6_cksum :: "u8 list \<Rightarrow> nat \<Rightarrow> nat \<Rightarrow> nat \<Rightarrow> u16"
  ip6_setscope :: "u8 list \<Rightarrow> u8 list option"
  ip_output :: "u8 list \<Rightarrow> errno option"
  ip6_output :: "u8 list \<Rightarrow> errno option"
  reass4 :: "u8 list \<Rightarrow> errno option \<times> (u8 list \<times> nat list \<times> u32 option) option"
  reass6 :: "u8 list \<Rightarrow> nat \<Rightarrow> errno option \<times> (u8 list \<times> nat list \<times> u32 option) option"

text \<open>What the host is given to send.\<close>

datatype host_event = OutputIp "u8 list" | OutputIp6 "u8 list" | IcmpError | Icmp6Error

section \<open>TCP reset\<close>

text \<open>The IP header before the checksum of TCP is taken: source and destination are exchanged.\<close>

definition rst_ip4 :: "npf_cache \<Rightarrow> u8 list" where
  "rst_ip4 npc =
    (let d = npc_data npc; oip = npc_ip npc; p = replicate 40 0;
         p = p[9 := of_nat IPPROTO_TCP];
         p = memcpy_at p 12 (take 4 (drop (oip + 16) d));
         p = memcpy_at p 16 (take 4 (drop (oip + 12) d)) in
     wr16 p 2 (htons 20))"

definition rst_ip6 :: "npf_cache \<Rightarrow> u8 list" where
  "rst_ip6 npc =
    (let d = npc_data npc; oip = npc_ip npc; p = replicate 60 0;
         p = p[6 := of_nat IPPROTO_TCP, 7 := 64];
         p = memcpy_at p 8 (take 16 (drop (oip + 24) d));
         p = memcpy_at p 24 (take 16 (drop (oip + 8) d));
         p = wr16 p 4 (htons 60) in
     p[0 := 0x60])"

text \<open>The TCP header at \<open>th\<close>, without the checksum.\<close>

definition rst_tcp :: "npf_cache \<Rightarrow> nat \<Rightarrow> u8 list \<Rightarrow> u8 list" where
  "rst_tcp npc th p =
    (let d = npc_data npc; oth = the (npc_l4 npc); (seq, ack, win, tcpdlen) = npf_tcpsaw npc;
         p = wr16 p th (rd16 d (oth + 2));
         p = wr16 p (th + 2) (rd16 d oth);
         p = wr32 p (th + 4) (htonl ack);
         tcpdlen = (if d ! (oth + 13) AND TH_SYN \<noteq> 0 then c_int (tcpdlen + 1) else tcpdlen);
         p = wr32 p (th + 8) (htonl (seq + word_of_int tcpdlen)) in
     p[th + 12 := 0x50, th + 13 := TH_ACK OR TH_RST])"

definition npf_return_tcp :: "host_ops \<Rightarrow> npf_cache \<Rightarrow> errno option \<times> host_event list" where
  "npf_return_tcp H npc =
    (if npc_data npc ! (the (npc_l4 npc) + 13) AND TH_RST \<noteq> 0 then (None, [])
     else if \<not> npf_iscached npc NPC_IP4 \<and> \<not> npf_iscached npc NPC_IP6 then (Some EINVAL, [])
     else if \<not> h_gethdr H then (Some ENOMEM, [])
     else if npf_iscached npc NPC_IP4 then
       let p = rst_tcp npc 20 (rst_ip4 npc);
           p = wr16 p 36 (in_cksum H p);
           p = wr16 (p[0 := 0x45, 1 := 0x10, 8 := 64]) 2 (htons 40) in
       (ip_output H p, [OutputIp p])
     else
       let p = rst_tcp npc 40 (rst_ip6 npc); p = wr16 p 56 (in6_cksum H p IPPROTO_TCP 40 20) in
       case ip6_setscope H p of
         None \<Rightarrow> (Some EINVAL, [])
       | Some p \<Rightarrow> (ip6_output H p, [OutputIp6 p]))"

section \<open>ICMP error\<close>

definition npf_return_icmp :: "host_ops \<Rightarrow> npf_cache \<Rightarrow> errno option \<times> npf_cache \<times> host_event list" where
  "npf_return_icmp H npc =
    (let npc = npc\<lparr> npc_nbuf := snd (nbuf_add_tag (npc_nbuf npc) NPF_NTAG_PASS) \<rparr> in
     if npf_iscached npc NPC_IP4 then (None, npc, [IcmpError])
     else if npf_iscached npc NPC_IP6 then
       (case ip6_setscope H (npc_data npc) of
          None \<Rightarrow> (Some EINVAL, npc, [])
        | Some d \<Rightarrow> (None, npc\<lparr> npc_nbuf := (npc_nbuf npc)\<lparr> nb_data := d \<rparr> \<rparr>, [Icmp6Error]))
     else (Some EINVAL, npc, []))"

text \<open>The first component tells whether the packet was consumed.\<close>

definition npf_return_block :: "host_ops \<Rightarrow> npf_cache \<Rightarrow> u32 \<Rightarrow> bool \<times> npf_cache \<times> host_event list" where
  "npf_return_block H npc retfl =
    (if \<not> npf_iscached npc NPC_IP46 \<or> \<not> npf_iscached npc NPC_LAYER4 then (False, npc, [])
     else if npc_proto npc = IPPROTO_TCP then
       (False, npc, if retfl AND NPF_RULE_RETRST \<noteq> 0 then snd (npf_return_tcp H npc) else [])
     else if npc_proto npc = IPPROTO_UDP \<and> retfl AND NPF_RULE_RETICMP \<noteq> 0 then
       let (error, npc, ev) = npf_return_icmp H npc in (error = None, npc, ev)
     else (False, npc, []))"

end
