(* ===== verification/NPF_Handler.thy ===== *)
theory NPF_Handler
  imports NPF_Nat NPF_Sendpkt
begin

text \<open>
  The packet handler (\<open>src/kern/npf_handler.c\<close>): parsing, reassembly, connection tracking, the
  ruleset, translation, rule procedures and the reply to a blocked packet, in the order of the
  code.  The labels \<open>pass\<close>, \<open>block\<close> and \<open>out\<close> of \<open>npfk_packet_handler\<close> are functions.
\<close>


text \<open>The packet structure after \<open>memset\<close>: no buffers.\<close>

definition nbuf_clear :: "nbuf \<Rightarrow> nbuf" where
  "nbuf_clear nb = nb\<lparr> nb_data := [], nb_segs := [], nb_mbuf := 0, nb_nptr := 0, nb_tag := None, nb_ifid := 0, nb_flags := 0 \<rparr>"

section \<open>Reassembly\<close>

definition npf_reassembly ::
  "host_ops \<Rightarrow> npf_cache \<Rightarrow> ('m, 'p, 'x) npf_kern \<Rightarrow> errno option \<times> bool \<times> npf_cache \<times> ('m, 'p, 'x) npf_kern" where
  "npf_reassembly H npc k =
    (let nb = npc_nbuf npc;
         r = (if npf_iscached npc NPC_IP4 \<and> kn_params k VP_ip4_reassembly \<noteq> 0 then Some (reass4 H (nb_data nb))
              else if npf_iscached npc NPC_IP6 \<and> kn_params k VP_ip6_reassembly \<noteq> 0 then Some (reass6 H (nb_data nb) (npc_hlen npc))
              else None) in
     case r of
       None \<Rightarrow> (None, False, npc, k)
     | Some (Some error, _) \<Rightarrow>
         (Some error, False, npc\<lparr> npc_nbuf := nbuf_clear nb \<rparr>, npf_stats_inc NPF_STAT_REASSFAIL k)
     | Some (None, None) \<Rightarrow> (None, True, npc, npf_stats_inc NPF_STAT_FRAGMENTS k)
     | Some (None, Some (data, segs, tag)) \<Rightarrow>
         let (flags, npc) = npf_cache_all (npc\<lparr> npc_nbuf := nbuf_init (nb_mops nb) data segs tag (nb_ifid nb) (nb_flags nb),
                                                npc_info := 0 \<rparr>) in
         if flags AND (NPC_IPFRAG OR NPC_FMTERR) \<noteq> 0 then (Some EINVAL, False, npc, k)
         else (None, False, npc, npf_stats_inc NPF_STAT_REASSEMBLY k))"

definition npf_packet_bypass_tag_p :: "nbuf \<Rightarrow> bool" where
  "npf_packet_bypass_tag_p nb = (case nbuf_find_tag nb of Inl _ \<Rightarrow> False | Inr ntag \<Rightarrow> ntag AND NPF_NTAG_PASS \<noteq> 0)"

section \<open>The handler\<close>

text \<open>
  What handling a packet leaves: the error, the packet that the caller gets back (\<open>None\<close> when it
  was consumed or freed), and what the host was given to send.
\<close>

record handled =
  hd_error :: "errno option"
  hd_mbuf :: "nbuf option"
  hd_events :: "host_event list"

text \<open>The label \<open>out\<close>.\<close>

definition handler_out ::
  "('m, 'p, 'x, 'nv) kern_env \<Rightarrow> host_ops \<Rightarrow> npf_cache \<Rightarrow> nat option \<Rightarrow> nat option \<Rightarrow> npf_match_info \<Rightarrow> nat \<Rightarrow> errno option
   \<Rightarrow> ('m, 'p, 'x) npf_kern \<Rightarrow> handled \<times> ('m, 'p, 'x) npf_kern" where
  "handler_out E H npc con rp mi decision error k =
    (let k = (case con of
                Some c \<Rightarrow> npf_conn_release c k
              | None \<Rightarrow> (case rp of Some r \<Rightarrow> npf_rproc_release E r k | None \<Rightarrow> k)) in
     if nb_segs (npc_nbuf npc) = [] then
       (\<lparr> hd_error = (if error = None then Some ENOMEM else error), hd_mbuf = None, hd_events = [] \<rparr>, k)
     else if decision = NPF_DECISION_PASS \<and> error = None then
       (\<lparr> hd_error = None, hd_mbuf = Some (npc_nbuf npc), hd_events = [] \<rparr>, k)
     else
       (\<lparr> hd_error = (if error = None then Some ENETUNREACH else error), hd_mbuf = None,
          hd_events = (if mi_retfl mi \<noteq> 0 then snd (snd (npf_return_block H npc (mi_retfl mi))) else []) \<rparr>, k))"

text \<open>The label \<open>block\<close>.\<close>

definition handler_block ::
  "('m, 'p, 'x, 'nv) kern_env \<Rightarrow> host_ops \<Rightarrow> npf_cache \<Rightarrow> nat option \<Rightarrow> nat option \<Rightarrow> npf_match_info \<Rightarrow> nat \<Rightarrow> errno option
   \<Rightarrow> ('m, 'p, 'x) npf_kern \<Rightarrow> handled \<times> ('m, 'p, 'x) npf_kern" where
  "handler_block E H npc con rp mi decision error k =
    (case rp of
       None \<Rightarrow> handler_out E H npc con rp mi decision error k
     | Some r \<Rightarrow>
         let (ok, npc, decision, k) = npf_rproc_run E npc r mi decision k in
         if ok then handler_out E H npc con rp mi decision error k
         else
           let k = (case con of Some c \<Rightarrow> npf_conn_release c k | None \<Rightarrow> k) in
           (\<lparr> hd_error = None, hd_mbuf = None, hd_events = [] \<rparr>, npf_rproc_release E r k))"

text \<open>The label \<open>pass\<close>.\<close>

definition handler_pass ::
  "('m, 'p, 'x, 'nv) kern_env \<Rightarrow> host_ops \<Rightarrow> ('tm, 'tl, 'tc) npf_conf \<Rightarrow> pkt_env \<Rightarrow> npf_cache \<Rightarrow> nat option \<Rightarrow> nat option
   \<Rightarrow> npf_match_info \<Rightarrow> nat \<Rightarrow> ('m, 'p, 'x) npf_kern \<Rightarrow> (handled \<times> ('m, 'p, 'x) npf_kern) outcome" where
  "handler_pass E H cf P npc con rp mi di k =
     obind (npf_do_nat E cf P npc con di k) (\<lambda>(error, npc, k).
       ret (handler_block E H npc con rp mi NPF_DECISION_PASS error k))"

text \<open>From the inspection of the ruleset on, when there is no passing connection.\<close>

definition handler_rules ::
  "('m, 'p, 'x, 'nv) kern_env \<Rightarrow> host_ops \<Rightarrow> ('tm, 'tl, 'tc) npf_conf \<Rightarrow> pkt_env \<Rightarrow> npf_cache \<Rightarrow> nat option
   \<Rightarrow> npf_match_info \<Rightarrow> nat \<Rightarrow> ('m, 'p, 'x) npf_kern \<Rightarrow> (handled \<times> ('m, 'p, 'x) npf_kern) outcome" where
  "handler_rules E H cf P npc con mi di k =
     obind (conf_inspect cf (npf_config_ruleset cf) npc di) (\<lambda>(rl, npc).
       case rl of
         None \<Rightarrow>
           if npf_default_pass cf
           then handler_pass E H cf P npc con None mi di (npf_stats_inc NPF_STAT_PASS_DEFAULT k)
           else ret (handler_block E H npc con None mi NPF_DECISION_BLOCK None (npf_stats_inc NPF_STAT_BLOCK_DEFAULT k))
       | Some rl \<Rightarrow>
           let (rp, k) = npf_rule_getrproc (rules (cf_rules cf) rl) k;
               (error, mi) = npf_rule_conclude (rules (cf_rules cf) rl) mi in
           if error \<noteq> None
           then ret (handler_block E H npc con rp mi NPF_DECISION_BLOCK error (npf_stats_inc NPF_STAT_BLOCK_RULESET k))
           else
             let k = npf_stats_inc NPF_STAT_PASS_RULESET k in
             if mi_retfl mi AND NPF_RULE_STATEFUL \<noteq> 0 \<and> con = None then
               let (ncon, npc, k) = npf_conn_establish E (pe_now P) (pe_conn P) npc di (mi_retfl mi AND NPF_RULE_GSTATEFUL = 0) k in
               (case ncon of
                  None \<Rightarrow> handler_pass E H cf P npc None rp mi di k
                | Some c \<Rightarrow> handler_pass E H cf P npc (Some c) rp mi di (npf_conn_setpass c mi rp k))
             else handler_pass E H cf P npc con rp mi di k)"

text \<open>From the test of the tag on.\<close>

definition handler_inspect ::
  "('m, 'p, 'x, 'nv) kern_env \<Rightarrow> host_ops \<Rightarrow> ('tm, 'tl, 'tc) npf_conf \<Rightarrow> pkt_env \<Rightarrow> npf_cache
   \<Rightarrow> npf_match_info \<Rightarrow> nat \<Rightarrow> ('m, 'p, 'x) npf_kern \<Rightarrow> (handled \<times> ('m, 'p, 'x) npf_kern) outcome" where
  "handler_inspect E H cf P npc mi di k =
    (if npf_packet_bypass_tag_p (npc_nbuf npc) then handler_pass E H cf P npc None None mi di k
     else
       let (con, error, npc, k) = npf_conn_inspect E (pe_now P) npc di k in
       case (case con of None \<Rightarrow> None | Some c \<Rightarrow> npf_conn_pass (conns k c) mi) of
         Some (mi, rp) \<Rightarrow> handler_pass E H cf P npc con rp mi di (npf_stats_inc NPF_STAT_PASS_CONN k)
       | None \<Rightarrow>
           if error = Some ENETUNREACH then ret (handler_block E H npc con None mi NPF_DECISION_BLOCK error k)
           else if error \<noteq> None then ret (handler_out E H npc con None mi NPF_DECISION_BLOCK error k)
           else handler_rules E H cf P npc con mi di k)"

text \<open>The cache after \<open>memset\<close>.\<close>

definition npc_zero :: "param_store \<Rightarrow> nbuf \<Rightarrow> npf_cache" where
  "npc_zero ctx nb = \<lparr> npc_ctx = ctx, npc_info = 0, npc_nbuf = nb, npc_ips = [0, 0], npc_alen = 0, npc_hlen = 0, npc_proto = 0,
     npc_ip = 0, npc_l4 = None, npc_ckey = None \<rparr>"

text \<open>\<open>nb\<close> is the packet as \<open>nbuf_init\<close> leaves it.\<close>

definition npfk_packet_handler ::
  "('m, 'p, 'x, 'nv) kern_env \<Rightarrow> host_ops \<Rightarrow> ('tm, 'tl, 'tc) npf_conf \<Rightarrow> pkt_env \<Rightarrow> nbuf \<Rightarrow> nat
   \<Rightarrow> ('m, 'p, 'x) npf_kern \<Rightarrow> (handled \<times> ('m, 'p, 'x) npf_kern) outcome" where
  "npfk_packet_handler E H cf P nb di k =
    (let mi = \<lparr> mi_rid = 0, mi_retfl = 0, mi_di = di \<rparr>; (flags, npc) = npf_cache_all (npc_zero (kn_params k) nb) in
     if flags AND NPC_FMTERR \<noteq> 0 then ret (handler_out E H npc None None mi NPF_DECISION_BLOCK (Some EINVAL) k)
     else if flags AND NPC_IPFRAG \<noteq> 0 then
       let (error, mff, npc, k) = npf_reassembly H npc k in
       if error \<noteq> None then ret (handler_out E H npc None None mi NPF_DECISION_BLOCK error k)
       else if mff then ret (\<lparr> hd_error = None, hd_mbuf = None, hd_events = [] \<rparr>, k)
       else handler_inspect E H cf P npc mi di k
     else handler_inspect E H cf P npc mi di k)"

section \<open>Packets that are passed\<close>

text \<open>The packet that goes on to the inspection: parsed, and reassembled if it was a fragment.\<close>

definition handler_input ::
  "host_ops \<Rightarrow> nbuf \<Rightarrow> ('m, 'p, 'x) npf_kern \<Rightarrow> (npf_cache \<times> ('m, 'p, 'x) npf_kern) option" where
  "handler_input H nb k =
    (let (flags, npc) = npf_cache_all (npc_zero (kn_params k) nb) in
     if flags AND NPC_FMTERR \<noteq> 0 then None
     else if flags AND NPC_IPFRAG \<noteq> 0 then
       let (error, mff, npc, k) = npf_reassembly H npc k in if error \<noteq> None \<or> mff then None else Some (npc, k)
     else Some (npc, k))"

text \<open>
  The policy: a packet may pass when it carries the tag, when it belongs to a passing
  connection, or when the rule that the ruleset selects passes it (the default when there is no
  rule).
\<close>

definition rule_allows :: "('tm, 'tl, 'tc) npf_conf \<Rightarrow> npf_cache \<Rightarrow> nat \<Rightarrow> bool" where
  "rule_allows cf npc di =
    (case conf_inspect cf (npf_config_ruleset cf) npc di of
       Some (Inr (None, _)) \<Rightarrow> npf_default_pass cf
     | Some (Inr (Some rl, _)) \<Rightarrow> r_attr (rules (cf_rules cf) rl) AND NPF_RULE_PASS \<noteq> 0
     | _ \<Rightarrow> False)"

definition packet_allowed ::
  "('m, 'p, 'x, 'nv) kern_env \<Rightarrow> ('tm, 'tl, 'tc) npf_conf \<Rightarrow> int \<Rightarrow> npf_cache \<Rightarrow> nat \<Rightarrow> ('m, 'p, 'x) npf_kern \<Rightarrow> bool" where
  "packet_allowed E cf now npc di k =
    (npf_packet_bypass_tag_p (npc_nbuf npc) \<or>
     (let (con, error, npc, k) = npf_conn_inspect E now npc di k in
      (case con of None \<Rightarrow> False | Some c \<Rightarrow> c_flags (conns k c) AND CONN_PASS \<noteq> 0) \<or>
      error = None \<and> rule_allows cf npc di))"

lemma handler_out_pass:
  assumes "handler_out E H npc con rp mi decision error k = (h, k')" "hd_mbuf h \<noteq> None"
  shows "hd_error h = None \<and> hd_events h = [] \<and> error = None \<and> decision = NPF_DECISION_PASS"
  using assms by (auto simp: handler_out_def Let_def split: if_splits)

lemma handler_block_pass:
  assumes "handler_block E H npc con rp mi decision error k = (h, k')" "hd_mbuf h \<noteq> None"
  shows "hd_error h = None \<and> hd_events h = [] \<and> error = None \<and> (rp = None \<longrightarrow> decision = NPF_DECISION_PASS)"
  using assms handler_out_pass
  by (fastforce simp: handler_block_def Let_def split: option.splits prod.splits if_splits)

text \<open>An outcome in which a packet is given back only if \<open>Q\<close> holds.\<close>

definition passes_only :: "(handled \<times> ('m, 'p, 'x) npf_kern) outcome \<Rightarrow> bool \<Rightarrow> bool" where
  "passes_only r Q \<longleftrightarrow> (\<forall>h k. r = ret (h, k) \<and> hd_mbuf h \<noteq> None \<longrightarrow> hd_error h = None \<and> hd_events h = [] \<and> Q)"

lemma passes_only_obind:
  assumes "\<And>x. r = ret x \<Longrightarrow> passes_only (f x) Q"
  shows "passes_only (obind r f) Q"
  using assms by (auto simp: passes_only_def obind_ret)

lemma passes_only_none: "hd_mbuf h = None \<Longrightarrow> passes_only (ret (h, k)) Q"
  by (simp add: passes_only_def)

lemma passes_only_out: "(error = None \<Longrightarrow> decision = NPF_DECISION_PASS \<Longrightarrow> Q) \<Longrightarrow>
    passes_only (ret (handler_out E H npc con rp mi decision error k)) Q"
  by (auto simp: passes_only_def dest!: handler_out_pass)

lemma passes_only_block: "(error = None \<Longrightarrow> rp = None \<longrightarrow> decision = NPF_DECISION_PASS \<Longrightarrow> Q) \<Longrightarrow>
    passes_only (ret (handler_block E H npc con rp mi decision error k)) Q"
  by (auto simp: passes_only_def dest!: handler_block_pass)

lemma passes_only_pass: "Q \<Longrightarrow> passes_only (handler_pass E H cf P npc con rp mi di k) Q"
  unfolding handler_pass_def by (rule passes_only_obind) (auto intro: passes_only_block)

lemma passes_only_rules: "passes_only (handler_rules E H cf P npc con mi di k) (rule_allows cf npc di)"
  unfolding handler_rules_def
proof (rule passes_only_obind, goal_cases)
  case (1 x)
  obtain rl npc1 where x: "x = (rl, npc1)" by force
  show ?case
  proof (cases rl)
    case None
    then show ?thesis using 1
      by (auto simp: x rule_allows_def intro: passes_only_pass passes_only_block)
  next
    case (Some r)
    have "passes_only (handler_pass E H cf P npc' con' rp' mi' di k') (rule_allows cf npc di)"
      if "r_attr (rules (cf_rules cf) r) AND NPF_RULE_PASS \<noteq> 0" for npc' con' rp' mi' and k' :: "('a, 'b, 'c) npf_kern"
      using 1 that by (intro passes_only_pass) (simp add: x Some rule_allows_def)
    then show ?thesis
      by (auto simp: x Some npf_rule_conclude_def Let_def split: prod.splits option.splits intro!: passes_only_block)
  qed
qed

lemma passes_only_inspect:
  "passes_only (handler_inspect E H cf P npc mi di k) (packet_allowed E cf (pe_now P) npc di k)"
proof (cases "npf_packet_bypass_tag_p (npc_nbuf npc)")
  case True
  then show ?thesis by (simp add: handler_inspect_def passes_only_pass packet_allowed_def)
next
  case False
  obtain con error npc1 k1 where i: "npf_conn_inspect E (pe_now P) npc di k = (con, error, npc1, k1)"
    by (cases "npf_conn_inspect E (pe_now P) npc di k")
  show ?thesis
  proof (cases "case con of None \<Rightarrow> None | Some c \<Rightarrow> npf_conn_pass (conns k1 c) mi")
    case None
    have "packet_allowed E cf (pe_now P) npc di k = rule_allows cf npc1 di" if "error = None"
      using None i False that by (auto simp: packet_allowed_def npf_conn_pass_def split: option.splits if_splits)
    then show ?thesis using False i None passes_only_rules [of E H cf P npc1 con mi di k1]
      by (cases "error = None") (auto simp del: not_None_eq simp: handler_inspect_def intro: passes_only_block passes_only_out)
  next
    case (Some q)
    then have "packet_allowed E cf (pe_now P) npc di k"
      using i by (auto simp: packet_allowed_def npf_conn_pass_def split: option.splits if_splits)
    then show ?thesis using Some i False by (cases q) (simp add: handler_inspect_def passes_only_pass)
  qed
qed

section \<open>An example\<close>

text \<open>
  A host that sends nothing, as in the userspace build, and a configuration with one rule that
  passes outgoing packets statefully; other packets are blocked.
\<close>

definition ex_host :: host_ops where
  "ex_host = \<lparr> h_gethdr = True, in_cksum = (\<lambda>_. 0), in6_cksum = (\<lambda>_ _ _ _. 0), ip6_setscope = Some,
     ip_output = (\<lambda>_. Some ENOTSUP), ip6_output = (\<lambda>_. None), reass4 = (\<lambda>_. (Some ENOTSUP, None)),
     reass6 = (\<lambda>_ _. (Some ENOTSUP, None)) \<rparr>"

definition ex_conf_mem :: "(u8 list \<Rightarrow> nat option, nat \<times> bool list \<Rightarrow> nat option, unit) cop_arg rule_mem" where
  "ex_conf_mem = \<lparr> rules = (\<lambda>_. rule_zero\<lparr> r_attr := NPF_RULE_OUT OR NPF_RULE_PASS OR NPF_RULE_STATEFUL, r_skip_to := 1 \<rparr>),
     rules_freed = [] \<rparr>"

definition ex_conf :: "(u8 list \<Rightarrow> nat option, nat \<times> bool list \<Rightarrow> nat option, unit) npf_conf" where
  "ex_conf =
    (let (rs, h) = npf_ruleset_insert (npf_ruleset_create 1) 0 ex_conf_mem in
     \<lparr> cf_config = Some \<lparr> cfg_ruleset = Some rs, cfg_nat_ruleset = Some (npf_ruleset_create 0), cfg_rule_procs = Some [],
         cfg_tableset = Some (npf_tableset_create 1), cfg_default_pass = False \<rparr>,
       cf_rules = h, cf_tables = Map.empty, cf_libs = fun_libs \<rparr>)"

definition ex_pkt_env :: pkt_env where
  "ex_pkt_env = \<lparr> pe_now = 100, pe_conn = Some 2, pe_nconn = Some 4, pe_nat = Some 6, pe_rnd = 0 \<rparr>"

definition ex_nbuf :: "u8 list \<Rightarrow> nbuf" where
  "ex_nbuf d = nbuf_init pullup_mops d [length d] None 1 0"

text \<open>What the caller of the handler sees.\<close>

definition handled_view ::
  "(handled \<times> ('m, 'p, 'x) npf_kern) outcome \<Rightarrow> (errno option \<times> u8 list option \<times> host_event list) option" where
  "handled_view r =
    (case r of Some (Inr (h, k)) \<Rightarrow> Some (hd_error h, map_option nb_data (hd_mbuf h), hd_events h) | _ \<Rightarrow> None)"

lemma handled_view_ret:
  assumes "handled_view r = Some (e, Some d, ev)"
  obtains h k where "r = ret (h, k)" "hd_mbuf h \<noteq> None"
  using assms by (auto simp: handled_view_def split: option.splits sum.splits)

declare inspect_loop.simps [code] reinspect_loop.simps [code]

section \<open>Properties\<close>



end
