(* ===== verification/NPF_Flow.thy ===== *)
theory NPF_Flow
  imports NPF_Handler NPF_Connprop
begin

text \<open>
  Flows through the packet handler: how the parts of the handler behave for the packets of a
  connection, for configurations without gateways.  The properties that rest on these lemmas are
  in the root theory.
\<close>

section \<open>Without gateways\<close>

definition no_algs :: "('m, 'p, 'x, 'nv) kern_env \<Rightarrow> bool" where
  "no_algs E \<longleftrightarrow> alg_count (env_algs E) = 0"

lemma no_algs_simps:
  assumes "no_algs E"
  shows "npf_alg_conn (env_algs E) npc di k = (None, npc, k)" "npf_alg_match (env_algs E) npc nt di k = (False, npc, k)"
    "npf_alg_exec (env_algs E) npc nt flow k = (npc, k)"
  using assms by (simp_all add: no_algs_def npf_alg_conn_def npf_alg_match_def npf_alg_exec_def)

section \<open>Rulesets without rules\<close>

lemma conf_inspect_empty:
  "rs_rules rs = [] \<Longrightarrow> conf_inspect cf rs npc di = ret (None, npc\<lparr> npc_nbuf := nbuf_reset (npc_nbuf npc) \<rparr>)"
  by (simp add: conf_inspect_def npf_ruleset_inspect_def conf_arg_def Let_def inspect_loop.simps [of _ "[]"])

definition no_nat :: "('tm, 'tl, 'tc) npf_conf \<Rightarrow> bool" where
  "no_nat cf \<longleftrightarrow> rs_rules (npf_config_natset cf) = []"

lemma npf_do_nat_none:
  assumes "no_nat cf" "\<And>c. con = Some c \<Longrightarrow> c_nat (conns k c) = None"
  shows "npf_do_nat E cf P npc con di k = ret (None, npc, k) \<or>
    npf_do_nat E cf P npc con di k = ret (None, npc\<lparr> npc_nbuf := nbuf_reset (npc_nbuf npc) \<rparr>, k)"
  using assms conf_inspect_empty [of "npf_config_natset cf" cf npc di]
  by (cases con) (auto simp: npf_do_nat_def no_nat_def npf_nat_lookup_def npf_conn_getnat_def npf_nat_inspect_def)

text \<open>A packet that is passed without a rule procedure and is not translated.\<close>

lemma handler_pass_plain:
  assumes "no_nat cf" "\<And>c. con = Some c \<Longrightarrow> c_nat (conns k c) = None" "nb_segs (npc_nbuf npc) \<noteq> []"
  shows "\<exists>h. handler_pass E H cf P npc con None mi di k = ret (h, case con of None \<Rightarrow> k | Some c \<Rightarrow> npf_conn_release c k) \<and>
    hd_error h = None \<and> map_option nb_data (hd_mbuf h) = Some (npc_data npc)"
proof -
  obtain npc' where n: "npf_do_nat E cf P npc con di k = ret (None, npc', k)"
    and p: "nb_segs (npc_nbuf npc') = nb_segs (npc_nbuf npc)" "npc_data npc' = npc_data npc"
    using npf_do_nat_none [OF assms(1,2), where E = E and P = P and npc = npc and di = di] by (force simp: nbuf_reset_def)
  show ?thesis
    unfolding handler_pass_def n using assms(3) p by (cases con) (auto simp: handler_block_def handler_out_def)
qed

section \<open>Lookups\<close>

lemma lookup_cong_flags:
  assumes "packet_fits q" "conn_db k' = conn_db k"
    and "\<And>c. conn_active (c_flags (conns k' c)) = conn_active (c_flags (conns k c))"
      "\<And>c. c_flags (conns k' c) AND 3 = c_flags (conns k c) AND 3" "\<And>c. c_ifid (conns k' c) = c_ifid (conns k c)"
  shows "fst (npf_conn_lookup E t q di k') = fst (npf_conn_lookup E t q di k)"
  using assms(2-) by (simp add: lookup_eq [OF assms(1)] npf_conn_check_def conn_upd_def Let_def split: option.split)

lemma lookup_none:
  assumes "npf_conn_lookup E t q di k = (None, k')" "packet_fits q"
  shows "k' = k"
proof -
  have "conn_upd c (\<lambda>x. x\<lparr> c_refcnt := c_refcnt x - 1 \<rparr>) (conn_upd c (\<lambda>x. x\<lparr> c_refcnt := c_refcnt x + 1 \<rparr>) k) = k" for c
    by (simp add: conn_upd_def fun_upd_idem)
  then show ?thesis using assms(1) by (simp add: lookup_eq [OF assms(2)] Let_def split: option.splits if_splits)
qed

text \<open>The connection that a lookup returns differs only in its reference count and its time stamp.\<close>

lemma lookup_some:
  assumes "npf_conn_lookup E t q di k = (Some (con, flow), k')" "packet_fits q"
  shows "k' = conn_upd con (\<lambda>c. conn_update_atime t (c\<lparr> c_refcnt := c_refcnt c + 1 \<rparr>)) k"
  using assms(1) by (auto simp: lookup_eq [OF assms(2)] conn_upd_def conn_update_atime_def Let_def split: option.splits if_splits)

lemma setpass_lookup:
  assumes "packet_fits q"
  shows "fst (npf_conn_lookup E t q di (npf_conn_release con (npf_conn_setpass con mi rp k))) =
    fst (npf_conn_lookup E t q di (npf_conn_release con k))"
proof (rule lookup_cong_flags [OF assms])
  have "(x OR CONN_PASS) AND (CONN_ACTIVE OR CONN_EXPIRE) = x AND (CONN_ACTIVE OR CONN_EXPIRE)"
    "(x OR CONN_PASS) AND 3 = x AND 3" "(x OR CONN_PASS OR CONN_ACTIVE) AND (CONN_ACTIVE OR CONN_EXPIRE) = (x OR CONN_ACTIVE) AND (CONN_ACTIVE OR CONN_EXPIRE)"
    "((x OR CONN_PASS) OR CONN_ACTIVE) AND 3 = (x OR CONN_ACTIVE) AND 3" for x :: u32
    by (simp_all add: bit.conj_disj_distrib2)
  then show "conn_active (c_flags (conns (npf_conn_release con (npf_conn_setpass con mi rp k)) c)) =
      conn_active (c_flags (conns (npf_conn_release con k) c))"
    "c_flags (conns (npf_conn_release con (npf_conn_setpass con mi rp k)) c) AND 3 =
      c_flags (conns (npf_conn_release con k) c) AND 3"
    "c_ifid (conns (npf_conn_release con (npf_conn_setpass con mi rp k)) c) = c_ifid (conns (npf_conn_release con k) c)" for c
    by (auto simp: npf_conn_release_def npf_conn_setpass_def conn_upd_def npf_stats_inc_def conn_active_def Let_def or.assoc)
qed (simp add: npf_conn_release_def npf_conn_setpass_def conn_upd_def npf_stats_inc_def)

section \<open>Stateful rules\<close>

text \<open>A packet of a passing connection: the ruleset is not consulted.\<close>

lemma inspect_passing:
  assumes a: "no_algs E" and n: "no_nat cf" and q: "packet_fits q" "npf_conn_trackable_p q k" "nb_segs (npc_nbuf q) \<noteq> []"
    "\<not> npf_packet_bypass_tag_p (npc_nbuf q)"
    and l: "fst (npf_conn_lookup E (pe_now P) q di k) = Some (con, flow)"
    and s: "npf_state_inspect q (c_state (conns k con)) flow = (True, q', nst)" "nb_segs (npc_nbuf q') \<noteq> []"
    and c: "c_flags (conns k con) AND CONN_PASS \<noteq> 0" "c_rproc (conns k con) = None" "c_nat (conns k con) = None"
  shows "\<exists>h k'. handler_inspect E H cf P q mi di k = ret (h, k') \<and> hd_error h = None \<and>
    map_option nb_data (hd_mbuf h) = Some (npc_data q')"
proof -
  obtain k1 where l1: "npf_conn_lookup E (pe_now P) q di k = (Some (con, flow), k1)" using l by (metis prod.collapse)
  note k1 = lookup_some [OF l1 q(1)]
  define k2 where "k2 = conn_upd con (\<lambda>c. c\<lparr> c_state := nst \<rparr>) k1"
  have k2: "c_flags (conns k2 con) = c_flags (conns k con)" "c_rproc (conns k2 con) = None" "c_nat (conns k2 con) = None"
    "c_state (conns k1 con) = c_state (conns k con)"
    using c by (simp_all add: k2_def k1 conn_upd_def conn_update_atime_def)
  have i: "npf_conn_inspect E (pe_now P) q di k = (Some con, None, q', k2)"
    using q(2,3) l1 s(1) k2(4) by (simp add: npf_conn_inspect_def no_algs_simps [OF a] k2_def)
  have m: "npf_conn_pass (conns k2 con) mi = Some (mi\<lparr> mi_retfl := c_retfl (conns k2 con), mi_rid := c_rid (conns k2 con) \<rparr>, None)"
    using k2 c(1) by (simp add: npf_conn_pass_def)
  let ?k = "npf_stats_inc NPF_STAT_PASS_CONN k2"
  have "\<And>c. Some con = Some c \<Longrightarrow> c_nat (conns ?k c) = None" using k2(3) by (simp add: npf_stats_inc_def)
  note p = handler_pass_plain [of cf "Some con" ?k, OF n this s(2), where E = E and H = H and P = P and di = di]
  have "handler_inspect E H cf P q mi di k = handler_pass E H cf P q' (Some con) None
      (mi\<lparr> mi_retfl := c_retfl (conns k2 con), mi_rid := c_rid (conns k2 con) \<rparr>) di ?k"
    using q(4) by (simp add: handler_inspect_def i m)
  then show ?thesis using p unfolding option.case by metis
qed

text \<open>The first packet of a stateful rule: it is passed, and the connection passes.\<close>

lemma inspect_stateful:
  assumes a: "no_algs E" and n: "no_nat cf" and q: "packet_fits q" "npf_conn_trackable_p q k" "nb_segs (npc_nbuf q) \<noteq> []"
    "\<not> npf_packet_bypass_tag_p (npc_nbuf q)"
    and l: "fst (npf_conn_lookup E (pe_now P) q di k) = None"
    and r: "conf_inspect cf (npf_config_ruleset cf) q di = ret (Some rl, q1)"
      "r_attr (rules (cf_rules cf) rl) AND NPF_RULE_PASS \<noteq> 0" "r_attr (rules (cf_rules cf) rl) AND NPF_RULE_STATEFUL \<noteq> 0"
      "r_rproc (rules (cf_rules cf) rl) = None"
    and e: "npf_conn_establish E (pe_now P) (Some con) q1 di (r_attr (rules (cf_rules cf) rl) AND NPF_RULE_GSTATEFUL = 0)
        (npf_stats_inc NPF_STAT_PASS_RULESET k) = (Some con, q2, k1)" "pe_conn P = Some con" "nb_segs (npc_nbuf q2) \<noteq> []"
  shows "\<exists>h mi'. handler_inspect E H cf P q mi di k = ret (h, npf_conn_release con (npf_conn_setpass con mi' None k1)) \<and>
    hd_error h = None \<and> map_option nb_data (hd_mbuf h) = Some (npc_data q2)"
proof -
  let ?r = "rules (cf_rules cf) rl"
  obtain k' where "npf_conn_lookup E (pe_now P) q di k = (None, k')" using l by (metis prod.collapse)
  moreover from this have "k' = k" by (rule lookup_none [OF _ q(1)])
  ultimately have i: "npf_conn_inspect E (pe_now P) q di k = (None, None, q, k)"
    using q(2,3) by (simp add: npf_conn_inspect_def no_algs_simps [OF a])
  have c: "c_nat (conns k1 con) = None" using e(1) by (cases rule: establish_cases) auto
  define mi' where "mi' = mi\<lparr> mi_retfl := r_attr ?r, mi_rid := r_id ?r \<rparr>"
  let ?k = "npf_conn_setpass con mi' None k1"
  have "\<And>c. Some con = Some c \<Longrightarrow> c_nat (conns ?k c) = None" using c by (simp add: npf_conn_setpass_def conn_upd_def)
  note p = handler_pass_plain [of cf "Some con" ?k, OF n this e(3), where E = E and H = H and P = P and di = di]
  have "handler_inspect E H cf P q mi di k = handler_pass E H cf P q2 (Some con) None mi' di ?k"
    using q(4) i r e by (simp add: handler_inspect_def handler_rules_def npf_rule_getrproc_def npf_rule_conclude_def mi'_def)
  then show ?thesis using p unfolding option.case by metis
qed

lemma setpass_flags: "c_flags (conns (npf_conn_release con (npf_conn_setpass con mi None k)) con) AND CONN_PASS \<noteq> 0"
  by (simp add: npf_conn_release_def npf_conn_setpass_def conn_upd_def Let_def bit.conj_disj_distrib2)

text \<open>An untagged packet that can be tracked.\<close>

definition plain_packet :: "npf_cache \<Rightarrow> ('m, 'p, 'x) npf_kern \<Rightarrow> bool" where
  "plain_packet npc k \<longleftrightarrow> packet_fits npc \<and> npf_conn_trackable_p npc k \<and> nb_segs (npc_nbuf npc) \<noteq> [] \<and>
     \<not> npf_packet_bypass_tag_p (npc_nbuf npc)"

definition npc_reset :: "npf_cache \<Rightarrow> npf_cache" where
  "npc_reset npc = npc\<lparr> npc_nbuf := nbuf_reset (npc_nbuf npc) \<rparr>"

lemma conf_inspect_npc: "conf_inspect cf rs npc di = ret (rl, npc') \<Longrightarrow> npc' = npc_reset npc"
  by (auto simp: conf_inspect_def npf_ruleset_inspect_def conf_arg_def npc_reset_def Let_def split: option.splits sum.splits)

text \<open>The rule lets a packet pass and keeps its state.\<close>

definition stateful_rule :: "'a npf_rule \<Rightarrow> bool" where
  "stateful_rule r \<longleftrightarrow> r_attr r AND NPF_RULE_PASS \<noteq> 0 \<and> r_attr r AND NPF_RULE_STATEFUL \<noteq> 0 \<and> r_rproc r = None"

text \<open>The keys of the connection that a packet would establish are free.\<close>

definition keys_free :: "('m, u8 list, nat) thmap_ops \<Rightarrow> 'm npf_conndb \<Rightarrow> npf_cache \<Rightarrow> nat \<Rightarrow> bool" where
  "keys_free T cd npc di \<longleftrightarrow>
     thmap_get T (cd_map cd) (conkey npc di NPF_FLOW_FORW) = None \<and>
     thmap_get T (cd_map cd) (conkey npc (di XOR PFIL_ALL) NPF_FLOW_BACK) = None \<and>
     conkey npc di NPF_FLOW_FORW \<noteq> conkey npc (di XOR PFIL_ALL) NPF_FLOW_BACK"

lemma stateful_flow:
  assumes T: "thmap_laws (env_map E)" and i: "conndb_inv (env_map E) (conn_db k) (conns k)"
    and a: "no_algs E" and n: "no_nat cf" and q: "plain_packet q k" "fst (npf_conn_lookup E (pe_now P) q di k) = None"
    and r: "conf_inspect cf (npf_config_ruleset cf) q di = ret (Some rl, q1)" "stateful_rule (rules (cf_rules cf) rl)"
    and c: "pe_conn P = Some con" "conn_fresh (conn_db k) (conns k) con (npc_alen q)" "npf_state_init q1 = (True, q2, nst)"
      "packet_fits q2" "npc_alen q2 = npc_alen q" "nb_segs (npc_nbuf q2) \<noteq> []" "keys_free (env_map E) (conn_db k) q2 di"
    and di: "di = PFIL_IN \<or> di = PFIL_OUT"
  obtains h k' where "handler_inspect E H cf P q mi di k = ret (h, k')" "hd_error h = None"
    "map_option nb_data (hd_mbuf h) = Some (npc_data q2)"
    "\<And>q' t. packet_reply q' q2 \<Longrightarrow> fst (npf_conn_lookup E t q' (di XOR PFIL_ALL) k') = Some (con, NPF_FLOW_BACK)"
    "c_flags (conns k' con) AND CONN_PASS \<noteq> 0" "c_rproc (conns k' con) = None" "c_nat (conns k' con) = None"
proof -
  let ?k = "npf_stats_inc NPF_STAT_PASS_RULESET k" and ?g = "r_attr (rules (cf_rules cf) rl) AND NPF_RULE_GSTATEFUL = 0"
  have k: "conn_db ?k = conn_db k" "conns ?k = conns k" "conn_tracking ?k = conn_tracking k" by (simp_all add: npf_stats_inc_def)
  have q1: "q1 = npc_reset q" by (rule conf_inspect_npc [OF r(1)])
  have "npc_alen q1 = npc_alen q" "npf_conn_trackable_p q1 ?k"
    using q(1) by (simp_all add: q1 npc_reset_def plain_packet_def npf_conn_trackable_p_def k npf_iscached_def)
  then have st: "npc_alen q1 = npc_alen q" "npf_conn_trackable_p q1 ?k" "conn_fresh (conn_db ?k) (conns ?k) con (npc_alen q1)"
    "npc_alen q2 = npc_alen q1" using c by (simp_all add: k)
  have i': "conndb_inv (env_map E) (conn_db ?k) (conns ?k)" using i by (simp add: k)
  show thesis
  proof (rule establish_found [OF T i' st(3,2) c(3,4) st(4) di, of "pe_now P" ?g])
    fix r' k1
    assume e: "npf_conn_establish E (pe_now P) (Some con) q1 di ?g ?k = (r', q2, k1)"
      and r': "r' = Some con \<longleftrightarrow> thmap_get (env_map E) (cd_map (conn_db ?k)) (conkey q2 di NPF_FLOW_FORW) = None \<and>
        thmap_get (env_map E) (cd_map (conn_db ?k)) (conkey q2 (di XOR PFIL_ALL) NPF_FLOW_BACK) = None \<and>
        conkey q2 di NPF_FLOW_FORW \<noteq> conkey q2 (di XOR PFIL_ALL) NPF_FLOW_BACK"
      and f: "\<And>q q'. r' = Some con \<Longrightarrow> packet_same q q2 \<Longrightarrow> packet_reply q' q2 \<Longrightarrow> found_by_both E (npf_conn_release con k1) con di q q'"
    have ok: "r' = Some con" using r' c(7) by (simp add: keys_free_def k)
    have s: "packet_same q2 q2" using c(4) by (simp add: packet_same_def packet_alike_def)
    have "\<exists>h mi'. handler_inspect E H cf P q mi di k = ret (h, npf_conn_release con (npf_conn_setpass con mi' None k1)) \<and>
        hd_error h = None \<and> map_option nb_data (hd_mbuf h) = Some (npc_data q2)"
      by (rule inspect_stateful [OF a n _ _ _ _ q(2) r(1) _ _ _ e [unfolded ok] c(1,6)])
        (use q(1) r(2) in \<open>simp_all add: plain_packet_def stateful_rule_def\<close>)
    then obtain h mi' where h: "handler_inspect E H cf P q mi di k = ret (h, npf_conn_release con (npf_conn_setpass con mi' None k1))"
      "hd_error h = None" "map_option nb_data (hd_mbuf h) = Some (npc_data q2)" by auto
    have "c_nat (conns k1 con) = None" using e [unfolded ok] by (cases rule: establish_cases) auto
    then show thesis
      by (intro that [OF h _ setpass_flags])
        (use f [OF ok s] in \<open>auto simp: setpass_lookup packet_reply_def packet_alike_def found_by_both_def\<close>,
         simp_all add: npf_conn_release_def npf_conn_setpass_def conn_upd_def)
  qed
qed

end
