(* ===== verification/NPF_Init.thy ===== *)
theory NPF_Init
  imports NPF_State NPF_Portmap NPF_Conn
begin

text \<open>
  The parameters of an instance: the arrays that \<open>npfk_create\<close> (\<open>src/kern/npf.c\<close>) has its
  components register, in the order of the calls, and what setting them by name can do.
\<close>

section \<open>Registration\<close>

definition npfk_create_params :: "'m param_map \<Rightarrow> param_store \<Rightarrow> 'm npf_paraminfo" where
  "npfk_create_params T store0 =
     npf_param_register T npf_portmap_init
      (npf_param_register T npf_conndb_sysinit
        (npf_param_register T npf_conn_init
          (npf_param_register T npf_state_tcp_sysinit
            (npf_param_register T npf_state_sysinit
              (npf_param_init T store0)))))"

text \<open>A sequence of calls of \<open>npfk_param_set\<close>, whatever they return.\<close>

definition params_set_all :: "'m param_map \<Rightarrow> (string \<times> int) list \<Rightarrow> 'm npf_paraminfo \<Rightarrow> 'm npf_paraminfo" where
  "params_set_all T calls st = fold (\<lambda>(name, val) st. snd (npfk_param_set T st name val)) calls st"

lemmas param_arrays = npf_param_general_register_def npf_state_sysinit_def npf_state_tcp_sysinit_def
  npf_conn_init_def npf_conndb_sysinit_def npf_portmap_init_def

lemma npf_param_init_list [simp]: "pi_list (npf_param_init T store0) = [npf_param_general_register]"
  by (simp add: npf_param_init_def)

lemma npfk_create_params_inv:
  assumes "thmap_laws T" shows "params_inv T (npfk_create_params T store0)"
  unfolding npfk_create_params_def using assms
  by (intro npf_param_register_inv npf_param_init_inv)
    (simp_all add: param_array_ok_def params_disjoint_def param_arrays)

lemma npfk_param_set_list [simp]: "pi_list (snd (npfk_param_set T st name val)) = pi_list st"
  by (simp add: npfk_param_set_def split: option.split)

lemma params_set_all_inv:
  "params_inv T st \<Longrightarrow> params_inv T (params_set_all T calls st) \<and> pi_list (params_set_all T calls st) = pi_list st"
  unfolding params_set_all_def
  by (induction calls arbitrary: st) (auto simp: npfk_param_set_inv)

text \<open>A successful call changes what its name reads and nothing else; a refused one changes nothing.\<close>

lemma npfk_param_set_get:
  assumes inv: "params_inv T st"
  shows "npfk_param_get T (snd (npfk_param_set T st name val)) name' =
    (if name' = name \<and> fst (npfk_param_set T st name val) = None then Inr val else npfk_param_get T st name')"
proof -
  have l: "npf_param_lookup T (snd (npfk_param_set T st name val)) = npf_param_lookup T st"
    by (auto simp: npfk_param_set_def npf_param_lookup_def fun_eq_iff split: option.split)
  show ?thesis
    using params_same_var [OF inv, of name] params_same_var [OF inv, of name']
    unfolding npfk_param_get_def l
    by (auto simp: npfk_param_set_def split: option.split)
qed

section \<open>Bounds\<close>

lemma tcp_timeout_var:
  "nst_state nst < NPF_TCP_NSTATES \<Longrightarrow>
   \<exists>i\<in>{NPF_TCPT_NEW, NPF_TCPT_ESTABLISHED, NPF_TCPT_HALFCLOSE, NPF_TCPT_CLOSE, NPF_TCPT_TIMEWAIT}.
     npf_state_tcp_timeout params nst = params (VP_tcp_timeout i)"
  by (auto simp: npf_state_tcp_timeout_def less_Suc_eq numeral_eq_Suc)

text \<open>
  C23: parameters stay within their bounds.  Whatever sequence of settings was tried on a
  new instance, every name that can be read gives a value within the bounds registered for it, a
  further setting succeeds exactly for a value within them, changes what its name reads and no
  other name, and the components find what they rely on: ports above the privileged ones, a step
  of the garbage collector of at least one, an interval of its runs between 10 and 10000
  milliseconds, and timeouts that fit.
\<close>

theorem npf_params_in_range:
  assumes T: "thmap_laws T" and st: "st = params_set_all T calls (npfk_create_params T store0)"
    and nst: "nst_state nst < (if proto = IPPROTO_TCP then NPF_TCP_NSTATES else Suc NPF_ANY_CONN_ESTABLISHED)"
  shows "npf_param_lookup T st name = find (\<lambda>p. p_name p = name) (npf_portmap_init @ npf_conndb_sysinit @
      npf_conn_init @ npf_state_tcp_sysinit @ npf_state_sysinit @ npf_param_general_register) \<and>
    (npfk_param_get T st name = Inr v \<longrightarrow>
      (\<exists>p. npf_param_lookup T st name = Some p \<and> p_min p \<le> v \<and> v \<le> p_max p)) \<and>
    (fst (npfk_param_set T st name v) = None \<longleftrightarrow>
      (\<exists>p. npf_param_lookup T st name = Some p \<and> p_min p \<le> v \<and> v \<le> p_max p)) \<and>
    npfk_param_get T (snd (npfk_param_set T st name v)) name' =
      (if name' = name \<and> fst (npfk_param_set T st name v) = None then Inr v else npfk_param_get T st name') \<and>
    port_range_ok (pi_store st) \<and> 1 \<le> pi_store st VP_gc_step \<and>
    pi_store st VP_gc_interval_min \<in> {10..10000} \<and> pi_store st VP_gc_interval_max \<in> {10..10000} \<and>
    npf_state_etime (pi_store st) nst proto \<in> {0..INT_MAX}"
proof -
  have inv: "params_inv T st" and ls: "concat (pi_list st) = npf_portmap_init @ npf_conndb_sysinit @
      npf_conn_init @ npf_state_tcp_sysinit @ npf_state_sysinit @ npf_param_general_register"
    using params_set_all_inv [OF npfk_create_params_inv [OF T], of calls store0]
    by (simp_all add: st) (simp add: npfk_create_params_def)
  have all: "list_all (\<lambda>p. p_min p \<le> pi_store st (p_valp p) \<and> pi_store st (p_valp p) \<le> p_max p) (concat (pi_list st))"
    using inv by (simp only: params_inv_def)
  have et: "npf_state_etime (pi_store st) nst proto \<in> {0..INT_MAX}"
  proof (cases "proto = IPPROTO_TCP")
    case True
    then have "nst_state nst < NPF_TCP_NSTATES" using nst by simp
    from tcp_timeout_var [OF this, of "pi_store st"] show ?thesis
      using all True by (auto simp: npf_state_etime_def ls param_arrays)
  next
    case False
    then have "nst_state nst = NPF_ANY_CONN_CLOSED \<or> nst_state nst = NPF_ANY_CONN_NEW \<or> nst_state nst = NPF_ANY_CONN_ESTABLISHED"
      using nst by auto
    then show ?thesis using all False by (auto simp: npf_state_etime_def ls param_arrays)
  qed
  have "\<exists>p. npf_param_lookup T st name = Some p \<and> p_min p \<le> v \<and> v \<le> p_max p" if "npfk_param_get T st name = Inr v"
    using that params_lookup_mem [OF inv, of name] params_inv_range [OF inv]
    by (auto simp: npfk_param_get_def simp del: set_concat split: option.splits)
  moreover have "fst (npfk_param_set T st name v) = None \<longleftrightarrow>
      (\<exists>p. npf_param_lookup T st name = Some p \<and> p_min p \<le> v \<and> v \<le> p_max p)"
    by (auto simp: npfk_param_set_def split: option.split)
  moreover have "port_range_ok (pi_store st) \<and> 1 \<le> pi_store st VP_gc_step \<and>
      pi_store st VP_gc_interval_min \<in> {10..10000} \<and> pi_store st VP_gc_interval_max \<in> {10..10000}"
    using all by (simp add: port_range_ok_def ls param_arrays)
  ultimately show ?thesis
    using et inv npfk_param_set_get [OF inv] ls unfolding params_inv_def by simp
qed

definition ex_params :: "(string \<Rightarrow> npf_param option) npf_paraminfo" where
  "ex_params = params_set_all fun_thmap [(''gc.step'', 0), (''portmap.max_port'', 70000)] (npfk_create_params fun_thmap (\<lambda>_. 0))"

theorem npf_params_in_range_witness:
  "npfk_param_get fun_thmap (snd (npfk_param_set fun_thmap ex_params ''gc.step'' 7)) ''gc.step'' = Inr 7 \<and>
   port_range_ok (pi_store ex_params) \<and> npf_state_etime (pi_store ex_params) npf_state_zero IPPROTO_TCP \<in> {0..INT_MAX}"
proof -
  have s: "nst_state npf_state_zero < (if IPPROTO_TCP = IPPROTO_TCP then NPF_TCP_NSTATES else Suc NPF_ANY_CONN_ESTABLISHED)"
    by (simp add: npf_state_zero_def)
  note r = npf_params_in_range [OF fun_thmap_laws ex_params_def s, of "''gc.step''" 7 "''gc.step''"]
  have "npf_param_lookup fun_thmap ex_params ''gc.step'' = Some (npf_conndb_sysinit ! 0)"
    using r by (simp add: param_arrays)
  then show ?thesis using r by (simp add: npf_conndb_sysinit_def)
qed

end
