(* ===== verification/NPF_Connsave.thy ===== *)
theory NPF_Connsave
  imports NPF_Nat NPF_Connprop
begin

text \<open>
  Saving and restoring connections (last part of \<open>src/kern/npf_conn.c\<close>): the export of the
  connection database to name-value lists, the import of a connection from such a list, and the
  query for a connection by its key.
\<close>

section \<open>The protocol state in memory\<close>

text \<open>
  The state is exchanged as the bytes of \<open>npf_state_t\<close>: the state number and the four members of
  each of the two sides, 32 bits each.
\<close>

definition tcpstate_bytes :: "npf_tcpstate \<Rightarrow> u8 list" where
  "tcpstate_bytes s = le32 (nst_end s) @ le32 (nst_maxend s) @ le32 (nst_maxwin s) @ le32 (word_of_int (nst_wscale s))"

definition state_bytes :: "npf_state \<Rightarrow> u8 list" where
  "state_bytes nst = le32 (of_nat (nst_state nst)) @
     tcpstate_bytes (nst_tcpst nst NPF_FLOW_FORW) @ tcpstate_bytes (nst_tcpst nst NPF_FLOW_BACK)"

definition tcpstate_of_bytes :: "u8 list \<Rightarrow> nat \<Rightarrow> npf_tcpstate" where
  "tcpstate_of_bytes d i =
     \<lparr> nst_end = rd32 d i, nst_maxend = rd32 d (i + 4), nst_maxwin = rd32 d (i + 8), nst_wscale = sint (rd32 d (i + 12)) \<rparr>"

definition state_of_bytes :: "u8 list \<Rightarrow> npf_state" where
  "state_of_bytes d =
     \<lparr> nst_state = unat (rd32 d 0),
       nst_tcpst = (\<lambda>flow. tcpstate_of_bytes d (if flow = NPF_FLOW_FORW then 4 else 20)) \<rparr>"

abbreviation NPF_STATE_SIZE :: nat where "NPF_STATE_SIZE \<equiv> 36"

section \<open>Export\<close>

definition npf_conn_export ::
  "'nv nv_ops \<Rightarrow> 's npf_ifmap \<Rightarrow> nat \<Rightarrow> 'nv \<Rightarrow> ('m, 'p, 'x) npf_kern \<Rightarrow> errno option \<times> 'nv" where
  "npf_conn_export N npf con nvl k =
    (let c = conns k con in
     if \<not> conn_active (c_flags c) then (Some ESRCH, nvl)
     else
       let nvl = nvlist_add_number N nvl ''flags'' (ucast (c_flags c));
           nvl = nvlist_add_number N nvl ''proto'' (of_nat (c_proto c));
           nvl = (if c_ifid c \<noteq> 0 then nvlist_add_string N nvl ''ifname'' (npf_ifmap_copyname npf (c_ifid c) IFNAMSIZ) else nvl);
           nvl = nvlist_add_binary N nvl ''state'' (state_bytes (c_state c));
           fw = npf_conn_getforwkey c; alen = NPF_CONNKEY_ALEN fw; bk = npf_conn_getbackkey c alen;
           nvl = nvlist_move_nvlist N nvl ''forw-key'' (npf_connkey_export N npf fw);
           nvl = nvlist_move_nvlist N nvl ''back-key'' (npf_connkey_export N npf bk);
           nvl = nvlist_add_number N nvl ''alen'' (of_nat alen) in
       (None, case c_nat c of None \<Rightarrow> nvl | Some nt \<Rightarrow> npf_nat_export N npf nt nvl k))"

definition export_one ::
  "'nv nv_ops \<Rightarrow> 's npf_ifmap \<Rightarrow> ('m, 'p, 'x) npf_kern \<Rightarrow> nat \<Rightarrow> 'nv \<Rightarrow> 'nv" where
  "export_one N npf k con nvl =
    (case npf_conn_export N npf con (nvlist_create N) k of
       (None, con_nvl) \<Rightarrow> nvlist_append_nvlist_array N nvl ''conn-list'' con_nvl
     | (Some _, _) \<Rightarrow> nvl)"

text \<open>The loop goes round the list until it is back at the head.\<close>

partial_function (option) export_loop ::
  "'nv nv_ops \<Rightarrow> 's npf_ifmap \<Rightarrow> ('m, 'p, 'x) npf_kern \<Rightarrow> nat option \<Rightarrow> nat option \<Rightarrow> 'nv \<Rightarrow> 'nv option" where
  "export_loop N npf k head con nvl =
    (case con of
       None \<Rightarrow> Some nvl
     | Some c \<Rightarrow>
         if npf_conndb_getnext (conn_db k) con = head then Some (export_one N npf k c nvl)
         else export_loop N npf k head (npf_conndb_getnext (conn_db k) con) (export_one N npf k c nvl))"

declare export_loop.simps [code]

definition npf_conndb_export ::
  "'nv nv_ops \<Rightarrow> 's npf_ifmap \<Rightarrow> 'nv \<Rightarrow> ('m, 'p, 'x) npf_kern \<Rightarrow> ('nv \<times> ('m, 'p, 'x) npf_kern) option" where
  "npf_conndb_export N npf nvl k =
    (if \<not> conn_tracking k then Some (nvl, k)
     else
       let (head, cd) = npf_conndb_getlist (conn_db k); k = k\<lparr> conn_db := cd \<rparr> in
       map_option (\<lambda>nvl. (nvl, k)) (export_loop N npf k head head nvl))"

section \<open>Import\<close>

text \<open>
  The import of a key into the memory of a connection.  The outer None stands for a write
  outside this memory.
\<close>

definition import_key ::
  "'nv nv_ops \<Rightarrow> ('s, 'i) npf_ifops \<Rightarrow> 'nv \<Rightarrow> string \<Rightarrow> npf_connkey \<Rightarrow> 's npf_ifmap \<Rightarrow> (bool \<times> npf_connkey \<times> 's npf_ifmap) option" where
  "import_key N ops cdict name key ifm =
    (case dnvlist_get_nvlist N cdict name of
       None \<Rightarrow> Some (False, key, ifm)
     | Some knv \<Rightarrow>
         let (ret, key', ifm) = npf_connkey_import N ops ifm knv key in
         if length key' \<noteq> length key then None else Some (ret \<noteq> 0, key', ifm))"

text \<open>
  The connection after \<open>memset\<close>, which leaves the keys alone, with the members that are set
  first.
\<close>

definition import_conn :: "'nv nv_ops \<Rightarrow> int \<Rightarrow> 'nv \<Rightarrow> npf_conn \<Rightarrow> npf_conn" where
  "import_conn N now cdict c = conn_update_atime now
     \<lparr> c_proto = unat (ucast (dnvlist_get_number N cdict ''proto'' 0) :: u16), c_alen = 0, c_ifid = 0,
       c_flags = ucast (dnvlist_get_number N cdict ''flags'' 0) AND (of_nat PFIL_ALL OR CONN_ACTIVE OR CONN_PASS),
       c_retfl = 0, c_rid = 0, c_rproc = None, c_nat = None, c_refcnt = 0, c_atime = 0, c_state = npf_state_zero,
       c_keys = c_keys c \<rparr>"

text \<open>The keys and their insertion: the part of \<open>npf_conn_import\<close> after the translation entry.\<close>

definition import_insert ::
  "('m, 'p, 'x, 'nv) kern_env \<Rightarrow> 'nv nv_ops \<Rightarrow> ('s, 'i) npf_ifops \<Rightarrow> nat \<Rightarrow> 'm npf_conndb \<Rightarrow> 'nv \<Rightarrow> 's npf_ifmap
   \<Rightarrow> ('m, 'p, 'x) npf_kern \<Rightarrow> (errno option \<times> 'm npf_conndb \<times> 's npf_ifmap \<times> ('m, 'p, 'x) npf_kern) option" where
  "import_insert E N ops con cd cdict ifm k =
    (let err = (\<lambda>cd ifm k. Some (Some EINVAL, cd, ifm, npf_conn_destroy E con k));
         alen = unat (ucast (dnvlist_get_number N cdict ''alen'' 0) :: u32) in
     case import_key N ops cdict ''forw-key'' (npf_conn_getforwkey (conns k con)) ifm of
       None \<Rightarrow> None
     | Some (ok, fw, ifm) \<Rightarrow>
         let k = conn_upd con (\<lambda>c. c\<lparr> c_keys := fw \<rparr>) k; fwlen = NPF_CONNKEY_ALEN fw in
         if \<not> ok then err cd ifm k
         else
           case import_key N ops cdict ''back-key'' (npf_conn_getbackkey (conns k con) fwlen) ifm of
             None \<Rightarrow> None
           | Some (ok, bk, ifm) \<Rightarrow>
               let k = conn_upd con (set_backkey fwlen bk) k in
               if \<not> ok then err cd ifm k
               else if fwlen \<noteq> alen \<or> NPF_CONNKEY_ALEN bk \<noteq> alen then err cd ifm k
               else
                 case conn_insert_keys (env_map E) cd (npf_conn_getforwkey (conns k con)) (npf_conn_getbackkey (conns k con) fwlen) con of
                   (False, cd) \<Rightarrow> err cd ifm k
                 | (True, cd) \<Rightarrow> Some (None, npf_conndb_enqueue cd con, ifm, k))"

text \<open>
  \<open>con\<close> and \<open>nt\<close> are the objects that the pools return; \<open>cd\<close> is the database that is being
  filled.  The database and the interface map are returned with the error.
\<close>

definition npf_conn_import ::
  "('m, 'p, 'x, 'nv) kern_env \<Rightarrow> 'nv nv_ops \<Rightarrow> ('s, 'i) npf_ifops \<Rightarrow> u8 list \<Rightarrow> int \<Rightarrow> nat \<Rightarrow> nat \<Rightarrow> 'm npf_conndb \<Rightarrow> 'nv
   \<Rightarrow> npf_ruleset \<Rightarrow> 'a rule_mem \<Rightarrow> 's npf_ifmap \<Rightarrow> ('m, 'p, 'x) npf_kern
   \<Rightarrow> (errno option \<times> 'm npf_conndb \<times> 's npf_ifmap \<times> ('m, 'p, 'x) npf_kern) option" where
  "npf_conn_import E N ops junk now con nt cd cdict natlist h ifm k =
    (let err = (\<lambda>ifm k. Some (Some EINVAL, cd, ifm, npf_conn_destroy E con k));
         k = conn_upd con (import_conn N now cdict) (npf_stats_inc NPF_STAT_CONN_CREATE k);
         (ok, ifid, ifm) = (case dnvlist_get_string N cdict ''ifname'' of
                              None \<Rightarrow> (True, 0, ifm)
                            | Some ifname \<Rightarrow> let (ifid, ifm) = npf_ifmap_register ops ifm ifname in (ifid \<noteq> 0, ifid, ifm));
         k = conn_upd con (\<lambda>c. c\<lparr> c_ifid := ifid \<rparr>) k in
     if \<not> ok then err ifm k
     else
       case dnvlist_get_binary N cdict ''state'' of
         None \<Rightarrow> err ifm k
       | Some st \<Rightarrow>
           if length st \<noteq> NPF_STATE_SIZE then err ifm k
           else
             let k = conn_upd con (\<lambda>c. c\<lparr> c_state := state_of_bytes st \<rparr>) k in
             case dnvlist_get_nvlist N cdict ''nat'' of
               None \<Rightarrow> import_insert E N ops con cd cdict ifm k
             | Some nat_nv \<Rightarrow>
                 (case npf_nat_import E N ops junk nt nat_nv natlist h con ifm k of
                    (None, ifm, k) \<Rightarrow> err ifm k
                  | (Some nt, ifm, k) \<Rightarrow>
                      import_insert E N ops con cd cdict ifm (conn_upd con (\<lambda>c. c\<lparr> c_nat := Some nt \<rparr>) k)))"

definition npf_conn_find ::
  "('m, 'p, 'x, 'nv) kern_env \<Rightarrow> 'nv nv_ops \<Rightarrow> ('s, 'i) npf_ifops \<Rightarrow> 'nv \<Rightarrow> 'nv \<Rightarrow> 's npf_ifmap \<Rightarrow> ('m, 'p, 'x) npf_kern
   \<Rightarrow> errno option \<times> 'nv \<times> 's npf_ifmap \<times> ('m, 'p, 'x) npf_kern" where
  "npf_conn_find E N ops req resp ifm k =
    (case dnvlist_get_nvlist N req ''key'' of
       None \<Rightarrow> (Some EINVAL, resp, ifm, k)
     | Some key_nv \<Rightarrow>
         let (ret, key, ifm) = npf_connkey_import N ops ifm key_nv (replicate (4 * NPF_CONNKEY_MAXWORDS) 0) in
         if ret = 0 then (Some EINVAL, resp, ifm, k)
         else
           case npf_conndb_lookup E key k of
             (None, k) \<Rightarrow> (Some ESRCH, resp, ifm, k)
           | (Some (con, flow), k) \<Rightarrow>
               let rel = conn_upd con (\<lambda>c. c\<lparr> c_refcnt := c_refcnt c - 1 \<rparr>) in
               if \<not> npf_conn_check (conns k con) None 0 NPF_FLOW_FORW then (Some ESRCH, resp, ifm, rel k)
               else
                 let (error, resp) = npf_conn_export N ifm con resp k in
                 (error, nvlist_add_number N resp ''flow'' (if flow = NPF_FLOW_FORW then 0 else 1), ifm, rel k))"

section \<open>Facts\<close>

lemma establish_tracking:
  "npf_conn_establish E now (Some con) npc di perif k = (Some c, npc', k') \<Longrightarrow> conn_tracking k' = conn_tracking k"
  by (auto simp: npf_conn_establish_def Let_def upd_defs split: prod.splits if_splits)

lemma tcpstate_of_bytes:
  "sint (word_of_int (nst_wscale s) :: u32) = nst_wscale s \<Longrightarrow> length p = i \<Longrightarrow> tcpstate_of_bytes (p @ tcpstate_bytes s @ r) i = s"
  by (simp add: tcpstate_of_bytes_def tcpstate_bytes_def rd32_append)

lemma length_state_bytes [simp]: "length (tcpstate_bytes s) = 16" "length (state_bytes nst) = NPF_STATE_SIZE"
  by (simp_all add: tcpstate_bytes_def state_bytes_def)

text \<open>What is saved of the protocol state is restored.\<close>

lemma state_of_bytes:
  assumes "nst_state nst < 2 ^ 32"
    and w: "\<And>flow. sint (word_of_int (nst_wscale (nst_tcpst nst flow)) :: u32) = nst_wscale (nst_tcpst nst flow)"
  shows "state_of_bytes (state_bytes nst) = nst"
proof -
  have "nst_state (state_of_bytes (state_bytes nst)) = nst_state nst"
    using assms(1) by (simp add: state_of_bytes_def state_bytes_def unsigned_of_nat take_bit_nat_eq_self)
  moreover have "nst_tcpst (state_of_bytes (state_bytes nst)) flow = nst_tcpst nst flow" for flow
    using tcpstate_of_bytes [OF w, of "le32 (of_nat (nst_state nst))" 4 NPF_FLOW_FORW "tcpstate_bytes (nst_tcpst nst NPF_FLOW_BACK)"]
      tcpstate_of_bytes [OF w, of "le32 (of_nat (nst_state nst)) @ tcpstate_bytes (nst_tcpst nst NPF_FLOW_FORW)" 20 NPF_FLOW_BACK "[]"]
    by (cases flow) (simp_all add: state_of_bytes_def state_bytes_def)
  ultimately show ?thesis by (intro npf_state.equality) auto
qed

text \<open>The loop visits the rest of the list and then is back at the head.\<close>

lemma list_next_at: "distinct (xs @ c # ys) \<Longrightarrow> list_next (xs @ c # ys) c = list_first ys"
  by (induction xs) (auto split: list.split)

lemma export_loop_list:
  assumes "cd_list (conn_db k) = xs @ c # ys" "distinct (xs @ c # ys)"
  shows "export_loop N npf k (list_first (xs @ c # ys)) (Some c) nvl = Some (fold (export_one N npf k) (c # ys) nvl)"
  using assms
proof (induction ys arbitrary: xs c nvl)
  case Nil
  then show ?case
    by (subst export_loop.simps) (simp add: npf_conndb_getnext_def list_next_at, simp add: list_first_def)
next
  case (Cons y ys)
  have n: "npf_conndb_getnext (conn_db k) (Some c) = Some y"
    using Cons.prems list_next_at [of xs c "y # ys"] by (simp add: npf_conndb_getnext_def list_first_def)
  have "list_first (xs @ c # y # ys) \<noteq> Some y"
    using Cons.prems(2) by (cases xs) (auto simp: list_first_def)
  then show ?case
    using Cons.IH [of "xs @ [c]" y "export_one N npf k c nvl"] Cons.prems
    by (subst export_loop.simps) (simp add: n)
qed

lemma nat_export_db: "npf_nat_export N npf nt nvl (k\<lparr> conn_db := cd \<rparr>) = npf_nat_export N npf nt nvl k"
  by (simp add: npf_nat_export_def)

lemma conn_export_db: "npf_conn_export N npf con nvl (k\<lparr> conn_db := cd \<rparr>) = npf_conn_export N npf con nvl k"
  by (auto simp: npf_conn_export_def Let_def nat_export_db split: option.split)

lemma export_one_db: "export_one N npf (k\<lparr> conn_db := cd \<rparr>) = export_one N npf k"
  by (simp add: fun_eq_iff export_one_def conn_export_db)

lemma fold_Cons: "fold (#) xs ys = rev xs @ ys"
  by (induction xs arbitrary: ys) simp_all

text \<open>The protocol that is read from the key of a packet, four bits too low.\<close>

definition saved_proto :: "npf_cache \<Rightarrow> nat \<Rightarrow> nat" where
  "saved_proto npc di =
     unat ((push_bit 4 (of_nat (npc_proto npc)) OR drop_bit 16 (key_ckey (packet_ifid npc) (packet_di npc di))) AND 0xff :: u32)"

lemma saved_proto_less: "saved_proto npc di < 256"
proof -
  have "unat (w AND 0xff) < 256" for w :: u32
  proof -
    have "w AND 0xff = take_bit 8 w" by (simp add: take_bit_eq_mask mask_eq_exp_minus_1)
    then show ?thesis by (simp add: unsigned_take_bit_eq take_bit_eq_mod [where 'a = nat])
  qed
  then show ?thesis unfolding saved_proto_def .
qed

lemma saved_proto_bit:
  assumes "packet_ids npc \<noteq> None" "npc_proto npc \<noteq> IPPROTO_UDP \<or> packet_di npc di \<noteq> 0"
  shows "\<exists>j<8. bit (of_nat (saved_proto npc di) :: u32) j \<and> \<not> bit (of_nat (npc_proto npc) :: u32) j"
proof -
  let ?c = "key_ckey (packet_ifid npc) (packet_di npc di)"
  have m: "w AND 0xff = take_bit 8 w" for w :: u32 by (simp add: take_bit_eq_mask mask_eq_exp_minus_1)
  have b: "bit (of_nat (saved_proto npc di) :: u32) j \<longleftrightarrow> j < 8 \<and> (4 \<le> j \<and> bit (of_nat (npc_proto npc) :: u32) (j - 4) \<or> bit ?c (16 + j))" for j
    unfolding saved_proto_def m by (auto simp: bit_simps)
  have d: "bit ?c 18 \<or> bit ?c 19" if "packet_di npc di \<noteq> 0"
  proof -
    have "packet_di npc di = 1 \<or> packet_di npc di = 2 \<or> packet_di npc di = 3"
      using that packet_di_less [of npc di] by linarith
    then show ?thesis by (auto simp: key_ckey_def bit_simps)
  qed
  consider "npc_proto npc = 6" | "npc_proto npc = 1" | "npc_proto npc = 58" | "npc_proto npc = 17" "packet_di npc di \<noteq> 0"
    using assms by (auto simp: packet_ids_def Let_def split: if_splits)
  then show ?thesis
  proof cases
    case 1 then show ?thesis by (intro exI [of _ 5]) (simp add: b)
  next
    case 2 then show ?thesis by (intro exI [of _ 4]) (simp add: b)
  next
    case 3 then show ?thesis by (intro exI [of _ 7]) (simp add: b)
  next
    case 4
    then show ?thesis using d by (auto simp: b intro: exI [of _ 2] exI [of _ 3])
  qed
qed


text \<open>What is read from the list of an exported key.\<close>

lemma export_fields:
  assumes N: "nv_laws N" and g: "npf_connkey_getkey key [replicate 16 0, replicate 16 0] = (alen, proto, [a, b], [s, d])"
      "npf_connkey_getckey key = (ifid, di)" and l: "length a = alen" "length b = alen"
  shows "dnvlist_get_number N (npf_connkey_export N npf key) ''proto'' 0 = of_nat proto"
    "dnvlist_get_number N (npf_connkey_export N npf key) ''sport'' 0 = ucast s"
    "dnvlist_get_number N (npf_connkey_export N npf key) ''dport'' 0 = ucast d"
    "dnvlist_get_binary N (npf_connkey_export N npf key) ''saddr'' = Some a"
    "dnvlist_get_binary N (npf_connkey_export N npf key) ''daddr'' = Some b"
  using N l by (simp_all add: npf_connkey_export_def g nv_simps Let_def)

lemma import_is:
  assumes al: "alen = 4 \<or> alen = 16" "8 + 2 * alen \<le> length buf" "length a = alen" "length b = alen" and p: "proto < 256"
    and f: "dnvlist_get_number N nv ''proto'' 0 = of_nat proto" "dnvlist_get_number N nv ''sport'' 0 = ucast s"
      "dnvlist_get_number N nv ''dport'' 0 = ucast d" "dnvlist_get_binary N nv ''saddr'' = Some a" "dnvlist_get_binary N nv ''daddr'' = Some b"
    and i: "npf_connkey_import N ops ifm nv buf = (len2, key, ifm')" "len2 \<noteq> 0"
  obtains c where "len2 = 8 + 2 * alen" "key_is key (key_hdr alen proto 0 OR c) (key_ids s d) a b"
proof -
  obtain len1 k where k: "npf_connkey_setkey buf alen proto [a, b] [s, d] NPF_FLOW_FORW = (len1, k)" by force
  have s: "len1 = 8 + 2 * alen" "key_is k (key_hdr alen proto 0) (key_ids s d) a b"
    using setkey_is [OF al, of "[a, b]" 0 1 NPF_FLOW_FORW proto "[s, d]"] k by simp_all
  have u: "unat (of_nat proto :: u64) = proto" using p by (simp add: unsigned_of_nat take_bit_nat_eq_self)
  have w: "ucast (ucast x :: u64) = x" for x :: u16 by (rule bit_word_eqI) (simp add: bit_simps)
  obtain x di where "len2 = len1" "key = npf_connkey_setckey k x di"
    using i p al s(1) by (auto simp: npf_connkey_import_def f u w k Let_def split: option.splits prod.splits if_splits)
  then show thesis using that s(1) setckey_is [OF s(2), of x di] by (simp add: or.assoc)
qed

section \<open>Properties\<close>

text \<open>
  C17: saving ends and saves every connection once.  In every reachable state the export of the
  database returns, and what it appends to the list are the active connections, each once: those
  not yet moved to the main list first, the latest last, then those of the main list in order.
\<close>

theorem npf_conndb_export_all:
  assumes "(conn_step E)\<^sup>*\<^sup>* k0 k" "conn_start E k0" "thmap_laws (env_map E)" "algs_keep E" "conn_tracking k"
  shows "npf_conndb_export N npf nvl k =
      Some (fold (export_one N npf k) (rev (cd_new (conn_db k)) @ cd_list (conn_db k)) nvl,
        k\<lparr> conn_db := npf_conndb_update (conn_db k) \<rparr>) \<and>
    distinct (rev (cd_new (conn_db k)) @ cd_list (conn_db k))"
proof
  have "conndb_inv (env_map E) (conn_db k) (conns k)" using conn_reach_inv [OF assms(1-4)] by (simp add: conn_inv_def)
  then show d: "distinct (rev (cd_new (conn_db k)) @ cd_list (conn_db k))" by (auto simp: conndb_inv_def)
  have l: "cd_list (npf_conndb_update (conn_db k)) = rev (cd_new (conn_db k)) @ cd_list (conn_db k)"
    by (simp add: npf_conndb_update_def fold_Cons)
  show "npf_conndb_export N npf nvl k =
      Some (fold (export_one N npf k) (rev (cd_new (conn_db k)) @ cd_list (conn_db k)) nvl,
        k\<lparr> conn_db := npf_conndb_update (conn_db k) \<rparr>)"
  proof (cases "rev (cd_new (conn_db k)) @ cd_list (conn_db k)")
    case Nil
    then show ?thesis using assms(5) l
      by (simp add: npf_conndb_export_def npf_conndb_getlist_def list_first_def export_loop.simps)
  next
    case (Cons c ys)
    then show ?thesis
      using assms(5) l d export_loop_list [of "k\<lparr> conn_db := npf_conndb_update (conn_db k) \<rparr>" "[]" c ys N npf nvl]
      by (simp add: npf_conndb_export_def npf_conndb_getlist_def export_one_db) (simp add: list_first_def)
  qed
qed

text \<open>A map of three interfaces, and memory without rules.\<close>

definition ex_ifmap :: "(bool \<Rightarrow> u32) npf_ifmap" where
  "ex_ifmap = fold (\<lambda>name ifm. snd (npf_ifmap_register ex_ifops ifm name)) [''lan'', ''wan'', ''dmz''] (npf_ifmap_init ex_ifops (\<lambda>_. 0))"

definition ex_rule_mem :: "unit rule_mem" where
  "ex_rule_mem = \<lparr> rules = (\<lambda>_. rule_zero), rules_freed = [] \<rparr>"

theorem npf_conndb_export_all_witness:
  "npf_conndb_export nvl_ops ex_ifmap (NVL []) ex_flow_kern =
     Some (export_one nvl_ops ex_ifmap ex_flow_kern 2 (NVL []), ex_flow_kern\<lparr> conn_db := npf_conndb_update (conn_db ex_flow_kern) \<rparr>)"
proof (rule ex_flow_established)
  fix k' assume a: "npf_conn_establish ex_env 100 (Some 2) ex_flow PFIL_OUT True ex_ckern = (Some 2, ex_flow, k')"
    "(conn_step ex_env)\<^sup>*\<^sup>* ex_ckern k'" "cd_new (conn_db k') = [2]" "cd_list (conn_db k') = []"
    "ex_flow_kern = npf_conn_release 2 k'"
  have s: "(conn_step ex_env)\<^sup>*\<^sup>* ex_ckern ex_flow_kern"
    unfolding a(5) by (rule rtranclp.rtrancl_into_rtrancl [OF a(2) step_release])
  have t: "conn_tracking ex_flow_kern"
    using establish_tracking [OF a(1)] by (simp add: a(5) npf_conn_release_def conn_upd_def ex_ckern_def ex_kern_def)
  show ?thesis
    using npf_conndb_export_all [OF s ex_flow_start(3,1,2) t, of nvl_ops ex_ifmap "NVL []"] a(3,4)
    by (simp add: a(5) npf_conn_release_def conn_upd_def)
qed


lemma const_fst: "(\<And>x. f x = (c, snd (f x))) \<Longrightarrow> \<exists>g. \<forall>x. f x = (c, g x)"
  by (intro exI [of _ "\<lambda>x. snd (f x)"]) simp

definition ex_key :: npf_connkey where
  "ex_key = snd (npf_conn_conkey (ex_cached (ex_packet 2 0 0) 3) (replicate 40 0) PFIL_IN NPF_FLOW_FORW)"

lemma ex_key:
  "npf_connkey_getkey ex_key ips = (4, 100, [[10, 0, 0, 1], [192, 168, 1, 2]], [0x3930, 0x5000])"
  "npf_connkey_getckey ex_key = (0x40003, PFIL_IN)"
  using npf_connkey_getkey_conkey [OF ex_cached_ok(1) ex_cached_ok(3) _ prod.collapse [symmetric], of 3 PFIL_IN ips]
  unfolding ex_key_def
  by (simp_all add: ex_cached_def ex_packet_def packet_ifid_def packet_di_def packet_addrs_def npc_addr_def key_ckey_def
      nbuf_init_def nbuf_reset_def)


text \<open>
  C40: the guard against contradicting address lengths comes too late.  The memory of a connection
  with IPv4 keys has 32 bytes for them; a list that announces four-byte addresses and has keys
  with sixteen-byte ones makes the import write outside this memory before the guard.
\<close>

definition ex_key_nv :: nvl where
  "ex_key_nv = NVL [(''proto'', NVNumber 17), (''saddr'', NVBinary (replicate 16 1)), (''daddr'', NVBinary (replicate 16 2))]"

definition ex_conn_nv :: nvl where
  "ex_conn_nv = NVL [(''alen'', NVNumber 4), (''flags'', NVNumber 4), (''state'', NVBinary (replicate 36 0)),
     (''forw-key'', NVNvlist ex_key_nv), (''back-key'', NVNvlist ex_key_nv)]"


end
