(* ===== verification/NPF_Ext.thy ===== *)
theory NPF_Ext
  imports NPF_Rewrite NPF_Tcphdr NPF_Kern
begin

text \<open>
  The extensions that rule procedures call: rate limiting (\<open>src/kern/npf_ext_ratelimit.c\<close>),
  blocking of a share of the packets (\<open>src/kern/npf_ext_rndblock.c\<close>) and normalisation of headers
  (\<open>src/kern/npf_ext_normalize.c\<close>).  Their parameters and counters are objects of the memory
  \<open>ext_mem\<close>; the clock and the random numbers are members of it that the host sets.
\<close>

section \<open>State\<close>

record car_state =
  car_tc :: u64
  car_compounded :: u64
  car_tslast :: u64
  car_cir_tok :: u64
  car_cbs :: u64
  car_ebs :: u64

record npf_ext_rndblock =
  rb_mod :: u32
  rb_counter :: u64
  rb_percentage :: u32

record npf_normalize =
  nz_minttl :: u32
  nz_maxmss :: u32
  nz_random_id :: bool
  nz_no_df :: bool

record ext_mem =
  em_sec :: u64
  em_nsec :: u64
  em_random :: u32
  em_next :: nat
  em_ratelimit :: "nat \<Rightarrow> car_state"
  em_rndblock :: "nat \<Rightarrow> npf_ext_rndblock"
  em_normalize :: "nat \<Rightarrow> npf_normalize"
  em_freed :: "nat list"

definition em_free :: "nat \<Rightarrow> ext_mem \<Rightarrow> ext_mem" where
  "em_free meta x = x\<lparr> em_freed := meta # em_freed x \<rparr>"

section \<open>Rate limiting\<close>

definition ratelimit_params :: "'nv nv_ops \<Rightarrow> 'nv \<Rightarrow> car_state" where
  "ratelimit_params N params =
    (let bitrate = dnvlist_get_number N params ''bitrate'' 0;
         cbs = dnvlist_get_number N params ''normal-burst'' 0;
         ebs = dnvlist_get_number N params ''extended-burst'' 0;
         cbs = (if cbs = 0 then drop_bit 3 bitrate + drop_bit 4 bitrate else cbs) in
     \<lparr> car_tc = 0, car_compounded = 0, car_tslast = 0, car_cir_tok = drop_bit 3 bitrate div 1000,
       car_cbs = cbs, car_ebs = (if ebs = 0 then cbs * 2 else ebs) \<rparr>)"

definition npf_ext_ratelimit_ctor :: "'nv nv_ops \<Rightarrow> 'nv \<Rightarrow> ext_mem \<Rightarrow> errno option \<times> nat \<times> ext_mem" where
  "npf_ext_ratelimit_ctor N params x =
     (None, em_next x, x\<lparr> em_next := em_next x + 1, em_ratelimit := (em_ratelimit x)(em_next x := ratelimit_params N params) \<rparr>)"

definition npf_ext_ratelimit_dtor :: "nat \<Rightarrow> ext_mem \<Rightarrow> ext_mem" where
  "npf_ext_ratelimit_dtor meta x = em_free meta x"

text \<open>\<open>tc\<close> is a signed integer: its word is compared through \<open>sint\<close>.\<close>

definition car_ratelimit :: "car_state \<Rightarrow> u64 \<Rightarrow> u64 \<Rightarrow> bool \<times> car_state" where
  "car_ratelimit car tsnow nbytes =
    (let car = (if tsnow > car_tslast car then
                  let tokens = (tsnow - car_tslast car) * car_cir_tok car; tc = car_tc car + tokens in
                  car\<lparr> car_tc := (if sint tc < sint (car_cbs car) then tc else car_cbs car), car_tslast := tsnow \<rparr>
                else car);
         remaining = car_tc car - nbytes in
     if sint remaining \<ge> 0 then (True, car\<lparr> car_tc := car_tc car - nbytes \<rparr>)
     else
       let actual_debt = - car_tc car + nbytes; compounded_debt = car_compounded car + actual_debt in
       if actual_debt > car_ebs car then (False, car\<lparr> car_compounded := 0 \<rparr>)
       else if compounded_debt > car_ebs car then (False, car\<lparr> car_compounded := 0 \<rparr>)
       else (True, car\<lparr> car_tc := - actual_debt, car_compounded := compounded_debt \<rparr>))"

definition npf_ext_ratelimit ::
  "npf_cache \<Rightarrow> nat \<Rightarrow> npf_match_info \<Rightarrow> nat \<Rightarrow> ext_mem \<Rightarrow> bool \<times> npf_cache \<times> nat \<times> ext_mem" where
  "npf_ext_ratelimit npc meta mi decision x =
    (if decision = NPF_DECISION_BLOCK then (True, npc, decision, x)
     else
       let pktlen = of_nat (nbuf_datalen (npc_nbuf npc));
           ts_msec = em_sec x * 1000 + em_nsec x div 1000000;
           (ok, car) = car_ratelimit (em_ratelimit x meta) ts_msec pktlen in
       (True, npc, if ok then decision else NPF_DECISION_BLOCK, x\<lparr> em_ratelimit := (em_ratelimit x)(meta := car) \<rparr>))"

definition npf_ratelimit_ops :: "'nv nv_ops \<Rightarrow> (ext_mem, 'nv) npf_ext_ops" where
  "npf_ratelimit_ops N =
     \<lparr> ext_ctor = npf_ext_ratelimit_ctor N, ext_dtor = npf_ext_ratelimit_dtor, ext_proc = npf_ext_ratelimit \<rparr>"

section \<open>Blocking of a share of the packets\<close>

abbreviation PERCENTAGE_BASE :: u32 where "PERCENTAGE_BASE \<equiv> 10000"

definition npf_ext_rndblock_ctor :: "'nv nv_ops \<Rightarrow> 'nv \<Rightarrow> ext_mem \<Rightarrow> errno option \<times> nat \<times> ext_mem" where
  "npf_ext_rndblock_ctor N params x =
     (None, em_next x, x\<lparr> em_next := em_next x + 1, em_rndblock := (em_rndblock x)(em_next x :=
        \<lparr> rb_mod = ucast (dnvlist_get_number N params ''mod'' 0), rb_counter = 0,
          rb_percentage = ucast (dnvlist_get_number N params ''percentage'' 0) \<rparr>) \<rparr>)"

definition npf_ext_rndblock_dtor :: "nat \<Rightarrow> ext_mem \<Rightarrow> ext_mem" where
  "npf_ext_rndblock_dtor meta x = em_free meta x"

definition npf_ext_rndblock ::
  "npf_cache \<Rightarrow> nat \<Rightarrow> npf_match_info \<Rightarrow> nat \<Rightarrow> ext_mem \<Rightarrow> bool \<times> npf_cache \<times> nat \<times> ext_mem" where
  "npf_ext_rndblock npc meta mi decision x =
    (if decision = NPF_DECISION_BLOCK then (True, npc, decision, x)
     else
       let rb = em_rndblock x meta; c = rb_counter rb + 1;
           x = x\<lparr> em_rndblock := (em_rndblock x)(meta := rb\<lparr> rb_counter := c \<rparr>) \<rparr>;
           decision = (if rb_mod rb \<noteq> 0 \<and> c mod ucast (rb_mod rb) = 0 then NPF_DECISION_BLOCK else decision);
           decision = (if rb_percentage rb \<noteq> 0 \<and> em_random x mod PERCENTAGE_BASE \<le> rb_percentage rb
                       then NPF_DECISION_BLOCK else decision) in
       (True, npc, decision, x))"

definition npf_rndblock_ops :: "'nv nv_ops \<Rightarrow> (ext_mem, 'nv) npf_ext_ops" where
  "npf_rndblock_ops N =
     \<lparr> ext_ctor = npf_ext_rndblock_ctor N, ext_dtor = npf_ext_rndblock_dtor, ext_proc = npf_ext_rndblock \<rparr>"

section \<open>Normalisation\<close>

abbreviation IP_DF :: u16 where "IP_DF \<equiv> 0x4000"

definition npf_normalize_ctor :: "'nv nv_ops \<Rightarrow> 'nv \<Rightarrow> ext_mem \<Rightarrow> errno option \<times> nat \<times> ext_mem" where
  "npf_normalize_ctor N params x =
     (None, em_next x, x\<lparr> em_next := em_next x + 1, em_normalize := (em_normalize x)(em_next x :=
        \<lparr> nz_minttl = ucast (dnvlist_get_number N params ''min-ttl'' 0), nz_maxmss = ucast (dnvlist_get_number N params ''max-mss'' 0),
          nz_random_id = dnvlist_get_bool N params ''random-id'' False, nz_no_df = dnvlist_get_bool N params ''no-df'' False \<rparr>) \<rparr>)"

definition npf_normalize_dtor :: "nat \<Rightarrow> ext_mem \<Rightarrow> ext_mem" where
  "npf_normalize_dtor meta x = em_free meta x"

text \<open>The three rewrites of the IPv4 header, each with the checksum so far.\<close>

definition normalize_id :: "npf_normalize \<Rightarrow> u16 \<Rightarrow> nat \<Rightarrow> u16 \<times> u8 list \<Rightarrow> u16 \<times> u8 list" where
  "normalize_id np nid ip = (\<lambda>(cksum, d).
     if nz_random_id np then (npf_fixup16_cksum cksum (rd16 d (ip + 4)) nid, wr16 d (ip + 4) nid) else (cksum, d))"

definition normalize_df :: "npf_normalize \<Rightarrow> u16 \<Rightarrow> nat \<Rightarrow> u16 \<times> u8 list \<Rightarrow> u16 \<times> u8 list" where
  "normalize_df np ip_off ip = (\<lambda>(cksum, d).
     if nz_no_df np \<and> ip_off AND htons IP_DF \<noteq> 0 then
       let nip_off = ip_off AND NOT (htons IP_DF) in (npf_fixup16_cksum cksum ip_off nip_off, wr16 d (ip + 6) nip_off)
     else (cksum, d))"

definition normalize_ttl :: "npf_normalize \<Rightarrow> u8 \<Rightarrow> nat \<Rightarrow> u16 \<times> u8 list \<Rightarrow> u16 \<times> u8 list" where
  "normalize_ttl np ttl ip = (\<lambda>(cksum, d).
     if nz_minttl np \<noteq> 0 \<and> ucast ttl < nz_minttl np then
       (npf_fixup16_cksum cksum (ucast ttl) (ucast (nz_minttl np)), d[ip + 8 := ucast (nz_minttl np)])
     else (cksum, d))"

definition npf_normalize_ip4 :: "npf_normalize \<Rightarrow> u16 \<Rightarrow> npf_cache \<Rightarrow> npf_cache" where
  "npf_normalize_ip4 np nid npc =
    (let ip = npc_ip npc; d = npc_data npc;
         (cksum, d') = normalize_ttl np (d ! (ip + 8)) ip (normalize_df np (rd16 d (ip + 6)) ip
                         (normalize_id np nid ip (rd16 d (ip + 10), d))) in
     npc_set_data npc (wr16 d' (ip + 10) cksum))"

text \<open>
  The clamping of the TCP maximum segment size.  \<open>wscale\<close>, \<open>old\<close>, \<open>new\<close> and \<open>mid\<close> are local
  variables without an initial value; they are zero here and read only after they were set.
\<close>

definition normalize_mss :: "npf_normalize \<Rightarrow> nat \<Rightarrow> npf_cache \<Rightarrow> npf_cache" where
  "normalize_mss np di npc =
    (let maxmss = ucast (nz_maxmss np) :: u16 in
     if maxmss = 0 \<or> \<not> npf_iscached npc NPC_TCP \<or> th_flags npc AND TH_SYN = 0 then npc
     else
       case npf_fetch_tcpopts npc (Some 0) 0 of
         (False, _, _, npc) \<Rightarrow> npc
       | (True, m, _, npc) \<Rightarrow>
           let mss = the m in
           if ntohs mss \<le> maxmss then npc
           else
             let (ok, old, new, mid, npc) = npf_set_mss npc (htons maxmss) [0, 0] [0, 0] False in
             if ok \<and> \<not> nbuf_cksum_barrier (npc_nbuf npc) di then
               let th = the (npc_l4 npc); c = rd16 (npc_data npc) (th + 16);
                   cksum = (if mid then npf_fixup16_cksum (npf_fixup16_cksum c (old ! 0) (new ! 0)) (old ! 1) (new ! 1)
                            else npf_fixup16_cksum c mss (htons maxmss)) in
               npc_set_data npc (wr16 (npc_data npc) (th + 16) cksum)
             else npc)"

definition npf_normalize_proc ::
  "npf_cache \<Rightarrow> nat \<Rightarrow> npf_match_info \<Rightarrow> nat \<Rightarrow> ext_mem \<Rightarrow> bool \<times> npf_cache \<times> nat \<times> ext_mem" where
  "npf_normalize_proc npc meta mi decision x =
    (if decision = NPF_DECISION_BLOCK then (True, npc, decision, x)
     else
       let np = em_normalize x meta;
           npc = (if npf_iscached npc NPC_IP4 \<and> (nz_random_id np \<or> nz_minttl np \<noteq> 0)
                  then npf_normalize_ip4 np (ucast (em_random x)) npc else npc) in
       (True, normalize_mss np (mi_di mi) npc, decision, x))"

definition npf_normalize_ops :: "'nv nv_ops \<Rightarrow> (ext_mem, 'nv) npf_ext_ops" where
  "npf_normalize_ops N =
     \<lparr> ext_ctor = npf_normalize_ctor N, ext_dtor = npf_normalize_dtor, ext_proc = npf_normalize_proc \<rparr>"

section \<open>What the rate limit admits\<close>

text \<open>
  The counters as integers.  The invariant: the bucket is between the negative extended burst and
  the normal burst, the compounded debt within the extended burst, and the bursts are small
  enough for sums in 64 bits.
\<close>

definition car_ok :: "car_state \<Rightarrow> bool" where
  "car_ok car \<longleftrightarrow> uint (car_cbs car) < 2 ^ 62 \<and> uint (car_ebs car) < 2 ^ 62 \<and> car_compounded car \<le> car_ebs car \<and>
     - uint (car_ebs car) \<le> sint (car_tc car) \<and> sint (car_tc car) \<le> uint (car_cbs car)"

text \<open>The bucket after the refill at a time.\<close>

definition car_level :: "car_state \<Rightarrow> u64 \<Rightarrow> int" where
  "car_level car ts =
    (if ts > car_tslast car
     then min (sint (car_tc car) + (uint ts - uint (car_tslast car)) * uint (car_cir_tok car)) (uint (car_cbs car))
     else sint (car_tc car))"

lemma sint_eqI64: "(x :: u64) = word_of_int i \<Longrightarrow> - (2 ^ 63) \<le> i \<Longrightarrow> i < 2 ^ 63 \<Longrightarrow> sint x = i"
  by (simp add: signed_of_int signed_take_bit_int_eq_self)

lemma uint_eqI64: "(x :: u64) = word_of_int i \<Longrightarrow> 0 \<le> i \<Longrightarrow> i < 2 ^ 64 \<Longrightarrow> uint x = i"
  by (simp add: unsigned_of_int take_bit_int_eq_self)

lemma sint_small64: "uint (x :: u64) < 2 ^ 63 \<Longrightarrow> sint x = uint x"
  using uint_ge_0 [of x] by (intro sint_eqI64) (simp, linarith, simp)

lemma refill_level:
  assumes ok: "car_ok car" and ov: "uint ts * uint (car_cir_tok car) < 2 ^ 62"
    and car': "car' = (if ts > car_tslast car then
      let tokens = (ts - car_tslast car) * car_cir_tok car; tc = car_tc car + tokens in
      car\<lparr> car_tc := (if sint tc < sint (car_cbs car) then tc else car_cbs car), car_tslast := ts \<rparr> else car)"
  shows "sint (car_tc car') = car_level car ts \<and> car_tslast car' = max ts (car_tslast car) \<and>
    car_compounded car' = car_compounded car \<and> car_cir_tok car' = car_cir_tok car \<and> car_cbs car' = car_cbs car \<and>
    car_ebs car' = car_ebs car \<and> car_ok car'"
proof (cases "ts > car_tslast car")
  case True
  let ?tok = "(uint ts - uint (car_tslast car)) * uint (car_cir_tok car)"
  have d: "uint (car_tslast car) < uint ts" using True by (simp add: word_less_def)
  have "0 \<le> ?tok" "?tok \<le> uint ts * uint (car_cir_tok car)"
    using d by (auto intro!: mult_right_mono)
  then have t: "0 \<le> ?tok" "?tok < 2 ^ 62" using ov by linarith+
  have cbs: "sint (car_cbs car) = uint (car_cbs car)" using ok by (intro sint_small64) (simp add: car_ok_def)
  have "car_tc car + (ts - car_tslast car) * car_cir_tok car = word_of_int (sint (car_tc car) + ?tok)"
    by (simp add: of_int_mult)
  then have s: "sint (car_tc car + (ts - car_tslast car) * car_cir_tok car) = sint (car_tc car) + ?tok"
    using ok t by (intro sint_eqI64) (auto simp: car_ok_def)
  show ?thesis
    using ok t True s cbs unfolding car' by (auto simp: car_ok_def car_level_def Let_def min_def max_def)
next
  case False
  then show ?thesis using ok unfolding car' by (auto simp: car_level_def max_def)
qed

lemma car_ratelimit_step:
  assumes ok: "car_ok car" and ov: "uint ts * uint (car_cir_tok car) < 2 ^ 62" "uint n < 2 ^ 62"
    and r: "car_ratelimit car ts n = (pass, car')"
  shows "sint (car_tc car') = car_level car ts - (if pass then uint n else 0)"
    "car_ok car'" "car_tslast car' = max ts (car_tslast car)"
    "car_cir_tok car' = car_cir_tok car" "car_cbs car' = car_cbs car" "car_ebs car' = car_ebs car"
    "pass \<longleftrightarrow> uint n \<le> car_level car ts \<or> uint (car_compounded car) + uint n - car_level car ts \<le> uint (car_ebs car)"
proof -
  define c where "c = (if ts > car_tslast car then
      let tokens = (ts - car_tslast car) * car_cir_tok car; tc = car_tc car + tokens in
      car\<lparr> car_tc := (if sint tc < sint (car_cbs car) then tc else car_cbs car), car_tslast := ts \<rparr> else car)"
  let ?l = "car_level car ts"
  have c: "sint (car_tc c) = ?l" "car_tslast c = max ts (car_tslast car)" "car_compounded c = car_compounded car"
    "car_cir_tok c = car_cir_tok car" "car_cbs c = car_cbs car" "car_ebs c = car_ebs car" "car_ok c"
    using refill_level [OF ok ov(1) c_def] by auto
  have l: "- uint (car_ebs car) \<le> ?l" "?l \<le> uint (car_cbs car)" "uint (car_cbs car) < 2 ^ 62" "uint (car_ebs car) < 2 ^ 62"
    "uint (car_compounded car) \<le> uint (car_ebs car)"
    using c ok by (simp_all add: car_ok_def word_le_def)
  have w: "car_tc c = word_of_int ?l" by (simp add: c(1) [symmetric])
  define N C where "N = uint n" and "C = uint (car_compounded car)"
  have n: "0 \<le> N" "0 \<le> C" "N < 2 ^ 62" "n = word_of_int N" "car_compounded c = word_of_int C"
    using ov(2) by (simp_all add: N_def C_def c(3))
  note l = l [folded C_def]
  have rem: "sint (car_tc c - n) = ?l - N"
    using l n(1-3) by (intro sint_eqI64) (simp add: w n(4), simp_all)
  have r': "(pass, car') = (if sint (car_tc c - n) \<ge> 0 then (True, c\<lparr> car_tc := car_tc c - n \<rparr>)
     else
       let actual_debt = - car_tc c + n; compounded_debt = car_compounded c + actual_debt in
       if actual_debt > car_ebs c then (False, c\<lparr> car_compounded := 0 \<rparr>)
       else if compounded_debt > car_ebs c then (False, c\<lparr> car_compounded := 0 \<rparr>)
       else (True, c\<lparr> car_tc := - actual_debt, car_compounded := compounded_debt \<rparr>))"
    unfolding r [symmetric] car_ratelimit_def c_def Let_def by (rule refl)
  have debt: "uint (- car_tc c + n) = N - ?l" "uint (car_compounded c + (- car_tc c + n)) = C + N - ?l" if "?l < N"
    using that l n(1-3) by (intro uint_eqI64; simp add: w n(4,5))+
  consider (green) "N \<le> ?l" "pass" "car' = c\<lparr> car_tc := car_tc c - n \<rparr>"
    | (yellow) "?l < N" "pass" "C + N - ?l \<le> uint (car_ebs car)"
        "car' = c\<lparr> car_tc := - (- car_tc c + n), car_compounded := car_compounded c + (- car_tc c + n) \<rparr>"
    | (red) "?l < N" "\<not> pass" "C + N - ?l > uint (car_ebs car)"
        "car' = c\<lparr> car_compounded := 0 \<rparr>"
    using r' n debt rem c(6) by (cases "N \<le> ?l") (auto simp: Let_def word_less_def split: if_splits)
  then have "sint (car_tc car') = ?l - (if pass then N else 0) \<and> car_ok car' \<and> car_tslast car' = car_tslast c \<and>
    car_cir_tok car' = car_cir_tok c \<and> car_cbs car' = car_cbs c \<and> car_ebs car' = car_ebs c \<and>
    (pass \<longleftrightarrow> N \<le> ?l \<or> C + N - ?l \<le> uint (car_ebs car))"
  proof cases
    case green
    then show ?thesis using rem l n c by (simp add: car_ok_def)
  next
    case yellow
    then show ?thesis using rem l n c debt by (simp add: car_ok_def word_le_def)
  next
    case red
    then show ?thesis using l n c by (simp add: car_ok_def word_le_def)
  qed
  then show "sint (car_tc car') = ?l - (if pass then uint n else 0)"
    "car_ok car'" "car_tslast car' = max ts (car_tslast car)"
    "car_cir_tok car' = car_cir_tok car" "car_cbs car' = car_cbs car" "car_ebs car' = car_ebs car"
    "pass \<longleftrightarrow> uint n \<le> ?l \<or> uint (car_compounded car) + uint n - ?l \<le> uint (car_ebs car)"
    using c by (simp_all add: N_def C_def)
qed

text \<open>Packets with their times and sizes, and the bytes that pass.\<close>

fun car_run :: "car_state \<Rightarrow> (u64 \<times> u64) list \<Rightarrow> int \<times> car_state" where
  "car_run car [] = (0, car)"
| "car_run car ((ts, n) # pkts) =
    (let (pass, car) = car_ratelimit car ts n; (bytes, car) = car_run car pkts in
     ((if pass then uint n else 0) + bytes, car))"

lemma car_run_ok:
  assumes "car_ok car" "uint t1 * uint (car_cir_tok car) < 2 ^ 62"
    "\<forall>(ts, n) \<in> set pkts. t0 \<le> ts \<and> ts \<le> t1 \<and> uint n < 2 ^ 62"
  shows "car_ok (snd (car_run car pkts))"
  using assms
proof (induction pkts arbitrary: car)
  case (Cons p pkts)
  obtain ts n where p: "p = (ts, n)" by force
  have b: "ts \<le> t1" "uint n < 2 ^ 62" using Cons.prems(3) by (auto simp: p)
  have "uint ts * uint (car_cir_tok car) \<le> uint t1 * uint (car_cir_tok car)"
    using b(1) by (intro mult_right_mono) (simp_all add: word_le_def)
  then have ov: "uint ts * uint (car_cir_tok car) < 2 ^ 62" using Cons.prems(2) by linarith
  obtain pass car' where r: "car_ratelimit car ts n = (pass, car')" by force
  note s = car_ratelimit_step [OF Cons.prems(1) ov b(2) r]
  show ?case using Cons.IH [OF s(2)] Cons.prems(2,3) by (auto simp: p r s(4) split: prod.split)
qed simp

lemma car_run_bytes:
  assumes "car_ok car" "uint t1 * uint (car_cir_tok car) < 2 ^ 62"
    "\<forall>(ts, n) \<in> set pkts. t0 \<le> ts \<and> ts \<le> t1 \<and> uint n < 2 ^ 62" "t0 \<le> t1" "car_tslast car \<le> t1"
  shows "fst (car_run car pkts) \<le> (if t0 \<le> car_tslast car then sint (car_tc car) else uint (car_cbs car)) +
    uint (car_ebs car) + uint (car_cir_tok car) * (uint t1 - uint (max t0 (car_tslast car)))"
  using assms
proof (induction pkts arbitrary: car)
  case Nil
  have "0 \<le> uint (car_cir_tok car) * (uint t1 - uint (max t0 (car_tslast car)))"
    using Nil.prems(4,5) by (intro mult_nonneg_nonneg) (simp_all add: word_le_def max_def)
  then show ?case using Nil.prems(1) uint_ge_0 [of "car_cbs car"] uint_ge_0 [of "car_ebs car"] by (auto simp: car_ok_def)
next
  case (Cons p pkts)
  obtain ts n where p: "p = (ts, n)" by force
  have b: "t0 \<le> ts" "ts \<le> t1" "uint n < 2 ^ 62" using Cons.prems(3) by (auto simp: p)
  have "uint ts * uint (car_cir_tok car) \<le> uint t1 * uint (car_cir_tok car)"
    using b(2) by (intro mult_right_mono) (simp_all add: word_le_def)
  then have ov: "uint ts * uint (car_cir_tok car) < 2 ^ 62" using Cons.prems(2) by linarith
  obtain pass car' where r: "car_ratelimit car ts n = (pass, car')" by force
  note s = car_ratelimit_step [OF Cons.prems(1) ov b(3) r]
  let ?c = "uint (car_cir_tok car)" and ?l = "car_level car ts"
  have t: "max t0 (car_tslast car') = car_tslast car'" "t0 \<le> car_tslast car'" "car_tslast car' \<le> t1"
    using b Cons.prems(5) by (auto simp: s(3) max_def)
  have "fst (car_run car' pkts) \<le> sint (car_tc car') + uint (car_ebs car) + ?c * (uint t1 - uint (car_tslast car'))"
    using Cons.IH [of car'] s Cons.prems t by auto
  moreover have "?l + ?c * (uint t1 - uint (car_tslast car')) \<le>
      (if t0 \<le> car_tslast car then sint (car_tc car) else uint (car_cbs car)) + ?c * (uint t1 - uint (max t0 (car_tslast car)))"
  proof (cases "t0 \<le> car_tslast car")
    case True
    then show ?thesis using b by (auto simp: s(3) car_level_def max_def min_def algebra_simps)
  next
    case False
    then have "car_tslast car < ts" "max ts (car_tslast car) = ts" "max t0 (car_tslast car) = t0" using b by (auto simp: max_def)
    moreover have "?c * uint t0 \<le> ?c * uint ts" using b by (intro mult_left_mono) (simp_all add: word_le_def)
    ultimately show ?thesis using False by (auto simp: s(3) car_level_def min_def algebra_simps)
  qed
  ultimately show ?case using s(1) by (auto simp: p r split: prod.split)
qed

section \<open>Normalisation keeps the checksum of the header\<close>

text \<open>The checksum so far fits the header without its checksum field.\<close>

definition ip4_fits :: "nat \<Rightarrow> nat \<Rightarrow> u16 \<times> u8 list \<Rightarrow> bool" where
  "ip4_fits ip hlen = (\<lambda>(c, d). 20 \<le> hlen \<and> ip + hlen \<le> length d \<and>
     65535 dvd (sum16 (region ip hlen d) - unat (rd16 d (ip + 10))) + unat c)"

lemma ip4_fits_fixup:
  assumes f: "ip4_fits ip hlen (c, d)" and len: "length d' = length d"
    and s: "sum16 (region ip hlen d') + unat m = sum16 (region ip hlen d) + unat m'"
    and k: "rd16 d' (ip + 10) = rd16 d (ip + 10)" and m: "unat m + unat (rd16 d (ip + 10)) \<le> sum16 (region ip hlen d)"
  shows "ip4_fits ip hlen (npf_fixup16_cksum c m m', d')"
proof -
  have "65535 dvd (sum16 (region ip hlen d) - unat (rd16 d (ip + 10)) - unat m + unat m') + unat (npf_fixup16_cksum c m m')"
    using f m by (intro fixup16_dvd) (simp_all add: ip4_fits_def)
  moreover have "sum16 (region ip hlen d) - unat (rd16 d (ip + 10)) - unat m + unat m' =
      sum16 (region ip hlen d') - unat (rd16 d' (ip + 10))"
    using s k m by simp
  ultimately show ?thesis using f len by (simp add: ip4_fits_def)
qed

lemma ip4_fits_wr16:
  assumes f: "ip4_fits ip hlen (c, d)" and i: "ip \<le> i" "even (i - ip)" "i + 2 \<le> ip + 10"
  shows "ip4_fits ip hlen (npf_fixup16_cksum c (rd16 d i) v, wr16 d i v)"
  using f i sum16_region_wr16 [of ip i hlen d v] sum16_region_two_words_le [of ip i "ip + 10" hlen d]
  by (intro ip4_fits_fixup [OF f]) (auto simp: ip4_fits_def intro!: rd16_wr16_other)

lemma unat_ucast_8_16: "unat (ucast x :: u16) = unat (x :: u8)"
  using unat_lt [of x] by (simp add: unsigned_ucast_eq take_bit_eq_mod [where 'a = nat])

lemma ip4_fits_byte:
  assumes f: "ip4_fits ip hlen (c, d)"
  shows "ip4_fits ip hlen (npf_fixup16_cksum c (ucast (d ! (ip + 8))) (ucast b), d[ip + 8 := b])"
proof -
  define v where "v = rd16 [b, d ! (ip + 9)] 0"
  have l: "20 \<le> hlen" "ip + hlen \<le> length d" using f by (simp_all add: ip4_fits_def)
  have v: "unat v = unat b + 256 * unat (d ! (ip + 9))" by (simp add: v_def unat_rd16)
  have "ucast v = b" "ucast (drop_bit 8 v) = d ! (ip + 9)"
    unfolding v_def by (rule bit_eqI; auto simp: rd16_def bit_simps bit_beyond)+
  then have w: "d[ip + 8 := b] = wr16 d (ip + 8) v"
    using l by (intro nth_equalityI) (auto simp: wr16_def nth_list_update add.commute [of ip])
  have r: "unat (rd16 d (ip + 8)) = unat (d ! (ip + 8)) + 256 * unat (d ! (ip + 9))" by (simp add: unat_rd16 add.commute [of ip 9])
  have "sum16 (region ip hlen (d[ip + 8 := b])) + unat (rd16 d (ip + 8)) = sum16 (region ip hlen d) + unat v"
    unfolding w using l by (intro sum16_region_wr16) auto
  moreover have "unat (rd16 d (ip + 8)) + unat (rd16 d (ip + 10)) \<le> sum16 (region ip hlen d)"
    using l by (intro sum16_region_two_words_le) auto
  ultimately show ?thesis
    using f l r v by (intro ip4_fits_fixup [OF f]) (auto simp: w rd16_wr16_other unat_ucast_8_16)
qed

lemma ucast_small:
  assumes "(x :: u32) < 256" shows "(ucast x :: u16) = ucast (ucast x :: u8)"
proof -
  have "unat x < 256" using assms by (simp add: word_less_nat_alt)
  then have "unat (ucast x :: u8) = unat x" "unat (ucast x :: u16) = unat x"
    by (simp_all add: unsigned_ucast_eq take_bit_nat_eq_self)
  then show ?thesis by (simp only: word_unat_eq_iff unat_ucast_8_16)
qed

lemma ttl_max:
  assumes "(x :: u32) < 256"
  shows "(if x \<noteq> 0 \<and> ucast t < x then ucast x else t) = max (t :: u8) (ucast x)"
proof -
  have u: "unat x < 256" using assms by (simp add: word_less_nat_alt)
  then have x: "unat (ucast x :: u8) = unat x" by (simp add: unsigned_ucast_eq take_bit_nat_eq_self)
  have t: "unat (ucast t :: u32) = unat t" using unat_lt [of t] by (simp add: unsigned_ucast_eq take_bit_eq_mod [where 'a = nat])
  show ?thesis
    by (auto simp: max_def word_le_nat_alt word_less_nat_alt x t word_unat_eq_iff)
qed

lemma normalize_fits:
  assumes "ip4_fits ip hlen (c, d)"
  shows "ip4_fits ip hlen (normalize_id np nid ip (c, d))"
    "ip4_fits ip hlen (normalize_df np (rd16 d (ip + 6)) ip (c, d))"
    "nz_minttl np < 256 \<Longrightarrow> ip4_fits ip hlen (normalize_ttl np (d ! (ip + 8)) ip (c, d))"
proof -
  show "ip4_fits ip hlen (normalize_id np nid ip (c, d))" "ip4_fits ip hlen (normalize_df np (rd16 d (ip + 6)) ip (c, d))"
    using assms by (auto simp: normalize_id_def normalize_df_def Let_def intro!: ip4_fits_wr16)
  assume "nz_minttl np < 256"
  then have "(ucast (nz_minttl np) :: u16) = ucast (ucast (nz_minttl np) :: u8)" by (rule ucast_small)
  then show "ip4_fits ip hlen (normalize_ttl np (d ! (ip + 8)) ip (c, d))"
    using assms ip4_fits_byte [OF assms, of "ucast (nz_minttl np)"] by (auto simp: normalize_ttl_def)
qed

lemma rd16_update_other: "j \<noteq> i \<Longrightarrow> j \<noteq> i + 1 \<Longrightarrow> rd16 (d[j := b]) i = rd16 d i"
  by (simp add: rd16_def)

lemma nth_wr16_other: "j \<noteq> i \<Longrightarrow> j \<noteq> i + 1 \<Longrightarrow> wr16 d i v ! j = d ! j"
  by (simp add: wr16_def)

lemmas normalize_rw = normalize_id_def normalize_df_def normalize_ttl_def Let_def rd16_wr16_other rd16_wr16_same rd16_update_other nth_wr16_other

lemma normalize_other:
  assumes "normalize_id np nid ip (c, d) = (c1, d1)" "normalize_df np o6 ip (c1, d1) = (c2, d2)" "normalize_ttl np t ip (c2, d2) = (c3, d3)"
    "ip + 20 \<le> length d"
  shows "rd16 d1 (ip + 6) = rd16 d (ip + 6)" "d2 ! (ip + 8) = d ! (ip + 8)"
    "rd16 d3 (ip + 4) = (if nz_random_id np then nid else rd16 d (ip + 4))"
    "rd16 d3 (ip + 6) = (if nz_no_df np \<and> o6 AND htons IP_DF \<noteq> 0 then o6 AND NOT (htons IP_DF) else rd16 d (ip + 6))"
    "d3 ! (ip + 8) = (if nz_minttl np \<noteq> 0 \<and> ucast t < nz_minttl np then ucast (nz_minttl np) else d ! (ip + 8))"
    "d3 ! ip = d ! ip" "length d3 = length d"
proof -
  show "rd16 d1 (ip + 6) = rd16 d (ip + 6)" "d2 ! (ip + 8) = d ! (ip + 8)"
    using assms by (auto simp: normalize_rw split: if_splits)
  have a: "rd16 d1 (ip + 4) = (if nz_random_id np then nid else rd16 d (ip + 4))" "rd16 d1 (ip + 6) = rd16 d (ip + 6)"
    "d1 ! (ip + 8) = d ! (ip + 8)" "d1 ! ip = d ! ip" "length d1 = length d"
    using assms(1,4) by (auto simp: normalize_rw split: if_splits)
  have b: "rd16 d2 (ip + 4) = rd16 d1 (ip + 4)" "d2 ! (ip + 8) = d1 ! (ip + 8)" "d2 ! ip = d1 ! ip" "length d2 = length d1"
    "rd16 d2 (ip + 6) = (if nz_no_df np \<and> o6 AND htons IP_DF \<noteq> 0 then o6 AND NOT (htons IP_DF) else rd16 d1 (ip + 6))"
    using assms(2,4) a(5) by (auto simp: normalize_rw split: if_splits)
  have "rd16 d3 (ip + 4) = rd16 d2 (ip + 4)" "rd16 d3 (ip + 6) = rd16 d2 (ip + 6)" "d3 ! ip = d2 ! ip" "length d3 = length d2"
    "d3 ! (ip + 8) = (if nz_minttl np \<noteq> 0 \<and> ucast t < nz_minttl np then ucast (nz_minttl np) else d2 ! (ip + 8))"
    using assms(3,4) a(5) b(4) by (auto simp: normalize_rw split: if_splits)
  then show "rd16 d3 (ip + 4) = (if nz_random_id np then nid else rd16 d (ip + 4))"
    "rd16 d3 (ip + 6) = (if nz_no_df np \<and> o6 AND htons IP_DF \<noteq> 0 then o6 AND NOT (htons IP_DF) else rd16 d (ip + 6))"
    "d3 ! (ip + 8) = (if nz_minttl np \<noteq> 0 \<and> ucast t < nz_minttl np then ucast (nz_minttl np) else d ! (ip + 8))"
    "d3 ! ip = d ! ip" "length d3 = length d"
    using a b by simp_all
qed

section \<open>Properties\<close>

text \<open>
  C21: the rate limit holds.  From any state of the counters, in particular a new one, the packets
  seen between the times \<open>t0\<close> and \<open>t1\<close>, in milliseconds, pass at most the normal burst, the
  extended burst and the rate times the length of the interval, in bytes, and the counters stay
  within their bounds.  The products and sums are assumed to fit in 62 bits.
\<close>

theorem car_ratelimit_bound:
  assumes "car_ok car" "uint t1 * uint (car_cir_tok car) < 2 ^ 62"
    "\<forall>(ts, n) \<in> set pkts. t0 \<le> ts \<and> ts \<le> t1 \<and> uint n < 2 ^ 62" "t0 \<le> t1" "car_tslast car \<le> t1"
  shows "fst (car_run car pkts) \<le>
    uint (car_cbs car) + uint (car_ebs car) + uint (car_cir_tok car) * (uint t1 - uint t0) \<and> car_ok (snd (car_run car pkts))"
proof
  have "uint (car_cir_tok car) * (uint t1 - uint (max t0 (car_tslast car))) \<le> uint (car_cir_tok car) * (uint t1 - uint t0)"
    by (intro mult_left_mono) (simp_all add: max_def word_le_def)
  then show "fst (car_run car pkts) \<le> uint (car_cbs car) + uint (car_ebs car) + uint (car_cir_tok car) * (uint t1 - uint t0)"
    using car_run_bytes [OF assms] assms(1) by (auto simp: car_ok_def split: if_splits)
  show "car_ok (snd (car_run car pkts))" using car_run_ok [OF assms(1-3)] .
qed

definition ex_car :: car_state where
  "ex_car = ratelimit_params nvl_ops (NVL [(''bitrate'', NVNumber 8000000)])"

theorem car_ratelimit_bound_witness:
  "fst (car_run ex_car [(5000, 1500), (5001, 1500), (5004, 9000)]) \<le> 1500000 + 3000000 + 1000 * 4"
proof -
  have e: "ex_car = \<lparr> car_tc = 0, car_compounded = 0, car_tslast = 0, car_cir_tok = 1000, car_cbs = 1500000, car_ebs = 3000000 \<rparr>"
    unfolding ex_car_def by code_simp
  show ?thesis
    using car_ratelimit_bound [of ex_car 5004 "[(5000, 1500), (5001, 1500), (5004, 9000)]" 5000] by (simp add: e car_ok_def)
qed



end
