(* ===== verification/Spec2Isabelle.thy ===== *)
theory Spec2Isabelle
  imports NPF_State NPF_Rewrite NPF_Portmap NPF_Bpfcop NPF_Ifmap NPF_Alg NPF_Rproc NPF_Connprop NPF_Inspect NPF_Flow NPF_Init NPF_Connsave NPF_Ext
begin

text \<open>
  Verification of NPF, the packet filter of NetBSD, in its userspace build.  File names are
  relative to \<open>src/src/kern/\<close> in the repository.

  \<^bold>\<open>The program.\<close>  A packet enters through \<open>npfk_packet_handler\<close>.  It is parsed into a cache of
  header positions, reassembled if it is a fragment, and looked up in the connection database
  under a key of protocol, addresses, identifiers, interface and direction.  A packet of a passing
  connection skips the ruleset; any other is matched against the rules, whose conditions are BPF
  programs with two coprocessor functions and whose tables hold sets of addresses.  A stateful rule
  establishes a connection.  Packets that pass are translated, on behalf of a translation policy
  that takes ports from a port map, and handed to the rule procedures; blocked packets may be
  answered by a TCP reset or an ICMP error.  A worker collects expired connections.
  Configurations are loaded from name-value lists and replace the active one.

  \<^bold>\<open>Theories and sources.\<close>  Each definition carries the name of the C function it translates;
  loops and labels of a function are definitions of their own next to it.

  \<^item> \<open>NPF_Prelude\<close>: machine integers, byte order of a little-endian host, reads and writes of
    packet memory, error numbers, and the interface of \<open>thmap\<close> with its laws.
  \<^item> \<open>NPF_Params\<close> (\<open>npf_params.c\<close>): registry of named parameters over an explicit store of
    variables; \<open>NPF_Init\<close> (\<open>npf.c\<close>): the arrays that a new instance registers.
  \<^item> \<open>NPF_Mbuf\<close> (\<open>npf_mbuf.c\<close>): the cursor over a chain of buffers.
  \<^item> \<open>NPF_Cksum\<close>, \<open>NPF_Addr\<close>, \<open>NPF_Cache\<close>, \<open>NPF_Tcphdr\<close>, \<open>NPF_Rewrite\<close> (\<open>npf_inet.c\<close>): checksums,
    addresses, parsing, TCP options, and rewriting of addresses, ports and IPv6 prefixes.
  \<^item> \<open>NPF_State\<close> (\<open>npf_state.c\<close>, \<open>npf_state_tcp.c\<close>): state machines, TCP windows, timeouts.
  \<^item> \<open>NPF_Portmap\<close> (\<open>npf_portmap.c\<close>): compressed bitmaps of ports and their allocation.
  \<^item> \<open>NPF_Tableset\<close> (\<open>npf_tableset.c\<close>): the four kinds of table and the set of tables.
  \<^item> \<open>NPF_BPF\<close> (\<open>stand/bpf_filter.c\<close>) and \<open>NPF_Bpfcop\<close> (\<open>npf_bpf.c\<close>): interpreter and validator of
    filter programs, coprocessor functions and arguments.
  \<^item> \<open>NPF_Ifmap\<close> (\<open>npf_if.c\<close>): names and identifiers of interfaces.
  \<^item> \<open>NPF_Nvlist\<close>: the operations of name-value lists, with their laws.
  \<^item> \<open>NPF_Connkey\<close> (\<open>npf_connkey.c\<close>), \<open>NPF_Conn\<close> (\<open>npf_conn.c\<close>, \<open>npf_conndb.c\<close>): keys, connections and
    their database; \<open>NPF_Conntrack\<close> and \<open>NPF_Connprop\<close> hold its invariant and properties,
    \<open>NPF_Connsave\<close> the export and import of connections.
  \<^item> \<open>NPF_Kern\<close> (\<open>npf_impl.h\<close>): the state of an instance that the following parts share.
  \<^item> \<open>NPF_Alg\<close> (\<open>npf_alg.c\<close>), \<open>NPF_Rproc\<close> (\<open>npf_rproc.c\<close>): gateways, extensions and rule procedures;
    \<open>NPF_Ext\<close> (\<open>npf_ext_ratelimit.c\<close>, \<open>npf_ext_rndblock.c\<close>, \<open>npf_ext_normalize.c\<close>): three extensions.
  \<^item> \<open>NPF_Natpol\<close>, \<open>NPF_Nat\<close> (\<open>npf_nat.c\<close>): translation policies, entries and translation.
  \<^item> \<open>NPF_Rule\<close> (\<open>npf_ruleset.c\<close>): rules and rulesets; \<open>NPF_Ruleset\<close> holds the properties of dynamic
    rules, \<open>NPF_Inspect\<close> those of inspection.
  \<^item> \<open>NPF_Config\<close> (\<open>npf_conf.c\<close>), \<open>NPF_Sendpkt\<close> (\<open>npf_sendpkt.c\<close>), \<open>NPF_Handler\<close> (\<open>npf_handler.c\<close>):
    configurations, replies and the packet handler; \<open>NPF_Flow\<close>: lemmas on flows through it.

  \<^bold>\<open>State.\<close>  Structures are records.  Objects that are shared or compared by address (connections,
  translation entries, policies, rules, rule procedures, table entries) live in heaps indexed by
  their pointers, natural numbers; a pointer into a packet is its offset.  Functions that can fail
  return an error number or an option; what C leaves undefined in a filter program is a fault
  value.  Random numbers, the clock and the outcome of an allocation are arguments.

  \<^bold>\<open>What is shown.\<close>  The handler gives back a packet without error only if it carries the pass tag,
  belongs to a passing connection, or was passed by the rule that inspection selected or by the
  default; a stateful rule lets the replies to a packet pass.  Inspection of the flat array of rules
  equals the evaluation of the nested groups and ends; the linked dynamic rules are lists ordered
  by priority.  In every reachable state of connection tracking the database maps exactly the keys
  of the live connections; lookups, establishment, translation and collection follow from it.  The
  TCP tracker reaches ESTABLISHED only through a handshake and accepts exactly the packets within its
  window boundaries.  A validated filter program returns and stays within its memory; parsing stays
  within the packet.  Rewriting keeps the checksums correct.  The port map implements a set of ports
  (locales \<open>port_set\<close> and \<open>port_set_total\<close>) and hands out free ports only; an address table
  implements a set of addresses (locale \<open>address_set\<close>).  An extension that is in use stays
  registered.  The rate limit admits no more than its bursts and its rate.  Parameters stay within
  their bounds.  Some properties state where the code falls
  short of its comments: identifiers that are used twice, ports that are never tried, a skip that
  loops, a split packet that is not parsed, saved connections that are not found again.

  \<^bold>\<open>Bounds and fuel.\<close>  The retry loop of \<open>npf_cache_all\<close> has fuel for twice the length of the packet and
  one more, the loop over IPv6 extension headers for its length and one more; the facts on
  parsing show that it is never used up.  The search for a port has fuel for the size of the range,
  which is shown to be enough.  The loops over linked rules and over the skip offsets of a ruleset
  are partial functions in the option type, None standing for a loop that does not end; the
  properties show when they end.  The garbage collector is bounded by its step, as in the code.

  \<^bold>\<open>Outside the sources.\<close>  \<open>thmap\<close>, \<open>lpm\<close>, \<open>cdb\<close>, \<open>libnv\<close>, the operations of the host on buffers and
  interfaces, its reassembly, checksum and output functions and the compiler of filter programs
  are parameters, and so are gateways and extensions where they are called, with their documented behaviour in predicates such as
  \<open>thmap_laws\<close>, \<open>lpm_laws\<close>, \<open>nv_laws\<close>, \<open>mbufops_ok\<close>, \<open>ifops_laws\<close> and \<open>algs_keep\<close>.

  \<^bold>\<open>Not modelled.\<close>  Locks, grace periods and the retries of lock-free code: every operation runs as a
  whole.  The ICMP and PPTP gateways (\<open>npf_alg_icmp.c\<close>, \<open>npf_alg_pptp.c\<close>) and the log extension
  (\<open>npf_ext_log.c\<close>) behind their interfaces.  Printing.
  The control device (\<open>npf_ctl.c\<close>), the worker thread (\<open>npf_worker.c\<close>), interface addresses
  (\<open>npf_ifaddr.c\<close>, without effect in userspace), the glue to the host (\<open>npf_os.c\<close>, \<open>if_npflog.c\<close>,
  statistics), and everything outside \<open>kern\<close>: \<open>libnpf\<close>, \<open>npfctl\<close>, the router application and the tests.
\<close>

section \<open>Properties that span components\<close>

subsection \<open>Stateful rules\<close>


text \<open>The flow of the example configuration: a rule that passes outgoing packets statefully.\<close>

lemma ex_flow_plain:
  "plain_packet ex_flow ex_ckern" "no_algs ex_env" "no_nat ex_conf" "fst (npf_conn_lookup ex_env 100 ex_flow PFIL_OUT ex_ckern) = None"
  "keys_free (env_map ex_env) (conn_db ex_ckern) ex_flow PFIL_OUT" "npc_reset ex_flow = ex_flow" "nb_segs (npc_nbuf ex_flow) \<noteq> []"
proof -
  show "plain_packet ex_flow ex_ckern" using ex_flow_ok(1) ex_flow_start(5)
    by (simp add: plain_packet_def npf_packet_bypass_tag_p_def nbuf_find_tag_def ex_flow_defs pullup_mops_def)
  have g: "thmap_get (env_map ex_env) (cd_map (conn_db ex_ckern)) = Map.empty"
    by (simp add: ex_flow_start(7)) (simp add: ex_env_def thmap_create_fun)
  show "fst (npf_conn_lookup ex_env 100 ex_flow PFIL_OUT ex_ckern) = None" by (simp add: lookup_eq [OF ex_flow_ok(1)] g)
  show "keys_free (env_map ex_env) (conn_db ex_ckern) ex_flow PFIL_OUT" using ex_flow_keys(1) by (simp add: keys_free_def g)
qed (simp_all add: no_algs_def ex_env_def no_nat_def ex_conf_def npf_config_natset_def npf_ruleset_create_def npc_reset_def ex_flow_defs
       split: prod.splits)

lemma ex_conf_stateful:
  "conf_inspect ex_conf (npf_config_ruleset ex_conf) ex_flow PFIL_OUT = ret (Some 0, ex_flow)" "stateful_rule (rules (cf_rules ex_conf) 0)"
  using ex_flow_plain(6)
  by (simp_all add: conf_inspect_def npf_ruleset_inspect_def conf_arg_def npf_config_ruleset_def npf_config_tableset_def ex_conf_def ex_conf_mem_def
      npf_ruleset_insert_def npf_ruleset_create_def rule_upd_def rule_zero_def NPF_DYNAMIC_GROUP_P_def npf_rule_inspect_def npc_reset_def
      stateful_rule_def inspect_loop.simps [of _ _ _ _ 0] inspect_loop.simps [of _ _ _ _ "Suc 0"])


end
